(* ===== verification/DFB_Prelude.thy ===== *)
theory DFB_Prelude
  imports Main "HOL-Library.Word" "HOL-Library.Signed_Division" "HOL-Library.Monad_Syntax"
begin

text \<open>
  Shared vocabulary of the development: the result codes of \<^verbatim>\<open>lib/direct/result.h\<close>,
  C arithmetic on \<^verbatim>\<open>int\<close> with undefined behaviour made explicit, machine word
  synonyms, the collections of simplification facts the components declare into, and the
  list lemmas that several components use.
\<close>

unbundle bit_operations_syntax

section \<open>Machine integers\<close>

type_synonym u8 = "8 word"
type_synonym u16 = "16 word"
type_synonym u32 = "32 word"
type_synonym u64 = "64 word"

text \<open>
  A C \<^verbatim>\<open>int\<close> computation whose overflow matters is an \<^typ>\<open>int option\<close>: \<^term>\<open>None\<close>
  stands for undefined behaviour, that is signed overflow or division by zero.
\<close>

definition int32 :: "int \<Rightarrow> bool" where
  "int32 a \<longleftrightarrow> - (2 ^ 31) \<le> a \<and> a < 2 ^ 31"

definition chk :: "int \<Rightarrow> int option" where
  "chk a = (if int32 a then Some a else None)"

definition c_div :: "int \<Rightarrow> int \<Rightarrow> int option" where
  "c_div a b = (if b = 0 then None else chk (a sdiv b))"

named_theorems dfb_ub "rules for computations that may be undefined"
named_theorems dfb_geo "pixel-set facts of regions and rectangles"

lemma chk_Some [dfb_ub]: "int32 a \<Longrightarrow> chk a = Some a"
  by (simp add: chk_def)

lemma chk_eq_Some_iff: "chk a = Some b \<longleftrightarrow> a = b \<and> int32 a"
  by (auto simp: chk_def)

lemma c_div_Some [dfb_ub]: "b \<noteq> 0 \<Longrightarrow> int32 (a sdiv b) \<Longrightarrow> c_div a b = Some (a sdiv b)"
  by (simp add: c_div_def chk_def)

lemma int32_bounded: "\<bar>a\<bar> \<le> 2 ^ 30 \<Longrightarrow> int32 a"
  by (auto simp: int32_def abs_le_iff)

text \<open>C division rounds towards zero: the quotient of \<open>s * t\<close> by \<open>d\<close> stays between 0 and \<open>s\<close>
  when \<open>t\<close> lies between 0 and \<open>d\<close>.\<close>

lemma sdiv_scale_between:
  fixes s t d :: int
  assumes "d \<noteq> 0" and "0 < d \<and> 0 \<le> t \<and> t \<le> d \<or> d < 0 \<and> d \<le> t \<and> t \<le> 0"
  shows "(0 \<le> s \<longrightarrow> 0 \<le> (s * t) sdiv d \<and> (s * t) sdiv d \<le> s)
       \<and> (s \<le> 0 \<longrightarrow> s \<le> (s * t) sdiv d \<and> (s * t) sdiv d \<le> 0)"
proof -
  let ?q = "\<bar>s * t\<bar> div \<bar>d\<bar>"
  have "\<bar>t\<bar> \<le> \<bar>d\<bar>" using assms(2) by auto
  then have "\<bar>s * t\<bar> \<le> \<bar>s\<bar> * \<bar>d\<bar>"
    by (simp add: abs_mult mult_left_mono)
  then have "?q \<le> (\<bar>s\<bar> * \<bar>d\<bar>) div \<bar>d\<bar>"
    using assms(1) by (intro zdiv_mono1) auto
  then have q: "0 \<le> ?q" "?q \<le> \<bar>s\<bar>"
    using assms(1) by (auto simp: pos_imp_zdiv_nonneg_iff)
  have "(s * t) sdiv d = (if t = 0 \<or> s = 0 then 0 else sgn s * ?q)"
    using assms(2) by (auto simp: signed_divide_int_def sgn_mult)
  then show ?thesis
    using q by (auto simp: sgn_if split: if_splits)
qed

section \<open>Result codes\<close>

datatype DirectResult =
    DR_OK | DR_FAILURE | DR_INIT | DR_BUG | DR_DEAD | DR_UNSUPPORTED | DR_UNIMPLEMENTED
  | DR_ACCESSDENIED | DR_INVAREA | DR_INVARG | DR_NOLOCALMEMORY | DR_NOSHAREDMEMORY
  | DR_LOCKED | DR_BUFFEREMPTY | DR_FILENOTFOUND | DR_IO | DR_BUSY | DR_NOIMPL | DR_TIMEOUT
  | DR_THIZNULL | DR_IDNOTFOUND | DR_DESTROYED | DR_FUSION | DR_BUFFERTOOLARGE
  | DR_INTERRUPTED | DR_NOCONTEXT | DR_TEMPUNAVAIL | DR_LIMITEXCEEDED | DR_NOSUCHMETHOD
  | DR_NOSUCHINSTANCE | DR_ITEMNOTFOUND | DR_VERSIONMISMATCH | DR_EOF | DR_SUSPENDED
  | DR_INCOMPLETE | DR_NOCORE | DR_SIGNALLED | DR_TASK_NOT_FOUND
  | DFB_NOVIDEOMEMORY | DFB_MISSINGFONT | DFB_MISSINGIMAGE | DFB_NOALLOCATION | DFB_NOBUFFER

text \<open>\<^verbatim>\<open>DFBResult\<close> (\<^verbatim>\<open>include/dfb_types.h\<close>) names the same codes \<open>DFB_...\<close> and adds the
  last five.\<close>

end
