(* ===== verification/Region.thy ===== *)
theory Region
  imports DFB_Prelude
begin

text \<open>
  Rectangular geometry: \<^verbatim>\<open>include/directfb_util.h\<close> (regions, rectangles, rotation) and the
  intersection and union routines of \<^verbatim>\<open>src/misc/util.c\<close>. A \<^verbatim>\<open>DFBRegion\<close> has inclusive corners, a
  \<^verbatim>\<open>DFBRectangle\<close> a position and a size. The C functions update their first argument in place;
  the model returns the updated value, with the boolean result first where there is one.
  Coordinates are unbounded integers here: the functions of this file only add and compare,
  and signed overflow of a coordinate sum is undefined behaviour in C.
\<close>

record DFBPoint =
  pt_x :: int
  pt_y :: int

record DFBDimension =
  dim_w :: int
  dim_h :: int

record DFBRectangle =
  rect_x :: int
  rect_y :: int
  rect_w :: int
  rect_h :: int

record DFBRegion =
  rgn_x1 :: int
  rgn_y1 :: int
  rgn_x2 :: int
  rgn_y2 :: int

record DFBInsets =
  ins_l :: int
  ins_t :: int
  ins_r :: int
  ins_b :: int

section \<open>The pixels of a region and of a rectangle\<close>

definition region_ok :: "DFBRegion \<Rightarrow> bool" where
  "region_ok r \<longleftrightarrow> rgn_x1 r \<le> rgn_x2 r \<and> rgn_y1 r \<le> rgn_y2 r"

definition rect_ok :: "DFBRectangle \<Rightarrow> bool" where
  "rect_ok r \<longleftrightarrow> 0 < rect_w r \<and> 0 < rect_h r"

definition region_pixels :: "DFBRegion \<Rightarrow> (int \<times> int) set" where
  "region_pixels r = {rgn_x1 r..rgn_x2 r} \<times> {rgn_y1 r..rgn_y2 r}"

definition rect_pixels :: "DFBRectangle \<Rightarrow> (int \<times> int) set" where
  "rect_pixels r = {rect_x r..<rect_x r + rect_w r} \<times> {rect_y r..<rect_y r + rect_h r}"

lemma mem_region_pixels [dfb_geo]:
  "(a, b) \<in> region_pixels r \<longleftrightarrow> rgn_x1 r \<le> a \<and> a \<le> rgn_x2 r \<and> rgn_y1 r \<le> b \<and> b \<le> rgn_y2 r"
  by (auto simp: region_pixels_def)

lemma mem_rect_pixels [dfb_geo]:
  "(a, b) \<in> rect_pixels r \<longleftrightarrow>
     rect_x r \<le> a \<and> a < rect_x r + rect_w r \<and> rect_y r \<le> b \<and> b < rect_y r + rect_h r"
  by (auto simp: rect_pixels_def)

lemma region_pixels_nonempty: "region_ok r \<longleftrightarrow> region_pixels r \<noteq> {}"
  by (auto simp: region_pixels_def region_ok_def)

lemma rect_pixels_nonempty: "rect_ok r \<longleftrightarrow> rect_pixels r \<noteq> {}"
  by (auto simp: rect_pixels_def rect_ok_def)

text \<open>A box of integer points is determined by its members: the two corners are enough.\<close>

lemma region_pixels_subset_iff:
  assumes "region_ok r"
  shows "region_pixels r \<subseteq> region_pixels s \<longleftrightarrow>
    rgn_x1 s \<le> rgn_x1 r \<and> rgn_y1 s \<le> rgn_y1 r \<and> rgn_x2 r \<le> rgn_x2 s \<and> rgn_y2 r \<le> rgn_y2 s"
proof
  assume sub: "region_pixels r \<subseteq> region_pixels s"
  have "(rgn_x1 r, rgn_y1 r) \<in> region_pixels r" "(rgn_x2 r, rgn_y2 r) \<in> region_pixels r"
    using assms by (auto simp: dfb_geo region_ok_def)
  then have "(rgn_x1 r, rgn_y1 r) \<in> region_pixels s" "(rgn_x2 r, rgn_y2 r) \<in> region_pixels s"
    using sub by blast+
  then show "rgn_x1 s \<le> rgn_x1 r \<and> rgn_y1 s \<le> rgn_y1 r \<and> rgn_x2 r \<le> rgn_x2 s \<and> rgn_y2 r \<le> rgn_y2 s"
    by (simp add: dfb_geo)
qed (auto simp: dfb_geo)

lemma region_pixels_inject:
  assumes "region_ok r" and "region_ok s" and "region_pixels r = region_pixels s"
  shows "r = s"
  using assms region_pixels_subset_iff [OF assms(1), of s] region_pixels_subset_iff [OF assms(2), of r]
  by (auto intro!: DFBRegion.equality)

section \<open>Conversions, translation, rotation\<close>

definition dfb_rectangle_from_region :: "DFBRegion \<Rightarrow> DFBRectangle" where
  "dfb_rectangle_from_region r =
     \<lparr> rect_x = rgn_x1 r, rect_y = rgn_y1 r,
       rect_w = rgn_x2 r - rgn_x1 r + 1, rect_h = rgn_y2 r - rgn_y1 r + 1 \<rparr>"

definition dfb_region_from_rectangle :: "DFBRectangle \<Rightarrow> DFBRegion" where
  "dfb_region_from_rectangle r =
     \<lparr> rgn_x1 = rect_x r, rgn_y1 = rect_y r,
       rgn_x2 = rect_x r + rect_w r - 1, rgn_y2 = rect_y r + rect_h r - 1 \<rparr>"

definition dfb_region_from_rectangle_translated :: "DFBRectangle \<Rightarrow> DFBPoint \<Rightarrow> DFBRegion" where
  "dfb_region_from_rectangle_translated r off =
     \<lparr> rgn_x1 = pt_x off + rect_x r, rgn_y1 = pt_y off + rect_y r,
       rgn_x2 = pt_x off + rect_x r + rect_w r - 1, rgn_y2 = pt_y off + rect_y r + rect_h r - 1 \<rparr>"

definition dfb_rectangle_from_rectangle_plus_insets :: "DFBRectangle \<Rightarrow> DFBInsets \<Rightarrow> DFBRectangle" where
  "dfb_rectangle_from_rectangle_plus_insets inner ins =
     \<lparr> rect_x = rect_x inner - ins_l ins, rect_y = rect_y inner - ins_t ins,
       rect_w = rect_w inner + ins_l ins + ins_r ins,
       rect_h = rect_h inner + ins_t ins + ins_b ins \<rparr>"

definition dfb_rectangle_subtract :: "DFBRectangle \<Rightarrow> DFBInsets \<Rightarrow> DFBRectangle" where
  "dfb_rectangle_subtract r ins =
     (let r = r\<lparr> rect_x := rect_x r + ins_l ins, rect_y := rect_y r + ins_t ins,
                 rect_w := rect_w r - (ins_l ins + ins_r ins),
                 rect_h := rect_h r - (ins_t ins + ins_b ins) \<rparr>
      in if rect_w r \<le> 0 \<or> rect_h r \<le> 0 then r\<lparr> rect_w := 0, rect_h := 0 \<rparr> else r)"

definition dfb_rectangle_translate :: "DFBRectangle \<Rightarrow> int \<Rightarrow> int \<Rightarrow> DFBRectangle" where
  "dfb_rectangle_translate r dx dy = r\<lparr> rect_x := rect_x r + dx, rect_y := rect_y r + dy \<rparr>"

definition dfb_region_translate :: "DFBRegion \<Rightarrow> int \<Rightarrow> int \<Rightarrow> DFBRegion" where
  "dfb_region_translate r dx dy =
     r\<lparr> rgn_x1 := rgn_x1 r + dx, rgn_y1 := rgn_y1 r + dy,
        rgn_x2 := rgn_x2 r + dx, rgn_y2 := rgn_y2 r + dy \<rparr>"

definition dfb_rectangle_from_rotated :: "DFBRectangle \<Rightarrow> DFBDimension \<Rightarrow> int \<Rightarrow> DFBRectangle" where
  "dfb_rectangle_from_rotated from sz rotation =
     (if rotation = 90 then
        \<lparr> rect_x = rect_y from, rect_y = dim_w sz - rect_x from - rect_w from,
          rect_w = rect_h from, rect_h = rect_w from \<rparr>
      else if rotation = 180 then
        \<lparr> rect_x = dim_w sz - rect_x from - rect_w from,
          rect_y = dim_h sz - rect_y from - rect_h from,
          rect_w = rect_w from, rect_h = rect_h from \<rparr>
      else if rotation = 270 then
        \<lparr> rect_x = dim_h sz - rect_y from - rect_h from, rect_y = rect_x from,
          rect_w = rect_h from, rect_h = rect_w from \<rparr>
      else from)"

definition dfb_region_from_rotated :: "DFBRegion \<Rightarrow> DFBDimension \<Rightarrow> int \<Rightarrow> DFBRegion" where
  "dfb_region_from_rotated from sz rotation =
     (if rotation = 90 then
        \<lparr> rgn_x1 = rgn_y1 from, rgn_y1 = dim_w sz - rgn_x2 from - 1,
          rgn_x2 = rgn_y2 from, rgn_y2 = dim_w sz - rgn_x1 from - 1 \<rparr>
      else if rotation = 180 then
        \<lparr> rgn_x1 = dim_w sz - rgn_x2 from - 1, rgn_y1 = dim_h sz - rgn_y2 from - 1,
          rgn_x2 = dim_w sz - rgn_x1 from - 1, rgn_y2 = dim_h sz - rgn_y1 from - 1 \<rparr>
      else if rotation = 270 then
        \<lparr> rgn_x1 = dim_h sz - rgn_y2 from - 1, rgn_y1 = rgn_x1 from,
          rgn_x2 = dim_h sz - rgn_y1 from - 1, rgn_y2 = rgn_x2 from \<rparr>
      else from)"

lemma region_pixels_from_rectangle [dfb_geo]:
  "region_pixels (dfb_region_from_rectangle r) = rect_pixels r"
  by (auto simp: dfb_region_from_rectangle_def dfb_geo)

lemma rect_pixels_from_region [dfb_geo]:
  "rect_pixels (dfb_rectangle_from_region r) = region_pixels r"
  by (auto simp: dfb_rectangle_from_region_def dfb_geo)

lemma rectangle_region_inverse:
  "dfb_rectangle_from_region (dfb_region_from_rectangle r) = r"
  "dfb_region_from_rectangle (dfb_rectangle_from_region s) = s"
  by (simp_all add: dfb_rectangle_from_region_def dfb_region_from_rectangle_def)

definition rotated_size :: "DFBDimension \<Rightarrow> int \<Rightarrow> DFBDimension" where
  "rotated_size s rotation =
     (if rotation = 90 \<or> rotation = 270 then \<lparr> dim_w = dim_h s, dim_h = dim_w s \<rparr> else s)"

lemma rotation_commutes_with_conversion:
  "dfb_region_from_rectangle (dfb_rectangle_from_rotated r s a) =
   dfb_region_from_rotated (dfb_region_from_rectangle r) s a"
  by (simp add: dfb_rectangle_from_rotated_def dfb_region_from_rotated_def
      dfb_region_from_rectangle_def)

lemma insets_inverse:
  assumes "rect_ok r"
  shows "dfb_rectangle_subtract (dfb_rectangle_from_rectangle_plus_insets r ins) ins = r"
  using assms by (simp add: dfb_rectangle_subtract_def dfb_rectangle_from_rectangle_plus_insets_def
      rect_ok_def Let_def)


definition rotate_pixel :: "DFBDimension \<Rightarrow> int \<Rightarrow> int \<times> int \<Rightarrow> int \<times> int" where
  "rotate_pixel s a p =
     (if a = 90 then (snd p, dim_w s - fst p - 1)
      else if a = 180 then (dim_w s - fst p - 1, dim_h s - snd p - 1)
      else if a = 270 then (dim_h s - snd p - 1, fst p)
      else p)"

lemma mem_rotated_region:
  assumes "a \<in> {0, 90, 180, 270}"
  shows "p \<in> region_pixels (dfb_region_from_rotated r s a) \<longleftrightarrow>
    rotate_pixel (rotated_size s a) ((360 - a) mod 360) p \<in> region_pixels r"
  using assms
  by (cases p) (auto simp: dfb_region_from_rotated_def rotate_pixel_def rotated_size_def dfb_geo)

lemma rotate_pixel_inverse:
  assumes "a \<in> {0, 90, 180, 270}"
  shows "rotate_pixel (rotated_size s a) ((360 - a) mod 360) (rotate_pixel s a p) = p"
    and "rotate_pixel s a (rotate_pixel (rotated_size s a) ((360 - a) mod 360) p) = p"
  using assms by (auto simp: rotate_pixel_def rotated_size_def)

text \<open>
  C38: Rotation is exact and reversible. For the four legal angles the rotated region covers
  exactly the rotated pixels of the original (a pixel \<open>(x, y)\<close> of a \<open>w \<times> h\<close> area goes to
  \<open>(y, w - x - 1)\<close> under 90 degrees and so on), and rotating back within the rotated size by
  the opposite angle gives the original region.
\<close>


theorem rotation_roundtrip:
  assumes "a \<in> {0, 90, 180, 270}"
  shows "region_pixels (dfb_region_from_rotated r s a) = rotate_pixel s a ` region_pixels r \<and>
    dfb_region_from_rotated (dfb_region_from_rotated r s a) (rotated_size s a) ((360 - a) mod 360) = r"
proof
  show "region_pixels (dfb_region_from_rotated r s a) = rotate_pixel s a ` region_pixels r"
  proof (intro set_eqI iffI)
    fix p
    assume "p \<in> region_pixels (dfb_region_from_rotated r s a)"
    then show "p \<in> rotate_pixel s a ` region_pixels r"
      using assms rotate_pixel_inverse(2) [OF assms, of s p]
      by (metis image_eqI mem_rotated_region)
  next
    fix p
    assume "p \<in> rotate_pixel s a ` region_pixels r"
    then show "p \<in> region_pixels (dfb_region_from_rotated r s a)"
      using assms rotate_pixel_inverse(1) [OF assms] by (auto simp: mem_rotated_region)
  qed
  show "dfb_region_from_rotated (dfb_region_from_rotated r s a) (rotated_size s a) ((360 - a) mod 360) = r"
    using assms by (auto simp: dfb_region_from_rotated_def rotated_size_def)
qed

theorem rotation_roundtrip_witness:
  "dfb_region_from_rotated
     (dfb_region_from_rotated \<lparr> rgn_x1 = 1, rgn_y1 = 2, rgn_x2 = 5, rgn_y2 = 3 \<rparr>
        \<lparr> dim_w = 10, dim_h = 8 \<rparr> 90)
     \<lparr> dim_w = 8, dim_h = 10 \<rparr> 270 = \<lparr> rgn_x1 = 1, rgn_y1 = 2, rgn_x2 = 5, rgn_y2 = 3 \<rparr>"
  using rotation_roundtrip
    [of 90 "\<lparr> rgn_x1 = 1, rgn_y1 = 2, rgn_x2 = 5, rgn_y2 = 3 \<rparr>" "\<lparr> dim_w = 10, dim_h = 8 \<rparr>"]
  by (simp add: rotated_size_def)

section \<open>Intersection tests and intersections\<close>

definition dfb_rectangle_region_intersects :: "DFBRectangle \<Rightarrow> DFBRegion \<Rightarrow> bool" where
  "dfb_rectangle_region_intersects rect region \<longleftrightarrow>
     rect_x rect \<le> rgn_x2 region \<and> rect_y rect \<le> rgn_y2 region \<and>
     rect_x rect + rect_w rect > rgn_x1 region \<and> rect_y rect + rect_h rect > rgn_y1 region"

definition dfb_region_intersects :: "DFBRegion \<Rightarrow> int \<Rightarrow> int \<Rightarrow> int \<Rightarrow> int \<Rightarrow> bool" where
  "dfb_region_intersects region x1 y1 x2 y2 \<longleftrightarrow>
     rgn_x1 region \<le> x2 \<and> rgn_y1 region \<le> y2 \<and> rgn_x2 region \<ge> x1 \<and> rgn_y2 region \<ge> y1"

definition dfb_region_region_intersects :: "DFBRegion \<Rightarrow> DFBRegion \<Rightarrow> bool" where
  "dfb_region_region_intersects region other \<longleftrightarrow>
     rgn_x1 region \<le> rgn_x2 other \<and> rgn_y1 region \<le> rgn_y2 other \<and>
     rgn_x2 region \<ge> rgn_x1 other \<and> rgn_y2 region \<ge> rgn_y1 other"

definition dfb_region_clip :: "DFBRegion \<Rightarrow> int \<Rightarrow> int \<Rightarrow> int \<Rightarrow> int \<Rightarrow> DFBRegion" where
  "dfb_region_clip region x1 y1 x2 y2 =
    (let region = (if rgn_x1 region < x1 then region\<lparr> rgn_x1 := x1 \<rparr> else region);
         region = (if rgn_y1 region < y1 then region\<lparr> rgn_y1 := y1 \<rparr> else region);
         region = (if rgn_x2 region > x2 then region\<lparr> rgn_x2 := x2 \<rparr> else region);
         region = (if rgn_y2 region > y2 then region\<lparr> rgn_y2 := y2 \<rparr> else region)
     in region)"

definition dfb_region_intersect :: "DFBRegion \<Rightarrow> int \<Rightarrow> int \<Rightarrow> int \<Rightarrow> int \<Rightarrow> bool \<times> DFBRegion" where
  "dfb_region_intersect region x1 y1 x2 y2 =
    (if rgn_x2 region < x1 \<or> rgn_y2 region < y1 \<or> rgn_x1 region > x2 \<or> rgn_y1 region > y2
     then (False, region)
     else
      (let region = (if rgn_x1 region < x1 then region\<lparr> rgn_x1 := x1 \<rparr> else region);
           region = (if rgn_y1 region < y1 then region\<lparr> rgn_y1 := y1 \<rparr> else region);
           region = (if rgn_x2 region > x2 then region\<lparr> rgn_x2 := x2 \<rparr> else region);
           region = (if rgn_y2 region > y2 then region\<lparr> rgn_y2 := y2 \<rparr> else region)
       in (True, region)))"

definition dfb_region_region_intersect :: "DFBRegion \<Rightarrow> DFBRegion \<Rightarrow> bool \<times> DFBRegion" where
  "dfb_region_region_intersect region clip =
    (if rgn_x2 region < rgn_x1 clip \<or> rgn_y2 region < rgn_y1 clip \<or>
        rgn_x1 region > rgn_x2 clip \<or> rgn_y1 region > rgn_y2 clip
     then (False, region)
     else
      (let region = (if rgn_x1 region < rgn_x1 clip then region\<lparr> rgn_x1 := rgn_x1 clip \<rparr> else region);
           region = (if rgn_y1 region < rgn_y1 clip then region\<lparr> rgn_y1 := rgn_y1 clip \<rparr> else region);
           region = (if rgn_x2 region > rgn_x2 clip then region\<lparr> rgn_x2 := rgn_x2 clip \<rparr> else region);
           region = (if rgn_y2 region > rgn_y2 clip then region\<lparr> rgn_y2 := rgn_y2 clip \<rparr> else region)
       in (True, region)))"

definition dfb_region_rectangle_intersect :: "DFBRegion \<Rightarrow> DFBRectangle \<Rightarrow> bool \<times> DFBRegion" where
  "dfb_region_rectangle_intersect region rect =
    (let x2 = rect_x rect + rect_w rect - 1;
         y2 = rect_y rect + rect_h rect - 1
     in if rgn_x2 region < rect_x rect \<or> rgn_y2 region < rect_y rect \<or>
           rgn_x1 region > x2 \<or> rgn_y1 region > y2
        then (False, region)
        else
         (let region = (if rgn_x1 region < rect_x rect then region\<lparr> rgn_x1 := rect_x rect \<rparr> else region);
              region = (if rgn_y1 region < rect_y rect then region\<lparr> rgn_y1 := rect_y rect \<rparr> else region);
              region = (if rgn_x2 region > x2 then region\<lparr> rgn_x2 := x2 \<rparr> else region);
              region = (if rgn_y2 region > y2 then region\<lparr> rgn_y2 := y2 \<rparr> else region)
          in (True, region)))"

text \<open>The \<open>unsafe\<close> variants first put the corners of the region in order.\<close>

definition region_validate :: "DFBRegion \<Rightarrow> DFBRegion" where
  "region_validate region =
    (let region = (if rgn_x1 region > rgn_x2 region
                   then region\<lparr> rgn_x1 := rgn_x2 region, rgn_x2 := rgn_x1 region \<rparr> else region);
         region = (if rgn_y1 region > rgn_y2 region
                   then region\<lparr> rgn_y1 := rgn_y2 region, rgn_y2 := rgn_y1 region \<rparr> else region)
     in region)"

definition dfb_unsafe_region_intersect ::
  "DFBRegion \<Rightarrow> int \<Rightarrow> int \<Rightarrow> int \<Rightarrow> int \<Rightarrow> bool \<times> DFBRegion" where
  "dfb_unsafe_region_intersect region x1 y1 x2 y2 =
     dfb_region_intersect (region_validate region) x1 y1 x2 y2"

definition dfb_unsafe_region_rectangle_intersect :: "DFBRegion \<Rightarrow> DFBRectangle \<Rightarrow> bool \<times> DFBRegion" where
  "dfb_unsafe_region_rectangle_intersect region rect =
     dfb_region_rectangle_intersect (region_validate region) rect"

definition dfb_rectangle_intersect_by_region :: "DFBRectangle \<Rightarrow> DFBRegion \<Rightarrow> bool \<times> DFBRectangle" where
  "dfb_rectangle_intersect_by_region rectangle region =
    (let rectangle = (if rgn_x1 region > rect_x rectangle
           then rectangle\<lparr> rect_w := rect_w rectangle - (rgn_x1 region - rect_x rectangle),
                           rect_x := rgn_x1 region \<rparr>
           else rectangle);
         rectangle = (if rgn_y1 region > rect_y rectangle
           then rectangle\<lparr> rect_h := rect_h rectangle - (rgn_y1 region - rect_y rectangle),
                           rect_y := rgn_y1 region \<rparr>
           else rectangle);
         rectangle = (if rgn_x2 region < rect_x rectangle + rect_w rectangle - 1
           then rectangle\<lparr> rect_w := rgn_x2 region - rect_x rectangle + 1 \<rparr> else rectangle);
         rectangle = (if rgn_y2 region < rect_y rectangle + rect_h rectangle - 1
           then rectangle\<lparr> rect_h := rgn_y2 region - rect_y rectangle + 1 \<rparr> else rectangle)
     in if rect_w rectangle \<le> 0 \<or> rect_h rectangle \<le> 0
        then (False, rectangle\<lparr> rect_w := 0, rect_h := 0 \<rparr>)
        else (True, rectangle))"

definition dfb_rectangle_intersect_by_unsafe_region ::
  "DFBRectangle \<Rightarrow> DFBRegion \<Rightarrow> bool \<times> DFBRectangle \<times> DFBRegion" where
  "dfb_rectangle_intersect_by_unsafe_region rectangle region =
    (let region = region_validate region;
         (b, rectangle) = dfb_rectangle_intersect_by_region rectangle region
     in (b, rectangle, region))"

definition dfb_rectangle_intersect :: "DFBRectangle \<Rightarrow> DFBRectangle \<Rightarrow> bool \<times> DFBRectangle" where
  "dfb_rectangle_intersect rectangle clip =
    (let region = \<lparr> rgn_x1 = rect_x clip, rgn_y1 = rect_y clip,
                    rgn_x2 = rect_x clip + rect_w clip - 1, rgn_y2 = rect_y clip + rect_h clip - 1 \<rparr>
     in dfb_rectangle_intersect_by_region rectangle region)"

subsection \<open>The contract the intersection routines share\<close>

text \<open>
  Every routine narrows its first argument to a clip and tells whether anything is left. The
  locale states this contract over pixel sets; its client lemmas are about the nested clipping
  the library performs (window, layer region, surface), where a value is narrowed by one clip
  after the other and the first empty result ends the chain.
\<close>

locale clipper =
  fixes clip :: "'a \<Rightarrow> 'c \<Rightarrow> bool \<times> 'a"
    and pix :: "'a \<Rightarrow> (int \<times> int) set"
    and cpix :: "'c \<Rightarrow> (int \<times> int) set"
    and ok :: "'a \<Rightarrow> bool"
    and cok :: "'c \<Rightarrow> bool"
  assumes ok_pix: "ok a \<Longrightarrow> pix a \<noteq> {}"
    and clip_hit: "ok a \<Longrightarrow> cok c \<Longrightarrow> fst (clip a c) \<longleftrightarrow> pix a \<inter> cpix c \<noteq> {}"
    and clip_ok: "ok a \<Longrightarrow> cok c \<Longrightarrow> fst (clip a c) \<Longrightarrow> ok (snd (clip a c))"
    and clip_pix: "ok a \<Longrightarrow> cok c \<Longrightarrow> fst (clip a c) \<Longrightarrow> pix (snd (clip a c)) = pix a \<inter> cpix c"

fun clip_chain :: "('a \<Rightarrow> 'c \<Rightarrow> bool \<times> 'a) \<Rightarrow> 'a \<Rightarrow> 'c list \<Rightarrow> bool \<times> 'a" where
  "clip_chain clip a [] = (True, a)"
| "clip_chain clip a (c # cs) =
     (let r = clip a c in if fst r then clip_chain clip (snd r) cs else (False, snd r))"

context clipper
begin

lemma chain_exact:
  assumes "ok a" and "\<forall>c \<in> set cs. cok c"
  shows "(fst (clip_chain clip a cs) \<longleftrightarrow> pix a \<inter> (\<Inter>c \<in> set cs. cpix c) \<noteq> {}) \<and>
    (fst (clip_chain clip a cs) \<longrightarrow> ok (snd (clip_chain clip a cs)) \<and>
       pix (snd (clip_chain clip a cs)) = pix a \<inter> (\<Inter>c \<in> set cs. cpix c))"
  using assms
proof (induction cs arbitrary: a)
  case Nil
  then show ?case by (simp add: ok_pix)
next
  case (Cons c cs)
  then have c: "cok c" and cs: "\<forall>c \<in> set cs. cok c" by auto
  show ?case
  proof (cases "fst (clip a c)")
    case True
    note hit = clip_ok [OF Cons.prems(1) c True] clip_pix [OF Cons.prems(1) c True]
    show ?thesis using Cons.IH [OF hit(1) cs] True hit(2) by (simp add: Let_def Int_assoc)
  next
    case False
    then have "pix a \<inter> cpix c = {}" using clip_hit [OF Cons.prems(1) c] by simp
    then show ?thesis using False by (auto simp: Let_def)
  qed
qed

lemma chain_order_irrelevant:
  assumes "ok a" and "\<forall>c \<in> set cs. cok c" and "set ds = set cs"
  shows "fst (clip_chain clip a cs) = fst (clip_chain clip a ds) \<and>
    (fst (clip_chain clip a cs) \<longrightarrow>
       pix (snd (clip_chain clip a cs)) = pix (snd (clip_chain clip a ds)))"
  using chain_exact [OF assms(1,2)] chain_exact [OF assms(1), of ds] assms(2,3) by auto

end

lemma region_region_intersect_eq:
  "dfb_region_region_intersect r c =
    (if rgn_x2 r < rgn_x1 c \<or> rgn_y2 r < rgn_y1 c \<or> rgn_x1 r > rgn_x2 c \<or> rgn_y1 r > rgn_y2 c then (False, r)
     else (True, \<lparr> rgn_x1 = max (rgn_x1 r) (rgn_x1 c), rgn_y1 = max (rgn_y1 r) (rgn_y1 c),
                   rgn_x2 = min (rgn_x2 r) (rgn_x2 c), rgn_y2 = min (rgn_y2 r) (rgn_y2 c) \<rparr>))"
  by (simp add: dfb_region_region_intersect_def Let_def max_def min_def)

lemma region_region_intersect_True:
  "fst (dfb_region_region_intersect r c) \<Longrightarrow> snd (dfb_region_region_intersect r c) =
    \<lparr> rgn_x1 = max (rgn_x1 r) (rgn_x1 c), rgn_y1 = max (rgn_y1 r) (rgn_y1 c),
      rgn_x2 = min (rgn_x2 r) (rgn_x2 c), rgn_y2 = min (rgn_y2 r) (rgn_y2 c) \<rparr>"
  by (simp add: region_region_intersect_eq split: if_splits)

lemma region_region_intersect_hit:
  "fst (dfb_region_region_intersect r c) \<longleftrightarrow>
     rgn_x1 c \<le> rgn_x2 r \<and> rgn_y1 c \<le> rgn_y2 r \<and> rgn_x1 r \<le> rgn_x2 c \<and> rgn_y1 r \<le> rgn_y2 c"
  by (auto simp: dfb_region_region_intersect_def Let_def)

lemma box_intersection_nonempty:
  "region_ok r \<Longrightarrow> region_ok c \<Longrightarrow> region_pixels r \<inter> region_pixels c \<noteq> {} \<longleftrightarrow>
     rgn_x1 c \<le> rgn_x2 r \<and> rgn_y1 c \<le> rgn_y2 r \<and> rgn_x1 r \<le> rgn_x2 c \<and> rgn_y1 r \<le> rgn_y2 c"
  by (auto simp: region_pixels_def region_ok_def Times_Int_Times)

interpretation region_clip: clipper dfb_region_region_intersect region_pixels region_pixels region_ok region_ok
proof unfold_locales
  fix r c assume rc: "region_ok r" "region_ok c"
  show "fst (dfb_region_region_intersect r c) \<longleftrightarrow> region_pixels r \<inter> region_pixels c \<noteq> {}"
    by (simp add: region_region_intersect_hit box_intersection_nonempty [OF rc])
  assume hit: "fst (dfb_region_region_intersect r c)"
  show "region_pixels (snd (dfb_region_region_intersect r c)) = region_pixels r \<inter> region_pixels c"
    unfolding region_region_intersect_True [OF hit] by (auto simp: dfb_geo)
  show "region_ok (snd (dfb_region_region_intersect r c))"
    unfolding region_region_intersect_True [OF hit]
    using hit rc by (auto simp: region_region_intersect_hit region_ok_def)
qed (simp add: region_pixels_nonempty)

lemma rectangle_intersect_by_region_True:
  "fst (dfb_rectangle_intersect_by_region r c) \<Longrightarrow>
     rect_pixels (snd (dfb_rectangle_intersect_by_region r c)) = rect_pixels r \<inter> region_pixels c \<and>
     rect_ok (snd (dfb_rectangle_intersect_by_region r c))"
  by (auto simp: dfb_rectangle_intersect_by_region_def Let_def rect_ok_def dfb_geo split: if_splits)

lemma rectangle_intersect_by_region_False:
  "\<not> fst (dfb_rectangle_intersect_by_region r c) \<Longrightarrow> rect_pixels r \<inter> region_pixels c = {} \<and>
     rect_w (snd (dfb_rectangle_intersect_by_region r c)) = 0 \<and>
     rect_h (snd (dfb_rectangle_intersect_by_region r c)) = 0"
  by (auto simp: dfb_rectangle_intersect_by_region_def Let_def dfb_geo split: if_splits)

lemma rectangle_intersect_by_region_hit:
  "fst (dfb_rectangle_intersect_by_region r c) \<longleftrightarrow> rect_pixels r \<inter> region_pixels c \<noteq> {}"
  using rectangle_intersect_by_region_True [of r c] rectangle_intersect_by_region_False [of r c]
    rect_pixels_nonempty by blast

interpretation rect_clip: clipper dfb_rectangle_intersect_by_region rect_pixels region_pixels rect_ok "\<lambda>_. True"
  by unfold_locales (use rect_pixels_nonempty rectangle_intersect_by_region_True
      rectangle_intersect_by_region_hit in blast)+

lemma rectangle_intersect_eq:
  "dfb_rectangle_intersect r c = dfb_rectangle_intersect_by_region r (dfb_region_from_rectangle c)"
  by (simp add: dfb_rectangle_intersect_def dfb_region_from_rectangle_def)

interpretation rect_rect_clip: clipper dfb_rectangle_intersect rect_pixels rect_pixels rect_ok "\<lambda>_. True"
  by unfold_locales (use rect_pixels_nonempty rectangle_intersect_by_region_True
      rectangle_intersect_by_region_hit in
      \<open>simp add: rectangle_intersect_eq region_pixels_from_rectangle\<close>)+

text \<open>
  C34: Nested clipping with \<^verbatim>\<open>dfb_region_region_intersect\<close> is exact and order-independent.
  Narrowing a region by any list of well-formed clips, stopping at the first failure, succeeds
  exactly when the common intersection holds a pixel; on success the region left is exactly that
  intersection, and the same clips in any other order give the same region.
\<close>

theorem nested_clipping_exact:
  assumes "region_ok r" and "\<forall>c \<in> set cs. region_ok c" and "set ds = set cs"
  shows "(fst (clip_chain dfb_region_region_intersect r cs) \<longleftrightarrow>
            region_pixels r \<inter> (\<Inter>c \<in> set cs. region_pixels c) \<noteq> {}) \<and>
         (fst (clip_chain dfb_region_region_intersect r cs) \<longrightarrow>
            region_pixels (snd (clip_chain dfb_region_region_intersect r cs)) =
              region_pixels r \<inter> (\<Inter>c \<in> set cs. region_pixels c) \<and>
            clip_chain dfb_region_region_intersect r ds = clip_chain dfb_region_region_intersect r cs)"
proof -
  note ex = region_clip.chain_exact [OF assms(1,2)]
  have dsok: "\<forall>c \<in> set ds. region_ok c" using assms(2,3) by simp
  note ex' = region_clip.chain_exact [OF assms(1) dsok]
  have "clip_chain dfb_region_region_intersect r ds = clip_chain dfb_region_region_intersect r cs"
    if "fst (clip_chain dfb_region_region_intersect r cs)"
    using region_clip.chain_order_irrelevant [OF assms] ex ex' that region_pixels_inject
    by (intro prod_eqI) auto
  then show ?thesis using ex by blast
qed

theorem nested_clipping_exact_witness:
  "clip_chain dfb_region_region_intersect \<lparr> rgn_x1 = 0, rgn_y1 = 0, rgn_x2 = 9, rgn_y2 = 9 \<rparr>
     [\<lparr> rgn_x1 = 2, rgn_y1 = 3, rgn_x2 = 20, rgn_y2 = 5 \<rparr>, \<lparr> rgn_x1 = 0, rgn_y1 = 0, rgn_x2 = 4, rgn_y2 = 20 \<rparr>]
   = clip_chain dfb_region_region_intersect \<lparr> rgn_x1 = 0, rgn_y1 = 0, rgn_x2 = 9, rgn_y2 = 9 \<rparr>
     [\<lparr> rgn_x1 = 0, rgn_y1 = 0, rgn_x2 = 4, rgn_y2 = 20 \<rparr>, \<lparr> rgn_x1 = 2, rgn_y1 = 3, rgn_x2 = 20, rgn_y2 = 5 \<rparr>]"
  using nested_clipping_exact [of "\<lparr> rgn_x1 = 0, rgn_y1 = 0, rgn_x2 = 9, rgn_y2 = 9 \<rparr>"
     "[\<lparr> rgn_x1 = 0, rgn_y1 = 0, rgn_x2 = 4, rgn_y2 = 20 \<rparr>, \<lparr> rgn_x1 = 2, rgn_y1 = 3, rgn_x2 = 20, rgn_y2 = 5 \<rparr>]"
     "[\<lparr> rgn_x1 = 2, rgn_y1 = 3, rgn_x2 = 20, rgn_y2 = 5 \<rparr>, \<lparr> rgn_x1 = 0, rgn_y1 = 0, rgn_x2 = 4, rgn_y2 = 20 \<rparr>]"]
  by (simp add: region_ok_def insert_commute dfb_region_region_intersect_def)

text \<open>
  The library's intersection routines agree. For a non-empty rectangle and a well-formed
  region, clipping the rectangle by the region, clipping the region by the rectangle, clipping two
  regions and clipping two rectangles succeed together and, on success, leave the same pixels; the
  \<open>unsafe\<close> variants do the same on a region with its corners in any order.
\<close>

theorem intersection_routines_agree:
  assumes "rect_ok q" and "region_ok c"
    and "region_validate u = c"
  shows "fst (dfb_region_rectangle_intersect c q) = fst (dfb_rectangle_intersect_by_region q c) \<and>
    fst (dfb_region_region_intersect (dfb_region_from_rectangle q) c) = fst (dfb_rectangle_intersect_by_region q c) \<and>
    fst (dfb_rectangle_intersect q (dfb_rectangle_from_region c)) = fst (dfb_rectangle_intersect_by_region q c) \<and>
    dfb_unsafe_region_rectangle_intersect u q = dfb_region_rectangle_intersect c q \<and>
    dfb_rectangle_intersect_by_unsafe_region q u =
      (fst (dfb_rectangle_intersect_by_region q c), snd (dfb_rectangle_intersect_by_region q c), c) \<and>
    (fst (dfb_rectangle_intersect_by_region q c) \<longrightarrow>
      snd (dfb_region_rectangle_intersect c q) = dfb_region_from_rectangle (snd (dfb_rectangle_intersect_by_region q c)) \<and>
      snd (dfb_region_region_intersect (dfb_region_from_rectangle q) c) =
        dfb_region_from_rectangle (snd (dfb_rectangle_intersect_by_region q c)) \<and>
      snd (dfb_rectangle_intersect q (dfb_rectangle_from_region c)) = snd (dfb_rectangle_intersect_by_region q c))"
proof -
  have swap: "dfb_region_rectangle_intersect c q = dfb_region_region_intersect c (dfb_region_from_rectangle q)"
    by (simp add: dfb_region_rectangle_intersect_def dfb_region_region_intersect_def
        dfb_region_from_rectangle_def Let_def)
  have qok: "region_ok (dfb_region_from_rectangle q)"
    using assms(1) by (simp add: region_ok_def rect_ok_def dfb_region_from_rectangle_def)
  note hits = region_clip.clip_hit [OF assms(2) qok] region_clip.clip_hit [OF qok assms(2)]
    rectangle_intersect_by_region_hit [of q c]
  have 1: "fst (dfb_region_rectangle_intersect c q) = fst (dfb_rectangle_intersect_by_region q c)"
    "fst (dfb_region_region_intersect (dfb_region_from_rectangle q) c) = fst (dfb_rectangle_intersect_by_region q c)"
    using hits by (auto simp: swap region_pixels_from_rectangle Int_commute)
  have 2: "dfb_rectangle_intersect q (dfb_rectangle_from_region c) = dfb_rectangle_intersect_by_region q c"
    by (simp add: rectangle_intersect_eq rectangle_region_inverse)
  have 3: "snd (dfb_region_region_intersect a b) = dfb_region_from_rectangle (snd (dfb_rectangle_intersect_by_region q c))"
    if hit: "fst (dfb_rectangle_intersect_by_region q c)" and "region_ok a" "region_ok b"
      "fst (dfb_region_region_intersect a b)" "region_pixels a \<inter> region_pixels b = rect_pixels q \<inter> region_pixels c" for a b
  proof (rule region_pixels_inject)
    show "region_ok (snd (dfb_region_region_intersect a b))"
      using region_clip.clip_ok that by blast
    show "region_ok (dfb_region_from_rectangle (snd (dfb_rectangle_intersect_by_region q c)))"
      using rectangle_intersect_by_region_True [OF hit] rect_pixels_nonempty
      by (auto simp: region_pixels_nonempty region_pixels_from_rectangle)
    show "region_pixels (snd (dfb_region_region_intersect a b)) =
      region_pixels (dfb_region_from_rectangle (snd (dfb_rectangle_intersect_by_region q c)))"
      using region_clip.clip_pix that rectangle_intersect_by_region_True [OF hit]
      by (simp add: region_pixels_from_rectangle)
  qed
  show ?thesis
    using 1 2 3 [OF _ assms(2) qok] 3 [OF _ qok assms(2)] assms(3)
    by (auto simp: swap region_pixels_from_rectangle Int_commute
        dfb_unsafe_region_rectangle_intersect_def dfb_rectangle_intersect_by_unsafe_region_def
        Let_def split_beta)
qed

theorem intersection_routines_agree_witness:
  "dfb_rectangle_intersect_by_unsafe_region \<lparr> rect_x = 0, rect_y = 0, rect_w = 10, rect_h = 4 \<rparr>
     \<lparr> rgn_x1 = 20, rgn_y1 = 2, rgn_x2 = 5, rgn_y2 = 9 \<rparr> =
   (True, \<lparr> rect_x = 5, rect_y = 2, rect_w = 5, rect_h = 2 \<rparr>,
     \<lparr> rgn_x1 = 5, rgn_y1 = 2, rgn_x2 = 20, rgn_y2 = 9 \<rparr>)"
  using intersection_routines_agree [of "\<lparr> rect_x = 0, rect_y = 0, rect_w = 10, rect_h = 4 \<rparr>"
      "\<lparr> rgn_x1 = 5, rgn_y1 = 2, rgn_x2 = 20, rgn_y2 = 9 \<rparr>"
      "\<lparr> rgn_x1 = 20, rgn_y1 = 2, rgn_x2 = 5, rgn_y2 = 9 \<rparr>"]
  by (simp add: rect_ok_def region_ok_def region_validate_def dfb_rectangle_intersect_by_region_def)

section \<open>Containment and union\<close>

definition dfb_region_region_contains :: "DFBRegion \<Rightarrow> DFBRegion \<Rightarrow> bool" where
  "dfb_region_region_contains a b =
    (if rgn_x1 a > rgn_x1 b then False
     else if rgn_y1 a > rgn_y1 b then False
     else if rgn_x2 a < rgn_x2 b then False
     else if rgn_y2 a < rgn_y2 b then False
     else True)"

definition dfb_region_region_extends :: "DFBRegion \<Rightarrow> DFBRegion \<Rightarrow> bool" where
  "dfb_region_region_extends a b =
    (if rgn_x1 a = rgn_x1 b \<and> rgn_x2 a = rgn_x2 b
     then rgn_y1 a = rgn_y2 b - 1 \<or> rgn_y2 a = rgn_y1 b - 1
     else if rgn_y1 a = rgn_y1 b \<and> rgn_y2 a = rgn_y2 b
     then rgn_x1 a = rgn_x2 b - 1 \<or> rgn_x2 a = rgn_x1 b - 1
     else False)"

definition dfb_region_region_union :: "DFBRegion \<Rightarrow> DFBRegion \<Rightarrow> DFBRegion" where
  "dfb_region_region_union region other =
    (let region = (if rgn_x1 region > rgn_x1 other then region\<lparr> rgn_x1 := rgn_x1 other \<rparr> else region);
         region = (if rgn_y1 region > rgn_y1 other then region\<lparr> rgn_y1 := rgn_y1 other \<rparr> else region);
         region = (if rgn_x2 region < rgn_x2 other then region\<lparr> rgn_x2 := rgn_x2 other \<rparr> else region);
         region = (if rgn_y2 region < rgn_y2 other then region\<lparr> rgn_y2 := rgn_y2 other \<rparr> else region)
     in region)"

text \<open>\<open>dfb_regions_unite\<close> asserts at least one region; the first one is the start of the loop.\<close>

fun unite_loop :: "DFBRegion \<Rightarrow> DFBRegion list \<Rightarrow> DFBRegion" where
  "unite_loop united [] = united"
| "unite_loop united (r # rs) = unite_loop (dfb_region_region_union united r) rs"

definition dfb_regions_unite :: "DFBRegion list \<Rightarrow> DFBRegion option" where
  "dfb_regions_unite regions = (case regions of [] \<Rightarrow> None | r # rs \<Rightarrow> Some (unite_loop r rs))"

definition dfb_rectangle_union :: "DFBRectangle \<Rightarrow> DFBRectangle \<Rightarrow> DFBRectangle" where
  "dfb_rectangle_union rect1 rect2 =
    (if rect_w rect2 = 0 \<or> rect_h rect2 = 0 then rect1
     else
      (let rect1 = (if rect_w rect1 \<noteq> 0 then
              (let temp = min (rect_x rect1) (rect_x rect2)
               in rect1\<lparr> rect_w := max (rect_x rect1 + rect_w rect1) (rect_x rect2 + rect_w rect2) - temp,
                         rect_x := temp \<rparr>)
            else rect1\<lparr> rect_x := rect_x rect2, rect_w := rect_w rect2 \<rparr>)
       in if rect_h rect1 \<noteq> 0 then
              (let temp = min (rect_y rect1) (rect_y rect2)
               in rect1\<lparr> rect_h := max (rect_y rect1 + rect_h rect1) (rect_y rect2 + rect_h rect2) - temp,
                         rect_y := temp \<rparr>)
          else rect1\<lparr> rect_y := rect_y rect2, rect_h := rect_h rect2 \<rparr>))"

lemma region_union_eq:
  "dfb_region_region_union r s =
    \<lparr> rgn_x1 = min (rgn_x1 r) (rgn_x1 s), rgn_y1 = min (rgn_y1 r) (rgn_y1 s),
      rgn_x2 = max (rgn_x2 r) (rgn_x2 s), rgn_y2 = max (rgn_y2 r) (rgn_y2 s) \<rparr>"
  by (auto simp: dfb_region_region_union_def Let_def min_def max_def intro!: DFBRegion.equality)

lemma contains_iff:
  "dfb_region_region_contains a b \<longleftrightarrow>
    rgn_x1 a \<le> rgn_x1 b \<and> rgn_y1 a \<le> rgn_y1 b \<and> rgn_x2 b \<le> rgn_x2 a \<and> rgn_y2 b \<le> rgn_y2 a"
  by (auto simp: dfb_region_region_contains_def)

lemma contains_pixels: "region_ok b \<Longrightarrow> dfb_region_region_contains a b \<longleftrightarrow> region_pixels b \<subseteq> region_pixels a"
  by (simp add: contains_iff region_pixels_subset_iff)

lemma union_ok: "region_ok r \<Longrightarrow> region_ok s \<Longrightarrow> region_ok (dfb_region_region_union r s)"
  by (auto simp: region_union_eq region_ok_def min_def max_def)

lemma unite_loop_contains:
  "dfb_region_region_contains b (unite_loop r rs) \<longleftrightarrow>
     dfb_region_region_contains b r \<and> (\<forall>s \<in> set rs. dfb_region_region_contains b s)"
  by (induction rs arbitrary: r) (auto simp: contains_iff region_union_eq)

lemma unite_loop_ok: "region_ok r \<Longrightarrow> \<forall>s \<in> set rs. region_ok s \<Longrightarrow> region_ok (unite_loop r rs)"
  by (induction rs arbitrary: r) (auto simp: union_ok)

lemma contains_refl: "dfb_region_region_contains r r"
  by (simp add: contains_iff)

lemma union_contains:
  "dfb_region_region_contains (dfb_region_region_union r s) r"
  "dfb_region_region_contains (dfb_region_region_union r s) s"
  by (simp_all add: contains_iff region_union_eq)

lemma contains_trans:
  "dfb_region_region_contains a b \<Longrightarrow> dfb_region_region_contains b c \<Longrightarrow> dfb_region_region_contains a c"
  by (simp add: contains_iff)

text \<open>
  \<^verbatim>\<open>dfb_regions_unite\<close> computes the least enclosing region. Its result covers every pixel of
  every region in the array, and every region that covers them all also contains the result.
\<close>

theorem regions_unite_least:
  assumes "regions \<noteq> []" and "\<forall>r \<in> set regions. region_ok r"
  shows "\<exists>u. dfb_regions_unite regions = Some u \<and> region_ok u \<and>
    (\<Union>r \<in> set regions. region_pixels r) \<subseteq> region_pixels u \<and>
    (\<forall>b. (\<Union>r \<in> set regions. region_pixels r) \<subseteq> region_pixels b \<longrightarrow> dfb_region_region_contains b u)"
proof -
  obtain r rs where regs: "regions = r # rs" using assms(1) by (cases regions) auto
  let ?u = "unite_loop r rs"
  have ok: "region_ok ?u" using assms(2) by (simp add: regs unite_loop_ok)
  have "dfb_region_region_contains ?u s" if "s \<in> set regions" for s
    using unite_loop_contains [of ?u r rs] that by (auto simp: regs contains_refl)
  then have "(\<Union>r \<in> set regions. region_pixels r) \<subseteq> region_pixels ?u"
    using assms(2) contains_pixels by blast
  moreover have "dfb_region_region_contains b ?u"
    if "(\<Union>r \<in> set regions. region_pixels r) \<subseteq> region_pixels b" for b
    using that assms(2) contains_pixels by (auto simp: regs unite_loop_contains)
  ultimately show ?thesis using ok by (auto simp: regs dfb_regions_unite_def)
qed

theorem regions_unite_least_witness:
  "\<exists>u. dfb_regions_unite [\<lparr> rgn_x1 = 0, rgn_y1 = 0, rgn_x2 = 1, rgn_y2 = 1 \<rparr>,
        \<lparr> rgn_x1 = 5, rgn_y1 = 3, rgn_x2 = 6, rgn_y2 = 3 \<rparr>] = Some u \<and> region_ok u"
  using regions_unite_least [of "[\<lparr> rgn_x1 = 0, rgn_y1 = 0, rgn_x2 = 1, rgn_y2 = 1 \<rparr>,
        \<lparr> rgn_x1 = 5, rgn_y1 = 3, rgn_x2 = 6, rgn_y2 = 3 \<rparr>]"]
  by (auto simp: region_ok_def)

lemma rectangle_union_pixels:
  assumes "rect_ok r" and "rect_ok s"
  shows "dfb_region_from_rectangle (dfb_rectangle_union r s) =
    dfb_region_region_union (dfb_region_from_rectangle r) (dfb_region_from_rectangle s)"
  using assms by (auto simp: dfb_rectangle_union_def region_union_eq dfb_region_from_rectangle_def
      rect_ok_def Let_def min_def max_def)

end
