(* ===== verification/Updates.thy ===== *)
theory Updates
  imports Region
begin

text \<open>
  The update (damage) accumulator \<^verbatim>\<open>DFBUpdates\<close> of \<^verbatim>\<open>src/misc/util.c\<close>: a bounded array of
  regions with their bounding region. The array is the list \<open>upd_regions\<close>, its length the field
  \<^verbatim>\<open>num_regions\<close>. \<^verbatim>\<open>bounding\<close> is not written by \<^verbatim>\<open>dfb_updates_init\<close> and \<^verbatim>\<open>dfb_updates_reset\<close>, so the model keeps
  whatever the struct held. \<open>damaged\<close> is a ghost of the proofs: the regions added since the last
  reset.
\<close>

record DFBUpdates =
  upd_regions :: "DFBRegion list"
  upd_max :: nat
  upd_bounding :: DFBRegion

definition dfb_updates_init :: "DFBUpdates \<Rightarrow> nat \<Rightarrow> DFBUpdates" where
  "dfb_updates_init updates max_regions = updates\<lparr> upd_max := max_regions, upd_regions := [] \<rparr>"

definition dfb_updates_reset :: "DFBUpdates \<Rightarrow> DFBUpdates" where
  "dfb_updates_reset updates = updates\<lparr> upd_regions := [] \<rparr>"

text \<open>The search loop over the array: the first region that touches the new one absorbs it.\<close>

fun combine_first :: "DFBRegion list \<Rightarrow> DFBRegion \<Rightarrow> DFBRegion list option" where
  "combine_first [] region = None"
| "combine_first (r # rs) region =
     (if dfb_region_region_extends r region \<or> dfb_region_region_intersects r region
      then Some (dfb_region_region_union r region # rs)
      else map_option ((#) r) (combine_first rs region))"

definition dfb_updates_add :: "DFBUpdates \<Rightarrow> DFBRegion \<Rightarrow> DFBUpdates" where
  "dfb_updates_add updates region =
    (if length (upd_regions updates) = 0
     then updates\<lparr> upd_regions := [region], upd_bounding := region \<rparr>
     else
       (case combine_first (upd_regions updates) region of
          Some regions \<Rightarrow>
            updates\<lparr> upd_regions := regions,
                     upd_bounding := dfb_region_region_union (upd_bounding updates) region \<rparr>
        | None \<Rightarrow>
            (let bounding = dfb_region_region_union (upd_bounding updates) region
             in if length (upd_regions updates) = upd_max updates
                then updates\<lparr> upd_bounding := bounding, upd_regions := [bounding] \<rparr>
                else updates\<lparr> upd_regions := upd_regions updates @ [region], upd_bounding := bounding \<rparr>)))"

definition dfb_updates_add_rect :: "DFBUpdates \<Rightarrow> int \<Rightarrow> int \<Rightarrow> int \<Rightarrow> int \<Rightarrow> DFBUpdates" where
  "dfb_updates_add_rect updates x y w h =
     dfb_updates_add updates \<lparr> rgn_x1 = x, rgn_y1 = y, rgn_x2 = x + w - 1, rgn_y2 = y + h - 1 \<rparr>"

definition region_area :: "DFBRegion \<Rightarrow> int" where
  "region_area r = (rgn_x2 r - rgn_x1 r + 1) * (rgn_y2 r - rgn_y1 r + 1)"

definition dfb_updates_stat :: "DFBUpdates \<Rightarrow> int \<times> int" where
  "dfb_updates_stat updates =
    (if length (upd_regions updates) = 0 then (0, 0)
     else (foldl (\<lambda>total r. total + region_area r) 0 (upd_regions updates),
           region_area (upd_bounding updates)))"

text \<open>Width and height are written as the difference of the inclusive corners, as in the code.\<close>

definition corner_rect :: "DFBRegion \<Rightarrow> DFBRectangle" where
  "corner_rect r = \<lparr> rect_x = rgn_x1 r, rect_y = rgn_y1 r,
                     rect_w = rgn_x2 r - rgn_x1 r, rect_h = rgn_y2 r - rgn_y1 r \<rparr>"

definition dfb_updates_get_rectangles :: "DFBUpdates \<Rightarrow> DFBRectangle list" where
  "dfb_updates_get_rectangles updates =
    (let num = length (upd_regions updates) in
     if num = 0 then []
     else if num = 1 then [corner_rect (upd_bounding updates)]
     else
      (let (total, bounding) = dfb_updates_stat updates;
           n = int (upd_max updates) - int num + 1;
           d = n + 1
       in if total < (bounding * n) sdiv d
          then map corner_rect (upd_regions updates)
          else [corner_rect (upd_bounding updates)]))"

section \<open>Accumulating damage\<close>

definition updates_inv :: "DFBUpdates \<Rightarrow> DFBRegion list \<Rightarrow> bool" where
  "updates_inv u damaged \<longleftrightarrow>
     0 < upd_max u \<and> length (upd_regions u) \<le> upd_max u \<and>
     (\<forall>r \<in> set (upd_regions u). region_ok r) \<and>
     (upd_regions u = [] \<longleftrightarrow> damaged = []) \<and>
     (damaged \<noteq> [] \<longrightarrow>
        dfb_regions_unite damaged = Some (upd_bounding u) \<and>
        dfb_regions_unite (upd_regions u) = Some (upd_bounding u)) \<and>
     (\<Union>r \<in> set damaged. region_pixels r) \<subseteq> (\<Union>r \<in> set (upd_regions u). region_pixels r)"

lemma contains_union_iff:
  "dfb_region_region_contains b (dfb_region_region_union r s) \<longleftrightarrow>
     dfb_region_region_contains b r \<and> dfb_region_region_contains b s"
  by (auto simp: contains_iff region_union_eq)

lemma combine_first_unites:
  assumes "combine_first rs r = Some rs'"
  shows "length rs' = length rs \<and> rs' \<noteq> [] \<and>
    (\<forall>b. (\<forall>s \<in> set rs'. dfb_region_region_contains b s) \<longleftrightarrow>
         (\<forall>s \<in> set rs. dfb_region_region_contains b s) \<and> dfb_region_region_contains b r)"
  using assms
proof (induction rs arbitrary: rs')
  case (Cons a rs)
  show ?case
  proof (cases "dfb_region_region_extends a r \<or> dfb_region_region_intersects a r")
    case True
    then show ?thesis using Cons.prems by (auto simp: contains_union_iff)
  next
    case False
    then obtain t where t: "combine_first rs r = Some t" "rs' = a # t" using Cons.prems by auto
    then show ?thesis using Cons.IH [OF t(1)] by (simp add: conj_assoc)
  qed
qed simp

lemma union_pixels_mono:
  "region_pixels a \<subseteq> region_pixels (dfb_region_region_union a b)"
  "region_pixels b \<subseteq> region_pixels (dfb_region_region_union a b)"
  by (auto simp: region_union_eq dfb_geo)

lemma combine_first_pixels:
  assumes "combine_first rs r = Some rs'"
  shows "(\<Union>s \<in> set rs. region_pixels s) \<union> region_pixels r \<subseteq> (\<Union>s \<in> set rs'. region_pixels s)"
  using assms
proof (induction rs arbitrary: rs')
  case (Cons a rs)
  show ?case
  proof (cases "dfb_region_region_extends a r \<or> dfb_region_region_intersects a r")
    case True
    then have "rs' = dfb_region_region_union a r # rs" using Cons.prems by simp
    then show ?thesis using union_pixels_mono(1) [of a r] union_pixels_mono(2) [of r a] by auto
  next
    case False
    then obtain t where "combine_first rs r = Some t" "rs' = a # t" using Cons.prems by auto
    then show ?thesis using Cons.IH by auto
  qed
qed simp

lemma combine_first_ok:
  assumes "combine_first rs r = Some rs'" and "region_ok r" and "\<forall>s \<in> set rs. region_ok s"
  shows "\<forall>s \<in> set rs'. region_ok s"
  using assms by (induction rs arbitrary: rs') (auto simp: union_ok split: if_splits)

text \<open>A region is the union of an array exactly when it contains what all of them have in common:
  containment determines it.\<close>

lemma contains_antisym: "dfb_region_region_contains a b \<Longrightarrow> dfb_region_region_contains b a \<Longrightarrow> a = b"
  by (auto simp: contains_iff intro!: DFBRegion.equality)

lemma unite_eq_iff:
  assumes "rs \<noteq> []"
  shows "dfb_regions_unite rs = Some u \<longleftrightarrow>
    (\<forall>b. dfb_region_region_contains b u \<longleftrightarrow> (\<forall>s \<in> set rs. dfb_region_region_contains b s))"
proof -
  obtain r rest where rs: "rs = r # rest" using assms by (cases rs) auto
  have "u = unite_loop r rest"
    if "\<forall>b. dfb_region_region_contains b u \<longleftrightarrow> dfb_region_region_contains b (unite_loop r rest)"
    using that contains_antisym contains_refl by blast
  then show ?thesis
    unfolding rs dfb_regions_unite_def by (auto simp: unite_loop_contains)
qed

lemma contained_by_bounding:
  assumes "dfb_regions_unite rs = Some u" and "\<forall>s \<in> set rs. region_ok s"
  shows "(\<Union>s \<in> set rs. region_pixels s) \<subseteq> region_pixels u"
proof -
  have "rs \<noteq> []" using assms(1) by (auto simp: dfb_regions_unite_def)
  then have "\<forall>s \<in> set rs. dfb_region_region_contains u s"
    using assms(1) contains_refl [of u] by (metis unite_eq_iff)
  then show ?thesis using assms(2) contains_pixels by blast
qed

lemma updates_add_inv:
  assumes inv: "updates_inv u damaged" and r: "region_ok r"
  shows "updates_inv (dfb_updates_add u r) (damaged @ [r])"
proof (cases "upd_regions u = []")
  case True
  then show ?thesis
    using inv r by (auto simp: updates_inv_def dfb_updates_add_def dfb_regions_unite_def)
next
  case False
  then have dn: "damaged \<noteq> []" using inv by (simp add: updates_inv_def)
  note unf = inv [unfolded updates_inv_def]
  have bd: "dfb_regions_unite damaged = Some (upd_bounding u)"
    and br: "dfb_regions_unite (upd_regions u) = Some (upd_bounding u)" using unf dn by auto
  let ?b = "dfb_region_region_union (upd_bounding u) r"
  have bd': "dfb_regions_unite (damaged @ [r]) = Some ?b"
    using bd dn by (auto simp: unite_eq_iff contains_union_iff)
  show ?thesis
  proof (cases "combine_first (upd_regions u) r")
    case (Some rs)
    note c = combine_first_unites [OF Some] combine_first_pixels [OF Some]
    have "dfb_regions_unite rs = Some ?b"
      using br c False by (auto simp: unite_eq_iff contains_union_iff)
    moreover have "\<forall>s \<in> set rs. region_ok s"
      using combine_first_ok [OF Some r] unf by blast
    moreover have "dfb_updates_add u r = u\<lparr> upd_regions := rs, upd_bounding := ?b \<rparr>"
      using False Some by (simp add: dfb_updates_add_def)
    moreover have "(\<Union>s \<in> set (damaged @ [r]). region_pixels s) \<subseteq> (\<Union>s \<in> set rs. region_pixels s)"
    proof -
      have "(\<Union>s \<in> set damaged. region_pixels s) \<subseteq> (\<Union>s \<in> set (upd_regions u). region_pixels s)"
        using unf by blast
      then have "(\<Union>s \<in> set damaged. region_pixels s) \<union> region_pixels r \<subseteq> (\<Union>s \<in> set rs. region_pixels s)"
        using c(2) by (meson Un_least Un_subset_iff order_trans)
      moreover have "(\<Union>s \<in> set (damaged @ [r]). region_pixels s) =
          (\<Union>s \<in> set damaged. region_pixels s) \<union> region_pixels r" by auto
      ultimately show ?thesis by simp
    qed
    ultimately show ?thesis using unf c(1) bd' by (simp add: updates_inv_def)
  next
    case None
    have ok: "region_ok ?b"
      using contains_pixels br unf r False by (metis regions_unite_least option.inject union_ok)
    show ?thesis
    proof (cases "length (upd_regions u) = upd_max u")
      case True
      then have "dfb_updates_add u r = u\<lparr> upd_bounding := ?b, upd_regions := [?b] \<rparr>"
        using False None unf by (simp add: dfb_updates_add_def Let_def)
      moreover have "(\<Union>s \<in> set damaged. region_pixels s) \<union> region_pixels r \<subseteq> region_pixels ?b"
      proof -
        have "(\<Union>s \<in> set damaged. region_pixels s) \<subseteq> (\<Union>s \<in> set (upd_regions u). region_pixels s)"
          "(\<Union>s \<in> set (upd_regions u). region_pixels s) \<subseteq> region_pixels (upd_bounding u)"
          using unf contained_by_bounding [OF br] by auto
        then show ?thesis by (meson Un_least order_trans union_pixels_mono)
      qed
      ultimately show ?thesis using unf ok bd' by (simp add: updates_inv_def dfb_regions_unite_def)
    next
      case lt: False
      then have "dfb_updates_add u r = u\<lparr> upd_regions := upd_regions u @ [r], upd_bounding := ?b \<rparr>"
        using False None by (simp add: dfb_updates_add_def Let_def)
      moreover have "dfb_regions_unite (upd_regions u @ [r]) = Some ?b"
        using br False by (auto simp: unite_eq_iff contains_union_iff)
      ultimately show ?thesis using unf r lt bd' by (auto simp: updates_inv_def)
    qed
  qed
qed

lemma updates_inv_start: "0 < n \<Longrightarrow> updates_inv (dfb_updates_init u n) []"
  by (simp add: updates_inv_def dfb_updates_init_def)

lemma updates_reset_inv: "updates_inv u damaged \<Longrightarrow> updates_inv (dfb_updates_reset u) []"
  by (simp add: updates_inv_def dfb_updates_reset_def)

lemma updates_adds_inv:
  "updates_inv u damaged \<Longrightarrow> \<forall>r \<in> set rs. region_ok r \<Longrightarrow>
     updates_inv (foldl dfb_updates_add u rs) (damaged @ rs)"
proof (induction rs arbitrary: u damaged)
  case (Cons r rs)
  then have "updates_inv (dfb_updates_add u r) (damaged @ [r])" by (simp add: updates_add_inv)
  from Cons.IH [OF this] Cons.prems(2) show ?case by simp
qed simp

text \<open>
  C19: Accumulated damage is never lost and never exceeds its bounds. After any sequence of
  well-formed regions is added to a fresh accumulator for \<open>n > 0\<close> regions, at most \<open>n\<close> regions are
  stored, every damaged pixel lies in a stored region, every stored region lies in
  \<^verbatim>\<open>bounding\<close>, and \<^verbatim>\<open>bounding\<close> is exactly the least region enclosing all the damage, through all three ways of
  storing a region (combining, appending, collapsing the full array).
\<close>

theorem updates_cover_damage:
  assumes "0 < n" and "rs \<noteq> []" and "\<forall>r \<in> set rs. region_ok r"
    and "u = foldl dfb_updates_add (dfb_updates_init u0 n) rs"
  shows "length (upd_regions u) \<le> n \<and>
    (\<Union>r \<in> set rs. region_pixels r) \<subseteq> (\<Union>r \<in> set (upd_regions u). region_pixels r) \<and>
    (\<Union>r \<in> set (upd_regions u). region_pixels r) \<subseteq> region_pixels (upd_bounding u) \<and>
    dfb_regions_unite rs = Some (upd_bounding u)"
proof -
  have max: "upd_max (foldl dfb_updates_add v rs) = upd_max v" for v
  proof (induction rs arbitrary: v)
    case (Cons r rs)
    then show ?case by (simp add: dfb_updates_add_def Let_def split: option.split)
  qed simp
  have "updates_inv u rs"
    using updates_adds_inv [OF updates_inv_start [OF assms(1)], of rs u0] assms(3,4) by simp
  moreover have "upd_max u = n" using max assms(4) by (simp add: dfb_updates_init_def)
  ultimately show ?thesis
    using assms(2) contained_by_bounding by (auto simp: updates_inv_def)
qed

theorem updates_cover_damage_witness:
  "length (upd_regions (foldl dfb_updates_add
     (dfb_updates_init \<lparr> upd_regions = [], upd_max = 0,
        upd_bounding = \<lparr> rgn_x1 = 0, rgn_y1 = 0, rgn_x2 = 0, rgn_y2 = 0 \<rparr> \<rparr> 1)
     [\<lparr> rgn_x1 = 0, rgn_y1 = 0, rgn_x2 = 1, rgn_y2 = 1 \<rparr>,
      \<lparr> rgn_x1 = 8, rgn_y1 = 8, rgn_x2 = 9, rgn_y2 = 9 \<rparr>])) \<le> 1"
  using updates_cover_damage [OF _ _ _ refl, of 1
      "[\<lparr> rgn_x1 = 0, rgn_y1 = 0, rgn_x2 = 1, rgn_y2 = 1 \<rparr>,
        \<lparr> rgn_x1 = 8, rgn_y1 = 8, rgn_x2 = 9, rgn_y2 = 9 \<rparr>]"
      "\<lparr> upd_regions = [], upd_max = 0,
        upd_bounding = \<lparr> rgn_x1 = 0, rgn_y1 = 0, rgn_x2 = 0, rgn_y2 = 0 \<rparr> \<rparr>"]
  by (simp add: region_ok_def)

text \<open>
  The rectangles handed out lose the last row and column of the damage. Whatever
  was added, no rectangle returned by \<^verbatim>\<open>dfb_updates_get_rectangles\<close> covers any pixel in the bottom row or the
  right column of \<^verbatim>\<open>bounding\<close>, although both hold damaged pixels: sizes are computed as
  \<open>x2 - x1\<close> and \<open>y2 - y1\<close> from inclusive corners. For a single damaged pixel the result
  is one rectangle of size zero.
\<close>

theorem updates_rectangles_miss_edge:
  assumes "0 < n" and "rs \<noteq> []" and "\<forall>r \<in> set rs. region_ok r"
    and "u = foldl dfb_updates_add (dfb_updates_init u0 n) rs"
  shows "(\<forall>q \<in> set (dfb_updates_get_rectangles u). \<forall>p \<in> rect_pixels q.
            fst p < rgn_x2 (upd_bounding u) \<and> snd p < rgn_y2 (upd_bounding u)) \<and>
    (\<exists>p \<in> (\<Union>r \<in> set rs. region_pixels r). fst p = rgn_x2 (upd_bounding u)) \<and>
    (\<exists>p \<in> (\<Union>r \<in> set rs. region_pixels r). snd p = rgn_y2 (upd_bounding u))"
proof -
  have inv: "updates_inv u rs"
    using updates_adds_inv [OF updates_inv_start [OF assms(1)], of rs u0] assms(3,4) by simp
  let ?b = "upd_bounding u"
  have un: "dfb_regions_unite rs = Some ?b" "dfb_regions_unite (upd_regions u) = Some ?b"
    "upd_regions u \<noteq> []" using inv assms(2) by (auto simp: updates_inv_def)
  have inb: "\<forall>s \<in> set (upd_regions u). dfb_region_region_contains ?b s"
    and inb': "\<forall>s \<in> set rs. dfb_region_region_contains ?b s"
    using un assms(2) contains_refl unite_eq_iff by metis+
  have "\<forall>q \<in> set (dfb_updates_get_rectangles u).
      rect_x q + rect_w q \<le> rgn_x2 ?b \<and> rect_y q + rect_h q \<le> rgn_y2 ?b"
    using inb un(3) by (auto simp: dfb_updates_get_rectangles_def corner_rect_def contains_iff Let_def
        split: prod.splits)
  then have 1: "\<forall>q \<in> set (dfb_updates_get_rectangles u). \<forall>p \<in> rect_pixels q.
      fst p < rgn_x2 ?b \<and> snd p < rgn_y2 ?b" by (fastforce simp: rect_pixels_def)
  have narrower: "\<not> dfb_region_region_contains (?b\<lparr> rgn_x2 := rgn_x2 ?b - 1 \<rparr>) ?b"
    "\<not> dfb_region_region_contains (?b\<lparr> rgn_y2 := rgn_y2 ?b - 1 \<rparr>) ?b"
    by (simp_all add: contains_iff)
  have "\<not> (\<forall>s \<in> set rs. dfb_region_region_contains (?b\<lparr> rgn_x2 := rgn_x2 ?b - 1 \<rparr>) s)"
    "\<not> (\<forall>s \<in> set rs. dfb_region_region_contains (?b\<lparr> rgn_y2 := rgn_y2 ?b - 1 \<rparr>) s)"
    using un(1) assms(2) unite_eq_iff [of rs ?b] narrower by metis+
  then obtain s t where "s \<in> set rs" "rgn_x2 s = rgn_x2 ?b" "t \<in> set rs" "rgn_y2 t = rgn_y2 ?b"
    using inb' by (fastforce simp: contains_iff)
  moreover have "(rgn_x2 v, rgn_y2 v) \<in> region_pixels v" if "v \<in> set rs" for v
    using assms(3) that by (simp add: dfb_geo region_ok_def)
  ultimately show ?thesis using 1 by (metis UN_I fst_conv snd_conv)
qed

theorem updates_rectangles_miss_edge_witness:
  "(3, 3) \<notin> (\<Union>q \<in> set (dfb_updates_get_rectangles (foldl dfb_updates_add
     (dfb_updates_init \<lparr> upd_regions = [], upd_max = 0,
        upd_bounding = \<lparr> rgn_x1 = 0, rgn_y1 = 0, rgn_x2 = 0, rgn_y2 = 0 \<rparr> \<rparr> 4)
     [\<lparr> rgn_x1 = 3, rgn_y1 = 3, rgn_x2 = 3, rgn_y2 = 3 \<rparr>])). rect_pixels q)"
  using updates_rectangles_miss_edge [OF _ _ _ refl, of 4
      "[\<lparr> rgn_x1 = 3, rgn_y1 = 3, rgn_x2 = 3, rgn_y2 = 3 \<rparr>]"
      "\<lparr> upd_regions = [], upd_max = 0,
        upd_bounding = \<lparr> rgn_x1 = 0, rgn_y1 = 0, rgn_x2 = 0, rgn_y2 = 0 \<rparr> \<rparr>"]
  by (simp add: region_ok_def dfb_updates_add_def dfb_updates_init_def) (metis fst_conv less_irrefl)

end
