(* ===== verification/Clip.thy ===== *)
theory Clip
  imports Region
begin

text \<open>
  Software clipping, \<^verbatim>\<open>src/gfx/clip.c\<close>: lines (Cohen-Sutherland), rectangles and their edges,
  blits with flips and rotation, triangles. Line and triangle clipping divide and multiply
  coordinates, so their arithmetic is checked: a model value \<^term>\<open>None\<close> is undefined behaviour
  of the C code (signed overflow, division by zero) or a loop that never returns.
\<close>

section \<open>Lines\<close>

text \<open>\<open>REGION_CODE\<close>: one bit per side of the clip the point lies outside of.\<close>

definition REGION_CODE :: "int \<Rightarrow> int \<Rightarrow> DFBRegion \<Rightarrow> u8" where
  "REGION_CODE x y c =
     (if y > rgn_y2 c then 8 else 0) OR (if y < rgn_y1 c then 4 else 0) OR
     (if x > rgn_x2 c then 2 else 0) OR (if x < rgn_x1 c then 1 else 0)"

text \<open>The expression \<open>a + (b - a) * (p - q1) / (q2 - q1)\<close>, every intermediate an \<^verbatim>\<open>int\<close>.\<close>

definition divide_edge :: "int \<Rightarrow> int \<Rightarrow> int \<Rightarrow> int \<Rightarrow> int \<Rightarrow> int option" where
  "divide_edge a b p q1 q2 =
     do { s \<leftarrow> chk (b - a); t \<leftarrow> chk (p - q1); m \<leftarrow> chk (s * t);
          d \<leftarrow> chk (q2 - q1); q \<leftarrow> c_div m d; chk (a + q) }"

definition clip_end1 :: "u8 \<Rightarrow> DFBRegion \<Rightarrow> DFBRegion \<Rightarrow> DFBRegion option" where
  "clip_end1 code clip line =
    (if code AND 8 \<noteq> 0 then
       do { v \<leftarrow> divide_edge (rgn_x1 line) (rgn_x2 line) (rgn_y2 clip) (rgn_y1 line) (rgn_y2 line);
            Some (line\<lparr> rgn_x1 := v, rgn_y1 := rgn_y2 clip \<rparr>) }
     else if code AND 4 \<noteq> 0 then
       do { v \<leftarrow> divide_edge (rgn_x1 line) (rgn_x2 line) (rgn_y1 clip) (rgn_y1 line) (rgn_y2 line);
            Some (line\<lparr> rgn_x1 := v, rgn_y1 := rgn_y1 clip \<rparr>) }
     else if code AND 2 \<noteq> 0 then
       do { v \<leftarrow> divide_edge (rgn_y1 line) (rgn_y2 line) (rgn_x2 clip) (rgn_x1 line) (rgn_x2 line);
            Some (line\<lparr> rgn_y1 := v, rgn_x1 := rgn_x2 clip \<rparr>) }
     else if code AND 1 \<noteq> 0 then
       do { v \<leftarrow> divide_edge (rgn_y1 line) (rgn_y2 line) (rgn_x1 clip) (rgn_x1 line) (rgn_x2 line);
            Some (line\<lparr> rgn_y1 := v, rgn_x1 := rgn_x1 clip \<rparr>) }
     else Some line)"

definition clip_end2 :: "u8 \<Rightarrow> DFBRegion \<Rightarrow> DFBRegion \<Rightarrow> DFBRegion option" where
  "clip_end2 code clip line =
    (if code AND 8 \<noteq> 0 then
       do { v \<leftarrow> divide_edge (rgn_x1 line) (rgn_x2 line) (rgn_y2 clip) (rgn_y1 line) (rgn_y2 line);
            Some (line\<lparr> rgn_x2 := v, rgn_y2 := rgn_y2 clip \<rparr>) }
     else if code AND 4 \<noteq> 0 then
       do { v \<leftarrow> divide_edge (rgn_x1 line) (rgn_x2 line) (rgn_y1 clip) (rgn_y1 line) (rgn_y2 line);
            Some (line\<lparr> rgn_x2 := v, rgn_y2 := rgn_y1 clip \<rparr>) }
     else if code AND 2 \<noteq> 0 then
       do { v \<leftarrow> divide_edge (rgn_y1 line) (rgn_y2 line) (rgn_x2 clip) (rgn_x1 line) (rgn_x2 line);
            Some (line\<lparr> rgn_y2 := v, rgn_x2 := rgn_x2 clip \<rparr>) }
     else if code AND 1 \<noteq> 0 then
       do { v \<leftarrow> divide_edge (rgn_y1 line) (rgn_y2 line) (rgn_x1 clip) (rgn_x1 line) (rgn_x2 line);
            Some (line\<lparr> rgn_y2 := v, rgn_x2 := rgn_x1 clip \<rparr>) }
     else Some line)"

partial_function (option) clip_line_loop ::
  "DFBRegion \<Rightarrow> u8 \<Rightarrow> u8 \<Rightarrow> DFBRegion \<Rightarrow> (bool \<times> DFBRegion) option" where
  "clip_line_loop clip code1 code2 line =
    (if code1 OR code2 = 0 then Some (True, line)
     else if code1 AND code2 \<noteq> 0 then Some (False, line)
     else if code1 \<noteq> 0 then
       Option.bind (clip_end1 code1 clip line)
         (\<lambda>l. clip_line_loop clip (REGION_CODE (rgn_x1 l) (rgn_y1 l) clip) code2 l)
     else
       Option.bind (clip_end2 code2 clip line)
         (\<lambda>l. clip_line_loop clip code1 (REGION_CODE (rgn_x2 l) (rgn_y2 l) clip) l))"

definition dfb_clip_line :: "DFBRegion \<Rightarrow> DFBRegion \<Rightarrow> (bool \<times> DFBRegion) option" where
  "dfb_clip_line clip line =
     clip_line_loop clip (REGION_CODE (rgn_x1 line) (rgn_y1 line) clip)
       (REGION_CODE (rgn_x2 line) (rgn_y2 line) clip) line"

subsection \<open>Region codes\<close>

lemma REGION_CODE_bits:
  "REGION_CODE x y c AND 8 \<noteq> 0 \<longleftrightarrow> y > rgn_y2 c"
  "REGION_CODE x y c AND 4 \<noteq> 0 \<longleftrightarrow> y < rgn_y1 c"
  "REGION_CODE x y c AND 2 \<noteq> 0 \<longleftrightarrow> x > rgn_x2 c"
  "REGION_CODE x y c AND 1 \<noteq> 0 \<longleftrightarrow> x < rgn_x1 c"
  by (simp_all add: REGION_CODE_def)

lemma REGION_CODE_zero:
  "REGION_CODE x y c = 0 \<longleftrightarrow> (x, y) \<in> region_pixels c"
  by (auto simp: REGION_CODE_def dfb_geo)

lemma code_common_aux:
  "((if a then 8 else 0) OR (if b then 4 else 0) OR (if c then 2 else 0) OR (if d then 1 else 0) :: u8) AND
   ((if a' then 8 else 0) OR (if b' then 4 else 0) OR (if c' then 2 else 0) OR (if d' then 1 else 0)) \<noteq> 0
   \<longleftrightarrow> a \<and> a' \<or> b \<and> b' \<or> c \<and> c' \<or> d \<and> d'"
  by (cases a; cases b; cases c; cases d; simp)

lemma REGION_CODE_common:
  "REGION_CODE x y c AND REGION_CODE x' y' c \<noteq> 0 \<longleftrightarrow>
     y > rgn_y2 c \<and> y' > rgn_y2 c \<or> y < rgn_y1 c \<and> y' < rgn_y1 c \<or>
     x > rgn_x2 c \<and> x' > rgn_x2 c \<or> x < rgn_x1 c \<and> x' < rgn_x1 c"
  unfolding REGION_CODE_def by (rule code_common_aux)

lemma OR_zero_iff: "(a :: u8) OR b = 0 \<longleftrightarrow> a = 0 \<and> b = 0"
  by (metis bit.disj_zero_right or_eq_0_iff)

subsection \<open>One division of an edge\<close>

text \<open>
  The products are safe for coordinates of less than 15 bits: their differences stay below
  \<open>2^15\<close> and the products below \<open>2^30\<close>. This is the range the line and triangle theorems assume.
\<close>

definition small :: "int \<Rightarrow> bool" where
  "small a \<longleftrightarrow> \<bar>a\<bar> < 2 ^ 14"

definition small_region :: "DFBRegion \<Rightarrow> bool" where
  "small_region r \<longleftrightarrow> small (rgn_x1 r) \<and> small (rgn_y1 r) \<and> small (rgn_x2 r) \<and> small (rgn_y2 r)"

text \<open>\<open>v\<close> lies between \<open>a\<close> and \<open>b\<close>, in either order.\<close>

definition between :: "int \<Rightarrow> int \<Rightarrow> int \<Rightarrow> bool" where
  "between a b v \<longleftrightarrow> a \<le> v \<and> v \<le> b \<or> b \<le> v \<and> v \<le> a"

lemma between_refl: "between a b a \<longleftrightarrow> True" "between a b b \<longleftrightarrow> True"
  by (auto simp: between_def)

lemma between_commute: "between a b v = between b a v"
  by (auto simp: between_def)

lemma between_trans:
  assumes "between a b v" and "between c d a" and "between c d b"
  shows "between c d v"
  using assms unfolding between_def by (elim disjE conjE) linarith+

lemma between_small: "between a b v \<Longrightarrow> small a \<Longrightarrow> small b \<Longrightarrow> small v"
  unfolding between_def small_def by linarith

lemma between_same: "between a a v \<Longrightarrow> v = a"
  by (auto simp: between_def)

lemma small_diff_int32: "small a \<Longrightarrow> small b \<Longrightarrow> int32 (a - b)"
  by (auto simp: small_def int32_def)

lemma small_diff_product:
  assumes "small a" "small b" "small c" "small d"
  shows "\<bar>(a - b) * (c - d)\<bar> < 2 ^ 30"
proof -
  have "\<bar>a - b\<bar> \<le> 32766" "\<bar>c - d\<bar> \<le> 32766" using assms by (auto simp: small_def)
  then have "\<bar>a - b\<bar> * \<bar>c - d\<bar> \<le> 32766 * 32766" by (intro mult_mono) auto
  then show ?thesis by (simp add: abs_mult)
qed

lemma divide_edge_between:
  assumes "small a" "small b" "small p" "small q1" "small q2" and "q1 \<noteq> q2"
    and "between q1 q2 p"
  shows "\<exists>v. divide_edge a b p q1 q2 = Some v \<and> between a b v"
proof -
  let ?q = "((b - a) * (p - q1)) sdiv (q2 - q1)"
  have q: "(0 \<le> b - a \<longrightarrow> 0 \<le> ?q \<and> ?q \<le> b - a) \<and> (b - a \<le> 0 \<longrightarrow> b - a \<le> ?q \<and> ?q \<le> 0)"
    by (rule sdiv_scale_between) (use assms(6,7) in \<open>auto simp: between_def\<close>)
  have "int32 (b - a)" "int32 (p - q1)" "int32 (q2 - q1)"
    using assms small_diff_int32 by blast+
  moreover have "int32 ((b - a) * (p - q1))"
    using small_diff_product [OF assms(2,1,3,4)] by (intro int32_bounded) auto
  moreover have "int32 ?q" "int32 (a + ?q)"
    using q assms(1,2) by (auto simp: small_def int32_def)
  ultimately have "divide_edge a b p q1 q2 = Some (a + ?q)"
    using assms(6) by (simp add: divide_edge_def dfb_ub)
  moreover have "between a b (a + ?q)" using q by (auto simp: between_def)
  ultimately show ?thesis by blast
qed

text \<open>
  What one clipping step of an endpoint does, for an endpoint that is outside and shares no
  side with the other: it returns, the endpoint moves within the span of the line, and its \<open>y\<close>
  (if that was outside) or else its \<open>x\<close> moves to the nearest edge of the clip.
\<close>

definition clamp :: "int \<Rightarrow> int \<Rightarrow> int \<Rightarrow> int" where
  "clamp lo hi v = (if v > hi then hi else if v < lo then lo else v)"

lemma clamp_range: "lo \<le> hi \<Longrightarrow> lo \<le> clamp lo hi v \<and> clamp lo hi v \<le> hi"
  by (simp add: clamp_def)

definition step_ok :: "DFBRegion \<Rightarrow> int \<Rightarrow> int \<Rightarrow> int \<Rightarrow> int \<Rightarrow> int \<Rightarrow> int \<Rightarrow> bool" where
  "step_ok clip x y ox oy x' y' \<longleftrightarrow>
     between x ox x' \<and> between y oy y' \<and>
     (if rgn_y1 clip \<le> y \<and> y \<le> rgn_y2 clip then x' = clamp (rgn_x1 clip) (rgn_x2 clip) x
      else y' = clamp (rgn_y1 clip) (rgn_y2 clip) y)"

lemma outside_noncommon:
  assumes ok: "region_ok c" and out: "REGION_CODE x y c \<noteq> 0"
    and nc: "REGION_CODE x y c AND REGION_CODE ox oy c = 0"
  obtains (bottom) "y > rgn_y2 c" "oy \<le> rgn_y2 c"
  | (top) "y < rgn_y1 c" "y \<le> rgn_y2 c" "rgn_y1 c \<le> oy"
  | (right) "x > rgn_x2 c" "ox \<le> rgn_x2 c" "rgn_y1 c \<le> y" "y \<le> rgn_y2 c"
  | (left) "x < rgn_x1 c" "x \<le> rgn_x2 c" "rgn_x1 c \<le> ox" "rgn_y1 c \<le> y" "y \<le> rgn_y2 c"
proof -
  have "\<not> (y > rgn_y2 c \<and> oy > rgn_y2 c \<or> y < rgn_y1 c \<and> oy < rgn_y1 c \<or>
     x > rgn_x2 c \<and> ox > rgn_x2 c \<or> x < rgn_x1 c \<and> ox < rgn_x1 c)"
    using nc REGION_CODE_common by blast
  moreover have "rgn_x1 c \<le> rgn_x2 c" "rgn_y1 c \<le> rgn_y2 c" using ok by (auto simp: region_ok_def)
  moreover have "\<not> (rgn_x1 c \<le> x \<and> x \<le> rgn_x2 c \<and> rgn_y1 c \<le> y \<and> y \<le> rgn_y2 c)"
    using out REGION_CODE_zero mem_region_pixels by blast
  note facts = this calculation
  show ?thesis
  proof (cases "y > rgn_y2 c")
    case True
    then show ?thesis using facts by (intro that(1)) linarith+
  next
    case y2: False
    show ?thesis
    proof (cases "y < rgn_y1 c")
      case True
      then show ?thesis using facts y2 by (intro that(2)) linarith+
    next
      case y1: False
      show ?thesis
      proof (cases "x > rgn_x2 c")
        case True
        then show ?thesis using facts y1 y2 by (intro that(3)) linarith+
      next
        case False
        then show ?thesis using facts y1 y2 by (intro that(4)) linarith+
      qed
    qed
  qed
qed

lemma clip_end1_step:
  assumes clip: "region_ok clip" "small_region clip" and l: "small_region l"
    and out: "REGION_CODE (rgn_x1 l) (rgn_y1 l) clip \<noteq> 0"
    and nc: "REGION_CODE (rgn_x1 l) (rgn_y1 l) clip AND REGION_CODE (rgn_x2 l) (rgn_y2 l) clip = 0"
  shows "\<exists>x y. clip_end1 (REGION_CODE (rgn_x1 l) (rgn_y1 l) clip) clip l = Some (l\<lparr> rgn_x1 := x, rgn_y1 := y \<rparr>) \<and>
    step_ok clip (rgn_x1 l) (rgn_y1 l) (rgn_x2 l) (rgn_y2 l) x y"
proof -
  note sm = clip(2) [unfolded small_region_def] l [unfolded small_region_def]
  have ok: "rgn_x1 clip \<le> rgn_x2 clip" "rgn_y1 clip \<le> rgn_y2 clip" using clip(1) by (auto simp: region_ok_def)
  show ?thesis
    using clip(1) out nc
  proof (cases rule: outside_noncommon)
    case bottom
    then obtain v where "divide_edge (rgn_x1 l) (rgn_x2 l) (rgn_y2 clip) (rgn_y1 l) (rgn_y2 l) = Some v"
      "between (rgn_x1 l) (rgn_x2 l) v"
      using sm divide_edge_between [of "rgn_x1 l" "rgn_x2 l" "rgn_y2 clip" "rgn_y1 l" "rgn_y2 l"] by (auto simp: between_def)
    then have "clip_end1 (REGION_CODE (rgn_x1 l) (rgn_y1 l) clip) clip l = Some (l\<lparr> rgn_x1 := v, rgn_y1 := rgn_y2 clip \<rparr>)"
      "step_ok clip (rgn_x1 l) (rgn_y1 l) (rgn_x2 l) (rgn_y2 l) v (rgn_y2 clip)"
      using bottom ok by (simp_all add: clip_end1_def REGION_CODE_bits step_ok_def between_def clamp_def)
    then show ?thesis by blast
  next
    case top
    then obtain v where "divide_edge (rgn_x1 l) (rgn_x2 l) (rgn_y1 clip) (rgn_y1 l) (rgn_y2 l) = Some v"
      "between (rgn_x1 l) (rgn_x2 l) v"
      using sm divide_edge_between [of "rgn_x1 l" "rgn_x2 l" "rgn_y1 clip" "rgn_y1 l" "rgn_y2 l"] by (auto simp: between_def)
    then have "clip_end1 (REGION_CODE (rgn_x1 l) (rgn_y1 l) clip) clip l = Some (l\<lparr> rgn_x1 := v, rgn_y1 := rgn_y1 clip \<rparr>)"
      "step_ok clip (rgn_x1 l) (rgn_y1 l) (rgn_x2 l) (rgn_y2 l) v (rgn_y1 clip)"
      using top ok by (simp_all add: clip_end1_def REGION_CODE_bits step_ok_def between_def clamp_def)
    then show ?thesis by blast
  next
    case right
    then obtain v where "divide_edge (rgn_y1 l) (rgn_y2 l) (rgn_x2 clip) (rgn_x1 l) (rgn_x2 l) = Some v"
      "between (rgn_y1 l) (rgn_y2 l) v"
      using sm divide_edge_between [of "rgn_y1 l" "rgn_y2 l" "rgn_x2 clip" "rgn_x1 l" "rgn_x2 l"] by (auto simp: between_def)
    then have "clip_end1 (REGION_CODE (rgn_x1 l) (rgn_y1 l) clip) clip l = Some (l\<lparr> rgn_x1 := rgn_x2 clip, rgn_y1 := v \<rparr>)"
      "step_ok clip (rgn_x1 l) (rgn_y1 l) (rgn_x2 l) (rgn_y2 l) (rgn_x2 clip) v"
      using right ok by (simp_all add: clip_end1_def REGION_CODE_bits step_ok_def between_def clamp_def)
    then show ?thesis by blast
  next
    case left
    then obtain v where "divide_edge (rgn_y1 l) (rgn_y2 l) (rgn_x1 clip) (rgn_x1 l) (rgn_x2 l) = Some v"
      "between (rgn_y1 l) (rgn_y2 l) v"
      using sm divide_edge_between [of "rgn_y1 l" "rgn_y2 l" "rgn_x1 clip" "rgn_x1 l" "rgn_x2 l"] by (auto simp: between_def)
    then have "clip_end1 (REGION_CODE (rgn_x1 l) (rgn_y1 l) clip) clip l = Some (l\<lparr> rgn_x1 := rgn_x1 clip, rgn_y1 := v \<rparr>)"
      "step_ok clip (rgn_x1 l) (rgn_y1 l) (rgn_x2 l) (rgn_y2 l) (rgn_x1 clip) v"
      using left ok by (simp_all add: clip_end1_def REGION_CODE_bits step_ok_def between_def clamp_def)
    then show ?thesis by blast
  qed
qed

lemma clip_end2_step:
  assumes clip: "region_ok clip" "small_region clip" and l: "small_region l"
    and out: "REGION_CODE (rgn_x2 l) (rgn_y2 l) clip \<noteq> 0"
    and nc: "REGION_CODE (rgn_x2 l) (rgn_y2 l) clip AND REGION_CODE (rgn_x1 l) (rgn_y1 l) clip = 0"
  shows "\<exists>x y. clip_end2 (REGION_CODE (rgn_x2 l) (rgn_y2 l) clip) clip l = Some (l\<lparr> rgn_x2 := x, rgn_y2 := y \<rparr>) \<and>
    step_ok clip (rgn_x2 l) (rgn_y2 l) (rgn_x1 l) (rgn_y1 l) x y"
proof -
  note sm = clip(2) [unfolded small_region_def] l [unfolded small_region_def]
  have ok: "rgn_x1 clip \<le> rgn_x2 clip" "rgn_y1 clip \<le> rgn_y2 clip" using clip(1) by (auto simp: region_ok_def)
  show ?thesis
    using clip(1) out nc
  proof (cases rule: outside_noncommon)
    case bottom
    then obtain v where "divide_edge (rgn_x1 l) (rgn_x2 l) (rgn_y2 clip) (rgn_y1 l) (rgn_y2 l) = Some v"
      "between (rgn_x1 l) (rgn_x2 l) v"
      using sm divide_edge_between [of "rgn_x1 l" "rgn_x2 l" "rgn_y2 clip" "rgn_y1 l" "rgn_y2 l"] by (auto simp: between_def)
    then have "clip_end2 (REGION_CODE (rgn_x2 l) (rgn_y2 l) clip) clip l = Some (l\<lparr> rgn_x2 := v, rgn_y2 := rgn_y2 clip \<rparr>)"
      "step_ok clip (rgn_x2 l) (rgn_y2 l) (rgn_x1 l) (rgn_y1 l) v (rgn_y2 clip)"
      using bottom ok by (auto simp: clip_end2_def REGION_CODE_bits step_ok_def between_def clamp_def)
    then show ?thesis by blast
  next
    case top
    then obtain v where "divide_edge (rgn_x1 l) (rgn_x2 l) (rgn_y1 clip) (rgn_y1 l) (rgn_y2 l) = Some v"
      "between (rgn_x1 l) (rgn_x2 l) v"
      using sm divide_edge_between [of "rgn_x1 l" "rgn_x2 l" "rgn_y1 clip" "rgn_y1 l" "rgn_y2 l"] by (auto simp: between_def)
    then have "clip_end2 (REGION_CODE (rgn_x2 l) (rgn_y2 l) clip) clip l = Some (l\<lparr> rgn_x2 := v, rgn_y2 := rgn_y1 clip \<rparr>)"
      "step_ok clip (rgn_x2 l) (rgn_y2 l) (rgn_x1 l) (rgn_y1 l) v (rgn_y1 clip)"
      using top ok by (auto simp: clip_end2_def REGION_CODE_bits step_ok_def between_def clamp_def)
    then show ?thesis by blast
  next
    case right
    then obtain v where "divide_edge (rgn_y1 l) (rgn_y2 l) (rgn_x2 clip) (rgn_x1 l) (rgn_x2 l) = Some v"
      "between (rgn_y1 l) (rgn_y2 l) v"
      using sm divide_edge_between [of "rgn_y1 l" "rgn_y2 l" "rgn_x2 clip" "rgn_x1 l" "rgn_x2 l"] by (auto simp: between_def)
    then have "clip_end2 (REGION_CODE (rgn_x2 l) (rgn_y2 l) clip) clip l = Some (l\<lparr> rgn_x2 := rgn_x2 clip, rgn_y2 := v \<rparr>)"
      "step_ok clip (rgn_x2 l) (rgn_y2 l) (rgn_x1 l) (rgn_y1 l) (rgn_x2 clip) v"
      using right ok by (auto simp: clip_end2_def REGION_CODE_bits step_ok_def between_def clamp_def)
    then show ?thesis by blast
  next
    case left
    then obtain v where "divide_edge (rgn_y1 l) (rgn_y2 l) (rgn_x1 clip) (rgn_x1 l) (rgn_x2 l) = Some v"
      "between (rgn_y1 l) (rgn_y2 l) v"
      using sm divide_edge_between [of "rgn_y1 l" "rgn_y2 l" "rgn_x1 clip" "rgn_x1 l" "rgn_x2 l"] by (auto simp: between_def)
    then have "clip_end2 (REGION_CODE (rgn_x2 l) (rgn_y2 l) clip) clip l = Some (l\<lparr> rgn_x2 := rgn_x1 clip, rgn_y2 := v \<rparr>)"
      "step_ok clip (rgn_x2 l) (rgn_y2 l) (rgn_x1 l) (rgn_y1 l) (rgn_x1 clip) v"
      using left ok by (auto simp: clip_end2_def REGION_CODE_bits step_ok_def between_def clamp_def)
    then show ?thesis by blast
  qed
qed

subsection \<open>The loop\<close>

definition code_rank :: "u8 \<Rightarrow> nat" where
  "code_rank c = (if c AND 12 \<noteq> 0 then 2 else if c \<noteq> 0 then 1 else 0)"

lemma code_rank_eq:
  assumes "region_ok c"
  shows "code_rank (REGION_CODE x y c) =
    (if y > rgn_y2 c \<or> y < rgn_y1 c then 2 else if x > rgn_x2 c \<or> x < rgn_x1 c then 1 else 0)"
  using assms by (auto simp: code_rank_def REGION_CODE_def region_ok_def)

definition loop_measure :: "DFBRegion \<Rightarrow> DFBRegion \<Rightarrow> nat" where
  "loop_measure clip l =
    (if REGION_CODE (rgn_x1 l) (rgn_y1 l) clip AND REGION_CODE (rgn_x2 l) (rgn_y2 l) clip \<noteq> 0 then 0
     else Suc (code_rank (REGION_CODE (rgn_x1 l) (rgn_y1 l) clip) +
               code_rank (REGION_CODE (rgn_x2 l) (rgn_y2 l) clip)))"

text \<open>The span of a line: its bounding box, within which both endpoints stay.\<close>

definition within_span :: "DFBRegion \<Rightarrow> DFBRegion \<Rightarrow> bool" where
  "within_span l l0 \<longleftrightarrow>
     between (rgn_x1 l0) (rgn_x2 l0) (rgn_x1 l) \<and> between (rgn_x1 l0) (rgn_x2 l0) (rgn_x2 l) \<and>
     between (rgn_y1 l0) (rgn_y2 l0) (rgn_y1 l) \<and> between (rgn_y1 l0) (rgn_y2 l0) (rgn_y2 l)"

lemma within_span_refl: "within_span l l"
  by (simp add: within_span_def between_refl)

lemma within_span_trans: "within_span a b \<Longrightarrow> within_span b c \<Longrightarrow> within_span a c"
  unfolding within_span_def using between_trans by blast

lemma within_span_small: "within_span l l0 \<Longrightarrow> small_region l0 \<Longrightarrow> small_region l"
  unfolding within_span_def small_region_def using between_small by blast

lemma step_ok_rank:
  assumes c: "region_ok c" and st: "step_ok c x y ox oy x' y'"
    and out: "REGION_CODE x y c \<noteq> 0" and nc: "REGION_CODE x y c AND REGION_CODE ox oy c = 0"
  shows "code_rank (REGION_CODE x' y' c) < code_rank (REGION_CODE x y c) \<or>
    REGION_CODE x' y' c AND REGION_CODE ox oy c \<noteq> 0"
proof (cases "rgn_y1 c \<le> y \<and> y \<le> rgn_y2 c")
  case True
  then have x': "rgn_x1 c \<le> x'" "x' \<le> rgn_x2 c" using st c clamp_range by (auto simp: step_ok_def region_ok_def)
  have 1: "code_rank (REGION_CODE x y c) = 1"
    using True c out by (auto simp: code_rank_eq REGION_CODE_zero dfb_geo)
  show ?thesis
  proof (cases "rgn_y1 c \<le> y' \<and> y' \<le> rgn_y2 c")
    case in_range: True
    then show ?thesis using x' 1 c by (simp add: code_rank_eq)
  next
    case False
    then have "y' > rgn_y2 c \<and> oy > rgn_y2 c \<or> y' < rgn_y1 c \<and> oy < rgn_y1 c"
      using True st unfolding step_ok_def between_def by linarith
    then show ?thesis using REGION_CODE_common by blast
  qed
next
  case False
  then have "rgn_y1 c \<le> y'" "y' \<le> rgn_y2 c"
    using st c clamp_range by (auto simp: step_ok_def region_ok_def)
  moreover have "code_rank (REGION_CODE x y c) = 2" using False c by (auto simp: code_rank_eq)
  ultimately show ?thesis using c by (simp add: code_rank_eq)
qed

lemma step_ok_end1:
  assumes "region_ok clip" and "step_ok clip (rgn_x1 l) (rgn_y1 l) (rgn_x2 l) (rgn_y2 l) x y"
    and "REGION_CODE (rgn_x1 l) (rgn_y1 l) clip \<noteq> 0"
    and "REGION_CODE (rgn_x1 l) (rgn_y1 l) clip AND REGION_CODE (rgn_x2 l) (rgn_y2 l) clip = 0"
  shows "within_span (l\<lparr> rgn_x1 := x, rgn_y1 := y \<rparr>) l \<and>
    loop_measure clip (l\<lparr> rgn_x1 := x, rgn_y1 := y \<rparr>) < loop_measure clip l"
proof
  show "within_span (l\<lparr> rgn_x1 := x, rgn_y1 := y \<rparr>) l"
    using assms(2) by (simp add: step_ok_def within_span_def between_refl)
  show "loop_measure clip (l\<lparr> rgn_x1 := x, rgn_y1 := y \<rparr>) < loop_measure clip l"
    using step_ok_rank [OF assms] assms(4) by (auto simp: loop_measure_def)
qed

lemma step_ok_end2:
  assumes "region_ok clip" and "step_ok clip (rgn_x2 l) (rgn_y2 l) (rgn_x1 l) (rgn_y1 l) x y"
    and "REGION_CODE (rgn_x2 l) (rgn_y2 l) clip \<noteq> 0" and "REGION_CODE (rgn_x1 l) (rgn_y1 l) clip = 0"
  shows "within_span (l\<lparr> rgn_x2 := x, rgn_y2 := y \<rparr>) l \<and>
    loop_measure clip (l\<lparr> rgn_x2 := x, rgn_y2 := y \<rparr>) < loop_measure clip l"
proof
  show "within_span (l\<lparr> rgn_x2 := x, rgn_y2 := y \<rparr>) l"
    using assms(2) by (simp add: step_ok_def within_span_def between_refl between_commute)
  have "REGION_CODE (rgn_x2 l) (rgn_y2 l) clip AND REGION_CODE (rgn_x1 l) (rgn_y1 l) clip = 0"
    using assms(4) by simp
  from step_ok_rank [OF assms(1-3) this] assms(4)
  show "loop_measure clip (l\<lparr> rgn_x2 := x, rgn_y2 := y \<rparr>) < loop_measure clip l"
    by (auto simp: loop_measure_def)
qed

text \<open>
  The loop, by induction on the measure: it returns, keeps both endpoints within the span of the
  line, accepts only a line inside the clip, and leaves alone a line that is inside.
\<close>

lemma clip_line_loop_returns:
  assumes "region_ok clip" "small_region clip" "small_region l"
  shows "\<exists>b l'. dfb_clip_line clip l = Some (b, l') \<and> within_span l' l \<and>
    (b \<longrightarrow> (rgn_x1 l', rgn_y1 l') \<in> region_pixels clip \<and> (rgn_x2 l', rgn_y2 l') \<in> region_pixels clip)"
  using assms(3)
proof (induction "loop_measure clip l" arbitrary: l rule: less_induct)
  case less
  let ?c1 = "REGION_CODE (rgn_x1 l) (rgn_y1 l) clip" and ?c2 = "REGION_CODE (rgn_x2 l) (rgn_y2 l) clip"
  note unf = dfb_clip_line_def clip_line_loop.simps [of clip ?c1 ?c2 l]
  have continue: ?case if "dfb_clip_line clip l = dfb_clip_line clip l'" "within_span l' l"
    "loop_measure clip l' < loop_measure clip l" for l'
    using less.hyps [OF that(3) within_span_small [OF that(2) less.prems]] that(1,2) within_span_trans
    by auto
  consider "?c1 OR ?c2 = 0" | "?c1 AND ?c2 \<noteq> 0" | "?c1 \<noteq> 0" "?c1 AND ?c2 = 0" | "?c1 = 0" "?c2 \<noteq> 0"
    by (auto simp: OR_zero_iff)
  then show ?case
  proof cases
    case 1
    then have "dfb_clip_line clip l = Some (True, l)" by (simp add: unf)
    with 1 show ?thesis by (intro exI [of _ True]) (simp add: within_span_refl OR_zero_iff REGION_CODE_zero)
  next
    case 2
    then have "?c1 OR ?c2 \<noteq> 0" by (auto simp: OR_zero_iff)
    with 2 have "dfb_clip_line clip l = Some (False, l)" by (simp add: unf)
    then show ?thesis by (simp add: within_span_refl exI [of _ False])
  next
    case 3
    then obtain x y where "clip_end1 ?c1 clip l = Some (l\<lparr> rgn_x1 := x, rgn_y1 := y \<rparr>)"
      and st: "step_ok clip (rgn_x1 l) (rgn_y1 l) (rgn_x2 l) (rgn_y2 l) x y"
      using clip_end1_step [OF assms(1,2) less.prems] by blast
    then have "dfb_clip_line clip l = dfb_clip_line clip (l\<lparr> rgn_x1 := x, rgn_y1 := y \<rparr>)"
      using 3 by (simp add: unf OR_zero_iff dfb_clip_line_def)
    then show ?thesis using continue step_ok_end1 [OF assms(1) st 3] by blast
  next
    case 4
    then obtain x y where "clip_end2 ?c2 clip l = Some (l\<lparr> rgn_x2 := x, rgn_y2 := y \<rparr>)"
      and st: "step_ok clip (rgn_x2 l) (rgn_y2 l) (rgn_x1 l) (rgn_y1 l) x y"
      using clip_end2_step [OF assms(1,2) less.prems] by auto
    then have "dfb_clip_line clip l = dfb_clip_line clip (l\<lparr> rgn_x2 := x, rgn_y2 := y \<rparr>)"
      using 4 clip_line_loop.simps [of clip 0 ?c2 l] by (simp add: dfb_clip_line_def)
    then show ?thesis using continue step_ok_end2 [OF assms(1) st 4(2,1)] by blast
  qed
qed

lemma clip_line_inside:
  "(rgn_x1 l, rgn_y1 l) \<in> region_pixels clip \<Longrightarrow> (rgn_x2 l, rgn_y2 l) \<in> region_pixels clip \<Longrightarrow>
     dfb_clip_line clip l = Some (True, l)"
  by (simp add: dfb_clip_line_def clip_line_loop.simps REGION_CODE_zero [symmetric])

lemma clip_line_outside:
  "REGION_CODE (rgn_x1 l) (rgn_y1 l) clip AND REGION_CODE (rgn_x2 l) (rgn_y2 l) clip \<noteq> 0 \<Longrightarrow>
     dfb_clip_line clip l = Some (False, l)"
  unfolding dfb_clip_line_def by (subst clip_line_loop.simps) (auto simp: OR_zero_iff)

text \<open>
  C28: \<^verbatim>\<open>dfb_clip_line\<close> always returns and is sound. For a well-formed clip and coordinates of less
  than 15 bits the loop ends without division by zero or signed overflow; the clipped line never
  leaves the bounding box of the original; when the result is \<^verbatim>\<open>DFB_TRUE\<close> both endpoints are inside
  the clip; a line with both endpoints inside is accepted unchanged, and a line with both
  endpoints beyond the same side is rejected.
\<close>

theorem clip_line_correct:
  assumes "region_ok clip" and "small_region clip" and "small_region l"
  shows "\<exists>b l'. dfb_clip_line clip l = Some (b, l') \<and> within_span l' l \<and>
    (b \<longrightarrow> (rgn_x1 l', rgn_y1 l') \<in> region_pixels clip \<and> (rgn_x2 l', rgn_y2 l') \<in> region_pixels clip) \<and>
    ((rgn_x1 l, rgn_y1 l) \<in> region_pixels clip \<and> (rgn_x2 l, rgn_y2 l) \<in> region_pixels clip \<longrightarrow> b \<and> l' = l) \<and>
    (rgn_x1 l < rgn_x1 clip \<and> rgn_x2 l < rgn_x1 clip \<or> rgn_x1 l > rgn_x2 clip \<and> rgn_x2 l > rgn_x2 clip \<or>
     rgn_y1 l < rgn_y1 clip \<and> rgn_y2 l < rgn_y1 clip \<or> rgn_y1 l > rgn_y2 clip \<and> rgn_y2 l > rgn_y2 clip \<longrightarrow> \<not> b)"
proof -
  obtain b l' where r: "dfb_clip_line clip l = Some (b, l')" "within_span l' l"
    "b \<longrightarrow> (rgn_x1 l', rgn_y1 l') \<in> region_pixels clip \<and> (rgn_x2 l', rgn_y2 l') \<in> region_pixels clip"
    using clip_line_loop_returns [OF assms] by blast
  moreover have "b \<and> l' = l"
    if "(rgn_x1 l, rgn_y1 l) \<in> region_pixels clip" "(rgn_x2 l, rgn_y2 l) \<in> region_pixels clip"
    using r(1) clip_line_inside [OF that] by simp
  moreover have "\<not> b" if "rgn_x1 l < rgn_x1 clip \<and> rgn_x2 l < rgn_x1 clip \<or> rgn_x1 l > rgn_x2 clip \<and> rgn_x2 l > rgn_x2 clip \<or>
     rgn_y1 l < rgn_y1 clip \<and> rgn_y2 l < rgn_y1 clip \<or> rgn_y1 l > rgn_y2 clip \<and> rgn_y2 l > rgn_y2 clip"
  proof -
    have "REGION_CODE (rgn_x1 l) (rgn_y1 l) clip AND REGION_CODE (rgn_x2 l) (rgn_y2 l) clip \<noteq> 0"
      unfolding REGION_CODE_common using that by blast
    then show ?thesis using r(1) clip_line_outside by simp
  qed
  ultimately show ?thesis by blast
qed

theorem clip_line_correct_witness:
  "\<exists>b l'. dfb_clip_line \<lparr> rgn_x1 = 0, rgn_y1 = 0, rgn_x2 = 9, rgn_y2 = 9 \<rparr>
      \<lparr> rgn_x1 = -5, rgn_y1 = 2, rgn_x2 = 20, rgn_y2 = 7 \<rparr> = Some (b, l')"
  using clip_line_correct [of "\<lparr> rgn_x1 = 0, rgn_y1 = 0, rgn_x2 = 9, rgn_y2 = 9 \<rparr>"
      "\<lparr> rgn_x1 = -5, rgn_y1 = 2, rgn_x2 = 20, rgn_y2 = 7 \<rparr>"]
  by (auto simp: region_ok_def small_region_def small_def)

definition line_box :: "DFBRegion \<Rightarrow> (int \<times> int) set" where
  "line_box l = {(a, b). between (rgn_x1 l) (rgn_x2 l) a \<and> between (rgn_y1 l) (rgn_y2 l) b}"

definition axis_line :: "DFBRegion \<Rightarrow> bool" where
  "axis_line l \<longleftrightarrow> rgn_x1 l = rgn_x2 l \<or> rgn_y1 l = rgn_y2 l"

lemma outside_box:
  assumes "REGION_CODE (rgn_x1 l) (rgn_y1 l) c AND REGION_CODE (rgn_x2 l) (rgn_y2 l) c \<noteq> 0"
  shows "line_box l \<inter> region_pixels c = {}"
  using assms unfolding REGION_CODE_common
  by (elim disjE) (auto simp: line_box_def between_def dfb_geo)

lemma axis_step_box:
  assumes ok: "region_ok c" and ax: "ox = x \<or> oy = y" and st: "step_ok c x y ox oy x' y'"
    and out: "REGION_CODE x y c \<noteq> 0" and nc: "REGION_CODE x y c AND REGION_CODE ox oy c = 0"
  shows "(ox = x' \<or> oy = y') \<and>
    (\<forall>a b. (a, b) \<in> region_pixels c \<longrightarrow>
       (between x' ox a \<and> between y' oy b \<longleftrightarrow> between x ox a \<and> between y oy b))"
  using ok out nc
proof (cases rule: outside_noncommon)
  case bottom
  then show ?thesis using ax st ok between_same
    by (auto simp: step_ok_def clamp_def dfb_geo between_def region_ok_def)
next
  case top
  then show ?thesis using ax st ok between_same
    by (auto simp: step_ok_def clamp_def dfb_geo between_def region_ok_def)
next
  case right
  then show ?thesis using ax st ok between_same
    by (auto simp: step_ok_def clamp_def dfb_geo between_def region_ok_def)
next
  case left
  then show ?thesis using ax st ok between_same
    by (auto simp: step_ok_def clamp_def dfb_geo between_def region_ok_def)
qed

lemma clip_line_loop_axis:
  assumes "region_ok clip" "small_region clip" "small_region l" "axis_line l"
  shows "\<exists>b l'. dfb_clip_line clip l = Some (b, l') \<and>
    line_box l' \<inter> region_pixels clip = line_box l \<inter> region_pixels clip \<and>
    (\<not> b \<longrightarrow> line_box l \<inter> region_pixels clip = {})"
  using assms(3,4)
proof (induction "loop_measure clip l" arbitrary: l rule: less_induct)
  case less
  let ?c1 = "REGION_CODE (rgn_x1 l) (rgn_y1 l) clip" and ?c2 = "REGION_CODE (rgn_x2 l) (rgn_y2 l) clip"
  have continue: ?case if "dfb_clip_line clip l = dfb_clip_line clip l'" "within_span l' l"
    "loop_measure clip l' < loop_measure clip l" "axis_line l'"
    "line_box l' \<inter> region_pixels clip = line_box l \<inter> region_pixels clip" for l'
    using less.hyps [OF that(3) within_span_small [OF that(2) less.prems(1)] that(4)] that(1,5) by simp
  consider "?c1 = 0" "?c2 = 0" | "?c1 AND ?c2 \<noteq> 0" | "?c1 \<noteq> 0" "?c1 AND ?c2 = 0" | "?c1 = 0" "?c2 \<noteq> 0"
    by blast
  then show ?case
  proof cases
    case 1
    then show ?thesis using clip_line_inside [of l clip] by (auto simp: REGION_CODE_zero)
  next
    case 2
    then show ?thesis using clip_line_outside outside_box by blast
  next
    case 3
    then obtain x y where e: "clip_end1 ?c1 clip l = Some (l\<lparr> rgn_x1 := x, rgn_y1 := y \<rparr>)"
      and st: "step_ok clip (rgn_x1 l) (rgn_y1 l) (rgn_x2 l) (rgn_y2 l) x y"
      using clip_end1_step [OF assms(1,2) less.prems(1)] by blast
    have "rgn_x2 l = rgn_x1 l \<or> rgn_y2 l = rgn_y1 l" using less.prems(2) by (auto simp: axis_line_def)
    note box = axis_step_box [OF assms(1) this st 3]
    have "dfb_clip_line clip l = dfb_clip_line clip (l\<lparr> rgn_x1 := x, rgn_y1 := y \<rparr>)"
      using 3 e clip_line_loop.simps [of clip ?c1 ?c2 l] by (simp add: dfb_clip_line_def OR_zero_iff)
    then show ?thesis
      by (rule continue) (use step_ok_end1 [OF assms(1) st 3] box in \<open>auto simp: axis_line_def line_box_def\<close>)
  next
    case 4
    then have nc: "?c2 AND ?c1 = 0" by simp
    from 4 obtain x y where e: "clip_end2 ?c2 clip l = Some (l\<lparr> rgn_x2 := x, rgn_y2 := y \<rparr>)"
      and st: "step_ok clip (rgn_x2 l) (rgn_y2 l) (rgn_x1 l) (rgn_y1 l) x y"
      using clip_end2_step [OF assms(1,2) less.prems(1)] by auto
    have "rgn_x1 l = rgn_x2 l \<or> rgn_y1 l = rgn_y2 l" using less.prems(2) by (auto simp: axis_line_def)
    note box = axis_step_box [OF assms(1) this st 4(2) nc]
    have "dfb_clip_line clip l = dfb_clip_line clip (l\<lparr> rgn_x2 := x, rgn_y2 := y \<rparr>)"
      using 4 e clip_line_loop.simps [of clip 0 ?c2 l] by (simp add: dfb_clip_line_def)
    then show ?thesis
      by (rule continue) (use step_ok_end2 [OF assms(1) st 4(2,1)] box in
          \<open>auto simp: axis_line_def line_box_def between_commute\<close>)
  qed
qed

text \<open>
  Horizontal and vertical lines are clipped exactly: \<^verbatim>\<open>DFB_TRUE\<close> is returned exactly when a pixel
  of the line lies in the clip, and the pixels of the clipped line are then exactly the pixels of
  the line that lie in the clip.
\<close>

theorem clip_line_axis_exact:
  assumes "region_ok clip" and "small_region clip" and "small_region l" and "axis_line l"
  shows "\<exists>b l'. dfb_clip_line clip l = Some (b, l') \<and>
    (b \<longleftrightarrow> line_box l \<inter> region_pixels clip \<noteq> {}) \<and>
    (b \<longrightarrow> line_box l' = line_box l \<inter> region_pixels clip)"
proof -
  obtain b l' where r: "dfb_clip_line clip l = Some (b, l')"
    "line_box l' \<inter> region_pixels clip = line_box l \<inter> region_pixels clip"
    "\<not> b \<longrightarrow> line_box l \<inter> region_pixels clip = {}"
    using clip_line_loop_axis [OF assms] by blast
  moreover have "line_box l' \<subseteq> region_pixels clip" "line_box l' \<noteq> {}" if b
  proof -
    have "(rgn_x1 l', rgn_y1 l') \<in> region_pixels clip" "(rgn_x2 l', rgn_y2 l') \<in> region_pixels clip"
      using clip_line_loop_returns [OF assms(1-3)] r(1) that by auto
    then show "line_box l' \<subseteq> region_pixels clip" "line_box l' \<noteq> {}"
      by (auto simp: line_box_def between_def dfb_geo)
  qed
  ultimately show ?thesis by blast
qed

theorem clip_line_axis_exact_witness:
  "\<exists>b l'. dfb_clip_line \<lparr> rgn_x1 = 0, rgn_y1 = 0, rgn_x2 = 9, rgn_y2 = 9 \<rparr>
      \<lparr> rgn_x1 = -5, rgn_y1 = 2, rgn_x2 = 20, rgn_y2 = 2 \<rparr> = Some (b, l')"
  using clip_line_axis_exact [of "\<lparr> rgn_x1 = 0, rgn_y1 = 0, rgn_x2 = 9, rgn_y2 = 9 \<rparr>"
      "\<lparr> rgn_x1 = -5, rgn_y1 = 2, rgn_x2 = 20, rgn_y2 = 2 \<rparr>"]
  by (auto simp: region_ok_def small_region_def small_def axis_line_def)

section \<open>Rectangles and their edges\<close>

abbreviation DFEF_LEFT :: u32 where "DFEF_LEFT \<equiv> 1"

abbreviation DFEF_RIGHT :: u32 where "DFEF_RIGHT \<equiv> 2"

abbreviation DFEF_TOP :: u32 where "DFEF_TOP \<equiv> 4"

abbreviation DFEF_BOTTOM :: u32 where "DFEF_BOTTOM \<equiv> 8"

definition DFEF_ALL :: u32 where "DFEF_ALL = 15"

definition DFEF_NONE :: u32 where "DFEF_NONE = 0"

definition dfb_clip_needed :: "DFBRegion \<Rightarrow> DFBRectangle \<Rightarrow> bool" where
  "dfb_clip_needed clip rect \<longleftrightarrow>
     rgn_x1 clip > rect_x rect \<or> rgn_y1 clip > rect_y rect \<or>
     rgn_x2 clip < rect_x rect + rect_w rect - 1 \<or> rgn_y2 clip < rect_y rect + rect_h rect - 1"

definition dfb_clip_edges :: "DFBRegion \<Rightarrow> DFBRectangle \<Rightarrow> u32 \<times> DFBRectangle" where
  "dfb_clip_edges clip rect =
    (let flags = DFEF_ALL in
     if rgn_x1 clip \<ge> rect_x rect + rect_w rect \<or> rgn_x2 clip < rect_x rect \<or>
        rgn_y1 clip \<ge> rect_y rect + rect_h rect \<or> rgn_y2 clip < rect_y rect
     then (DFEF_NONE, rect)
     else
      (let (flags, rect) = (if rgn_x1 clip > rect_x rect
             then (flags AND NOT DFEF_LEFT,
                   rect\<lparr> rect_w := rect_w rect + (rect_x rect - rgn_x1 clip), rect_x := rgn_x1 clip \<rparr>)
             else (flags, rect));
           (flags, rect) = (if rgn_y1 clip > rect_y rect
             then (flags AND NOT DFEF_TOP,
                   rect\<lparr> rect_h := rect_h rect + (rect_y rect - rgn_y1 clip), rect_y := rgn_y1 clip \<rparr>)
             else (flags, rect));
           (flags, rect) = (if rgn_x2 clip < rect_x rect + rect_w rect - 1
             then (flags AND NOT DFEF_RIGHT, rect\<lparr> rect_w := rgn_x2 clip - rect_x rect + 1 \<rparr>)
             else (flags, rect));
           (flags, rect) = (if rgn_y2 clip < rect_y rect + rect_h rect - 1
             then (flags AND NOT DFEF_BOTTOM, rect\<lparr> rect_h := rgn_y2 clip - rect_y rect + 1 \<rparr>)
             else (flags, rect))
       in (flags, rect)))"

definition dfb_clip_rectangle :: "DFBRegion \<Rightarrow> DFBRectangle \<Rightarrow> bool \<times> DFBRectangle" where
  "dfb_clip_rectangle clip rect =
    (if rgn_x1 clip \<ge> rect_x rect + rect_w rect \<or> rgn_x2 clip < rect_x rect \<or>
        rgn_y1 clip \<ge> rect_y rect + rect_h rect \<or> rgn_y2 clip < rect_y rect
     then (False, rect)
     else
      (let rect = (if rgn_x1 clip > rect_x rect
             then rect\<lparr> rect_w := rect_w rect + (rect_x rect - rgn_x1 clip), rect_x := rgn_x1 clip \<rparr>
             else rect);
           rect = (if rgn_y1 clip > rect_y rect
             then rect\<lparr> rect_h := rect_h rect + (rect_y rect - rgn_y1 clip), rect_y := rgn_y1 clip \<rparr>
             else rect);
           rect = (if rgn_x2 clip < rect_x rect + rect_w rect - 1
             then rect\<lparr> rect_w := rgn_x2 clip - rect_x rect + 1 \<rparr> else rect);
           rect = (if rgn_y2 clip < rect_y rect + rect_h rect - 1
             then rect\<lparr> rect_h := rgn_y2 clip - rect_y rect + 1 \<rparr> else rect)
       in (True, rect)))"

interpretation rectangle_clip: clipper "\<lambda>r c. dfb_clip_rectangle c r" rect_pixels region_pixels rect_ok region_ok
proof unfold_locales
  fix r c assume rc: "rect_ok r" "region_ok c"
  show "fst (dfb_clip_rectangle c r) \<longleftrightarrow> rect_pixels r \<inter> region_pixels c \<noteq> {}"
    using rc box_intersection_nonempty [of "dfb_region_from_rectangle r" c]
    unfolding region_pixels_from_rectangle
    by (auto simp: dfb_clip_rectangle_def Let_def region_ok_def rect_ok_def dfb_region_from_rectangle_def)
  assume hit: "fst (dfb_clip_rectangle c r)"
  show "rect_ok (snd (dfb_clip_rectangle c r))"
    using hit rc by (auto simp: dfb_clip_rectangle_def Let_def rect_ok_def region_ok_def split: if_splits)
  show "rect_pixels (snd (dfb_clip_rectangle c r)) = rect_pixels r \<inter> region_pixels c"
    using hit rc by (auto simp: dfb_clip_rectangle_def Let_def rect_ok_def region_ok_def dfb_geo split: if_splits)
qed (simp add: rect_pixels_nonempty)

text \<open>The flags tell which sides of the rectangle survived, the rectangle is clipped as above.\<close>

lemma clip_edges_flags:
  assumes "fst (dfb_clip_rectangle clip rect)"
  shows "(fst (dfb_clip_edges clip rect) AND DFEF_LEFT \<noteq> 0 \<longleftrightarrow> rgn_x1 clip \<le> rect_x rect) \<and>
    (fst (dfb_clip_edges clip rect) AND DFEF_TOP \<noteq> 0 \<longleftrightarrow> rgn_y1 clip \<le> rect_y rect) \<and>
    (fst (dfb_clip_edges clip rect) AND DFEF_RIGHT \<noteq> 0 \<longleftrightarrow> rect_x rect + rect_w rect - 1 \<le> rgn_x2 clip) \<and>
    (fst (dfb_clip_edges clip rect) AND DFEF_BOTTOM \<noteq> 0 \<longleftrightarrow> rect_y rect + rect_h rect - 1 \<le> rgn_y2 clip) \<and>
    snd (dfb_clip_edges clip rect) = snd (dfb_clip_rectangle clip rect)"
  using assms
  by (simp add: dfb_clip_rectangle_def dfb_clip_edges_def Let_def DFEF_ALL_def split: if_splits)

lemma clip_edges_miss:
  assumes "\<not> fst (dfb_clip_rectangle clip rect)"
  shows "dfb_clip_edges clip rect = (DFEF_NONE, rect)"
proof -
  have "rgn_x1 clip \<ge> rect_x rect + rect_w rect \<or> rgn_x2 clip < rect_x rect \<or>
      rgn_y1 clip \<ge> rect_y rect + rect_h rect \<or> rgn_y2 clip < rect_y rect"
    using assms by (simp add: dfb_clip_rectangle_def Let_def split: if_splits)
  then show ?thesis by (simp add: dfb_clip_edges_def)
qed

lemma clip_rectangle_eq:
  assumes "rect_ok rect" "region_ok clip" "fst (dfb_clip_rectangle clip rect)"
  defines "r \<equiv> snd (dfb_clip_rectangle clip rect)"
  shows "rect_x r = max (rect_x rect) (rgn_x1 clip)" "rect_y r = max (rect_y rect) (rgn_y1 clip)"
    "rect_x r + rect_w r = min (rect_x rect + rect_w rect) (rgn_x2 clip + 1)"
    "rect_y r + rect_h r = min (rect_y rect + rect_h rect) (rgn_y2 clip + 1)"
  using assms by (auto simp: dfb_clip_rectangle_def Let_def split: if_splits)

definition dfb_build_clipped_rectangle_outlines ::
  "DFBRectangle \<Rightarrow> DFBRegion \<Rightarrow> DFBRectangle \<times> DFBRectangle list" where
  "dfb_build_clipped_rectangle_outlines rect clip =
    (let (edges, rect) = dfb_clip_edges clip rect;
         t = (if edges AND DFEF_TOP \<noteq> 0 then 1 else 0);
         tb = t + (if edges AND DFEF_BOTTOM \<noteq> 0 then 1 else 0);
         outs = [];
         outs = (if edges AND DFEF_TOP \<noteq> 0
                 then outs @ [\<lparr> rect_x = rect_x rect, rect_y = rect_y rect, rect_w = rect_w rect, rect_h = 1 \<rparr>]
                 else outs);
         outs = (if rect_h rect > t then
                  (let outs = (if edges AND DFEF_BOTTOM \<noteq> 0
                         then outs @ [\<lparr> rect_x = rect_x rect, rect_y = rect_y rect + rect_h rect - 1,
                                        rect_w = rect_w rect, rect_h = 1 \<rparr>]
                         else outs)
                   in if rect_h rect > tb then
                       (let outs = (if edges AND DFEF_LEFT \<noteq> 0
                              then outs @ [\<lparr> rect_x = rect_x rect, rect_y = rect_y rect + t,
                                             rect_w = 1, rect_h = rect_h rect - tb \<rparr>]
                              else outs)
                        in if (rect_w rect > 1 \<or> \<not> (edges AND DFEF_LEFT \<noteq> 0)) \<and> edges AND DFEF_RIGHT \<noteq> 0
                           then outs @ [\<lparr> rect_x = rect_x rect + rect_w rect - 1, rect_y = rect_y rect + t,
                                          rect_w = 1, rect_h = rect_h rect - tb \<rparr>]
                           else outs)
                      else outs)
                 else outs)
     in (rect, outs))"

definition rect_border :: "DFBRectangle \<Rightarrow> (int \<times> int) set" where
  "rect_border r = {(a, b) \<in> rect_pixels r. a = rect_x r \<or> a = rect_x r + rect_w r - 1 \<or>
                                            b = rect_y r \<or> b = rect_y r + rect_h r - 1}"

lemma mem_rect_border:
  "(a, b) \<in> rect_border r \<longleftrightarrow> (a, b) \<in> rect_pixels r \<and>
     (a = rect_x r \<or> a = rect_x r + rect_w r - 1 \<or> b = rect_y r \<or> b = rect_y r + rect_h r - 1)"
  by (simp add: rect_border_def)

text \<open>The outlines of a rectangle \<open>q\<close> whose sides flagged \<open>l\<close>, \<open>t\<close>, \<open>r\<close>, \<open>b\<close> are drawn.\<close>

definition side_pixels :: "DFBRectangle \<Rightarrow> bool \<Rightarrow> bool \<Rightarrow> bool \<Rightarrow> bool \<Rightarrow> (int \<times> int) set" where
  "side_pixels q l t r b = {(px, py) \<in> rect_pixels q.
     l \<and> px = rect_x q \<or> r \<and> px = rect_x q + rect_w q - 1 \<or>
     t \<and> py = rect_y q \<or> b \<and> py = rect_y q + rect_h q - 1}"

lemma outlines_sides:
  assumes hit: "fst (dfb_clip_rectangle clip rect)" and ok: "rect_ok q"
    and q: "q = snd (dfb_clip_rectangle clip rect)"
    and lt: "l = (rgn_x1 clip \<le> rect_x rect)" "t = (rgn_y1 clip \<le> rect_y rect)"
    and rb: "r = (rect_x rect + rect_w rect - 1 \<le> rgn_x2 clip)" "b = (rect_y rect + rect_h rect - 1 \<le> rgn_y2 clip)"
    and outs: "dfb_build_clipped_rectangle_outlines rect clip = (q', outs)"
  shows "q' = q \<and> length outs \<le> 4 \<and> (\<forall>o' \<in> set outs. rect_ok o') \<and>
    sorted_wrt (\<lambda>u v. rect_pixels u \<inter> rect_pixels v = {}) outs \<and>
    (\<Union>o' \<in> set outs. rect_pixels o') = side_pixels q l t r b"
proof -
  obtain e where e: "dfb_clip_edges clip rect = (e, q)"
    using clip_edges_flags [OF hit] q by (metis prod.collapse)
  have f: "(e AND DFEF_LEFT \<noteq> 0) = l" "(e AND DFEF_TOP \<noteq> 0) = t"
    "(e AND DFEF_RIGHT \<noteq> 0) = r" "(e AND DFEF_BOTTOM \<noteq> 0) = b"
    using clip_edges_flags [OF hit] unfolding lt rb e by simp_all
  have q': "q' = q" and o: "outs = snd (dfb_build_clipped_rectangle_outlines rect clip)"
    using outs by (auto simp: dfb_build_clipped_rectangle_outlines_def e Let_def)
  note outs_def = o [unfolded dfb_build_clipped_rectangle_outlines_def e Let_def prod.case f snd_conv]
  have ok': "0 < rect_w q" "0 < rect_h q" using ok by (auto simp: rect_ok_def)
  have "length outs \<le> 4" unfolding outs_def by simp
  moreover have "\<forall>o' \<in> set outs. rect_ok o'"
    unfolding outs_def using ok' by (auto simp: rect_ok_def split: if_splits)
  moreover have "sorted_wrt (\<lambda>u v. rect_pixels u \<inter> rect_pixels v = {}) outs"
    unfolding outs_def using ok'
    by (cases l; cases t; cases r; cases b) (auto simp: rect_pixels_def)
  moreover have "(\<Union>o' \<in> set outs. rect_pixels o') = side_pixels q l t r b"
  proof (rule set_eqI, clarify)
    fix x y
    show "(x, y) \<in> (\<Union>o' \<in> set outs. rect_pixels o') \<longleftrightarrow> (x, y) \<in> side_pixels q l t r b"
      unfolding outs_def side_pixels_def using ok'
      by (cases l; cases t; cases r; cases b; simp add: mem_rect_pixels; linarith)
  qed
  ultimately show ?thesis using q' by blast
qed

lemma side_pixels_border:
  assumes "rect_ok rect" "region_ok clip" "fst (dfb_clip_rectangle clip rect)"
  shows "side_pixels (snd (dfb_clip_rectangle clip rect))
      (rgn_x1 clip \<le> rect_x rect) (rgn_y1 clip \<le> rect_y rect)
      (rect_x rect + rect_w rect - 1 \<le> rgn_x2 clip) (rect_y rect + rect_h rect - 1 \<le> rgn_y2 clip)
    = rect_border rect \<inter> region_pixels clip"
proof -
  define q where "q = snd (dfb_clip_rectangle clip rect)"
  have pix: "rect_pixels q = rect_pixels rect \<inter> region_pixels clip"
    unfolding q_def using rectangle_clip.clip_pix [OF assms] .
  have "rect_x q = (if rgn_x1 clip \<le> rect_x rect then rect_x rect else rgn_x1 clip)"
    "rect_y q = (if rgn_y1 clip \<le> rect_y rect then rect_y rect else rgn_y1 clip)"
    "rect_x q + rect_w q - 1 = (if rect_x rect + rect_w rect - 1 \<le> rgn_x2 clip then rect_x rect + rect_w rect - 1 else rgn_x2 clip)"
    "rect_y q + rect_h q - 1 = (if rect_y rect + rect_h rect - 1 \<le> rgn_y2 clip then rect_y rect + rect_h rect - 1 else rgn_y2 clip)"
    using clip_rectangle_eq [OF assms, folded q_def] by auto
  note edges = this
  show ?thesis
    unfolding q_def [symmetric]
  proof (rule set_eqI, clarify)
    fix a b
    have "(a, b) \<in> rect_pixels rect \<inter> region_pixels clip \<Longrightarrow>
       (rgn_x1 clip \<le> rect_x rect \<and> a = rect_x q \<longleftrightarrow> a = rect_x rect) \<and>
       (rect_x rect + rect_w rect - 1 \<le> rgn_x2 clip \<and> a = rect_x q + rect_w q - 1 \<longleftrightarrow> a = rect_x rect + rect_w rect - 1) \<and>
       (rgn_y1 clip \<le> rect_y rect \<and> b = rect_y q \<longleftrightarrow> b = rect_y rect) \<and>
       (rect_y rect + rect_h rect - 1 \<le> rgn_y2 clip \<and> b = rect_y q + rect_h q - 1 \<longleftrightarrow> b = rect_y rect + rect_h rect - 1)"
      unfolding edges(3,4) unfolding edges(1,2)
      by (simp add: mem_rect_pixels mem_region_pixels)
    then show "(a, b) \<in> side_pixels q (rgn_x1 clip \<le> rect_x rect) (rgn_y1 clip \<le> rect_y rect)
        (rect_x rect + rect_w rect - 1 \<le> rgn_x2 clip) (rect_y rect + rect_h rect - 1 \<le> rgn_y2 clip) \<longleftrightarrow>
      (a, b) \<in> rect_border rect \<inter> region_pixels clip"
      unfolding side_pixels_def rect_border_def pix by blast
  qed
qed

text \<open>
  Clipped outlines are drawn exactly once. For a non-empty rectangle and a well-formed clip,
  \<^verbatim>\<open>dfb_build_clipped_rectangle_outlines\<close> returns at most four non-empty rectangles that are pairwise disjoint
  and together cover exactly those border pixels of the original rectangle that lie in the clip
  (so sides that were cut off are not drawn along the clip edge, and corners are not drawn
  twice).
\<close>

theorem outlines_exact:
  assumes "rect_ok rect" and "region_ok clip"
    and "dfb_build_clipped_rectangle_outlines rect clip = (rect', outs)"
  shows "(\<Union>o' \<in> set outs. rect_pixels o') = rect_border rect \<inter> region_pixels clip \<and>
    sorted_wrt (\<lambda>u v. rect_pixels u \<inter> rect_pixels v = {}) outs \<and>
    length outs \<le> 4 \<and> (\<forall>o' \<in> set outs. rect_ok o')"
proof (cases "fst (dfb_clip_rectangle clip rect)")
  case True
  have "rect_ok (snd (dfb_clip_rectangle clip rect))"
    using rectangle_clip.clip_ok [OF assms(1,2) True] .
  from outlines_sides [OF True this refl refl refl refl refl assms(3)]
  show ?thesis using side_pixels_border [OF assms(1,2) True] by simp
next
  case False
  then have "rect_pixels rect \<inter> region_pixels clip = {}"
    using rectangle_clip.clip_hit [OF assms(1,2)] by simp
  moreover have "snd (dfb_build_clipped_rectangle_outlines rect clip) = []"
    unfolding dfb_build_clipped_rectangle_outlines_def clip_edges_miss [OF False] DFEF_NONE_def Let_def prod.case
    by simp
  then have "outs = []" using assms(3) by simp
  ultimately show ?thesis by (auto simp: rect_border_def)
qed

theorem outlines_exact_witness:
  "length (snd (dfb_build_clipped_rectangle_outlines \<lparr> rect_x = 0, rect_y = 0, rect_w = 10, rect_h = 10 \<rparr>
     \<lparr> rgn_x1 = 5, rgn_y1 = 0, rgn_x2 = 20, rgn_y2 = 20 \<rparr>)) \<le> 4"
  using outlines_exact [OF _ _ prod.collapse [symmetric], of "\<lparr> rect_x = 0, rect_y = 0, rect_w = 10, rect_h = 10 \<rparr>"
      "\<lparr> rgn_x1 = 5, rgn_y1 = 0, rgn_x2 = 20, rgn_y2 = 20 \<rparr>"]
  by (simp add: rect_ok_def region_ok_def)

end
