(* ===== verification/Clip_Blit.thy ===== *)
theory Clip_Blit
  imports Clip
begin

text \<open>
  Clipping of blits, from \<^verbatim>\<open>src/gfx/clip.c\<close>: the precheck and the plain blit, and the blit with flips
  and a 90-degree rotation.
\<close>

unbundle bit_operations_syntax

section \<open>Blits\<close>

definition dfb_clip_blit_precheck :: "DFBRegion \<Rightarrow> int \<Rightarrow> int \<Rightarrow> int \<Rightarrow> int \<Rightarrow> bool" where
  "dfb_clip_blit_precheck clip w h dx dy =
    (if w < 1 \<or> h < 1 \<or> rgn_x1 clip \<ge> dx + w \<or> rgn_x2 clip < dx \<or> rgn_y1 clip \<ge> dy + h \<or> rgn_y2 clip < dy
     then False else True)"

definition dfb_clip_blit :: "DFBRegion \<Rightarrow> DFBRectangle \<Rightarrow> int \<Rightarrow> int \<Rightarrow> DFBRectangle \<times> int \<times> int" where
  "dfb_clip_blit clip srect dx dy =
    (let (srect, dx) =
       (if rgn_x1 clip > dx then
          (let srect = srect\<lparr> rect_w := min ((rgn_x2 clip - rgn_x1 clip) + 1) ((dx + rect_w srect) - rgn_x1 clip) \<rparr>;
               srect = srect\<lparr> rect_x := rect_x srect + (rgn_x1 clip - dx) \<rparr>
           in (srect, rgn_x1 clip))
        else if rgn_x2 clip < dx + rect_w srect - 1 then (srect\<lparr> rect_w := rgn_x2 clip - dx + 1 \<rparr>, dx)
        else (srect, dx));
         (srect, dy) =
       (if rgn_y1 clip > dy then
          (let srect = srect\<lparr> rect_h := min ((rgn_y2 clip - rgn_y1 clip) + 1) ((dy + rect_h srect) - rgn_y1 clip) \<rparr>;
               srect = srect\<lparr> rect_y := rect_y srect + (rgn_y1 clip - dy) \<rparr>
           in (srect, rgn_y1 clip))
        else if rgn_y2 clip < dy + rect_h srect - 1 then (srect\<lparr> rect_h := rgn_y2 clip - dy + 1 \<rparr>, dy)
        else (srect, dy))
     in (srect, dx, dy))"

text \<open>
  C22: A clipped blit copies the same pixels. When the precheck succeeds, the destination of the
  clipped blit is exactly the part of the destination inside the clip, it is not empty, and the
  offset between source and destination is unchanged, so every destination pixel still
  receives the source pixel it would have received without clipping, and the new source
  rectangle lies within the old one.
\<close>

theorem clip_blit_exact:
  assumes "region_ok clip" and "dfb_clip_blit_precheck clip (rect_w srect) (rect_h srect) dx dy"
    and "dfb_clip_blit clip srect dx dy = (srect', dx', dy')"
  shows "rect_pixels \<lparr> rect_x = dx', rect_y = dy', rect_w = rect_w srect', rect_h = rect_h srect' \<rparr> =
      rect_pixels \<lparr> rect_x = dx, rect_y = dy, rect_w = rect_w srect, rect_h = rect_h srect \<rparr> \<inter> region_pixels clip \<and>
    rect_ok srect' \<and> rect_x srect' - dx' = rect_x srect - dx \<and> rect_y srect' - dy' = rect_y srect - dy \<and>
    rect_pixels srect' \<subseteq> rect_pixels srect"
proof -
  let ?s = "snd (snd (dfb_clip_blit clip srect dx dy))"
  have x: "dx' = max dx (rgn_x1 clip)" "rect_x srect' = rect_x srect + (dx' - dx)"
    "dx' + rect_w srect' = min (dx + rect_w srect) (rgn_x2 clip + 1)"
    and y: "dy' = max dy (rgn_y1 clip)" "rect_y srect' = rect_y srect + (dy' - dy)"
    "dy' + rect_h srect' = min (dy + rect_h srect) (rgn_y2 clip + 1)"
    using assms by (auto simp: dfb_clip_blit_def dfb_clip_blit_precheck_def region_ok_def Let_def split: if_splits)
  have d: "dx < dx + rect_w srect" "rgn_x1 clip < dx + rect_w srect" "dx \<le> rgn_x2 clip"
    "dy < dy + rect_h srect" "rgn_y1 clip < dy + rect_h srect" "dy \<le> rgn_y2 clip"
    "rgn_x1 clip \<le> rgn_x2 clip" "rgn_y1 clip \<le> rgn_y2 clip"
    using assms(1,2) by (auto simp: dfb_clip_blit_precheck_def region_ok_def split: if_splits)
  have "dx' + rect_w srect' > dx'" "dy' + rect_h srect' > dy'"
    using d unfolding x(3) y(3) unfolding x(1) y(1) by auto
  then have "rect_ok srect'" by (simp add: rect_ok_def)
  moreover have "rect_pixels \<lparr> rect_x = dx', rect_y = dy', rect_w = rect_w srect', rect_h = rect_h srect' \<rparr> =
      rect_pixels \<lparr> rect_x = dx, rect_y = dy, rect_w = rect_w srect, rect_h = rect_h srect \<rparr> \<inter> region_pixels clip"
    unfolding rect_pixels_def region_pixels_def by (simp add: x(3) y(3)) (auto simp: x(1) y(1))
  moreover have "rect_pixels srect' \<subseteq> rect_pixels srect"
  proof -
    have "dx \<le> dx'" "dy \<le> dy'" "dx' + rect_w srect' \<le> dx + rect_w srect" "dy' + rect_h srect' \<le> dy + rect_h srect"
      using x(1,3) y(1,3) by simp_all
    then show ?thesis using x(2) y(2) by (auto simp: mem_rect_pixels)
  qed
  ultimately show ?thesis using x(2) y(2) by simp
qed

theorem clip_blit_exact_witness:
  "dfb_clip_blit \<lparr> rgn_x1 = 0, rgn_y1 = 0, rgn_x2 = 9, rgn_y2 = 9 \<rparr>
     \<lparr> rect_x = 100, rect_y = 50, rect_w = 8, rect_h = 20 \<rparr> (-3) 4 =
   (\<lparr> rect_x = 103, rect_y = 50, rect_w = 5, rect_h = 6 \<rparr>, 0, 4)"
  using clip_blit_exact [of "\<lparr> rgn_x1 = 0, rgn_y1 = 0, rgn_x2 = 9, rgn_y2 = 9 \<rparr>"
      "\<lparr> rect_x = 100, rect_y = 50, rect_w = 8, rect_h = 20 \<rparr>" "-3" 4]
  by (simp add: dfb_clip_blit_def dfb_clip_blit_precheck_def region_ok_def)

subsection \<open>Flipped and rotated blits\<close>

abbreviation DSBLIT_ROTATE90 :: u32 where "DSBLIT_ROTATE90 \<equiv> 0x2000"

abbreviation DSBLIT_FLIP_HORIZONTAL :: u32 where "DSBLIT_FLIP_HORIZONTAL \<equiv> 0x01000000"

abbreviation DSBLIT_FLIP_VERTICAL :: u32 where "DSBLIT_FLIP_VERTICAL \<equiv> 0x02000000"

text \<open>The \<^verbatim>\<open>switch\<close> over the three flag bits, with the cases in the order of the code.\<close>

definition dfb_clip_blit_flipped_rotated ::
  "DFBRegion \<Rightarrow> DFBRectangle \<Rightarrow> DFBRectangle \<Rightarrow> u32 \<Rightarrow> DFBRectangle \<times> DFBRectangle" where
  "dfb_clip_blit_flipped_rotated clip srect drect flags =
    (let dest = dfb_region_from_rectangle drect;
         clipped = snd (dfb_region_region_intersect dest clip);
         drect = dfb_rectangle_from_region clipped;
         sel = flags AND (DSBLIT_FLIP_HORIZONTAL OR DSBLIT_FLIP_VERTICAL OR DSBLIT_ROTATE90);
         left = rgn_x1 clipped - rgn_x1 dest; top = rgn_y1 clipped - rgn_y1 dest;
         right = rgn_x2 dest - rgn_x2 clipped; bottom = rgn_y2 dest - rgn_y2 clipped;
         (ox, oy) =
           (if sel = 0 then (left, top)
            else if sel = DSBLIT_FLIP_HORIZONTAL then (right, top)
            else if sel = DSBLIT_FLIP_VERTICAL then (left, bottom)
            else if sel = DSBLIT_ROTATE90 then (bottom, left)
            else if sel = DSBLIT_FLIP_HORIZONTAL OR DSBLIT_FLIP_VERTICAL then (right, bottom)
            else if sel = DSBLIT_ROTATE90 OR DSBLIT_FLIP_VERTICAL OR DSBLIT_FLIP_HORIZONTAL then (top, right)
            else if sel = DSBLIT_ROTATE90 OR DSBLIT_FLIP_HORIZONTAL then (top, left)
            else if sel = DSBLIT_ROTATE90 OR DSBLIT_FLIP_VERTICAL then (bottom, right)
            else (0, 0));
         srect = srect\<lparr> rect_x := rect_x srect + ox, rect_y := rect_y srect + oy \<rparr>;
         srect = (if flags AND DSBLIT_ROTATE90 \<noteq> 0
                  then srect\<lparr> rect_w := rect_h drect, rect_h := rect_w drect \<rparr>
                  else srect\<lparr> rect_w := rect_w drect, rect_h := rect_h drect \<rparr>)
     in (srect, drect))"

text \<open>
  What a blit with these flags does, pixel by pixel: the offset in the source rectangle is
  flipped, then rotated (as \<^const>\<open>rotate_pixel\<close> does), and placed in the destination.
\<close>

definition blit_pixel :: "u32 \<Rightarrow> DFBRectangle \<Rightarrow> DFBRectangle \<Rightarrow> int \<times> int \<Rightarrow> int \<times> int" where
  "blit_pixel flags srect drect p =
    (let sx = fst p - rect_x srect; sy = snd p - rect_y srect;
         sx = (if flags AND DSBLIT_FLIP_HORIZONTAL \<noteq> 0 then rect_w srect - 1 - sx else sx);
         sy = (if flags AND DSBLIT_FLIP_VERTICAL \<noteq> 0 then rect_h srect - 1 - sy else sy);
         o' = rotate_pixel \<lparr> dim_w = rect_w srect, dim_h = rect_h srect \<rparr>
                (if flags AND DSBLIT_ROTATE90 \<noteq> 0 then 90 else 0) (sx, sy)
     in (rect_x drect + fst o', rect_y drect + snd o'))"

definition blit_sizes_match :: "u32 \<Rightarrow> DFBRectangle \<Rightarrow> DFBRectangle \<Rightarrow> bool" where
  "blit_sizes_match flags srect drect \<longleftrightarrow>
    (if flags AND DSBLIT_ROTATE90 \<noteq> 0 then rect_w srect = rect_h drect \<and> rect_h srect = rect_w drect
     else rect_w srect = rect_w drect \<and> rect_h srect = rect_h drect)"

lemma rect_pixels_subsetI:
  assumes "rect_x r \<le> rect_x q" "rect_x q + rect_w q \<le> rect_x r + rect_w r"
    "rect_y r \<le> rect_y q" "rect_y q + rect_h q \<le> rect_y r + rect_h r"
  shows "rect_pixels q \<subseteq> rect_pixels r"
  using assms by (auto simp: mem_rect_pixels)

lemma and_single_bit: "(w :: u32) AND push_bit n 1 = (if bit w n then push_bit n 1 else 0)"
  by (rule bit_word_eqI) (auto simp: bit_simps)

lemma blit_flag_cases:
  fixes flags :: u32
  shows "flags AND (DSBLIT_FLIP_HORIZONTAL OR DSBLIT_FLIP_VERTICAL OR DSBLIT_ROTATE90) =
    (if flags AND DSBLIT_FLIP_HORIZONTAL \<noteq> 0 then DSBLIT_FLIP_HORIZONTAL else 0) OR
    (if flags AND DSBLIT_FLIP_VERTICAL \<noteq> 0 then DSBLIT_FLIP_VERTICAL else 0) OR
    (if flags AND DSBLIT_ROTATE90 \<noteq> 0 then DSBLIT_ROTATE90 else 0)"
proof -
  have h: "flags AND DSBLIT_FLIP_HORIZONTAL = (if bit flags 24 then DSBLIT_FLIP_HORIZONTAL else 0)"
    using and_single_bit [of flags 24] by (simp add: push_bit_eq_mult)
  have v: "flags AND DSBLIT_FLIP_VERTICAL = (if bit flags 25 then DSBLIT_FLIP_VERTICAL else 0)"
    using and_single_bit [of flags 25] by (simp add: push_bit_eq_mult)
  have r: "flags AND DSBLIT_ROTATE90 = (if bit flags 13 then DSBLIT_ROTATE90 else 0)"
    using and_single_bit [of flags 13] by (simp add: push_bit_eq_mult)
  have "flags AND (DSBLIT_FLIP_HORIZONTAL OR DSBLIT_FLIP_VERTICAL OR DSBLIT_ROTATE90) =
     flags AND DSBLIT_FLIP_HORIZONTAL OR flags AND DSBLIT_FLIP_VERTICAL OR flags AND DSBLIT_ROTATE90"
    by (simp only: bit.conj_disj_distrib)
  then show ?thesis unfolding h v r by simp
qed

text \<open>
  C32: Clipping commutes with flips and rotation. For every combination of the flip and 90-degree
  flags, with matching sizes and a destination that meets the clip, the clipped destination is
  exactly the visible part, the sizes still match, the source rectangle only shrinks, and every
  source pixel is copied to the same destination pixel as in the unclipped blit.
\<close>

theorem clip_blit_flipped_exact:
  assumes "rect_ok drect" and "region_ok clip" and "blit_sizes_match flags srect drect"
    and "rect_pixels drect \<inter> region_pixels clip \<noteq> {}"
    and "dfb_clip_blit_flipped_rotated clip srect drect flags = (srect', drect')"
  shows "rect_pixels drect' = rect_pixels drect \<inter> region_pixels clip \<and>
    blit_sizes_match flags srect' drect' \<and> rect_pixels srect' \<subseteq> rect_pixels srect \<and>
    (\<forall>p. blit_pixel flags srect' drect' p = blit_pixel flags srect drect p)"
proof -
  define d where d: "d = dfb_region_from_rectangle drect"
  define c where c: "c = snd (dfb_region_region_intersect d clip)"
  have dok: "region_ok d" using assms(1) by (simp add: d region_ok_def rect_ok_def dfb_region_from_rectangle_def)
  have hit: "fst (dfb_region_region_intersect d clip)"
    using region_clip.clip_hit [OF dok assms(2)] assms(4) by (simp add: d region_pixels_from_rectangle)
  have cpix: "region_pixels c = rect_pixels drect \<inter> region_pixels clip"
    using region_clip.clip_pix [OF dok assms(2) hit] by (simp add: c d region_pixels_from_rectangle)
  have cok: "region_ok c" using region_clip.clip_ok [OF dok assms(2) hit] by (simp add: c)
  have sub: "rgn_x1 d \<le> rgn_x1 c" "rgn_y1 d \<le> rgn_y1 c" "rgn_x2 c \<le> rgn_x2 d" "rgn_y2 c \<le> rgn_y2 d"
    using region_pixels_subset_iff [OF cok, of d] cpix by (auto simp: d region_pixels_from_rectangle)
  have d': "drect' = dfb_rectangle_from_region c"
    using assms(5) by (auto simp: dfb_clip_blit_flipped_rotated_def Let_def c d split: prod.splits)
  obtain h v r where f: "h \<longleftrightarrow> flags AND DSBLIT_FLIP_HORIZONTAL \<noteq> 0" "v \<longleftrightarrow> flags AND DSBLIT_FLIP_VERTICAL \<noteq> 0"
    "r \<longleftrightarrow> flags AND DSBLIT_ROTATE90 \<noteq> 0" by blast
  have s': "srect' = srect\<lparr>
      rect_x := rect_x srect + (if r then (if h then rgn_y1 c - rgn_y1 d else rgn_y2 d - rgn_y2 c)
                                else (if h then rgn_x2 d - rgn_x2 c else rgn_x1 c - rgn_x1 d)),
      rect_y := rect_y srect + (if r then (if v then rgn_x2 d - rgn_x2 c else rgn_x1 c - rgn_x1 d)
                                else (if v then rgn_y2 d - rgn_y2 c else rgn_y1 c - rgn_y1 d)),
      rect_w := (if r then rect_h drect' else rect_w drect'),
      rect_h := (if r then rect_w drect' else rect_h drect') \<rparr>"
    using assms(5) unfolding dfb_clip_blit_flipped_rotated_def blit_flag_cases f [symmetric] Let_def d [symmetric] c [symmetric]
    by (cases h; cases v; cases r) (simp_all add: d')
  have D: "rect_x drect = rgn_x1 d" "rect_y drect = rgn_y1 d" "rect_w drect = rgn_x2 d - rgn_x1 d + 1"
    "rect_h drect = rgn_y2 d - rgn_y1 d + 1"
    by (simp_all add: d dfb_region_from_rectangle_def)
  have D': "rect_x drect' = rgn_x1 c" "rect_y drect' = rgn_y1 c" "rect_w drect' = rgn_x2 c - rgn_x1 c + 1"
    "rect_h drect' = rgn_y2 c - rgn_y1 c + 1"
    by (simp_all add: d' dfb_rectangle_from_region_def)
  have m: "rect_w srect = (if r then rect_h drect else rect_w drect)"
    "rect_h srect = (if r then rect_w drect else rect_h drect)"
    using assms(3) by (auto simp: blit_sizes_match_def f)
  have "blit_sizes_match flags srect' drect'" by (simp add: blit_sizes_match_def s' f)
  moreover have "rect_pixels srect' \<subseteq> rect_pixels srect"
    using sub by (intro rect_pixels_subsetI; cases h; cases v; cases r) (simp_all add: s' m D D')
  moreover have "blit_pixel flags srect' drect' p = blit_pixel flags srect drect p" for p
    unfolding blit_pixel_def f [symmetric] rotate_pixel_def Let_def
    by (cases h; cases v; cases r) (simp_all add: s' m D D')
  ultimately have "blit_sizes_match flags srect' drect' \<and> rect_pixels srect' \<subseteq> rect_pixels srect \<and>
    (\<forall>p. blit_pixel flags srect' drect' p = blit_pixel flags srect drect p)" by blast
  then show ?thesis using cpix by (simp add: d' rect_pixels_from_region)
qed

theorem clip_blit_flipped_exact_witness:
  "snd (dfb_clip_blit_flipped_rotated \<lparr> rgn_x1 = 0, rgn_y1 = 0, rgn_x2 = 9, rgn_y2 = 9 \<rparr>
     \<lparr> rect_x = 100, rect_y = 50, rect_w = 8, rect_h = 20 \<rparr>
     \<lparr> rect_x = -3, rect_y = 4, rect_w = 20, rect_h = 8 \<rparr> (DSBLIT_ROTATE90 OR DSBLIT_FLIP_VERTICAL)) =
   \<lparr> rect_x = 0, rect_y = 4, rect_w = 10, rect_h = 6 \<rparr>"
proof -
  have "(0, 4) \<in> rect_pixels \<lparr> rect_x = -3, rect_y = 4, rect_w = 20, rect_h = 8 \<rparr> \<inter>
      region_pixels \<lparr> rgn_x1 = 0, rgn_y1 = 0, rgn_x2 = 9, rgn_y2 = 9 \<rparr>"
    by (simp add: mem_rect_pixels mem_region_pixels)
  then have "rect_pixels \<lparr> rect_x = -3, rect_y = 4, rect_w = 20, rect_h = 8 \<rparr> \<inter>
      region_pixels \<lparr> rgn_x1 = 0, rgn_y1 = 0, rgn_x2 = 9, rgn_y2 = 9 \<rparr> \<noteq> {}" by blast
  then show ?thesis
    using clip_blit_flipped_exact [OF _ _ _ _ prod.collapse [symmetric],
        of "\<lparr> rect_x = -3, rect_y = 4, rect_w = 20, rect_h = 8 \<rparr>"
          "\<lparr> rgn_x1 = 0, rgn_y1 = 0, rgn_x2 = 9, rgn_y2 = 9 \<rparr>"
          "DSBLIT_ROTATE90 OR DSBLIT_FLIP_VERTICAL" "\<lparr> rect_x = 100, rect_y = 50, rect_w = 8, rect_h = 20 \<rparr>"]
    by (simp add: rect_ok_def region_ok_def blit_sizes_match_def dfb_clip_blit_flipped_rotated_def
        dfb_region_from_rectangle_def region_region_intersect_eq dfb_rectangle_from_region_def Let_def)
qed

end
