(* ===== verification/Probing.thy ===== *)
theory Probing
  imports DFB_Prelude
begin

text \<open>
  Open addressing with linear probing and tombstones, the scheme that
  \<^verbatim>\<open>lib/direct/hash.c\<close> and \<^verbatim>\<open>lib/direct/map.c\<close> share. The \<^verbatim>\<open>while\<close> loops over the slots
  are instances of \<open>scan\<close>; a scan that meets no stopping slot never returns. The locale \<open>probing\<close>
  proves, for any slot type, what the loops find and that insertion, removal and rehashing keep
  the table well formed; the locale \<open>dictionary\<close> is the contract the containers offer to
  their clients.
\<close>

section \<open>Counting slots\<close>

lemma length_filter_update:
  assumes "i < length xs"
  shows "length (filter P (xs[i := x])) + of_bool (P (xs ! i)) = length (filter P xs) + of_bool (P x)"
  using assms
proof (induction xs arbitrary: i)
  case (Cons y ys)
  then show ?case by (cases i) auto
qed simp

lemma length_filter_update_keep:
  "i < length xs \<Longrightarrow> P x = P (xs ! i) \<Longrightarrow> length (filter P (xs[i := x])) = length (filter P xs)"
  using length_filter_update [of i xs P x] by simp

lemma length_filter_update_lose:
  "i < length xs \<Longrightarrow> P (xs ! i) \<Longrightarrow> \<not> P x \<Longrightarrow> Suc (length (filter P (xs[i := x]))) = length (filter P xs)"
  using length_filter_update [of i xs P x] by simp

lemma length_filter_update_gain:
  "i < length xs \<Longrightarrow> \<not> P (xs ! i) \<Longrightarrow> P x \<Longrightarrow> length (filter P (xs[i := x])) = Suc (length (filter P xs))"
  using length_filter_update [of i xs P x] by simp

lemma option_filter_eq:
  assumes "\<And>e. x = Some e \<longleftrightarrow> y = Some e \<and> Q e"
  shows "x = (case y of Some e \<Rightarrow> if Q e then Some e else None | None \<Rightarrow> None)"
proof (cases y)
  case None
  then show ?thesis using assms [of "the x"] by (cases x) simp_all
next
  case (Some e)
  then show ?thesis using assms [of e] assms [of "the x"] by (cases x) simp_all
qed

lemma length_filter_split3:
  assumes "\<And>e. (if P e then 1 else 0) + (if Q e then 1 else 0) + (if R e then 1 else 0) = (1::nat)"
  shows "length (filter P xs) + length (filter Q xs) + length (filter R xs) = length xs"
proof (induction xs)
  case (Cons x xs)
  then show ?case using assms [of x] by (auto split: if_splits)
qed simp

section \<open>Circular scans\<close>

definition next_pos :: "nat \<Rightarrow> nat \<Rightarrow> nat" where
  "next_pos n pos = (if pos + 1 = n then 0 else pos + 1)"

partial_function (option) scan :: "('e \<Rightarrow> 'r option) \<Rightarrow> 'e list \<Rightarrow> nat \<Rightarrow> (nat \<times> 'r) option" where
  "scan body es pos =
    (case body (es ! pos) of
       Some r \<Rightarrow> Some (pos, r)
     | None \<Rightarrow> scan body es (next_pos (length es) pos))"

definition at_pos :: "nat \<Rightarrow> nat \<Rightarrow> nat \<Rightarrow> nat" where
  "at_pos n s i = (s + i) mod n"

lemma at_pos_less [simp]: "0 < n \<Longrightarrow> at_pos n s i < n"
  by (simp add: at_pos_def)

lemma at_pos_0 [simp]: "s < n \<Longrightarrow> at_pos n s 0 = s"
  by (simp add: at_pos_def)

lemma at_pos_next: "s < n \<Longrightarrow> at_pos n (next_pos n s) i = at_pos n s (Suc i)"
proof (cases "s + 1 = n")
  case True
  then have "s + Suc i = i + n" by simp
  then have "(s + Suc i) mod n = i mod n" by (simp only: mod_add_self2)
  then show ?thesis using True by (simp add: at_pos_def next_pos_def)
next
  case False
  then show "s < n \<Longrightarrow> ?thesis" by (simp add: at_pos_def next_pos_def)
qed

lemma next_pos_less: "s < n \<Longrightarrow> next_pos n s < n"
  by (auto simp: next_pos_def)

text \<open>Every slot is at exactly one distance from a starting position.\<close>

lemma at_pos_onto:
  assumes "p < n" "s < n"
  shows "\<exists>i < n. at_pos n s i = p"
proof (cases "s \<le> p")
  case True
  then show ?thesis using assms by (intro exI [of _ "p - s"]) (auto simp: at_pos_def)
next
  case False
  then show ?thesis using assms by (intro exI [of _ "n + p - s"]) (auto simp: at_pos_def)
qed

lemma scan_first:
  assumes "s < length es" and "\<forall>j < i. body (es ! at_pos (length es) s j) = None"
    and "body (es ! at_pos (length es) s i) = Some r"
  shows "scan body es s = Some (at_pos (length es) s i, r)"
  using assms
proof (induction i arbitrary: s)
  case 0
  then show ?case by (simp add: scan.simps)
next
  case (Suc i)
  let ?s = "next_pos (length es) s"
  have "body (es ! s) = None" using Suc.prems(1,2) by (metis at_pos_0 zero_less_Suc)
  moreover have "scan body es ?s = Some (at_pos (length es) ?s i, r)"
    using Suc.prems by (intro Suc.IH) (auto simp: at_pos_next next_pos_less)
  ultimately show ?case using Suc.prems(1) by (simp add: scan.simps [of body es s] at_pos_next)
qed

text \<open>A scan that has a stopping slot somewhere stops at the nearest one.\<close>

lemma scan_stops:
  assumes "s < length es" and "p < length es" and "body (es ! p) \<noteq> None"
  obtains i r where "i < length es" "scan body es s = Some (at_pos (length es) s i, r)"
    "body (es ! at_pos (length es) s i) = Some r" "\<forall>j < i. body (es ! at_pos (length es) s j) = None"
proof -
  obtain d where d: "d < length es" "at_pos (length es) s d = p"
    using at_pos_onto [OF assms(2,1)] by blast
  define i where "i = (LEAST j. body (es ! at_pos (length es) s j) \<noteq> None)"
  have i: "body (es ! at_pos (length es) s i) \<noteq> None" "i \<le> d"
    using LeastI [of "\<lambda>j. body (es ! at_pos (length es) s j) \<noteq> None" d] d(2) assms(3)
    by (auto simp: i_def intro: Least_le)
  have least: "\<forall>j < i. body (es ! at_pos (length es) s j) = None"
    using not_less_Least i_def by blast
  obtain r where r: "body (es ! at_pos (length es) s i) = Some r" using i(1) by blast
  show ?thesis
    using that [OF _ scan_first [OF assms(1) least r] r least] i(2) d(1) by simp
qed

text \<open>A scan without a stopping slot never returns.\<close>

lemma scan_diverges:
  assumes "s < length es" and "\<forall>e \<in> set es. body e = None"
  shows "scan body es s = None"
proof (rule ccontr)
  assume "scan body es s \<noteq> None"
  then obtain y where y: "scan body es s = Some y" by blast
  have "s < length es \<longrightarrow> (\<exists>e \<in> set es. body e \<noteq> None)"
    by (rule scan.raw_induct [where P = "\<lambda>body es s y. s < length es \<longrightarrow> (\<exists>e \<in> set es. body e \<noteq> None)", OF _ y])
      (metis (mono_tags, lifting) next_pos_less nth_mem option.case_eq_if)
  with assms show False by simp
qed

section \<open>Tables\<close>

text \<open>The loop that moves all live slots into a fresh table (\<^verbatim>\<open>direct_hash_insert\<close>, \<^verbatim>\<open>resize_map\<close>).\<close>

fun rehash :: "('e \<Rightarrow> bool) \<Rightarrow> (nat \<Rightarrow> 'e \<Rightarrow> nat) \<Rightarrow> 'e list \<Rightarrow> 'e list \<Rightarrow> 'e list option" where
  "rehash live home [] new = Some new"
| "rehash live home (e # es) new =
    (if live e then do {
       (pos, _) \<leftarrow> scan (\<lambda>x. if live x then None else Some ()) new (home (length new) e);
       rehash live home es (new[pos := e])
     }
     else rehash live home es new)"

definition uniq :: "('e \<Rightarrow> bool) \<Rightarrow> ('e \<Rightarrow> 'k) \<Rightarrow> 'e list \<Rightarrow> bool" where
  "uniq live keyof es \<longleftrightarrow> (\<forall>p < length es. \<forall>q < length es.
     live (es ! p) \<longrightarrow> live (es ! q) \<longrightarrow> keyof (es ! p) = keyof (es ! q) \<longrightarrow> p = q)"

definition reach :: "('e \<Rightarrow> bool) \<Rightarrow> 'e list \<Rightarrow> nat \<Rightarrow> nat \<Rightarrow> bool" where
  "reach vacant es s p \<longleftrightarrow> (\<exists>i < length es. at_pos (length es) s i = p \<and>
     (\<forall>j < i. \<not> vacant (es ! at_pos (length es) s j)))"

definition table_ok ::
  "('e \<Rightarrow> bool) \<Rightarrow> ('e \<Rightarrow> bool) \<Rightarrow> ('e \<Rightarrow> 'k) \<Rightarrow> ('k \<Rightarrow> nat) \<Rightarrow> 'e list \<Rightarrow> bool" where
  "table_ok live vacant keyof hashof es \<longleftrightarrow> es \<noteq> [] \<and> uniq live keyof es \<and>
     (\<forall>p < length es. live (es ! p) \<longrightarrow> reach vacant es (hashof (keyof (es ! p)) mod length es) p)"

text \<open>The slot that holds a key, and so the finite map a table stands for.\<close>

definition slot_of :: "('e \<Rightarrow> bool) \<Rightarrow> ('e \<Rightarrow> 'k) \<Rightarrow> 'e list \<Rightarrow> 'k \<Rightarrow> 'e option" where
  "slot_of live keyof es k = find (\<lambda>e. live e \<and> keyof e = k) es"

lemma reach_mono:
  assumes "reach vacant es s p" and "length fs = length es"
    and "\<And>q. q < length es \<Longrightarrow> vacant (fs ! q) \<Longrightarrow> vacant (es ! q)"
  shows "reach vacant fs s p"
proof -
  obtain i where i: "i < length es" "at_pos (length es) s i = p"
    "\<forall>j < i. \<not> vacant (es ! at_pos (length es) s j)"
    using assms(1) by (auto simp: reach_def)
  have "0 < length es" using i(1) by linarith
  then have "\<forall>j < i. \<not> vacant (fs ! at_pos (length es) s j)" using i(3) assms(3) at_pos_less by blast
  then show ?thesis using i(1,2) assms(2) by (auto simp: reach_def)
qed

lemma uniq_Cons:
  "uniq live keyof (e # es) \<longleftrightarrow>
    uniq live keyof es \<and> (live e \<longrightarrow> (\<forall>x \<in> set es. live x \<longrightarrow> keyof x \<noteq> keyof e))"
proof -
  have "(\<forall>x \<in> set es. live x \<longrightarrow> keyof x \<noteq> keyof e) \<longleftrightarrow> (\<forall>q < length es. live (es ! q) \<longrightarrow> keyof (es ! q) \<noteq> keyof e)"
    by (rule all_set_conv_all_nth)
  then show ?thesis
    unfolding uniq_def length_Cons All_less_Suc2 nth_Cons_0 nth_Cons_Suc by (simp add: eq_commute) blast
qed

lemma uniq_Nil [simp]: "uniq live keyof []"
  by (simp add: uniq_def)

lemma uniq_distinct: "uniq live keyof es \<Longrightarrow> distinct (map keyof (filter live es))"
  by (induction es) (auto simp: uniq_Cons)

lemma dom_slot_of: "dom (slot_of live keyof es) = set (map keyof (filter live es))"
  by (auto simp: slot_of_def dom_def find_None_iff image_iff)

lemma card_slot_of: "uniq live keyof es \<Longrightarrow> card (dom (slot_of live keyof es)) = length (filter live es)"
  using uniq_distinct [of live keyof es] by (simp only: dom_slot_of distinct_card length_map)

locale probing =
  fixes live :: "'e \<Rightarrow> bool" and vacant :: "'e \<Rightarrow> bool"
    and keyof :: "'e \<Rightarrow> 'k" and hashof :: "'k \<Rightarrow> nat"
  assumes live_nonvacant: "live e \<Longrightarrow> \<not> vacant e"
begin

lemma slot_of_None: "slot_of live keyof es k = None \<longleftrightarrow> \<not> (\<exists>p < length es. live (es ! p) \<and> keyof (es ! p) = k)"
  by (auto simp: slot_of_def find_None_iff in_set_conv_nth)

lemma slot_of_Some:
  assumes "uniq live keyof es"
  shows "slot_of live keyof es k = Some e \<longleftrightarrow> (\<exists>p < length es. es ! p = e \<and> live e \<and> keyof e = k)"
proof
  show "slot_of live keyof es k = Some e \<Longrightarrow> \<exists>p < length es. es ! p = e \<and> live e \<and> keyof e = k"
    by (auto simp: slot_of_def find_Some_iff)
  assume "\<exists>p < length es. es ! p = e \<and> live e \<and> keyof e = k"
  then obtain p where p: "p < length es" "es ! p = e" "live e" "keyof e = k" by blast
  then obtain f where f: "slot_of live keyof es k = Some f" using slot_of_None by blast
  then obtain q where "q < length es" "es ! q = f" "live f" "keyof f = k"
    by (auto simp: slot_of_def find_Some_iff)
  then show "slot_of live keyof es k = Some e" using assms p f by (metis uniq_def)
qed

text \<open>The lookup loop: it stops, and finds the slot of the key when there is one.\<close>

lemma locate:
  assumes ok: "table_ok live vacant keyof hashof es" and hole: "q < length es" "vacant (es ! q)"
    and body: "\<And>p. p < length es \<Longrightarrow> body (es ! p) =
        (if vacant (es ! p) then Some False else if live (es ! p) \<and> keyof (es ! p) = k then Some True else None)"
  obtains p where "scan body es (hashof k mod length es) = Some (p, slot_of live keyof es k \<noteq> None)"
    "p < length es" "slot_of live keyof es k \<noteq> None \<Longrightarrow> slot_of live keyof es k = Some (es ! p)"
proof -
  let ?n = "length es" and ?s = "hashof k mod length es"
  have n: "0 < ?n" using hole(1) by linarith
  then have s: "?s < ?n" by simp
  obtain i r where i: "i < ?n" "scan body es ?s = Some (at_pos ?n ?s i, r)"
    "body (es ! at_pos ?n ?s i) = Some r" "\<forall>j < i. body (es ! at_pos ?n ?s j) = None"
    using scan_stops [OF s hole(1), of body] hole(2) body [OF hole(1)] by auto
  let ?p = "at_pos ?n ?s i"
  have p: "?p < ?n" using n by simp
  have u: "uniq live keyof es" using ok by (simp add: table_ok_def)
  have sound: "slot_of live keyof es k = Some (es ! ?p)" if r
    using i(3) that p slot_of_Some [OF u] by (auto simp: body [OF p] split: if_splits)
  have "r" if found: "slot_of live keyof es k \<noteq> None"
  proof -
    obtain p' where p': "p' < ?n" "live (es ! p')" "keyof (es ! p') = k"
      using found [unfolded slot_of_None] by blast
    have "reach vacant es (hashof (keyof (es ! p')) mod ?n) p'"
      using ok [unfolded table_ok_def, THEN conjunct2, THEN conjunct2] p' by blast
    then have "reach vacant es ?s p'" by (simp only: p'(3))
    then obtain d where d: "at_pos ?n ?s d = p'" "\<forall>j < d. \<not> vacant (es ! at_pos ?n ?s j)"
      unfolding reach_def by blast
    have "body (es ! at_pos ?n ?s d) \<noteq> None" using d(1) p' live_nonvacant by (simp add: body [OF p'(1)])
    then have "i \<le> d" using i(4) leI by metis
    then have "\<not> vacant (es ! ?p)" using d p'(2) live_nonvacant le_neq_implies_less by metis
    then show ?thesis using i(3) by (auto simp: body [OF p] split: if_splits)
  qed
  then have "r = (slot_of live keyof es k \<noteq> None)" using sound by auto
  then show ?thesis using that [of ?p] i(2) p sound by auto
qed

text \<open>The insertion loop for a key that is not in the table: it stops at a slot that may be used.\<close>

lemma locate_free:
  assumes n: "es \<noteq> []" and hole: "q < length es" "\<not> live (es ! q)" and fresh: "slot_of live keyof es k = None"
    and body: "\<And>p. p < length es \<Longrightarrow> body (es ! p) =
        (if \<not> live (es ! p) then Some a else if keyof (es ! p) = k then Some b else None)"
  obtains p where "scan body es (hashof k mod length es) = Some (p, a)"
    "p < length es" "\<not> live (es ! p)" "reach vacant es (hashof k mod length es) p"
proof -
  let ?n = "length es" and ?s = "hashof k mod length es"
  have s: "?s < ?n" using n by simp
  obtain i r where i: "i < ?n" "scan body es ?s = Some (at_pos ?n ?s i, r)"
    "body (es ! at_pos ?n ?s i) = Some r" "\<forall>j < i. body (es ! at_pos ?n ?s j) = None"
    using scan_stops [OF s hole(1), of body] hole(2) body [OF hole(1)] by auto
  let ?p = "at_pos ?n ?s i"
  have p: "?p < ?n" using n by simp
  have dead: "\<not> live (es ! ?p)"
    using i(3) fresh p slot_of_None by (auto simp: body [OF p] split: if_splits)
  have "live (es ! q)" if "q < ?n" "body (es ! q) = None" for q
    using that by (simp add: body split: if_splits)
  then have "\<forall>j < i. \<not> vacant (es ! at_pos ?n ?s j)"
    using i(4) live_nonvacant at_pos_less n by (metis length_greater_0_conv)
  then have "reach vacant es ?s ?p" using i(1) by (auto simp: reach_def)
  moreover have "r = a" using i(3) dead by (simp add: body [OF p])
  ultimately show ?thesis using that [of ?p] i(2) p dead by simp
qed

lemma scan_free_slot:
  assumes "q < length es" "\<not> live (es ! q)" "s < length es"
  shows "\<exists>i. scan (\<lambda>x. if live x then None else Some ()) es s = Some (i, ()) \<and> i < length es \<and>
    \<not> live (es ! i) \<and> reach vacant es s i"
proof -
  define body where "body = (\<lambda>x. if live x then None else Some ())"
  have "body (es ! q) \<noteq> None" using assms(2) by (simp add: body_def)
  then obtain i r where i: "i < length es" "scan body es s = Some (at_pos (length es) s i, r)"
    "body (es ! at_pos (length es) s i) = Some r" "\<forall>j < i. body (es ! at_pos (length es) s j) = None"
    by (rule scan_stops [OF assms(3,1)])
  have "live e" if "body e = None" for e using that by (simp add: body_def split: if_splits)
  then have "\<forall>j < i. \<not> vacant (es ! at_pos (length es) s j)" using i(4) live_nonvacant by blast
  then have "reach vacant es s (at_pos (length es) s i)" using i(1) by (auto simp: reach_def)
  moreover have "\<not> live (es ! at_pos (length es) s i)" using i(3) by (auto simp: body_def split: if_splits)
  moreover have "at_pos (length es) s i < length es" using assms(3) by (intro at_pos_less) linarith
  ultimately show ?thesis using i(2) by (auto simp: body_def)
qed

lemma store_ok:
  assumes ok: "table_ok live vacant keyof hashof es" and p: "p < length es" "\<not> live (es ! p)"
    and path: "reach vacant es (hashof (keyof x) mod length es) p"
    and fresh: "slot_of live keyof es (keyof x) = None" and x: "live x"
  shows "table_ok live vacant keyof hashof (es[p := x]) \<and>
    slot_of live keyof (es[p := x]) = (slot_of live keyof es)(keyof x \<mapsto> x)"
proof -
  let ?fs = "es[p := x]"
  have u: "uniq live keyof ?fs"
    using ok fresh p unfolding table_ok_def uniq_def slot_of_None by (auto simp: nth_list_update)
  have keep: "reach vacant ?fs s q" if "reach vacant es s q" for s q
    using that by (rule reach_mono) (auto simp: nth_list_update p(1) live_nonvacant [OF x] split: if_splits)
  have "table_ok live vacant keyof hashof ?fs"
    using ok u path keep by (auto simp: table_ok_def nth_list_update p(1))
  moreover have "slot_of live keyof ?fs k = ((slot_of live keyof es)(keyof x \<mapsto> x)) k" for k
  proof (cases "k = keyof x")
    case True
    then show ?thesis using p(1) x by (auto simp: slot_of_Some [OF u] intro!: exI [of _ p])
  next
    case False
    have "slot_of live keyof ?fs k = Some e \<longleftrightarrow> slot_of live keyof es k = Some e" for e
    proof -
      have ue: "uniq live keyof es" using ok by (simp add: table_ok_def)
      show ?thesis
        unfolding slot_of_Some [OF u] slot_of_Some [OF ue]
        using False p by (auto simp: nth_list_update split: if_splits)
    qed
    then show ?thesis using False by (metis fun_upd_other not_None_eq)
  qed
  ultimately show ?thesis by auto
qed

lemma remove_ok:
  assumes ok: "table_ok live vacant keyof hashof es" and p: "p < length es" "live (es ! p)"
    and t: "\<not> live t" "\<not> vacant t"
  shows "table_ok live vacant keyof hashof (es[p := t]) \<and>
    slot_of live keyof (es[p := t]) = (slot_of live keyof es)(keyof (es ! p) := None)"
proof -
  let ?fs = "es[p := t]"
  have ue: "uniq live keyof es" using ok by (simp add: table_ok_def)
  have u: "uniq live keyof ?fs"
    using ue t p unfolding uniq_def by (auto simp: nth_list_update)
  have keep: "reach vacant ?fs s q" if "reach vacant es s q" for s q
    using that by (rule reach_mono) (auto simp: nth_list_update p(1) t split: if_splits)
  have "table_ok live vacant keyof hashof ?fs"
    using ok u keep t by (auto simp: table_ok_def nth_list_update p(1))
  moreover have "slot_of live keyof ?fs k = Some e \<longleftrightarrow>
      ((slot_of live keyof es)(keyof (es ! p) := None)) k = Some e" for k e
    unfolding fun_upd_apply slot_of_Some [OF u]
    using ue p t slot_of_Some [OF ue, of k e] unfolding uniq_def
    by (auto simp: nth_list_update split: if_splits)
  then have "slot_of live keyof ?fs = (slot_of live keyof es)(keyof (es ! p) := None)"
    by (intro ext) (metis not_None_eq)
  ultimately show ?thesis by simp
qed

text \<open>Removing several entries at once, as an iteration may.\<close>

lemma kill_ok:
  assumes ok: "table_ok live vacant keyof hashof es" and len: "length fs = length es"
    and kill: "\<And>p. p < length es \<Longrightarrow> fs ! p = es ! p \<or> live (es ! p) \<and> \<not> live (fs ! p) \<and> \<not> vacant (fs ! p)"
  shows "table_ok live vacant keyof hashof fs \<and>
    (slot_of live keyof fs k = Some e \<longleftrightarrow> slot_of live keyof es k = Some e \<and> e \<in> set fs)"
proof -
  have ue: "uniq live keyof es" using ok by (simp add: table_ok_def)
  have same: "fs ! p = es ! p" if "p < length es" "live (fs ! p)" for p using kill that by blast
  have u: "uniq live keyof fs"
    unfolding uniq_def len using ue same unfolding uniq_def by metis
  have keep: "reach vacant fs s q" if "reach vacant es s q" for s q
    using that len by (rule reach_mono) (use kill in force)
  have "reach vacant fs (hashof (keyof (fs ! p)) mod length fs) p" if "p < length fs" "live (fs ! p)" for p
  proof -
    have "reach vacant es (hashof (keyof (es ! p)) mod length es) p"
      using ok [unfolded table_ok_def, THEN conjunct2, THEN conjunct2] that same len by metis
    then show ?thesis using keep same that len by simp
  qed
  then have "table_ok live vacant keyof hashof fs"
    using ok u len by (auto simp: table_ok_def)
  moreover have "slot_of live keyof fs k = Some e \<longleftrightarrow> slot_of live keyof es k = Some e \<and> e \<in> set fs"
    unfolding slot_of_Some [OF u] slot_of_Some [OF ue] in_set_conv_nth
    using same ue len kill unfolding uniq_def by metis
  ultimately show ?thesis by blast
qed

text \<open>Overwriting a tombstone by a tombstone changes nothing.\<close>

lemma dead_ok:
  assumes ok: "table_ok live vacant keyof hashof es" and p: "p < length es" "\<not> live (es ! p)"
    and t: "\<not> live t" "\<not> vacant t"
  shows "table_ok live vacant keyof hashof (es[p := t]) \<and> slot_of live keyof (es[p := t]) = slot_of live keyof es"
proof -
  let ?fs = "es[p := t]"
  have ue: "uniq live keyof es" using ok by (simp add: table_ok_def)
  have u: "uniq live keyof ?fs"
    using ue t p unfolding uniq_def by (auto simp: nth_list_update)
  have keep: "reach vacant ?fs s q" if "reach vacant es s q" for s q
    using that by (rule reach_mono) (auto simp: nth_list_update p(1) t split: if_splits)
  have "table_ok live vacant keyof hashof ?fs"
    using ok u keep t by (auto simp: table_ok_def nth_list_update p(1))
  moreover have "slot_of live keyof ?fs k = Some e \<longleftrightarrow> slot_of live keyof es k = Some e" for k e
    unfolding slot_of_Some [OF u] slot_of_Some [OF ue]
    using p t by (auto simp: nth_list_update)
  then have "slot_of live keyof ?fs = slot_of live keyof es" by (intro ext) (metis not_None_eq)
  ultimately show ?thesis by simp
qed

text \<open>Rehashing into an empty table with room for all live slots returns and keeps the map.\<close>

lemma rehash_ok:
  assumes "table_ok live vacant keyof hashof new"
    and "\<forall>e \<in> set es. live e \<longrightarrow> home (length new) e = hashof (keyof e) mod length new"
    and "uniq live keyof es"
    and "\<forall>e \<in> set es. live e \<longrightarrow> slot_of live keyof new (keyof e) = None"
    and "length (filter live es) + length (filter live new) < length new"
    and "\<forall>e \<in> set new. live e \<or> vacant e"
  shows "\<exists>fs. rehash live home es new = Some fs \<and> length fs = length new \<and>
     table_ok live vacant keyof hashof fs \<and>
     slot_of live keyof fs = slot_of live keyof new ++ slot_of live keyof es \<and>
     length (filter live fs) = length (filter live es) + length (filter live new) \<and>
     (\<forall>e \<in> set fs. live e \<or> vacant e) \<and> (\<forall>e \<in> set fs. live e \<longrightarrow> e \<in> set es \<or> e \<in> set new)"
  using assms
proof (induction es arbitrary: new)
  case Nil
  have "slot_of live keyof [] = Map.empty" by (auto simp: slot_of_def)
  then show ?case using Nil.prems by simp
next
  case (Cons e es)
  have ue: "uniq live keyof es" using Cons.prems(3) by (simp add: uniq_Cons)
  show ?case
  proof (cases "live e")
    case False
    then have "slot_of live keyof (e # es) = slot_of live keyof es" by (auto simp: slot_of_def fun_eq_iff)
    then show ?thesis using Cons.IH [OF Cons.prems(1) _ ue] Cons.prems False by auto
  next
    case True
    have fresh: "slot_of live keyof new (keyof e) = None" using Cons.prems(4) True by simp
    have ne: "new \<noteq> []" using Cons.prems(1) by (simp add: table_ok_def)
    have "length (filter live new) < length new" using Cons.prems(5) by simp
    then have "\<exists>x \<in> set new. \<not> live x" using length_filter_less by (metis filter_True less_irrefl)
    then obtain q where q: "q < length new" "\<not> live (new ! q)" by (auto simp: in_set_conv_nth)
    have home: "home (length new) e = hashof (keyof e) mod length new" using Cons.prems(2) True by simp
    obtain i where i: "scan (\<lambda>x. if live x then None else Some ()) new (hashof (keyof e) mod length new) = Some (i, ())"
      "i < length new" "\<not> live (new ! i)" "reach vacant new (hashof (keyof e) mod length new) i"
      using scan_free_slot [OF q] ne by (metis mod_less_divisor length_greater_0_conv)
    let ?new = "new[i := e]"
    note st = store_ok [OF Cons.prems(1) i(2,3,4) fresh True]
    have other: "\<forall>x \<in> set es. live x \<longrightarrow> keyof x \<noteq> keyof e"
      using Cons.prems(3) True by (simp add: uniq_Cons)
    have len: "length (filter live ?new) = Suc (length (filter live new))"
      using length_filter_update_gain [OF i(2), of live e] i(3) True by simp
    have "\<exists>fs. rehash live home es ?new = Some fs \<and> length fs = length ?new \<and>
     table_ok live vacant keyof hashof fs \<and>
     slot_of live keyof fs = slot_of live keyof ?new ++ slot_of live keyof es \<and>
     length (filter live fs) = length (filter live es) + length (filter live ?new) \<and>
     (\<forall>e \<in> set fs. live e \<or> vacant e) \<and> (\<forall>x \<in> set fs. live x \<longrightarrow> x \<in> set es \<or> x \<in> set ?new)"
    proof (rule Cons.IH)
      show "\<forall>x \<in> set ?new. live x \<or> vacant x"
        using Cons.prems(6) True set_update_subset_insert [of new i e] by blast
    qed (use st Cons.prems other ue len True in auto)
    then obtain fs where fs: "rehash live home es ?new = Some fs" "length fs = length new"
      "table_ok live vacant keyof hashof fs"
      "slot_of live keyof fs = slot_of live keyof ?new ++ slot_of live keyof es"
      "length (filter live fs) = length (filter live es) + length (filter live ?new)"
      "\<forall>e \<in> set fs. live e \<or> vacant e" "\<forall>x \<in> set fs. live x \<longrightarrow> x \<in> set es \<or> x \<in> set ?new" by auto
    have none: "slot_of live keyof es (keyof e) = None"
      using other by (auto simp: slot_of_def find_None_iff)
    have "slot_of live keyof (e # es) = (slot_of live keyof es)(keyof e \<mapsto> e)"
      using True by (auto simp: slot_of_def fun_eq_iff)
    then have "slot_of live keyof fs = slot_of live keyof new ++ slot_of live keyof (e # es)"
      using fs(4) st none by (auto simp: fun_eq_iff map_add_def split: option.splits)
    moreover have "rehash live home (e # es) new = Some fs"
      using fs(1) True i(1) by (simp add: home)
    moreover have "\<forall>x \<in> set fs. live x \<longrightarrow> x \<in> set (e # es) \<or> x \<in> set new"
      using fs(7) set_update_subset_insert [of new i e] by auto
    ultimately show ?thesis using fs True len by auto
  qed
qed

lemma fresh_table_ok:
  assumes "0 < n" and "vacant z"
  shows "table_ok live vacant keyof hashof (replicate n z) \<and> slot_of live keyof (replicate n z) = Map.empty \<and>
    length (filter live (replicate n z)) = 0"
  using assms live_nonvacant [of z]
  by (auto simp: table_ok_def uniq_def slot_of_def find_None_iff filter_replicate)

end

end
