(* ===== verification/Dictionary.thy ===== *)
theory Dictionary
  imports DFB_Prelude
begin

text \<open>
  The contract of the keyed containers of \<^verbatim>\<open>lib/direct\<close> (hash table, map, tree), as their clients
  rely on it: insertion of a fresh key, removal, lookup. A container that keeps the contract
  answers every sequence of operations as a finite map would. Operations are partial, since
  a C loop may not return.
\<close>

datatype ('k, 'v) dict_op = Insert 'k 'v | Remove 'k | Lookup 'k

datatype 'v dict_answer = Done bool | Found "'v option"

text \<open>Running operations on a container; \<^term>\<open>Done b\<close> tells whether the result was \<^const>\<open>DR_OK\<close>.\<close>

fun dict_run :: "('d \<Rightarrow> 'k \<Rightarrow> 'v \<Rightarrow> ('d \<times> DirectResult) option) \<Rightarrow> ('d \<Rightarrow> 'k \<Rightarrow> ('d \<times> DirectResult) option) \<Rightarrow>
    ('d \<Rightarrow> 'k \<Rightarrow> 'v option option) \<Rightarrow> 'd \<Rightarrow> ('k, 'v) dict_op list \<Rightarrow> ('d \<times> 'v dict_answer list) option" where
  "dict_run ins rem look d [] = Some (d, [])"
| "dict_run ins rem look d (Insert k v # ops) = do {
     (d, r) \<leftarrow> ins d k v;
     (d, rs) \<leftarrow> dict_run ins rem look d ops;
     Some (d, Done (r = DR_OK) # rs) }"
| "dict_run ins rem look d (Remove k # ops) = do {
     (d, r) \<leftarrow> rem d k;
     (d, rs) \<leftarrow> dict_run ins rem look d ops;
     Some (d, Done (r = DR_OK) # rs) }"
| "dict_run ins rem look d (Lookup k # ops) = do {
     f \<leftarrow> look d k;
     (d, rs) \<leftarrow> dict_run ins rem look d ops;
     Some (d, Found f # rs) }"

text \<open>The same operations on a finite map; inserting a key that is present is not allowed.\<close>

fun map_run :: "('k \<Rightarrow> 'v option) \<Rightarrow> ('k, 'v) dict_op list \<Rightarrow> (('k \<Rightarrow> 'v option) \<times> 'v dict_answer list) option" where
  "map_run m [] = Some (m, [])"
| "map_run m (Insert k v # ops) =
    (if m k = None then map_option (\<lambda>(m, rs). (m, Done True # rs)) (map_run (m(k \<mapsto> v)) ops) else None)"
| "map_run m (Remove k # ops) =
    map_option (\<lambda>(m', rs). (m', Done (m k \<noteq> None) # rs)) (map_run (m(k := None)) ops)"
| "map_run m (Lookup k # ops) = map_option (\<lambda>(m', rs). (m', Found (m k) # rs)) (map_run m ops)"

fun op_entries :: "('k, 'v) dict_op list \<Rightarrow> ('k \<times> 'v) list" where
  "op_entries [] = []"
| "op_entries (Insert k v # ops) = (k, v) # op_entries ops"
| "op_entries (_ # ops) = op_entries ops"

text \<open>
  \<open>room n d\<close> says that \<open>n\<close> more insertions fit (capacity limits of the code), \<open>storable k v\<close> that
  \<open>v\<close> may be stored under \<open>k\<close> (it is not a value the container reserves for itself),
  \<open>known k\<close> that keys like \<open>k\<close> are told apart.
\<close>

locale lookup_table =
  fixes inv :: "'d \<Rightarrow> bool" and amap :: "'d \<Rightarrow> 'k \<Rightarrow> 'v option"
    and look :: "'d \<Rightarrow> 'k \<Rightarrow> 'v option option" and known :: "'k \<Rightarrow> bool"
  assumes lookup_amap: "inv d \<Longrightarrow> known k \<Longrightarrow> look d k = Some (amap d k)"

locale dictionary = lookup_table inv amap look "\<lambda>_. True"
  for inv :: "'d \<Rightarrow> bool" and amap :: "'d \<Rightarrow> 'k \<Rightarrow> 'v option" and look :: "'d \<Rightarrow> 'k \<Rightarrow> 'v option option" +
  fixes ins :: "'d \<Rightarrow> 'k \<Rightarrow> 'v \<Rightarrow> ('d \<times> DirectResult) option"
    and rem :: "'d \<Rightarrow> 'k \<Rightarrow> ('d \<times> DirectResult) option"
    and storable :: "'k \<Rightarrow> 'v \<Rightarrow> bool" and room :: "nat \<Rightarrow> 'd \<Rightarrow> bool"
  assumes insert_fresh: "\<lbrakk> inv d; amap d k = None; storable k v; room (Suc n) d \<rbrakk> \<Longrightarrow>
      \<exists>d'. ins d k v = Some (d', DR_OK) \<and> inv d' \<and> amap d' = (amap d)(k \<mapsto> v) \<and> room n d'"
    and remove_present: "\<lbrakk> inv d; amap d k = Some v; room n d \<rbrakk> \<Longrightarrow>
      \<exists>d'. rem d k = Some (d', DR_OK) \<and> inv d' \<and> amap d' = (amap d)(k := None) \<and> room n d'"
    and remove_absent: "\<lbrakk> inv d; amap d k = None \<rbrakk> \<Longrightarrow> \<exists>r. rem d k = Some (d, r) \<and> r \<noteq> DR_OK"
begin

lemma run_refines_map:
  assumes "inv d" and "room (length (op_entries ops)) d" and "\<forall>(k, v) \<in> set (op_entries ops). storable k v"
    and "map_run (amap d) ops = Some (m, rs)"
  shows "\<exists>d'. dict_run ins rem look d ops = Some (d', rs) \<and> inv d' \<and> amap d' = m"
  using assms
proof (induction ops arbitrary: d rs)
  case (Cons x ops)
  show ?case
  proof (cases x)
    case (Insert k v)
    with Cons.prems(4) have none: "amap d k = None" by (auto split: if_splits)
    obtain rs' where rs': "map_run ((amap d)(k \<mapsto> v)) ops = Some (m, rs')" "rs = Done True # rs'"
      using Cons.prems(4) Insert none by auto
    obtain d' where d': "ins d k v = Some (d', DR_OK)" "inv d'" "amap d' = (amap d)(k \<mapsto> v)"
      "room (length (op_entries ops)) d'"
      using insert_fresh [OF Cons.prems(1) none, of v "length (op_entries ops)"] Cons.prems(2,3) Insert by auto
    have "\<forall>(k, v) \<in> set (op_entries ops). storable k v" using Cons.prems(3) Insert by simp
    from Cons.IH [OF d'(2,4) this rs'(1) [folded d'(3)]]
    show ?thesis using d'(1) rs'(2) Insert by auto
  next
    case (Remove k)
    obtain rs' where rs': "map_run ((amap d)(k := None)) ops = Some (m, rs')" "rs = Done (amap d k \<noteq> None) # rs'"
      using Cons.prems(4) Remove by auto
    have sto: "\<forall>(k, v) \<in> set (op_entries ops). storable k v" using Cons.prems(3) Remove by simp
    show ?thesis
    proof (cases "amap d k")
      case None
      then have "(amap d)(k := None) = amap d" by auto
      moreover have "room (length (op_entries ops)) d" using Cons.prems(2) Remove by simp
      ultimately show ?thesis
        using Cons.IH [OF Cons.prems(1), of rs'] remove_absent [OF Cons.prems(1) None] sto rs' Remove None by auto
    next
      case (Some v)
      obtain d' where d': "rem d k = Some (d', DR_OK)" "inv d'" "amap d' = (amap d)(k := None)"
        "room (length (op_entries ops)) d'"
        using remove_present [OF Cons.prems(1) Some, of "length (op_entries ops)"] Cons.prems(2) Remove by auto
      from Cons.IH [OF d'(2,4) sto rs'(1) [folded d'(3)]]
      show ?thesis using d'(1) rs'(2) Remove Some by auto
    qed
  next
    case (Lookup k)
    obtain rs' where rs': "map_run (amap d) ops = Some (m, rs')" "rs = Found (amap d k) # rs'"
      using Cons.prems(4) Lookup by auto
    then show ?thesis
      using Cons.IH [of d rs'] Cons.prems lookup_amap [OF Cons.prems(1) TrueI, of k] Lookup by auto
  qed
qed simp

end

text \<open>The contract of a container whose insertion replaces what is stored under the key.\<close>

fun put_all :: "('d \<Rightarrow> 'k \<Rightarrow> 'v \<Rightarrow> 'd option) \<Rightarrow> 'd \<Rightarrow> ('k \<times> 'v) list \<Rightarrow> 'd option" where
  "put_all put d [] = Some d"
| "put_all put d ((k, v) # kvs) = do { d \<leftarrow> put d k v; put_all put d kvs }"

locale overwrite_table = lookup_table inv amap look known
  for inv :: "'d \<Rightarrow> bool" and amap :: "'d \<Rightarrow> 'k \<Rightarrow> 'v option" and look :: "'d \<Rightarrow> 'k \<Rightarrow> 'v option option"
    and known :: "'k \<Rightarrow> bool" +
  fixes put :: "'d \<Rightarrow> 'k \<Rightarrow> 'v \<Rightarrow> 'd option" and storable :: "'k \<Rightarrow> 'v \<Rightarrow> bool"
  assumes put_amap: "\<lbrakk> inv d; storable k v \<rbrakk> \<Longrightarrow> \<exists>d'. put d k v = Some d' \<and> inv d' \<and> amap d' = (amap d)(k \<mapsto> v)"
begin

lemma put_all_amap:
  assumes "inv d" and "\<forall>(k, v) \<in> set kvs. storable k v"
  shows "\<exists>d'. put_all put d kvs = Some d' \<and> inv d' \<and> amap d' = amap d ++ map_of (rev kvs)"
  using assms
proof (induction kvs arbitrary: d)
  case (Cons kv kvs)
  obtain k v where kv: "kv = (k, v)" by (cases kv)
  obtain d' where d': "put d k v = Some d'" "inv d'" "amap d' = (amap d)(k \<mapsto> v)"
    using put_amap [OF Cons.prems(1), of k v] Cons.prems(2) kv by auto
  obtain d'' where d'': "put_all put d' kvs = Some d''" "inv d''" "amap d'' = amap d' ++ map_of (rev kvs)"
    using Cons.IH [OF d'(2)] Cons.prems(2) by auto
  have "amap d ++ map_of (rev (kv # kvs)) = (amap d)(k \<mapsto> v) ++ map_of (rev kvs)"
    by (simp add: kv map_add_assoc)
  then show ?case using d'(1,3) d'' by (simp add: kv)
qed simp

end

end
