(* ===== verification/Direct_Hash.thy ===== *)
theory Direct_Hash
  imports Probing Dictionary
begin

text \<open>
  The hash table of \<^verbatim>\<open>lib/direct/hash.c\<close>: keys are \<^verbatim>\<open>unsigned long\<close>, values are pointers, where
  \<^verbatim>\<open>NULL\<close> marks a slot never used and \<^verbatim>\<open>(void*) -1\<close> one whose entry was removed.
\<close>

record DirectHashElement =
  he_key :: u64
  he_value :: u64

abbreviation (input) DIRECT_HASH_ELEMENT_REMOVED :: u64 where "DIRECT_HASH_ELEMENT_REMOVED \<equiv> - 1"

text \<open>\<^verbatim>\<open>Elements\<close> is \<^term>\<open>None\<close> while the pointer is \<^verbatim>\<open>NULL\<close>, that is before the first insertion.\<close>

record DirectHash =
  dh_size :: nat
  dh_count :: nat
  dh_removed :: nat
  dh_elements :: "DirectHashElement list option"

definition zero_element :: DirectHashElement where
  "zero_element = \<lparr> he_key = 0, he_value = 0 \<rparr>"

definition hash_vacant :: "DirectHashElement \<Rightarrow> bool" where
  "hash_vacant e \<longleftrightarrow> he_value e = 0"

definition hash_live :: "DirectHashElement \<Rightarrow> bool" where
  "hash_live e \<longleftrightarrow> he_value e \<noteq> 0 \<and> he_value e \<noteq> DIRECT_HASH_ELEMENT_REMOVED"

definition hash_tomb :: "DirectHashElement \<Rightarrow> bool" where
  "hash_tomb e \<longleftrightarrow> he_value e = DIRECT_HASH_ELEMENT_REMOVED"

definition elems :: "DirectHash \<Rightarrow> DirectHashElement list" where
  "elems h = (case dh_elements h of None \<Rightarrow> [] | Some es \<Rightarrow> es)"

section \<open>Operations\<close>

definition primes :: "nat list" where
  "primes = [11, 19, 37, 73, 109, 163, 251, 367, 557, 823, 1237, 1861, 2777, 4177, 6247, 9371, 14057,
     21089, 31627, 47431, 71143, 106721, 160073, 240101, 360163, 540217, 810343, 1215497, 1823231,
     2734867, 4102283, 6153409, 9230113, 13845163]"

definition spaced_primes_closest :: "nat \<Rightarrow> nat" where
  "spaced_primes_closest num = (case find (\<lambda>p. p > num) primes of Some p \<Rightarrow> p | None \<Rightarrow> last primes)"

abbreviation (input) DIRECT_HASH_MIN_SIZE :: nat where "DIRECT_HASH_MIN_SIZE \<equiv> 11"

abbreviation (input) DIRECT_HASH_MAX_SIZE :: nat where "DIRECT_HASH_MAX_SIZE \<equiv> 13845163"

text \<open>The position of a key: \<^term>\<open>None\<close> is \<^verbatim>\<open>-1\<close>, an outer \<^term>\<open>None\<close> a loop that does not end.\<close>

definition locate_key :: "DirectHash \<Rightarrow> u64 \<Rightarrow> nat option option" where
  "locate_key h key = do {
     (pos, found) \<leftarrow> scan (\<lambda>e. if he_value e = 0 then Some False
         else if he_value e \<noteq> DIRECT_HASH_ELEMENT_REMOVED \<and> he_key e = key then Some True
         else None) (elems h) (unat key mod dh_size h);
     Some (if found then Some pos else None) }"

definition direct_hash_init :: "DirectHash \<Rightarrow> nat \<Rightarrow> DirectHash" where
  "direct_hash_init h sz =
    (let sz = (if sz < DIRECT_HASH_MIN_SIZE then DIRECT_HASH_MIN_SIZE else sz)
     in h\<lparr> dh_size := sz, dh_elements := None \<rparr>)"

text \<open>The structure comes zeroed from \<^verbatim>\<open>D_CALLOC\<close>; \<open>alloc n\<close> tells whether an allocation of \<open>n\<close> slots works.\<close>

definition direct_hash_create :: "bool \<Rightarrow> nat \<Rightarrow> DirectHash option \<times> DirectResult" where
  "direct_hash_create alloc sz =
    (if \<not> alloc then (None, DR_NOLOCALMEMORY)
     else (Some (direct_hash_init \<lparr> dh_size = 0, dh_count = 0, dh_removed = 0, dh_elements = None \<rparr> sz), DR_OK))"

definition direct_hash_deinit :: "DirectHash \<Rightarrow> DirectHash" where
  "direct_hash_deinit h = h\<lparr> dh_elements := None \<rparr>"

definition direct_hash_count :: "DirectHash \<Rightarrow> nat" where
  "direct_hash_count h = dh_count h"

text \<open>The part of \<^verbatim>\<open>direct_hash_insert\<close> after the resize: find a slot and fill it.\<close>

definition hash_store :: "DirectHash \<Rightarrow> u64 \<Rightarrow> u64 \<Rightarrow> (DirectHash \<times> DirectResult) option" where
  "hash_store h key value = do {
     (pos, exists) \<leftarrow> scan (\<lambda>e. if \<not> (he_value e \<noteq> 0 \<and> he_value e \<noteq> DIRECT_HASH_ELEMENT_REMOVED) then Some False
         else if he_key e = key then Some True
         else None) (elems h) (unat key mod dh_size h);
     if exists then Some (h, DR_BUG)
     else
       (let h = (if he_value (elems h ! pos) = DIRECT_HASH_ELEMENT_REMOVED
                 then h\<lparr> dh_removed := dh_removed h - 1 \<rparr> else h)
        in Some (h\<lparr> dh_elements := Some ((elems h)[pos := \<lparr> he_key = key, he_value = value \<rparr>]),
                    dh_count := dh_count h + 1 \<rparr>, DR_OK)) }"

definition hash_new_size :: "nat \<Rightarrow> nat" where
  "hash_new_size sz =
    (let sz = spaced_primes_closest sz;
         sz = (if sz > DIRECT_HASH_MAX_SIZE then DIRECT_HASH_MAX_SIZE else sz);
         sz = (if sz < DIRECT_HASH_MIN_SIZE then DIRECT_HASH_MIN_SIZE else sz)
     in sz)"

definition direct_hash_insert :: "(nat \<Rightarrow> bool) \<Rightarrow> DirectHash \<Rightarrow> u64 \<Rightarrow> u64 \<Rightarrow> (DirectHash \<times> DirectResult) option" where
  "direct_hash_insert alloc h key value =
    (if dh_elements h = None \<and> \<not> alloc (dh_size h) then Some (h, DR_NOLOCALMEMORY)
     else
      (let h = (if dh_elements h = None
                then h\<lparr> dh_elements := Some (replicate (dh_size h) zero_element) \<rparr> else h)
       in if dh_count h + dh_removed h > dh_size h div 2 then
            (let sz = hash_new_size (dh_size h)
             in if \<not> alloc sz then Some (h, DR_NOLOCALMEMORY)
                else do {
                  elements \<leftarrow> rehash hash_live (\<lambda>n e. unat (he_key e) mod n) (elems h) (replicate sz zero_element);
                  hash_store (h\<lparr> dh_size := sz, dh_elements := Some elements, dh_removed := 0 \<rparr>) key value
                })
          else hash_store h key value))"

definition direct_hash_remove :: "DirectHash \<Rightarrow> u64 \<Rightarrow> (DirectHash \<times> DirectResult) option" where
  "direct_hash_remove h key =
    (if dh_elements h = None then Some (h, DR_BUFFEREMPTY)
     else do {
       pos \<leftarrow> locate_key h key;
       case pos of
         None \<Rightarrow> Some (h, DR_ITEMNOTFOUND)
       | Some pos \<Rightarrow>
           Some (h\<lparr> dh_elements := Some ((elems h)[pos := (elems h ! pos)\<lparr> he_value := DIRECT_HASH_ELEMENT_REMOVED \<rparr>]),
                    dh_count := dh_count h - 1, dh_removed := dh_removed h + 1 \<rparr>, DR_OK)
     })"

text \<open>A lookup yields the value, 0 standing for \<^verbatim>\<open>NULL\<close>.\<close>

definition direct_hash_lookup :: "DirectHash \<Rightarrow> u64 \<Rightarrow> u64 option" where
  "direct_hash_lookup h key =
    (if dh_elements h = None then Some 0
     else do {
       pos \<leftarrow> locate_key h key;
       Some (case pos of Some pos \<Rightarrow> he_value (elems h ! pos) | None \<Rightarrow> 0)
     })"

text \<open>The callback works on a context of its own and returns whether to go on.\<close>

fun iterate_elements :: "(u64 \<Rightarrow> u64 \<Rightarrow> 'c \<Rightarrow> bool \<times> 'c) \<Rightarrow> DirectHashElement list \<Rightarrow> 'c \<Rightarrow> 'c" where
  "iterate_elements func [] ctx = ctx"
| "iterate_elements func (e # es) ctx =
    (if he_value e = 0 \<or> he_value e = DIRECT_HASH_ELEMENT_REMOVED then iterate_elements func es ctx
     else
      (let (cont, ctx) = func (he_key e) (he_value e) ctx
       in if \<not> cont then ctx else iterate_elements func es ctx))"

definition direct_hash_iterate :: "DirectHash \<Rightarrow> (u64 \<Rightarrow> u64 \<Rightarrow> 'c \<Rightarrow> bool \<times> 'c) \<Rightarrow> 'c \<Rightarrow> 'c" where
  "direct_hash_iterate h func ctx = (if dh_elements h = None then ctx else iterate_elements func (elems h) ctx)"

section \<open>Invariant and abstraction\<close>

interpretation hash_slots: probing hash_live hash_vacant he_key unat
  by unfold_locales (simp add: hash_live_def hash_vacant_def)

definition hash_inv :: "DirectHash \<Rightarrow> bool" where
  "hash_inv h \<longleftrightarrow> DIRECT_HASH_MIN_SIZE \<le> dh_size h \<and> dh_size h \<le> DIRECT_HASH_MAX_SIZE \<and>
    (case dh_elements h of
       None \<Rightarrow> dh_count h = 0 \<and> dh_removed h = 0
     | Some es \<Rightarrow> length es = dh_size h \<and> dh_count h = length (filter hash_live es) \<and>
         dh_removed h = length (filter hash_tomb es) \<and> dh_count h + dh_removed h < dh_size h \<and>
         table_ok hash_live hash_vacant he_key unat es)"

definition hash_map :: "DirectHash \<Rightarrow> u64 \<Rightarrow> u64 option" where
  "hash_map h key = map_option he_value (slot_of hash_live he_key (elems h) key)"

lemma hash_slot_kinds: "length (filter hash_live es) + length (filter hash_tomb es) + length (filter hash_vacant es) = length es"
  by (rule length_filter_split3) (auto simp: hash_live_def hash_tomb_def hash_vacant_def)

lemma vacant_exists:
  assumes "length (filter hash_live es) + length (filter hash_tomb es) < length es"
  shows "\<exists>q < length es. hash_vacant (es ! q)"
proof -
  have "filter hash_vacant es \<noteq> []" using assms hash_slot_kinds [of es] by auto
  then show ?thesis by (auto simp: filter_empty_conv in_set_conv_nth)
qed

lemma zero_element_kinds [simp]:
  "hash_vacant zero_element" "\<not> hash_live zero_element" "\<not> hash_tomb zero_element"
  by (simp_all add: hash_vacant_def hash_live_def hash_tomb_def zero_element_def)

lemma hash_invD:
  assumes "hash_inv h" "dh_elements h = Some es"
  shows "length es = dh_size h" "dh_count h = length (filter hash_live es)"
    "dh_removed h = length (filter hash_tomb es)" "dh_count h + dh_removed h < dh_size h"
    "table_ok hash_live hash_vacant he_key unat es" "elems h = es" "11 \<le> dh_size h" "dh_size h \<le> 13845163"
  using assms by (auto simp: hash_inv_def elems_def)

lemma locate_key_returns:
  assumes "hash_inv h" "dh_elements h = Some es"
  obtains p where "locate_key h key = Some (if hash_map h key \<noteq> None then Some p else None)" "p < length es"
    "hash_map h key \<noteq> None \<Longrightarrow> slot_of hash_live he_key es key = Some (es ! p)"
proof -
  note inv = hash_invD [OF assms]
  obtain q where q: "q < length es" "hash_vacant (es ! q)" using vacant_exists [of es] inv by auto
  define body where "body = (\<lambda>e :: DirectHashElement. if he_value e = 0 then Some False
         else if he_value e \<noteq> DIRECT_HASH_ELEMENT_REMOVED \<and> he_key e = key then Some True else None)"
  have body: "body e = (if hash_vacant e then Some False else if hash_live e \<and> he_key e = key then Some True else None)" for e
    by (auto simp: body_def hash_vacant_def hash_live_def)
  show ?thesis
    by (rule hash_slots.locate [OF inv(5) q body], rule that)
      (auto simp: locate_key_def hash_map_def inv(1,6) body_def)
qed

lemma direct_hash_lookup_correct:
  assumes "hash_inv h"
  shows "direct_hash_lookup h key = Some (case hash_map h key of Some v \<Rightarrow> v | None \<Rightarrow> 0)"
proof (cases "dh_elements h")
  case None
  then show ?thesis by (simp add: direct_hash_lookup_def hash_map_def elems_def slot_of_def)
next
  case (Some es)
  obtain p where p: "locate_key h key = Some (if hash_map h key \<noteq> None then Some p else None)"
    "hash_map h key \<noteq> None \<Longrightarrow> slot_of hash_live he_key es key = Some (es ! p)"
    using locate_key_returns [OF assms Some] by blast
  show ?thesis
    using p Some by (auto simp: direct_hash_lookup_def hash_map_def elems_def split: option.splits)
qed

text \<open>Storing a fresh key, once there is a slot to spare.\<close>

lemma hash_store_fresh:
  assumes inv: "hash_inv h" and es: "dh_elements h = Some es" and fresh: "hash_map h key = None"
    and v: "value \<noteq> 0" "value \<noteq> -1" and room: "dh_count h + dh_removed h + 1 < dh_size h"
  shows "\<exists>h'. hash_store h key value = Some (h', DR_OK) \<and> hash_inv h' \<and> hash_map h' = (hash_map h)(key \<mapsto> value) \<and>
    dh_size h' = dh_size h \<and> dh_count h' = dh_count h + 1"
proof -
  note i = hash_invD [OF inv es]
  have ne: "es \<noteq> []" using i(1,7) by auto
  obtain q where q: "q < length es" "hash_vacant (es ! q)" using vacant_exists [of es] i by auto
  have q': "\<not> hash_live (es ! q)" using q(2) hash_slots.live_nonvacant by blast
  have fr: "slot_of hash_live he_key es key = None" using fresh by (simp add: hash_map_def i(6))
  define body where "body = (\<lambda>e :: DirectHashElement. if \<not> (he_value e \<noteq> 0 \<and> he_value e \<noteq> DIRECT_HASH_ELEMENT_REMOVED) then Some False
         else if he_key e = key then Some True else None)"
  have body: "body e = (if \<not> hash_live e then Some False else if he_key e = key then Some True else None)" for e
    by (auto simp: body_def hash_live_def)
  obtain p where p: "scan body es (unat key mod length es) = Some (p, False)" "p < length es" "\<not> hash_live (es ! p)"
      "reach hash_vacant es (unat key mod length es) p"
    by (rule hash_slots.locate_free [OF ne q(1) q' fr body])
  let ?x = "\<lparr> he_key = key, he_value = value \<rparr>"
  have x: "hash_live ?x" "\<not> hash_tomb ?x" using v by (simp_all add: hash_live_def hash_tomb_def)
  have st: "table_ok hash_live hash_vacant he_key unat (es[p := ?x]) \<and>
      slot_of hash_live he_key (es[p := ?x]) = (slot_of hash_live he_key es)(key \<mapsto> ?x)"
    using hash_slots.store_ok [OF i(5) p(2,3), of ?x] p(4) fr x(1) by simp
  let ?h = "h\<lparr> dh_removed := dh_removed h - of_bool (hash_tomb (es ! p)),
               dh_elements := Some (es[p := ?x]), dh_count := dh_count h + 1 \<rparr>"
  have "hash_store h key value = Some (?h, DR_OK)"
    using p(1) by (auto simp: hash_store_def body_def i(1) elems_def es hash_tomb_def Let_def)
  moreover have "length (filter hash_live (es[p := ?x])) = Suc (length (filter hash_live es))"
    using length_filter_update_gain [of p es hash_live ?x] p(2,3) x by simp
  moreover have "length (filter hash_tomb (es[p := ?x])) = length (filter hash_tomb es) - of_bool (hash_tomb (es ! p))"
    using length_filter_update [OF p(2), of hash_tomb ?x] x(2) by simp
  ultimately have "hash_inv ?h"
    using i st room by (auto simp: hash_inv_def)
  moreover have "hash_map ?h = (hash_map h)(key \<mapsto> value)"
    using st by (auto simp: hash_map_def elems_def es fun_eq_iff)
  ultimately show ?thesis using \<open>hash_store h key value = Some (?h, DR_OK)\<close> by (intro exI [of _ ?h]) simp
qed

text \<open>Growing: the next size in the table of primes is larger until the largest is reached.\<close>

lemma hash_new_size_grows:
  assumes "11 \<le> n" "n \<le> 13845163"
  shows "n \<le> hash_new_size n \<and> hash_new_size n \<le> 13845163 \<and> (n < 13845163 \<longrightarrow> n < hash_new_size n)"
proof (cases "find (\<lambda>p. p > n) primes")
  case None
  then have "\<forall>p \<in> set primes. \<not> n < p" by (simp add: find_None_iff)
  moreover have "13845163 \<in> set primes" by (simp add: primes_def)
  ultimately have "\<not> n < 13845163" by blast
  then show ?thesis
    using None assms by (simp add: hash_new_size_def spaced_primes_closest_def primes_def)
next
  case (Some p)
  then have "p \<in> set primes" "n < p" by (auto simp: find_Some_iff)
  moreover have "\<forall>p \<in> set primes. p \<le> 13845163" by (simp add: primes_def)
  ultimately show ?thesis
    using Some assms by (auto simp: hash_new_size_def spaced_primes_closest_def)
qed

text \<open>The resize step keeps the map and leaves a table without tombstones.\<close>

lemma hash_resize:
  assumes inv: "hash_inv h" and es: "dh_elements h = Some es" and sz: "dh_count h < sz" "11 \<le> sz" "sz \<le> 13845163"
  shows "\<exists>fs. rehash hash_live (\<lambda>n e. unat (he_key e) mod n) es (replicate sz zero_element) = Some fs \<and>
    hash_inv (h\<lparr> dh_size := sz, dh_elements := Some fs, dh_removed := 0 \<rparr>) \<and>
    hash_map (h\<lparr> dh_size := sz, dh_elements := Some fs, dh_removed := 0 \<rparr>) = hash_map h"
proof -
  note i = hash_invD [OF inv es]
  let ?z = "replicate sz zero_element"
  have z: "table_ok hash_live hash_vacant he_key unat ?z" "slot_of hash_live he_key ?z = Map.empty"
    "length (filter hash_live ?z) = 0"
    using hash_slots.fresh_table_ok [of sz zero_element] sz(2) by auto
  have u: "uniq hash_live he_key es" using i(5) by (simp add: table_ok_def)
  obtain fs where fs: "rehash hash_live (\<lambda>n e. unat (he_key e) mod n) es ?z = Some fs" "length fs = sz"
    "table_ok hash_live hash_vacant he_key unat fs"
    "slot_of hash_live he_key fs = slot_of hash_live he_key ?z ++ slot_of hash_live he_key es"
    "length (filter hash_live fs) = length (filter hash_live es)"
    "\<forall>e \<in> set fs. hash_live e \<or> hash_vacant e"
    using hash_slots.rehash_ok [OF z(1) _ u, of "\<lambda>n e. unat (he_key e) mod n"] z(2,3) sz(1) i(2) by auto
  have "filter hash_tomb fs = []"
    using fs(6) by (auto simp: filter_empty_conv hash_live_def hash_tomb_def hash_vacant_def)
  then have "hash_inv (h\<lparr> dh_size := sz, dh_elements := Some fs, dh_removed := 0 \<rparr>)"
    using fs i sz by (simp add: hash_inv_def)
  moreover have "hash_map (h\<lparr> dh_size := sz, dh_elements := Some fs, dh_removed := 0 \<rparr>) = hash_map h"
    using fs(4) z(2) by (simp add: hash_map_def elems_def es fun_eq_iff)
  ultimately show ?thesis using fs(1) by blast
qed

lemma hash_allocate_first:
  assumes "hash_inv h" "dh_elements h = None"
  shows "hash_inv (h\<lparr> dh_elements := Some (replicate (dh_size h) zero_element) \<rparr>) \<and>
    hash_map (h\<lparr> dh_elements := Some (replicate (dh_size h) zero_element) \<rparr>) = hash_map h"
  using assms hash_slots.fresh_table_ok [of "dh_size h" zero_element]
  by (auto simp: hash_inv_def hash_map_def elems_def filter_replicate fun_eq_iff slot_of_def)

text \<open>How many more entries the largest table has room for.\<close>

definition hash_room :: "nat \<Rightarrow> DirectHash \<Rightarrow> bool" where
  "hash_room n h \<longleftrightarrow> dh_count h + n < DIRECT_HASH_MAX_SIZE"

lemma direct_hash_insert_elements:
  assumes inv: "hash_inv h" and es: "dh_elements h = Some es" and fresh: "hash_map h key = None"
    and v: "value \<noteq> 0" "value \<noteq> -1" and room: "hash_room (Suc n) h"
  shows "\<exists>h'. direct_hash_insert (\<lambda>_. True) h key value = Some (h', DR_OK) \<and> hash_inv h' \<and>
    hash_map h' = (hash_map h)(key \<mapsto> value) \<and> hash_room n h'"
proof -
  note i = hash_invD [OF inv es]
  show ?thesis
  proof (cases "dh_count h + dh_removed h > dh_size h div 2")
    case False
    then have "dh_count h + dh_removed h + 1 < dh_size h" using i(7) by linarith
    then show ?thesis
      using hash_store_fresh [OF inv es fresh v] False es room
      by (auto simp: direct_hash_insert_def Let_def hash_room_def)
  next
    case True
    let ?sz = "hash_new_size (dh_size h)"
    note g = hash_new_size_grows [OF i(7,8)]
    have c: "dh_count h + 1 < ?sz"
      using g i(4,8) room by (auto simp: hash_room_def)
    then obtain fs where fs: "rehash hash_live (\<lambda>n e. unat (he_key e) mod n) es (replicate ?sz zero_element) = Some fs"
      "hash_inv (h\<lparr> dh_size := ?sz, dh_elements := Some fs, dh_removed := 0 \<rparr>)"
      "hash_map (h\<lparr> dh_size := ?sz, dh_elements := Some fs, dh_removed := 0 \<rparr>) = hash_map h"
      using hash_resize [OF inv es, of ?sz] g i(7,8) by auto
    then show ?thesis
      using hash_store_fresh [OF fs(2) _ _ v, of fs key] fs fresh True es c room i(6)
      by (auto simp: direct_hash_insert_def Let_def hash_room_def)
  qed
qed

lemma direct_hash_insert_fresh:
  assumes inv: "hash_inv h" and fresh: "hash_map h key = None"
    and v: "value \<noteq> 0 \<and> value \<noteq> -1" and room: "hash_room (Suc n) h"
  shows "\<exists>h'. direct_hash_insert (\<lambda>_. True) h key value = Some (h', DR_OK) \<and> hash_inv h' \<and>
    hash_map h' = (hash_map h)(key \<mapsto> value) \<and> hash_room n h'"
proof (cases "dh_elements h")
  case None
  let ?h = "h\<lparr> dh_elements := Some (replicate (dh_size h) zero_element) \<rparr>"
  have "direct_hash_insert (\<lambda>_. True) h key value = direct_hash_insert (\<lambda>_. True) ?h key value"
    using None by (simp add: direct_hash_insert_def)
  then show ?thesis
    using direct_hash_insert_elements [of ?h _ key "value" n] hash_allocate_first [OF inv None] fresh v room
    by (simp add: hash_room_def)
next
  case (Some es)
  then show ?thesis using direct_hash_insert_elements [OF inv Some fresh] v room by blast
qed

lemma direct_hash_remove_present:
  assumes inv: "hash_inv h" and present: "hash_map h key = Some v"
  shows "\<exists>h'. direct_hash_remove h key = Some (h', DR_OK) \<and> hash_inv h' \<and> hash_map h' = (hash_map h)(key := None) \<and>
    dh_count h = dh_count h' + 1"
proof (cases "dh_elements h")
  case None
  then show ?thesis using present by (simp add: hash_map_def elems_def slot_of_def)
next
  case (Some es)
  note i = hash_invD [OF inv Some]
  obtain p where p: "locate_key h key = Some (Some p)" "p < length es"
    "slot_of hash_live he_key es key = Some (es ! p)"
    by (rule locate_key_returns [OF inv Some, of key]) (simp add: present)
  have u: "uniq hash_live he_key es" using i(5) by (simp add: table_ok_def)
  have live: "hash_live (es ! p)" "he_key (es ! p) = key"
    using p(3) unfolding hash_slots.slot_of_Some [OF u] by auto
  let ?t = "(es ! p)\<lparr> he_value := DIRECT_HASH_ELEMENT_REMOVED \<rparr>"
  have t: "\<not> hash_live ?t" "\<not> hash_vacant ?t" "hash_tomb ?t" "\<not> hash_tomb (es ! p)"
    using live(1) by (simp_all add: hash_live_def hash_vacant_def hash_tomb_def)
  note rm = hash_slots.remove_ok [OF i(5) p(2) live(1) t(1,2)]
  let ?h = "h\<lparr> dh_elements := Some (es[p := ?t]), dh_count := dh_count h - 1, dh_removed := dh_removed h + 1 \<rparr>"
  have "length (filter hash_tomb (es[p := ?t])) = Suc (length (filter hash_tomb es))"
    using length_filter_update_gain [OF p(2) t(4,3)] .
  moreover have l: "Suc (length (filter hash_live (es[p := ?t]))) = length (filter hash_live es)"
    using length_filter_update_lose [OF p(2) live(1) t(1)] .
  ultimately have "hash_inv ?h" using i rm by (auto simp: hash_inv_def)
  moreover have "hash_map ?h = (hash_map h)(key := None)"
    using rm live(2) by (auto simp: hash_map_def elems_def Some fun_eq_iff)
  moreover have "direct_hash_remove h key = Some (?h, DR_OK)"
    using p(1) Some i(6) by (simp add: direct_hash_remove_def)
  ultimately show ?thesis using l i(2) by (intro exI [of _ ?h]) simp
qed

lemma direct_hash_remove_absent:
  assumes inv: "hash_inv h" and absent: "hash_map h key = None"
  shows "direct_hash_remove h key = Some (h, if dh_elements h = None then DR_BUFFEREMPTY else DR_ITEMNOTFOUND)"
proof (cases "dh_elements h")
  case None
  then show ?thesis by (simp add: direct_hash_remove_def)
next
  case (Some es)
  obtain p where "locate_key h key = Some (if hash_map h key \<noteq> None then Some p else None)"
    using locate_key_returns [OF inv Some] by blast
  then show ?thesis using Some absent by (simp add: direct_hash_remove_def)
qed


lemma direct_hash_count_map:
  assumes "hash_inv h"
  shows "direct_hash_count h = card (dom (hash_map h))"
proof (cases "dh_elements h")
  case None
  then show ?thesis
    using assms by (simp add: direct_hash_count_def hash_inv_def hash_map_def elems_def slot_of_def dom_def)
next
  case (Some es)
  note i = hash_invD [OF assms Some]
  have "dom (hash_map h) = dom (slot_of hash_live he_key es)" by (auto simp: hash_map_def i(6) dom_def)
  then show ?thesis using i(2,5) by (simp add: direct_hash_count_def table_ok_def card_slot_of)
qed

text \<open>Lookups of the container contract; a stored value is never \<^verbatim>\<open>NULL\<close>.\<close>

definition hash_find :: "DirectHash \<Rightarrow> u64 \<Rightarrow> u64 option option" where
  "hash_find h key = map_option (\<lambda>v. if v = 0 then None else Some v) (direct_hash_lookup h key)"

lemma hash_map_nonnull:
  assumes "hash_inv h"
  shows "hash_map h key \<noteq> Some 0"
proof (cases "dh_elements h")
  case None
  then show ?thesis by (simp add: hash_map_def elems_def slot_of_def)
next
  case (Some es)
  then show ?thesis
    by (auto simp: hash_map_def elems_def slot_of_def find_Some_iff hash_live_def)
qed

interpretation hash_dict: dictionary hash_inv hash_map hash_find "direct_hash_insert (\<lambda>_. True)" direct_hash_remove
  "\<lambda>_ v. v \<noteq> 0 \<and> v \<noteq> -1" hash_room
proof unfold_locales
  fix h :: DirectHash and key v :: u64 and n
  assume inv: "hash_inv h"
  show "hash_map h key = None \<Longrightarrow> v \<noteq> 0 \<and> v \<noteq> - 1 \<Longrightarrow> hash_room (Suc n) h \<Longrightarrow>
      \<exists>h'. direct_hash_insert (\<lambda>_. True) h key v = Some (h', DR_OK) \<and> hash_inv h' \<and>
        hash_map h' = (hash_map h)(key \<mapsto> v) \<and> hash_room n h'"
    using direct_hash_insert_fresh [OF inv] by blast
  show "hash_map h key = Some v \<Longrightarrow> hash_room n h \<Longrightarrow>
      \<exists>h'. direct_hash_remove h key = Some (h', DR_OK) \<and> hash_inv h' \<and>
        hash_map h' = (hash_map h)(key := None) \<and> hash_room n h'"
    using direct_hash_remove_present [OF inv, of key v] by (auto simp: hash_room_def)
  show "hash_map h key = None \<Longrightarrow> \<exists>r. direct_hash_remove h key = Some (h, r) \<and> r \<noteq> DR_OK"
    using direct_hash_remove_absent [OF inv, of key] by auto
  show "hash_find h key = Some (hash_map h key)"
    using direct_hash_lookup_correct [OF inv, of key] hash_map_nonnull [OF inv, of key]
    by (auto simp: hash_find_def split: option.splits)
qed

lemma create_hash_inv:
  assumes "direct_hash_create True n = (Some h, r)" "n \<le> 13845163"
  shows "hash_inv h \<and> hash_map h = Map.empty \<and> dh_count h = 0"
  using assms
  by (auto simp: direct_hash_create_def direct_hash_init_def hash_inv_def hash_map_def elems_def slot_of_def Let_def)

section \<open>Properties\<close>

text \<open>
  C15: The hash table is a finite map. Any sequence of fewer than 13845163 insertions of fresh keys,
  mixed with removals and lookups, on a newly created table returns (no probe loop runs for
  ever), gives each operation the answer a finite map would give, and leaves
  \<^verbatim>\<open>direct_hash_count\<close> at the number of keys.
\<close>

theorem hash_refines_map:
  assumes "direct_hash_create True n = (Some h, r)" and "n \<le> 13845163"
    and "length (op_entries ops) < 13845163" and "\<forall>(k, v) \<in> set (op_entries ops). v \<noteq> 0 \<and> v \<noteq> -1"
    and "map_run Map.empty ops = Some (m, rs)"
  shows "\<exists>h'. dict_run (direct_hash_insert (\<lambda>_. True)) direct_hash_remove hash_find h ops = Some (h', rs) \<and>
    direct_hash_count h' = card (dom m) \<and> (\<forall>k. hash_find h' k = Some (m k))"
proof -
  note c = create_hash_inv [OF assms(1,2)]
  have "hash_room (length (op_entries ops)) h" using c assms(3) by (simp add: hash_room_def)
  then obtain h' where "dict_run (direct_hash_insert (\<lambda>_. True)) direct_hash_remove hash_find h ops = Some (h', rs)"
    "hash_inv h'" "hash_map h' = m"
    using hash_dict.run_refines_map [of h ops m rs] c assms(4,5) by auto
  then show ?thesis using direct_hash_count_map hash_dict.lookup_amap by auto
qed

theorem hash_refines_map_witness:
  "\<exists>h'. dict_run (direct_hash_insert (\<lambda>_. True)) direct_hash_remove hash_find
      \<lparr> dh_size = 11, dh_count = 0, dh_removed = 0, dh_elements = None \<rparr>
      [Insert 3 7, Insert 14 8, Remove 3, Lookup 14, Lookup 3] =
    Some (h', [Done True, Done True, Done True, Found (Some 8), Found None]) \<and> direct_hash_count h' = 1"
proof -
  have "direct_hash_create True 0 = (Some \<lparr> dh_size = 11, dh_count = 0, dh_removed = 0, dh_elements = None \<rparr>, DR_OK)"
    by (simp add: direct_hash_create_def direct_hash_init_def Let_def)
  from hash_refines_map [OF this, of "[Insert 3 7, Insert 14 8, Remove 3, Lookup 14, Lookup 3]"]
  show ?thesis by (auto simp: card_Suc_eq)
qed

text \<open>
  C37: Insertion survives a lack of memory. Whatever allocations fail, inserting a fresh key
  returns: either \<^const>\<open>DR_OK\<close> and the map gained the entry, or \<^const>\<open>DR_NOLOCALMEMORY\<close> and the map is
  unchanged; the table stays well formed.
\<close>

theorem hash_insert_total:
  assumes "hash_inv h" and "hash_map h key = None" and "value \<noteq> 0" and "value \<noteq> -1"
    and "direct_hash_count h + 1 < 13845163"
  shows "\<exists>h' r. direct_hash_insert alloc h key value = Some (h', r) \<and> hash_inv h' \<and>
    (r = DR_OK \<and> hash_map h' = (hash_map h)(key \<mapsto> value) \<or> r = DR_NOLOCALMEMORY \<and> hash_map h' = hash_map h)"
proof -
  have room: "hash_room (Suc 0) h" using assms(5) by (simp add: hash_room_def direct_hash_count_def)
  have ok: "\<exists>h'. direct_hash_insert (\<lambda>_. True) h key value = Some (h', DR_OK) \<and> hash_inv h' \<and>
      hash_map h' = (hash_map h)(key \<mapsto> value)"
    using direct_hash_insert_fresh [OF assms(1,2) _ room] assms(3,4) by blast
  consider "dh_elements h = None" "\<not> alloc (dh_size h)"
    | "dh_elements h = None" "alloc (dh_size h)"
    | es where "dh_elements h = Some es" by (cases "dh_elements h") auto
  then show ?thesis
  proof cases
    case 1
    then show ?thesis using assms(1) by (simp add: direct_hash_insert_def)
  next
    case 2
    have "dh_count h = 0" "dh_removed h = 0" using assms(1) 2 by (auto simp: hash_inv_def)
    then have "direct_hash_insert alloc h key value = direct_hash_insert (\<lambda>_. True) h key value"
      using 2 by (simp add: direct_hash_insert_def)
    then show ?thesis using ok by auto
  next
    case 3
    show ?thesis
    proof (cases "dh_count h + dh_removed h > dh_size h div 2 \<and> \<not> alloc (hash_new_size (dh_size h))")
      case True
      then show ?thesis using 3 assms(1) by (simp add: direct_hash_insert_def Let_def)
    next
      case False
      then have "direct_hash_insert alloc h key value = direct_hash_insert (\<lambda>_. True) h key value"
        using 3 by (auto simp: direct_hash_insert_def Let_def)
      then show ?thesis using ok by auto
    qed
  qed
qed

theorem hash_insert_total_witness:
  "\<exists>h' r. direct_hash_insert (\<lambda>n. n < 5) \<lparr> dh_size = 11, dh_count = 0, dh_removed = 0, dh_elements = None \<rparr> 3 7 = Some (h', r) \<and>
     hash_inv h'"
  using hash_insert_total [of "\<lparr> dh_size = 11, dh_count = 0, dh_removed = 0, dh_elements = None \<rparr>" 3 7 "\<lambda>n. n < 5"]
  by (auto simp: hash_inv_def hash_map_def elems_def slot_of_def direct_hash_count_def)

text \<open>
  The duplicate check of \<^verbatim>\<open>direct_hash_insert\<close> stops at a tombstone. When the home slot of a
  key that is in the table holds a removed entry (and no resize is due), inserting the key
  again returns \<^const>\<open>DR_OK\<close> instead of \<^const>\<open>DR_BUG\<close>: the key is then stored twice, the count grows, and
  removing the key brings the old value back.
\<close>

theorem hash_duplicate_after_removal:
  assumes "hash_inv h" and "dh_elements h = Some es" and "hash_map h key = Some w"
    and "he_value (es ! (unat key mod dh_size h)) = -1" and "dh_count h + dh_removed h \<le> dh_size h div 2"
    and "value \<noteq> 0" and "value \<noteq> -1"
  shows "\<exists>h1 h2. direct_hash_insert alloc h key value = Some (h1, DR_OK) \<and>
    direct_hash_count h1 = direct_hash_count h + 1 \<and> direct_hash_lookup h1 key = Some value \<and>
    direct_hash_remove h1 key = Some (h2, DR_OK) \<and> direct_hash_lookup h2 key = Some w"
proof -
  note i = hash_invD [OF assms(1,2)]
  let ?p = "unat key mod dh_size h" and ?x = "\<lparr> he_key = key, he_value = value \<rparr>"
  let ?t = "\<lparr> he_key = key, he_value = DIRECT_HASH_ELEMENT_REMOVED \<rparr>"
  have p: "?p < length es" using i(1,7) by simp
  have dead: "\<not> hash_live (es ! ?p)" "hash_tomb (es ! ?p)" using assms(4) by (auto simp: hash_live_def hash_tomb_def)
  have t: "\<not> hash_live ?t" "\<not> hash_vacant ?t" by (auto simp: hash_live_def hash_vacant_def)
  let ?h1 = "h\<lparr> dh_removed := dh_removed h - 1, dh_elements := Some (es[?p := ?x]), dh_count := dh_count h + 1 \<rparr>"
  let ?h2 = "?h1\<lparr> dh_elements := Some (es[?p := ?t]), dh_count := dh_count h, dh_removed := dh_removed h \<rparr>"
  have 1: "direct_hash_insert alloc h key value = Some (?h1, DR_OK)"
    using assms(2,4,5) by (simp add: direct_hash_insert_def hash_store_def scan.simps elems_def)
  have loc: "locate_key ?h1 key = Some (Some ?p)"
    using p assms(6,7) by (simp add: locate_key_def scan.simps elems_def)
  have "\<not> dh_removed h = 0"
    using dead(2) i(3) p nth_mem [OF p] by (auto simp: filter_empty_conv)
  then have 2: "direct_hash_remove ?h1 key = Some (?h2, DR_OK)"
    using loc p by (simp add: direct_hash_remove_def elems_def)
  have h2: "?h2 = h\<lparr> dh_elements := Some (es[?p := ?t]) \<rparr>" by simp
  note d = hash_slots.dead_ok [OF i(5) p dead(1) t]
  have "hash_inv ?h2"
    unfolding h2 using d i p dead(2) t
    by (simp add: hash_inv_def length_filter_update_keep dead(1) hash_tomb_def)
  moreover have "hash_map ?h2 = hash_map h" unfolding h2 using d assms(2) by (simp add: hash_map_def elems_def fun_eq_iff)
  ultimately have "direct_hash_lookup ?h2 key = Some w"
    using direct_hash_lookup_correct [of ?h2 key] assms(3) by simp
  moreover have "direct_hash_lookup ?h1 key = Some value"
    using loc p by (simp add: direct_hash_lookup_def elems_def)
  ultimately show ?thesis using 1 2 by (intro exI [of _ ?h1] exI [of _ ?h2]) (simp add: direct_hash_count_def)
qed

text \<open>The table in the witness is what inserting 0 and 11 (both at slot 0) and removing 0 leave.\<close>

theorem hash_duplicate_after_removal_witness:
  "\<exists>h1 h2. direct_hash_insert (\<lambda>_. True)
       \<lparr> dh_size = 11, dh_count = 1, dh_removed = 1, dh_elements = Some
          (\<lparr> he_key = 0, he_value = -1 \<rparr> # \<lparr> he_key = 11, he_value = 5 \<rparr> # replicate 9 zero_element) \<rparr> 11 6 = Some (h1, DR_OK) \<and>
     direct_hash_remove h1 11 = Some (h2, DR_OK) \<and> direct_hash_lookup h2 11 = Some 5"
proof -
  let ?es = "\<lparr> he_key = 0, he_value = -1 \<rparr> # \<lparr> he_key = 11, he_value = 5 \<rparr> # replicate 9 zero_element"
  let ?h = "\<lparr> dh_size = 11, dh_count = 1, dh_removed = 1, dh_elements = Some ?es \<rparr>"
  have r: "direct_hash_create True 0 = (Some \<lparr> dh_size = 11, dh_count = 0, dh_removed = 0, dh_elements = None \<rparr>, DR_OK)"
    by (simp add: direct_hash_create_def direct_hash_init_def Let_def)
  note c = create_hash_inv [OF r, simplified]
  have e: "[0..<11] = [0,1,2,3,4,5,6,7,8,9,10::nat]" by (simp add: upt_rec)
  have slots: "p < 11 \<Longrightarrow> hash_live (?es ! p) \<longleftrightarrow> p = 1" for p
    by (cases p; cases "p - 1") (auto simp: hash_live_def zero_element_def)
  have "table_ok hash_live hash_vacant he_key unat ?es"
  proof -
    have "uniq hash_live he_key ?es" using slots by (simp add: uniq_def)
    moreover have "reach hash_vacant ?es (unat (11 :: u64) mod 11) 1"
      by (auto simp: reach_def at_pos_def hash_vacant_def intro!: exI [of _ 1])
    ultimately show ?thesis using slots by (simp add: table_ok_def)
  qed
  moreover have "length (filter hash_live ?es) = 1" "length (filter hash_tomb ?es) = 1"
    by (simp_all add: hash_live_def hash_tomb_def zero_element_def filter_replicate)
  ultimately have "hash_inv ?h" by (simp add: hash_inv_def)
  moreover have "hash_map ?h 11 = Some 5"
    by (simp add: hash_map_def elems_def slot_of_def hash_live_def)
  ultimately show ?thesis
    using hash_duplicate_after_removal [of ?h ?es 11 5 6 "\<lambda>_. True"] by (auto simp: direct_hash_count_def)
qed

end
