(* ===== verification/Direct_Map.thy ===== *)
theory Direct_Map
  imports Probing Dictionary
begin

text \<open>
  The generic map of \<^verbatim>\<open>lib/direct/map.c\<close>: slots hold a hash and an object pointer, keys are known
  only through the comparison and hash functions given at creation. The invariant ties these two
  to a key function of the objects: an object matches exactly the keys equal to its own.
\<close>

record MapEntry =
  me_hash :: u32
  me_object :: u64

abbreviation (input) REMOVED :: u64 where "REMOVED \<equiv> - 1"

record 'k DirectMap =
  dm_size :: nat
  dm_count :: nat
  dm_removed :: nat
  dm_entries :: "MapEntry list"
  dm_compare :: "'k \<Rightarrow> u64 \<Rightarrow> bool"
  dm_hash :: "'k \<Rightarrow> u32"

datatype DirectEnumerationResult = DENUM_OK | DENUM_CANCEL | DENUM_REMOVE

definition zero_entry :: MapEntry where
  "zero_entry = \<lparr> me_hash = 0, me_object = 0 \<rparr>"

definition map_vacant :: "MapEntry \<Rightarrow> bool" where
  "map_vacant e \<longleftrightarrow> me_object e = 0"

definition map_live :: "MapEntry \<Rightarrow> bool" where
  "map_live e \<longleftrightarrow> me_object e \<noteq> 0 \<and> me_object e \<noteq> REMOVED"

definition map_tomb :: "MapEntry \<Rightarrow> bool" where
  "map_tomb e \<longleftrightarrow> me_object e = REMOVED"

section \<open>Operations\<close>

definition locate_entry :: "'k DirectMap \<Rightarrow> u32 \<Rightarrow> 'k \<Rightarrow> nat option option" where
  "locate_entry m hash key = do {
     (pos, found) \<leftarrow> scan (\<lambda>e. if me_object e = 0 then Some False
         else if me_object e \<noteq> REMOVED \<and> me_hash e = hash \<and> dm_compare m key (me_object e) then Some True
         else None) (dm_entries m) (unat hash mod dm_size m);
     Some (if found then Some pos else None) }"

text \<open>\<open>alloc\<close> tells whether the allocation of the new slots works.\<close>

definition resize_map :: "bool \<Rightarrow> 'k DirectMap \<Rightarrow> nat \<Rightarrow> ('k DirectMap \<times> DirectResult) option" where
  "resize_map alloc m sz =
    (if \<not> alloc then Some (m, DR_NOLOCALMEMORY)
     else do {
       entries \<leftarrow> rehash map_live (\<lambda>n e. unat (me_hash e) mod n) (dm_entries m) (replicate sz zero_entry);
       Some (m\<lparr> dm_size := sz, dm_entries := entries, dm_removed := 0 \<rparr>, DR_OK)
     })"

definition direct_map_create ::
  "bool \<Rightarrow> bool \<Rightarrow> nat \<Rightarrow> ('k \<Rightarrow> u64 \<Rightarrow> bool) \<Rightarrow> ('k \<Rightarrow> u32) \<Rightarrow> 'k DirectMap option \<times> DirectResult" where
  "direct_map_create alloc_map alloc_entries initial_size compare_func hash_func =
    (let initial_size = (if initial_size < 3 then 3 else initial_size)
     in if \<not> alloc_map then (None, DR_NOLOCALMEMORY)
        else if \<not> alloc_entries then (None, DR_NOLOCALMEMORY)
        else (Some \<lparr> dm_size = initial_size, dm_count = 0, dm_removed = 0,
                     dm_entries = replicate initial_size zero_entry,
                     dm_compare = compare_func, dm_hash = hash_func \<rparr>, DR_OK))"

text \<open>The insertion loop and what follows it. The result of \<^verbatim>\<open>resize_map\<close> is ignored by the code.\<close>

definition map_store :: "'k DirectMap \<Rightarrow> 'k \<Rightarrow> u64 \<Rightarrow> ('k DirectMap \<times> DirectResult) option" where
  "map_store m key object =
    (let hash = dm_hash m key
     in do {
       (pos, exists) \<leftarrow> scan (\<lambda>e. if \<not> (me_object e \<noteq> 0 \<and> me_object e \<noteq> REMOVED) then Some False
           else if me_hash e = hash \<and> dm_compare m key (me_object e) then Some True
           else None) (dm_entries m) (unat hash mod dm_size m);
       if exists then
         (if me_object (dm_entries m ! pos) = object then Some (m, DR_BUSY) else Some (m, DR_BUG))
       else
         (let m = (if me_object (dm_entries m ! pos) = REMOVED then m\<lparr> dm_removed := dm_removed m - 1 \<rparr> else m)
          in Some (m\<lparr> dm_entries := (dm_entries m)[pos := \<lparr> me_hash = hash, me_object = object \<rparr>],
                      dm_count := dm_count m + 1 \<rparr>, DR_OK))
     })"

definition direct_map_insert :: "bool \<Rightarrow> 'k DirectMap \<Rightarrow> 'k \<Rightarrow> u64 \<Rightarrow> ('k DirectMap \<times> DirectResult) option" where
  "direct_map_insert alloc m key object =
    (if dm_count m + dm_removed m > dm_size m div 4 then do {
       (m, _) \<leftarrow> resize_map alloc m (dm_size m * 3 mod 2 ^ 32);
       map_store m key object }
     else map_store m key object)"

definition direct_map_remove :: "'k DirectMap \<Rightarrow> 'k \<Rightarrow> ('k DirectMap \<times> DirectResult) option" where
  "direct_map_remove m key = do {
     pos \<leftarrow> locate_entry m (dm_hash m key) key;
     case pos of
       None \<Rightarrow> Some (m, DR_ITEMNOTFOUND)
     | Some pos \<Rightarrow>
         Some (m\<lparr> dm_entries := (dm_entries m)[pos := (dm_entries m ! pos)\<lparr> me_object := REMOVED \<rparr>],
                  dm_count := dm_count m - 1, dm_removed := dm_removed m + 1 \<rparr>, DR_OK)
   }"

definition direct_map_lookup :: "'k DirectMap \<Rightarrow> 'k \<Rightarrow> u64 option" where
  "direct_map_lookup m key = do {
     pos \<leftarrow> locate_entry m (dm_hash m key) key;
     Some (case pos of Some pos \<Rightarrow> me_object (dm_entries m ! pos) | None \<Rightarrow> 0)
   }"

text \<open>The callback works on a context of its own; it may ask for the entry to be removed.\<close>

fun iterate_entries ::
  "(u64 \<Rightarrow> 'c \<Rightarrow> DirectEnumerationResult \<times> 'c) \<Rightarrow> MapEntry list \<Rightarrow> nat \<Rightarrow> nat \<Rightarrow> 'c \<Rightarrow> MapEntry list \<times> nat \<times> nat \<times> 'c" where
  "iterate_entries func [] count removed ctx = ([], count, removed, ctx)"
| "iterate_entries func (e # es) count removed ctx =
    (if me_object e \<noteq> 0 \<and> me_object e \<noteq> REMOVED then
       (case func (me_object e) ctx of
          (DENUM_OK, ctx) \<Rightarrow>
            (let (es, rest) = iterate_entries func es count removed ctx in (e # es, rest))
        | (DENUM_CANCEL, ctx) \<Rightarrow> (e # es, count, removed, ctx)
        | (DENUM_REMOVE, ctx) \<Rightarrow>
            (let (es, rest) = iterate_entries func es (count - 1) (removed + 1) ctx
             in (e\<lparr> me_object := REMOVED \<rparr> # es, rest)))
     else
       (let (es, rest) = iterate_entries func es count removed ctx in (e # es, rest)))"

definition direct_map_iterate ::
  "'k DirectMap \<Rightarrow> (u64 \<Rightarrow> 'c \<Rightarrow> DirectEnumerationResult \<times> 'c) \<Rightarrow> 'c \<Rightarrow> 'k DirectMap \<times> 'c" where
  "direct_map_iterate m func ctx =
    (let (es, count, removed, ctx) = iterate_entries func (dm_entries m) (dm_count m) (dm_removed m) ctx
     in (m\<lparr> dm_entries := es, dm_count := count, dm_removed := removed \<rparr>, ctx))"

section \<open>Invariant and abstraction\<close>

text \<open>\<open>keyof\<close> is the key of an object, known to the creator of the map.\<close>

interpretation map_slots: probing map_live map_vacant "\<lambda>e. keyof (me_object e)" "\<lambda>k. unat (hash k)"
  for keyof :: "u64 \<Rightarrow> 'k" and hash :: "'k \<Rightarrow> u32"
  by unfold_locales (simp add: map_live_def map_vacant_def)

definition map_inv :: "(u64 \<Rightarrow> 'k) \<Rightarrow> 'k DirectMap \<Rightarrow> bool" where
  "map_inv keyof m \<longleftrightarrow> 3 \<le> dm_size m \<and> dm_size m < 2 ^ 31 \<and> length (dm_entries m) = dm_size m \<and>
    dm_count m = length (filter map_live (dm_entries m)) \<and>
    dm_removed m = length (filter map_tomb (dm_entries m)) \<and>
    dm_count m + dm_removed m < dm_size m \<and>
    table_ok map_live map_vacant (\<lambda>e. keyof (me_object e)) (\<lambda>k. unat (dm_hash m k)) (dm_entries m) \<and>
    (\<forall>e \<in> set (dm_entries m). map_live e \<longrightarrow> me_hash e = dm_hash m (keyof (me_object e))) \<and>
    (\<forall>k ob. dm_compare m k ob \<longleftrightarrow> keyof ob = k)"

definition map_objects :: "(u64 \<Rightarrow> 'k) \<Rightarrow> 'k DirectMap \<Rightarrow> 'k \<Rightarrow> u64 option" where
  "map_objects keyof m key = map_option me_object (slot_of map_live (\<lambda>e. keyof (me_object e)) (dm_entries m) key)"

lemma map_slot_kinds: "length (filter map_live es) + length (filter map_tomb es) + length (filter map_vacant es) = length es"
  by (rule length_filter_split3) (auto simp: map_live_def map_tomb_def map_vacant_def)

lemma map_vacant_exists:
  assumes "length (filter map_live es) + length (filter map_tomb es) < length es"
  shows "\<exists>q < length es. map_vacant (es ! q)"
proof -
  have "filter map_vacant es \<noteq> []" using assms map_slot_kinds [of es] by auto
  then show ?thesis by (auto simp: filter_empty_conv in_set_conv_nth)
qed

lemma zero_entry_kinds [simp]: "map_vacant zero_entry" "\<not> map_live zero_entry" "\<not> map_tomb zero_entry"
  by (simp_all add: map_vacant_def map_live_def map_tomb_def zero_entry_def)

lemma map_invD:
  assumes "map_inv keyof m"
  shows "length (dm_entries m) = dm_size m" "dm_count m = length (filter map_live (dm_entries m))"
    "dm_removed m = length (filter map_tomb (dm_entries m))" "dm_count m + dm_removed m < dm_size m"
    "table_ok map_live map_vacant (\<lambda>e. keyof (me_object e)) (\<lambda>k. unat (dm_hash m k)) (dm_entries m)"
    "\<forall>e \<in> set (dm_entries m). map_live e \<longrightarrow> me_hash e = dm_hash m (keyof (me_object e))"
    "\<And>k ob. dm_compare m k ob \<longleftrightarrow> keyof ob = k" "3 \<le> dm_size m" "dm_size m < 2 ^ 31"
  using assms by (auto simp: map_inv_def)

text \<open>The stored hash never rejects the matching object, so the loop tests key equality.\<close>

definition probe_key :: "'k DirectMap \<Rightarrow> 'k \<Rightarrow> MapEntry \<Rightarrow> bool" where
  "probe_key m key e \<longleftrightarrow> me_hash e = dm_hash m key \<and> dm_compare m key (me_object e)"

lemma probe_key_iff:
  assumes "map_inv keyof m" "e \<in> set (dm_entries m)" "map_live e"
  shows "probe_key m key e \<longleftrightarrow> keyof (me_object e) = key"
  using map_invD(6,7) [OF assms(1)] assms(2,3) by (auto simp: probe_key_def)

lemma locate_entry_returns:
  assumes inv: "map_inv keyof m"
  shows "\<exists>p. locate_entry m (dm_hash m key) key = Some (if map_objects keyof m key \<noteq> None then Some p else None) \<and>
    p < length (dm_entries m) \<and>
    (map_objects keyof m key \<noteq> None \<longrightarrow>
       slot_of map_live (\<lambda>e. keyof (me_object e)) (dm_entries m) key = Some (dm_entries m ! p))"
proof -
  note i = map_invD [OF inv]
  let ?es = "dm_entries m"
  obtain q where q: "q < length ?es" "map_vacant (?es ! q)" using map_vacant_exists [of ?es] i by auto
  define body where "body = (\<lambda>e :: MapEntry. if me_object e = 0 then Some False
         else if me_object e \<noteq> REMOVED \<and> me_hash e = dm_hash m key \<and> dm_compare m key (me_object e) then Some True else None)"
  have body: "body (?es ! p) = (if map_vacant (?es ! p) then Some False
      else if map_live (?es ! p) \<and> keyof (me_object (?es ! p)) = key then Some True else None)" if "p < length ?es" for p
  proof -
    have "map_live (?es ! p) \<Longrightarrow> probe_key m key (?es ! p) \<longleftrightarrow> keyof (me_object (?es ! p)) = key"
      using probe_key_iff [OF inv] nth_mem [OF that] by blast
    then show ?thesis by (auto simp: body_def map_vacant_def map_live_def probe_key_def)
  qed
  show ?thesis
    by (rule map_slots.locate [where hash = "dm_hash m", OF i(5) q body], assumption)
      (auto simp: locate_entry_def map_objects_def i(1) body_def)
qed

lemma direct_map_lookup_correct:
  assumes "map_inv keyof m"
  shows "direct_map_lookup m key = Some (case map_objects keyof m key of Some ob \<Rightarrow> ob | None \<Rightarrow> 0)"
proof -
  obtain p where "locate_entry m (dm_hash m key) key = Some (if map_objects keyof m key \<noteq> None then Some p else None)"
    "map_objects keyof m key \<noteq> None \<longrightarrow>
       slot_of map_live (\<lambda>e. keyof (me_object e)) (dm_entries m) key = Some (dm_entries m ! p)"
    using locate_entry_returns [OF assms, of key] by blast
  then show ?thesis by (auto simp: direct_map_lookup_def map_objects_def split: option.splits)
qed

text \<open>What \<^verbatim>\<open>direct_map_insert\<close> does once a slot is to be found, for fresh and for known keys.\<close>

lemma map_store_slot:
  assumes inv: "map_inv keyof m" and fresh: "map_objects keyof m key = None"
    and ob: "object \<noteq> 0" "object \<noteq> -1" "keyof object = key"
  shows "\<exists>p < length (dm_entries m). \<not> map_live (dm_entries m ! p) \<and>
    reach map_vacant (dm_entries m) (unat (dm_hash m key) mod length (dm_entries m)) p \<and>
    map_store m key object = Some (m\<lparr> dm_removed := dm_removed m - of_bool (map_tomb (dm_entries m ! p)),
       dm_entries := (dm_entries m)[p := \<lparr> me_hash = dm_hash m key, me_object = object \<rparr>], dm_count := dm_count m + 1 \<rparr>, DR_OK)"
proof -
  note i = map_invD [OF inv]
  let ?es = "dm_entries m"
  have ne: "?es \<noteq> []" using i(1,8) by auto
  obtain q where q: "q < length ?es" "map_vacant (?es ! q)" using map_vacant_exists [of ?es] i by auto
  have q': "\<not> map_live (?es ! q)" using q(2) by (auto simp: map_live_def map_vacant_def)
  have fr: "slot_of map_live (\<lambda>e. keyof (me_object e)) ?es key = None" using fresh by (simp add: map_objects_def)
  define body where "body = (\<lambda>e :: MapEntry. if \<not> (me_object e \<noteq> 0 \<and> me_object e \<noteq> REMOVED) then Some False
      else if me_hash e = dm_hash m key \<and> dm_compare m key (me_object e) then Some True else None)"
  have body: "body (?es ! p) = (if \<not> map_live (?es ! p) then Some False
      else if keyof (me_object (?es ! p)) = key then Some True else None)" if "p < length ?es" for p
  proof -
    have "map_live (?es ! p) \<Longrightarrow> probe_key m key (?es ! p) \<longleftrightarrow> keyof (me_object (?es ! p)) = key"
      using probe_key_iff [OF inv] nth_mem [OF that] by blast
    then show ?thesis by (auto simp: body_def map_live_def probe_key_def)
  qed
  obtain p where p: "scan body ?es (unat (dm_hash m key) mod length ?es) = Some (p, False)" "p < length ?es"
      "\<not> map_live (?es ! p)" "reach map_vacant ?es (unat (dm_hash m key) mod length ?es) p"
    by (rule map_slots.locate_free [where hash = "dm_hash m", OF ne q(1) q' fr body], assumption)
  have "map_store m key object = Some (m\<lparr> dm_removed := dm_removed m - of_bool (map_tomb (?es ! p)),
       dm_entries := ?es[p := \<lparr> me_hash = dm_hash m key, me_object = object \<rparr>], dm_count := dm_count m + 1 \<rparr>, DR_OK)"
    using p(1) by (auto simp: map_store_def body_def i(1) map_tomb_def Let_def)
  then show ?thesis using p by blast
qed

lemma map_store_fresh:
  assumes inv: "map_inv keyof m" and fresh: "map_objects keyof m key = None"
    and ob: "object \<noteq> 0" "object \<noteq> -1" "keyof object = key" and room: "dm_count m + dm_removed m + 1 < dm_size m"
  shows "\<exists>m'. map_store m key object = Some (m', DR_OK) \<and> map_inv keyof m' \<and>
    map_objects keyof m' = (map_objects keyof m)(key \<mapsto> object) \<and> dm_size m' = dm_size m \<and>
    dm_count m' = dm_count m + 1 \<and> dm_removed m' \<le> dm_removed m"
proof -
  note i = map_invD [OF inv]
  let ?es = "dm_entries m"
  have fr: "slot_of map_live (\<lambda>e. keyof (me_object e)) ?es key = None" using fresh by (simp add: map_objects_def)
  obtain p where p: "p < length ?es" "\<not> map_live (?es ! p)"
      "reach map_vacant ?es (unat (dm_hash m key) mod length ?es) p"
    and s: "map_store m key object = Some (m\<lparr> dm_removed := dm_removed m - of_bool (map_tomb (?es ! p)),
       dm_entries := ?es[p := \<lparr> me_hash = dm_hash m key, me_object = object \<rparr>], dm_count := dm_count m + 1 \<rparr>, DR_OK)"
    using map_store_slot [OF inv fresh ob] by blast
  let ?x = "\<lparr> me_hash = dm_hash m key, me_object = object \<rparr>"
  have x: "map_live ?x" "\<not> map_tomb ?x" using ob by (simp_all add: map_live_def map_tomb_def)
  have st: "table_ok map_live map_vacant (\<lambda>e. keyof (me_object e)) (\<lambda>k. unat (dm_hash m k)) (?es[p := ?x]) \<and>
      slot_of map_live (\<lambda>e. keyof (me_object e)) (?es[p := ?x]) =
        (slot_of map_live (\<lambda>e. keyof (me_object e)) ?es)(key \<mapsto> ?x)"
    using map_slots.store_ok [where hash = "dm_hash m", OF i(5) p(1,2), of ?x] p(3) fr x(1) ob(3) by simp
  let ?m = "m\<lparr> dm_removed := dm_removed m - of_bool (map_tomb (?es ! p)),
               dm_entries := ?es[p := ?x], dm_count := dm_count m + 1 \<rparr>"
  have "length (filter map_live (?es[p := ?x])) = Suc (length (filter map_live ?es))"
    using length_filter_update_gain [of p ?es map_live ?x] p(1,2) x by simp
  moreover have "length (filter map_tomb (?es[p := ?x])) = length (filter map_tomb ?es) - of_bool (map_tomb (?es ! p))"
    using length_filter_update [OF p(1), of map_tomb ?x] x(2) by simp
  moreover have "\<forall>e \<in> set (?es[p := ?x]). map_live e \<longrightarrow> me_hash e = dm_hash m (keyof (me_object e))"
    using i(6) ob(3) set_update_subset_insert [of ?es p ?x] by auto
  ultimately have "map_inv keyof ?m"
    using i st room by (auto simp: map_inv_def)
  moreover have "map_objects keyof ?m = (map_objects keyof m)(key \<mapsto> object)"
    using st by (auto simp: map_objects_def fun_eq_iff)
  ultimately show ?thesis using s by (intro exI [of _ ?m]) simp
qed

lemma map_resize:
  assumes inv: "map_inv keyof m" and sz: "dm_count m < sz" "3 \<le> sz" "sz < 2 ^ 31"
  shows "\<exists>m'. resize_map True m sz = Some (m', DR_OK) \<and> map_inv keyof m' \<and> map_objects keyof m' = map_objects keyof m \<and>
    dm_size m' = sz \<and> dm_count m' = dm_count m \<and> dm_removed m' = 0 \<and> dm_hash m' = dm_hash m"
proof -
  note i = map_invD [OF inv]
  let ?es = "dm_entries m" and ?z = "replicate sz zero_entry"
  have z: "table_ok map_live map_vacant (\<lambda>e. keyof (me_object e)) (\<lambda>k. unat (dm_hash m k)) ?z"
    "slot_of map_live (\<lambda>e. keyof (me_object e)) ?z = Map.empty" "length (filter map_live ?z) = 0"
    using map_slots.fresh_table_ok [of sz zero_entry] sz(2) by auto
  have u: "uniq map_live (\<lambda>e. keyof (me_object e)) ?es" using i(5) by (simp add: table_ok_def)
  have home: "\<forall>e \<in> set ?es. map_live e \<longrightarrow>
      unat (me_hash e) mod length ?z = unat (dm_hash m (keyof (me_object e))) mod length ?z" using i(6) by simp
  obtain fs where fs: "rehash map_live (\<lambda>n e. unat (me_hash e) mod n) ?es ?z = Some fs" "length fs = sz"
    "table_ok map_live map_vacant (\<lambda>e. keyof (me_object e)) (\<lambda>k. unat (dm_hash m k)) fs"
    "slot_of map_live (\<lambda>e. keyof (me_object e)) fs =
       slot_of map_live (\<lambda>e. keyof (me_object e)) ?z ++ slot_of map_live (\<lambda>e. keyof (me_object e)) ?es"
    "length (filter map_live fs) = length (filter map_live ?es)"
    "\<forall>e \<in> set fs. map_live e \<or> map_vacant e"
    "\<forall>e \<in> set fs. map_live e \<longrightarrow> e \<in> set ?es \<or> e \<in> set ?z"
    using map_slots.rehash_ok [where hash = "dm_hash m", OF z(1), of ?es "\<lambda>n e. unat (me_hash e) mod n"] home u z(2,3) sz(1) i(2) by auto
  have "filter map_tomb fs = []"
    using fs(6) by (auto simp: filter_empty_conv map_live_def map_tomb_def map_vacant_def)
  moreover have "\<forall>e \<in> set fs. map_live e \<longrightarrow> me_hash e = dm_hash m (keyof (me_object e))"
    using fs(7) i(6) by auto
  ultimately have "map_inv keyof (m\<lparr> dm_size := sz, dm_entries := fs, dm_removed := 0 \<rparr>)"
    using fs i sz by (simp add: map_inv_def)
  moreover have "map_objects keyof (m\<lparr> dm_size := sz, dm_entries := fs, dm_removed := 0 \<rparr>) = map_objects keyof m"
    using fs(4) z(2) by (simp add: map_objects_def fun_eq_iff)
  ultimately show ?thesis using fs(1) by (simp add: resize_map_def)
qed

text \<open>
  Room for \<open>n\<close> more insertions: tombstones count towards growth, and the size is tripled as long
  as fewer than three quarters of it are free, up to the limit of \<^verbatim>\<open>int\<close> positions.
\<close>

definition map_room :: "nat \<Rightarrow> 'k DirectMap \<Rightarrow> bool" where
  "map_room n m \<longleftrightarrow> 12 * (dm_count m + dm_removed m + n) + 12 < 2 ^ 31"

lemma direct_map_insert_fresh:
  assumes inv: "map_inv keyof m" and fresh: "map_objects keyof m key = None"
    and ob: "object \<noteq> 0" "object \<noteq> -1" "keyof object = key" and room: "map_room (Suc n) m"
  shows "\<exists>m'. direct_map_insert True m key object = Some (m', DR_OK) \<and> map_inv keyof m' \<and>
    map_objects keyof m' = (map_objects keyof m)(key \<mapsto> object) \<and> map_room n m'"
proof (cases "dm_count m + dm_removed m > dm_size m div 4")
  case False
  note i = map_invD [OF inv]
  have "dm_count m + dm_removed m + 1 < dm_size m" using False i(8) by linarith
  then show ?thesis
    using map_store_fresh [OF inv fresh ob] False room
    by (auto simp: direct_map_insert_def map_room_def)
next
  case True
  note i = map_invD [OF inv]
  have s: "dm_size m < 4 * (dm_count m + dm_removed m)"
    using True by (simp add: div_less_iff_less_mult mult.commute)
  then have big: "dm_size m * 3 < 2 ^ 31" using room by (simp add: map_room_def)
  then have sz: "dm_size m * 3 mod 2 ^ 32 = dm_size m * 3" by simp
  obtain m' where m': "resize_map True m (dm_size m * 3) = Some (m', DR_OK)" "map_inv keyof m'"
    "map_objects keyof m' = map_objects keyof m" "dm_size m' = dm_size m * 3" "dm_count m' = dm_count m" "dm_removed m' = 0"
    using map_resize [OF inv, of "dm_size m * 3"] big i(4,8) by auto
  have "dm_count m' + dm_removed m' + 1 < dm_size m'" using m' i(4,8) by simp
  then show ?thesis
    using map_store_fresh [OF m'(2) _ ob] m' fresh True room sz
    by (auto simp: direct_map_insert_def map_room_def)
qed

lemma direct_map_remove_present:
  assumes inv: "map_inv keyof m" and present: "map_objects keyof m key = Some v"
  shows "\<exists>m'. direct_map_remove m key = Some (m', DR_OK) \<and> map_inv keyof m' \<and>
    map_objects keyof m' = (map_objects keyof m)(key := None) \<and>
    dm_count m' + dm_removed m' = dm_count m + dm_removed m"
proof -
  note i = map_invD [OF inv]
  let ?es = "dm_entries m"
  obtain p where p: "locate_entry m (dm_hash m key) key = Some (if map_objects keyof m key \<noteq> None then Some p else None)"
    "p < length ?es" "map_objects keyof m key \<noteq> None \<longrightarrow>
       slot_of map_live (\<lambda>e. keyof (me_object e)) ?es key = Some (?es ! p)"
    using locate_entry_returns [OF inv, of key] by blast
  have u: "uniq map_live (\<lambda>e. keyof (me_object e)) ?es" using i(5) by (simp add: table_ok_def)
  have live: "map_live (?es ! p)" "keyof (me_object (?es ! p)) = key"
    using p(3) present map_slots.slot_of_Some [OF u] by auto
  let ?t = "(?es ! p)\<lparr> me_object := REMOVED \<rparr>"
  have t: "\<not> map_live ?t" "\<not> map_vacant ?t" "map_tomb ?t" "\<not> map_tomb (?es ! p)"
    using live(1) by (simp_all add: map_live_def map_vacant_def map_tomb_def)
  note rm = map_slots.remove_ok [where hash = "dm_hash m", OF i(5) p(2) live(1) t(1,2)]
  let ?m = "m\<lparr> dm_entries := ?es[p := ?t], dm_count := dm_count m - 1, dm_removed := dm_removed m + 1 \<rparr>"
  have "length (filter map_tomb (?es[p := ?t])) = Suc (length (filter map_tomb ?es))"
    using length_filter_update_gain [OF p(2) t(4,3)] .
  moreover have l: "Suc (length (filter map_live (?es[p := ?t]))) = length (filter map_live ?es)"
    using length_filter_update_lose [OF p(2) live(1) t(1)] .
  moreover have "\<forall>e \<in> set (?es[p := ?t]). map_live e \<longrightarrow> me_hash e = dm_hash m (keyof (me_object e))"
    using i(6) t(1) set_update_subset_insert [of ?es p ?t] by auto
  ultimately have "map_inv keyof ?m" using i rm by (auto simp: map_inv_def)
  moreover have "map_objects keyof ?m = (map_objects keyof m)(key := None)"
    using rm live(2) by (auto simp: map_objects_def fun_eq_iff)
  moreover have "direct_map_remove m key = Some (?m, DR_OK)"
    using p(1) present by (simp add: direct_map_remove_def)
  moreover have "dm_count ?m + dm_removed ?m = dm_count m + dm_removed m" using l i(2) by simp
  ultimately show ?thesis by blast
qed

lemma direct_map_remove_absent:
  assumes inv: "map_inv keyof m" and absent: "map_objects keyof m key = None"
  shows "direct_map_remove m key = Some (m, DR_ITEMNOTFOUND)"
proof -
  obtain p where "locate_entry m (dm_hash m key) key = Some (if map_objects keyof m key \<noteq> None then Some p else None)"
    using locate_entry_returns [OF inv, of key] by blast
  then show ?thesis using absent by (simp add: direct_map_remove_def)
qed


section \<open>The container contract\<close>

definition map_find :: "'k DirectMap \<Rightarrow> 'k \<Rightarrow> u64 option option" where
  "map_find m key = map_option (\<lambda>ob. if ob = 0 then None else Some ob) (direct_map_lookup m key)"

lemma map_objects_nonnull: "map_objects keyof m key \<noteq> Some 0"
  by (auto simp: map_objects_def slot_of_def find_Some_iff map_live_def)

lemma map_objects_keyof: "map_objects keyof m key = Some ob \<Longrightarrow> keyof ob = key"
  by (auto simp: map_objects_def slot_of_def find_Some_iff)

interpretation map_dict: dictionary "map_inv keyof" "map_objects keyof" map_find "direct_map_insert True" direct_map_remove
  "\<lambda>k v. v \<noteq> 0 \<and> v \<noteq> -1 \<and> keyof v = k" map_room
  for keyof :: "u64 \<Rightarrow> 'k"
proof unfold_locales
  fix m :: "'k DirectMap" and key v and n
  assume inv: "map_inv keyof m"
  show "map_objects keyof m key = None \<Longrightarrow> v \<noteq> 0 \<and> v \<noteq> - 1 \<and> keyof v = key \<Longrightarrow> map_room (Suc n) m \<Longrightarrow>
      \<exists>m'. direct_map_insert True m key v = Some (m', DR_OK) \<and> map_inv keyof m' \<and>
        map_objects keyof m' = (map_objects keyof m)(key \<mapsto> v) \<and> map_room n m'"
    using direct_map_insert_fresh [OF inv] by blast
  show "map_objects keyof m key = Some v \<Longrightarrow> map_room n m \<Longrightarrow>
      \<exists>m'. direct_map_remove m key = Some (m', DR_OK) \<and> map_inv keyof m' \<and>
        map_objects keyof m' = (map_objects keyof m)(key := None) \<and> map_room n m'"
    using direct_map_remove_present [OF inv, of key v] by (auto simp: map_room_def)
  show "map_objects keyof m key = None \<Longrightarrow> \<exists>r. direct_map_remove m key = Some (m, r) \<and> r \<noteq> DR_OK"
    using direct_map_remove_absent [OF inv] by simp
  show "map_find m key = Some (map_objects keyof m key)"
    using direct_map_lookup_correct [OF inv, of key] map_objects_nonnull [of keyof m key]
    by (auto simp: map_find_def split: option.splits)
qed

lemma create_map_inv:
  fixes hash :: "'k \<Rightarrow> u32"
  assumes "direct_map_create True True n compare hash = (Some m, r)" "n < 2 ^ 31"
    and "\<And>k ob. compare k ob \<longleftrightarrow> keyof ob = k"
  shows "map_inv keyof m \<and> map_objects keyof m = Map.empty \<and> dm_count m = 0 \<and> dm_removed m = 0"
  using assms map_slots.fresh_table_ok [where hash = hash and keyof = keyof, of "max 3 n" zero_entry]
  by (auto simp: direct_map_create_def map_inv_def map_objects_def filter_replicate Let_def max_def split: if_splits)

section \<open>Properties\<close>

text \<open>
  C29: The generic map is a finite map from keys to objects. If the comparison function given at
  creation accepts exactly the object's own key, and while memory can be allocated, any sequence of up to \<open>178000000\<close>
  insertions, each of an object under its own key, not in the map at that time, and neither \<^verbatim>\<open>NULL\<close> nor the mark of a removed
  entry, mixed with removals and lookups, returns and answers like a
  finite map, through all resizes and for any hash function.
\<close>

theorem map_refines_map:
  assumes "direct_map_create True True n compare hash = (Some m, r)" and "n < 2 ^ 31"
    and "\<And>k ob. compare k ob \<longleftrightarrow> keyof ob = k"
    and "length (op_entries ops) \<le> 178000000"
    and "\<forall>(k, v) \<in> set (op_entries ops). v \<noteq> 0 \<and> v \<noteq> -1 \<and> keyof v = k"
    and "map_run Map.empty ops = Some (f, rs)"
  shows "\<exists>m'. dict_run (direct_map_insert True) direct_map_remove map_find m ops = Some (m', rs) \<and>
    (\<forall>k. map_find m' k = Some (f k))"
proof -
  note c = create_map_inv [OF assms(1-3)]
  have "map_room (length (op_entries ops)) m" using c assms(4) by (simp add: map_room_def)
  then obtain m' where "dict_run (direct_map_insert True) direct_map_remove map_find m ops = Some (m', rs)"
    "map_inv keyof m'" "map_objects keyof m' = f"
    using map_dict.run_refines_map [of keyof m ops f rs] c assms(5,6) by auto
  then show ?thesis using map_dict.lookup_amap [of keyof m'] by auto
qed

text \<open>In the witness objects are numbers, the key of an object is its last bit pair, all hashes collide.\<close>

theorem map_refines_map_witness:
  "\<exists>m'. dict_run (direct_map_insert True) direct_map_remove map_find
      \<lparr> dm_size = 3, dm_count = 0, dm_removed = 0, dm_entries = replicate 3 zero_entry,
        dm_compare = (\<lambda>k ob. ob AND 3 = k), dm_hash = (\<lambda>_. 9) \<rparr>
      [Insert 1 5, Insert 2 6, Remove 1, Lookup 2, Insert 1 9, Lookup 1] =
    Some (m', [Done True, Done True, Done True, Found (Some 6), Done True, Found (Some 9)])"
proof -
  have c: "direct_map_create True True 0 (\<lambda>k ob. ob AND 3 = k) (\<lambda>_. 9) =
    (Some \<lparr> dm_size = 3, dm_count = 0, dm_removed = 0, dm_entries = replicate 3 zero_entry,
        dm_compare = (\<lambda>k ob. ob AND 3 = k), dm_hash = (\<lambda>_. 9) \<rparr>, DR_OK)"
    by (simp add: direct_map_create_def)
  from map_refines_map [OF c, of "\<lambda>ob. ob AND 3" "[Insert 1 5, Insert 2 6, Remove 1, Lookup 2, Insert 1 9, Lookup 1]"]
  show ?thesis by auto
qed

text \<open>An iteration whose callback removes the objects satisfying \<open>P\<close> and collects what it sees.\<close>

definition sieve :: "(u64 \<Rightarrow> bool) \<Rightarrow> u64 \<Rightarrow> u64 list \<Rightarrow> DirectEnumerationResult \<times> u64 list" where
  "sieve P ob seen = (if P ob then DENUM_REMOVE else DENUM_OK, seen @ [ob])"

definition sieve_entry :: "(u64 \<Rightarrow> bool) \<Rightarrow> MapEntry \<Rightarrow> MapEntry" where
  "sieve_entry P e = (if map_live e \<and> P (me_object e) then e\<lparr> me_object := REMOVED \<rparr> else e)"

lemma iterate_sieve:
  "iterate_entries (sieve P) es c r seen =
    (map (sieve_entry P) es,
     c - length (filter (\<lambda>e. map_live e \<and> P (me_object e)) es),
     r + length (filter (\<lambda>e. map_live e \<and> P (me_object e)) es),
     seen @ map me_object (filter map_live es))"
  by (induction es arbitrary: c r seen) (auto simp: sieve_def sieve_entry_def map_live_def)

lemma sieve_live: "map_live (sieve_entry P e) \<longleftrightarrow> map_live e \<and> \<not> P (me_object e)"
  by (auto simp: sieve_entry_def map_live_def)

lemma sieve_counts:
  "length (filter map_live (map (sieve_entry P) es)) + length (filter (\<lambda>e. map_live e \<and> P (me_object e)) es) =
     length (filter map_live es)"
  "length (filter map_tomb (map (sieve_entry P) es)) =
     length (filter map_tomb es) + length (filter (\<lambda>e. map_live e \<and> P (me_object e)) es)"
  by (induction es) (auto simp: sieve_entry_def map_live_def map_tomb_def)

text \<open>
  C40: Removing entries while iterating is safe. An iteration whose callback asks for the removal
  of exactly the objects satisfying \<open>P\<close> visits every object of the map exactly once, leaves a
  well-formed map with correct counters, and that map is the old one without those objects.
\<close>

theorem map_iterate_removes:
  assumes "map_inv keyof m" and "direct_map_iterate m (sieve P) [] = (m', seen)"
  shows "map_inv keyof m' \<and> distinct seen \<and> set seen = ran (map_objects keyof m) \<and>
    (\<forall>k. map_objects keyof m' k =
       (case map_objects keyof m k of Some ob \<Rightarrow> if P ob then None else Some ob | None \<Rightarrow> None))"
proof -
  note i = map_invD [OF assms(1)]
  let ?es = "dm_entries m" and ?key = "\<lambda>e. keyof (me_object e)"
  let ?fs = "map (sieve_entry P) ?es" and ?n = "length (filter (\<lambda>e. map_live e \<and> P (me_object e)) (dm_entries m))"
  have m': "m' = m\<lparr> dm_entries := ?fs, dm_count := dm_count m - ?n, dm_removed := dm_removed m + ?n \<rparr>"
    and seen: "seen = map me_object (filter map_live ?es)"
    using assms(2) by (simp_all add: direct_map_iterate_def iterate_sieve)
  have kill: "?fs ! p = ?es ! p \<or> map_live (?es ! p) \<and> \<not> map_live (?fs ! p) \<and> \<not> map_vacant (?fs ! p)"
    if "p < length ?es" for p
    using that by (auto simp: sieve_entry_def map_live_def map_vacant_def)
  note k = map_slots.kill_ok [where hash = "dm_hash m" and keyof = keyof, OF i(5) _ kill, simplified]
  have u: "uniq map_live ?key ?es" using i(5) by (simp add: table_ok_def)
  have "map_inv keyof m'"
    using i k sieve_counts [of P ?es] by (auto simp: map_inv_def m' map_live_def sieve_entry_def split: if_splits)
  moreover have "distinct seen"
    using uniq_distinct [OF u] by (auto simp: seen distinct_map inj_on_def)
  moreover have "set seen = ran (map_objects keyof m)"
    by (force simp: seen ran_def map_objects_def map_slots.slot_of_Some [OF u] in_set_conv_nth)
  moreover have "map_objects keyof m' key =
       (case map_objects keyof m key of Some ob \<Rightarrow> if P ob then None else Some ob | None \<Rightarrow> None)" for key
  proof -
    have s: "slot_of map_live ?key ?fs key = Some e \<longleftrightarrow> slot_of map_live ?key ?es key = Some e \<and> \<not> P (me_object e)" for e
    proof -
      have "e \<in> set ?fs \<longleftrightarrow> \<not> P (me_object e)" if "slot_of map_live ?key ?es key = Some e"
        using that by (auto simp: map_slots.slot_of_Some [OF u] sieve_entry_def map_live_def image_iff in_set_conv_nth)
      then show ?thesis using k by auto
    qed
    show ?thesis
      using option_filter_eq [OF s] by (simp add: map_objects_def m' split: option.splits)
  qed
  ultimately show ?thesis by blast
qed

theorem map_iterate_removes_witness:
  "map_objects (\<lambda>ob. ob) (fst (direct_map_iterate
      \<lparr> dm_size = 3, dm_count = 1, dm_removed = 0, dm_entries = [zero_entry, \<lparr> me_hash = 1, me_object = 7 \<rparr>, zero_entry],
        dm_compare = (\<lambda>k ob. ob = k), dm_hash = (\<lambda>_. 1) \<rparr> (sieve (\<lambda>ob. ob = 7)) [])) 7 = None"
proof -
  let ?m = "\<lparr> dm_size = 3, dm_count = 1, dm_removed = 0, dm_entries = [zero_entry, \<lparr> me_hash = 1, me_object = 7 \<rparr>, zero_entry],
        dm_compare = (\<lambda>k ob. ob = k), dm_hash = (\<lambda>_. 1) \<rparr> :: u64 DirectMap"
  have live: "p < 3 \<Longrightarrow> map_live (dm_entries ?m ! p) \<longleftrightarrow> p = 1" for p
    by (cases p; cases "p - 1") (auto simp: map_live_def zero_entry_def)
  have "table_ok map_live map_vacant (\<lambda>e. me_object e) (\<lambda>k. unat (dm_hash ?m k)) (dm_entries ?m)"
    unfolding table_ok_def
  proof (intro conjI allI impI)
    show "uniq map_live (\<lambda>e. me_object e) (dm_entries ?m)" using live by (simp add: uniq_def)
    fix p assume "p < length (dm_entries ?m)" "map_live (dm_entries ?m ! p)"
    then have "p = 1" using live by simp
    then show "reach map_vacant (dm_entries ?m) (unat (dm_hash ?m (me_object (dm_entries ?m ! p))) mod length (dm_entries ?m)) p"
      by (auto simp: reach_def at_pos_def intro!: exI [of _ 0])
  qed simp
  then have "map_inv (\<lambda>ob. ob) ?m"
    by (auto simp: map_inv_def map_live_def map_tomb_def zero_entry_def)
  from map_iterate_removes [OF this prod.collapse [symmetric], of "\<lambda>ob. ob = 7"]
  show ?thesis by (auto split: option.splits dest: map_objects_keyof)
qed

text \<open>
  Out of memory turns into an endless loop. \<^verbatim>\<open>direct_map_insert\<close> ignores the result of \<^verbatim>\<open>resize_map\<close>:
  with one slot left and no memory to grow, inserting a fresh object still returns \<^const>\<open>DR_OK\<close> and
  fills the last slot, and from then on looking up any key that is not in the map never returns.
\<close>

theorem map_full_lookup_diverges:
  assumes "map_inv keyof m" and "map_objects keyof m key = None" and "keyof object = key"
    and "object \<noteq> 0" and "object \<noteq> -1" and "dm_removed m = 0" and "dm_count m + 1 = dm_size m"
    and "other \<noteq> key" and "map_objects keyof m other = None"
  shows "\<exists>m'. direct_map_insert False m key object = Some (m', DR_OK) \<and> direct_map_lookup m' other = None"
proof -
  note i = map_invD [OF assms(1)]
  let ?es = "dm_entries m" and ?x = "\<lparr> me_hash = dm_hash m key, me_object = object \<rparr>"
  have ins: "direct_map_insert False m key object = map_store m key object"
    by (simp add: direct_map_insert_def resize_map_def)
  obtain p where p: "p < length ?es" "\<not> map_live (?es ! p)"
    "map_store m key object = Some (m\<lparr> dm_removed := dm_removed m - of_bool (map_tomb (?es ! p)),
       dm_entries := ?es[p := ?x], dm_count := dm_count m + 1 \<rparr>, DR_OK)" (is "_ = Some (?m, _)")
    using map_store_slot [OF assms(1,2,4,5,3)] by blast
  have x: "map_live ?x" using assms(4,5) by (simp add: map_live_def)
  have "length (filter map_live (?es[p := ?x])) = length (?es[p := ?x])"
    using length_filter_update_gain [of p ?es map_live ?x] p(1,2) x i(1,2) assms(7) by simp
  then have all: "\<forall>e \<in> set (?es[p := ?x]). map_live e"
    using length_filter_less by (metis less_irrefl)
  have no: "\<not> (map_live e \<and> keyof (me_object e) = other)" if "e \<in> set ?es" for e
    using assms(9) that by (auto simp: map_objects_def map_slots.slot_of_None in_set_conv_nth)
  have "\<forall>e \<in> set (?es[p := ?x]). (if me_object e = 0 then Some False
       else if me_object e \<noteq> REMOVED \<and> me_hash e = dm_hash m other \<and> dm_compare m other (me_object e) then Some True
       else None) = None"
  proof
    fix e assume e: "e \<in> set (?es[p := ?x])"
    then have "e = ?x \<or> e \<in> set ?es" using set_update_subset_insert [of ?es p ?x] by blast
    then have "keyof (me_object e) \<noteq> other" using no all e assms(3,8) by auto
    then show "(if me_object e = 0 then Some False
       else if me_object e \<noteq> REMOVED \<and> me_hash e = dm_hash m other \<and> dm_compare m other (me_object e) then Some True
       else None) = None" using all e by (auto simp: map_live_def i(7))
  qed
  then have "scan (\<lambda>e. if me_object e = 0 then Some False
       else if me_object e \<noteq> REMOVED \<and> me_hash e = dm_hash m other \<and> dm_compare m other (me_object e) then Some True
       else None) (?es[p := ?x]) (unat (dm_hash m other) mod dm_size m) = None"
    using i(1,8) by (intro scan_diverges) auto
  moreover have "dm_compare ?m = dm_compare m" "dm_hash ?m = dm_hash m" "dm_size ?m = dm_size m"
    "dm_entries ?m = ?es[p := ?x]" by simp_all
  ultimately have "locate_entry ?m (dm_hash ?m other) other = None"
    unfolding locate_entry_def by (simp only: Option.bind.simps)
  then have "direct_map_lookup ?m other = None" unfolding direct_map_lookup_def by (simp only: Option.bind.simps)
  then show ?thesis using p(3) ins by (intro exI [of _ ?m]) simp
qed

theorem map_full_lookup_diverges_witness:
  "\<exists>m'. direct_map_insert False
      \<lparr> dm_size = 3, dm_count = 2, dm_removed = 0,
        dm_entries = [\<lparr> me_hash = 0, me_object = 6 \<rparr>, \<lparr> me_hash = 1, me_object = 7 \<rparr>, zero_entry],
        dm_compare = (\<lambda>k ob. ob = k), dm_hash = (\<lambda>k. ucast (k - 6)) \<rparr> 8 8 = Some (m', DR_OK) \<and>
    direct_map_lookup m' (9 :: u64) = None"
proof -
  let ?es = "[\<lparr> me_hash = 0, me_object = 6 \<rparr>, \<lparr> me_hash = 1, me_object = 7 \<rparr>, zero_entry]"
  let ?m = "\<lparr> dm_size = 3, dm_count = 2, dm_removed = 0, dm_entries = ?es,
        dm_compare = (\<lambda>k ob. ob = k), dm_hash = (\<lambda>k. ucast (k - 6)) \<rparr> :: u64 DirectMap"
  have cases: "p = 0 \<or> p = 1" if "p < length ?es" "map_live (?es ! p)" for p
  proof -
    have "p = 0 \<or> p = 1 \<or> p = 2" using that(1) by auto
    then show ?thesis using that(2) by auto
  qed
  have "uniq map_live (\<lambda>e. me_object e) ?es" by (simp add: uniq_Cons map_live_def zero_entry_def)
  moreover have "reach map_vacant ?es (unat (dm_hash ?m (me_object (?es ! p))) mod length ?es) p"
    if "p < length ?es" "map_live (?es ! p)" for p
    using cases [OF that] by (auto simp: reach_def at_pos_def intro!: exI [of _ 0])
  ultimately have "table_ok map_live map_vacant (\<lambda>e. me_object e) (\<lambda>k. unat (dm_hash ?m k)) (dm_entries ?m)"
    by (simp add: table_ok_def)
  then have "map_inv (\<lambda>ob. ob) ?m"
    by (auto simp: map_inv_def map_live_def map_tomb_def zero_entry_def)
  from map_full_lookup_diverges [OF this, of 8 8 9]
  show ?thesis by (simp add: map_objects_def slot_of_def map_live_def zero_entry_def)
qed

end
