(* ===== verification/Direct_Tree.thy ===== *)
theory Direct_Tree
  imports Dictionary
begin

text \<open>
  The balanced tree of \<^verbatim>\<open>lib/direct/tree.c\<close>: an AVL tree over pointer keys with the balance factor
  stored in every node, and an array for keys below 128. A rotation dereferences a child; the
  model value \<^term>\<open>None\<close> stands for dereferencing \<^verbatim>\<open>NULL\<close>.
\<close>

datatype DirectNode =
  NoNode
| Node (node_balance: int) (node_left: DirectNode) (node_key: u64) (node_value: u64) (node_right: DirectNode)

record DirectTree =
  dt_root :: DirectNode
  dt_fast_keys :: "u64 list"

section \<open>Operations\<close>

text \<open>\<^verbatim>\<open>int cmp = (char*) key - (char*) node->key\<close>: the 64-bit difference is cut to 32 bits.\<close>

definition key_cmp :: "u64 \<Rightarrow> u64 \<Rightarrow> int" where
  "key_cmp key nkey = sint (ucast (key - nkey) :: 32 word)"

text \<open>\<open>mem\<close> tells whether \<^verbatim>\<open>D_MALLOC\<close> succeeds; the code does not ask, and writes through \<^verbatim>\<open>NULL\<close> when it fails.\<close>

definition tree_node_new :: "bool \<Rightarrow> u64 \<Rightarrow> u64 \<Rightarrow> DirectNode option" where
  "tree_node_new mem key value = (if mem then Some (Node 0 NoNode key value NoNode) else None)"

fun tree_node_rotate_left :: "DirectNode \<Rightarrow> DirectNode option" where
  "tree_node_rotate_left (Node a_bal l k v (Node b_bal rl rk rv rr)) =
    (let (right_bal, node_bal) =
       (if b_bal \<le> 0 then
          (if a_bal \<ge> 1 then b_bal - 1 else a_bal + b_bal - 2, a_bal - 1)
        else
          (if a_bal \<le> b_bal then a_bal - 2 else b_bal - 1, a_bal - b_bal - 1))
     in Some (Node right_bal (Node node_bal l k v rl) rk rv rr))"
| "tree_node_rotate_left _ = None"

fun tree_node_rotate_right :: "DirectNode \<Rightarrow> DirectNode option" where
  "tree_node_rotate_right (Node a_bal (Node b_bal ll lk lv lr) k v r) =
    (let (left_bal, node_bal) =
       (if b_bal \<le> 0 then
          (if b_bal > a_bal then b_bal + 1 else a_bal + 2, a_bal - b_bal + 1)
        else
          (if a_bal \<le> -1 then b_bal + 1 else a_bal + b_bal + 2, a_bal + 1))
     in Some (Node left_bal ll lk lv (Node node_bal lr k v r)))"
| "tree_node_rotate_right _ = None"

definition tree_node_balance :: "DirectNode \<Rightarrow> DirectNode option" where
  "tree_node_balance node =
    (case node of
       NoNode \<Rightarrow> None
     | Node b l k v r \<Rightarrow>
         if b < -1 then
           (if l = NoNode then None
            else do {
              l \<leftarrow> (if node_balance l > 0 then tree_node_rotate_left l else Some l);
              tree_node_rotate_right (Node b l k v r) })
         else if b > 1 then
           (if r = NoNode then None
            else do {
              r \<leftarrow> (if node_balance r < 0 then tree_node_rotate_right r else Some r);
              tree_node_rotate_left (Node b l k v r) })
         else Some node)"

text \<open>The second component is the flag \<^verbatim>\<open>*inserted\<close>.\<close>

fun tree_node_insert :: "bool \<Rightarrow> DirectNode \<Rightarrow> u64 \<Rightarrow> u64 \<Rightarrow> (DirectNode \<times> bool) option" where
  "tree_node_insert mem NoNode key value = do { node \<leftarrow> tree_node_new mem key value; Some (node, True) }"
| "tree_node_insert mem (Node b l k v r) key value =
    (let cmp = key_cmp key k
     in if cmp = 0 then Some (Node b l k value r, False)
        else do {
          (node, inserted) \<leftarrow>
            (if cmp < 0 then
               (if l \<noteq> NoNode then do {
                  (l', inserted) \<leftarrow> tree_node_insert mem l key value;
                  Some (Node (if node_balance l \<noteq> node_balance l' \<and> node_balance l' \<noteq> 0 then b - 1 else b)
                          l' k v r, inserted) }
                else do { l \<leftarrow> tree_node_new mem key value; Some (Node (b - 1) l k v r, True) })
             else
               (if r \<noteq> NoNode then do {
                  (r', inserted) \<leftarrow> tree_node_insert mem r key value;
                  Some (Node (if node_balance r \<noteq> node_balance r' \<and> node_balance r' \<noteq> 0 then b + 1 else b)
                          l k v r', inserted) }
                else do { r \<leftarrow> tree_node_new mem key value; Some (Node (b + 1) l k v r, True) }));
          if inserted \<and> (node_balance node < -1 \<or> node_balance node > 1)
          then do { node \<leftarrow> tree_node_balance node; Some (node, inserted) }
          else Some (node, inserted)
        })"

text \<open>The value of the node found.\<close>

fun tree_node_lookup :: "DirectNode \<Rightarrow> u64 \<Rightarrow> u64 option" where
  "tree_node_lookup NoNode key = None"
| "tree_node_lookup (Node b l k v r) key =
    (let cmp = key_cmp key k
     in if cmp = 0 then Some v
        else if cmp < 0 \<and> l \<noteq> NoNode then tree_node_lookup l key
        else if cmp > 0 \<and> r \<noteq> NoNode then tree_node_lookup r key
        else None)"

definition direct_tree_new :: DirectTree where
  "direct_tree_new = \<lparr> dt_root = NoNode, dt_fast_keys = replicate 128 0 \<rparr>"

definition direct_tree_insert :: "bool \<Rightarrow> DirectTree \<Rightarrow> u64 \<Rightarrow> u64 \<Rightarrow> DirectTree option" where
  "direct_tree_insert mem tree key value =
    (if key < 128 then Some (tree\<lparr> dt_fast_keys := (dt_fast_keys tree)[unat key := value] \<rparr>)
     else do {
       (root, _) \<leftarrow> tree_node_insert mem (dt_root tree) key value;
       Some (tree\<lparr> dt_root := root \<rparr>) })"

text \<open>0 stands for \<^verbatim>\<open>NULL\<close>.\<close>

definition direct_tree_lookup :: "DirectTree \<Rightarrow> u64 \<Rightarrow> u64" where
  "direct_tree_lookup tree key =
    (if key < 128 then dt_fast_keys tree ! unat key
     else (case tree_node_lookup (dt_root tree) key of Some v \<Rightarrow> v | None \<Rightarrow> 0))"

text \<open>The blocks freed by \<^verbatim>\<open>direct_tree_destroy\<close>: values of the array, then nodes bottom-up with their values.\<close>

fun tree_node_destroy :: "DirectNode \<Rightarrow> u64 list" where
  "tree_node_destroy NoNode = []"
| "tree_node_destroy (Node b l k v r) =
    tree_node_destroy l @ tree_node_destroy r @ (if v \<noteq> 0 then [v] else [])"

definition direct_tree_destroy :: "DirectTree \<Rightarrow> u64 list" where
  "direct_tree_destroy tree = filter (\<lambda>v. v \<noteq> 0) (dt_fast_keys tree) @ tree_node_destroy (dt_root tree)"

section \<open>Entries in order\<close>

fun entries :: "DirectNode \<Rightarrow> (u64 \<times> u64) list" where
  "entries NoNode = []"
| "entries (Node b l k v r) = entries l @ (k, v) # entries r"

definition ascending :: "(u64 \<times> u64) list \<Rightarrow> bool" where
  "ascending es \<longleftrightarrow> sorted_wrt (<) (map fst es)"

fun upd :: "u64 \<Rightarrow> u64 \<Rightarrow> (u64 \<times> u64) list \<Rightarrow> (u64 \<times> u64) list" where
  "upd key value [] = [(key, value)]"
| "upd key value ((k, v) # es) =
    (if key < k then (key, value) # (k, v) # es
     else if key = k then (k, value) # es
     else (k, v) # upd key value es)"

lemma set_upd: "fst ` set (upd key value es) = insert key (fst ` set es)"
  by (induction key "value" es rule: upd.induct) auto

lemma values_upd: "snd ` set (upd key value es) \<subseteq> insert value (snd ` set es)"
  by (induction key "value" es rule: upd.induct) auto

lemma ascending_upd: "ascending es \<Longrightarrow> ascending (upd key value es)"
proof (induction key "value" es rule: upd.induct)
  case (2 key "value" k v es)
  then show ?case using set_upd [of key "value" es] by (auto simp: ascending_def)
qed (simp add: ascending_def)

lemma map_of_upd: "ascending es \<Longrightarrow> map_of (upd key value es) = (map_of es)(key \<mapsto> value)"
  by (induction key "value" es rule: upd.induct) (auto simp: ascending_def fun_eq_iff)

lemma upd_append:
  assumes "ascending (xs @ (k, v) # ys)"
  shows "upd key value (xs @ (k, v) # ys) =
    (if key < k then upd key value xs @ (k, v) # ys
     else if key = k then xs @ (k, value) # ys
     else xs @ (k, v) # upd key value ys)"
  using assms
  by (induction xs) (auto simp: ascending_def sorted_wrt_append not_less dest: leD)

lemma map_of_append_key:
  assumes "ascending (xs @ (k, v) # ys)"
  shows "map_of (xs @ (k, v) # ys) key =
    (if key < k then map_of xs key else if key = k then Some v else map_of ys key)"
proof -
  have "map_of xs key = None" if "\<not> key < k"
    using assms that by (auto simp: ascending_def sorted_wrt_append map_of_eq_None_iff)
  moreover have "map_of ys key = None" if "key < k"
    using assms that by (auto simp: ascending_def sorted_wrt_append map_of_eq_None_iff dest: less_asym)
  ultimately show ?thesis by (auto simp: map_add_def split: option.splits)
qed

section \<open>Balance\<close>

fun height :: "DirectNode \<Rightarrow> int" where
  "height NoNode = 0"
| "height (Node b l k v r) = 1 + max (height l) (height r)"

lemma height_nonneg: "0 \<le> height t"
  by (induction t) auto

lemma height_pos: "t \<noteq> NoNode \<Longrightarrow> 0 < height t"
  by (cases t) (simp_all add: add_pos_nonneg le_max_iff_disj height_nonneg)

text \<open>\<open>exact\<close>: every stored balance is the difference of the heights; \<open>avl\<close>: it is also at most one.\<close>

fun exact :: "DirectNode \<Rightarrow> bool" where
  "exact NoNode = True"
| "exact (Node b l k v r) \<longleftrightarrow> b = height r - height l \<and> exact l \<and> exact r"

fun avl :: "DirectNode \<Rightarrow> bool" where
  "avl NoNode = True"
| "avl (Node b l k v r) \<longleftrightarrow> b = height r - height l \<and> \<bar>b\<bar> \<le> 1 \<and> avl l \<and> avl r"

lemma rotate_left_ok:
  assumes "b = height r - height l" "exact l" "exact r" "r \<noteq> NoNode"
  shows "\<exists>t. tree_node_rotate_left (Node b l k v r) = Some t \<and> exact t \<and> entries t = entries (Node b l k v r)"
proof -
  obtain rb rl rk rv rr where r: "r = Node rb rl rk rv rr" using assms(4) by (cases r) auto
  show ?thesis using assms by (auto simp: r max_def)
qed

lemma rotate_right_ok:
  assumes "b = height r - height l" "exact l" "exact r" "l \<noteq> NoNode"
  shows "\<exists>t. tree_node_rotate_right (Node b l k v r) = Some t \<and> exact t \<and> entries t = entries (Node b l k v r)"
proof -
  obtain lb ll lk lv lr where l: "l = Node lb ll lk lv lr" using assms(4) by (cases l) auto
  show ?thesis using assms by (auto simp: l max_def)
qed

lemma avl_exact: "avl t \<Longrightarrow> exact t"
  by (induction t) auto

text \<open>
  Rebalancing a node whose left side has become two higher: the result is an AVL tree of the
  height the higher side had, with the same entries and balance 0 at the top.
\<close>

lemma balance_left:
  assumes "avl l" "avl r" "height l = height r + 2" "node_balance l \<noteq> 0"
  shows "\<exists>t. tree_node_balance (Node (height r - height l) l k v r) = Some t \<and> avl t \<and>
    entries t = entries (Node 0 l k v r) \<and> height t = height l \<and> node_balance t = 0"
proof -
  obtain lb ll lk lv lr where l: "l = Node lb ll lk lv lr"
    using assms(3) height_nonneg [of r] by (cases l) auto
  have lb: "lb = height lr - height ll" "lb = 1 \<or> lb = -1" using assms(1,4) by (auto simp: l)
  show ?thesis
  proof (cases "lb = 1")
    case False
    then have "lb = -1" using lb by simp
    then show ?thesis using assms lb(1) by (auto simp: l tree_node_balance_def max_def)
  next
    case True
    have "lr \<noteq> NoNode"
    proof
      assume "lr = NoNode"
      then have "height ll = -1" using lb(1) True by simp
      then show False using height_nonneg [of ll] by linarith
    qed
    then obtain mb ml mk mv mr where m: "lr = Node mb ml mk mv mr" by (cases lr) auto
    have "mb = height mr - height ml" "mb = -1 \<or> mb = 0 \<or> mb = 1" using assms(1) by (auto simp: l m)
    then show ?thesis
      using assms lb(1) True by (auto simp: l m tree_node_balance_def max_def split: if_splits)
  qed
qed

lemma balance_right:
  assumes "avl l" "avl r" "height r = height l + 2" "node_balance r \<noteq> 0"
  shows "\<exists>t. tree_node_balance (Node (height r - height l) l k v r) = Some t \<and> avl t \<and>
    entries t = entries (Node 0 l k v r) \<and> height t = height r \<and> node_balance t = 0"
proof -
  obtain rb rl rk rv rr where r: "r = Node rb rl rk rv rr"
    using assms(3) height_nonneg [of l] by (cases r) auto
  have rb: "rb = height rr - height rl" "rb = 1 \<or> rb = -1" using assms(2,4) by (auto simp: r)
  show ?thesis
  proof (cases "rb = -1")
    case False
    then have "rb = 1" using rb by simp
    then show ?thesis using assms rb(1) by (auto simp: r tree_node_balance_def max_def)
  next
    case True
    have "rl \<noteq> NoNode"
    proof
      assume "rl = NoNode"
      then have "height rr = -1" using rb(1) True by simp
      then show False using height_nonneg [of rr] by linarith
    qed
    then obtain mb ml mk mv mr where m: "rl = Node mb ml mk mv mr" by (cases rl) auto
    have "mb = height mr - height ml" "mb = -1 \<or> mb = 0 \<or> mb = 1" using assms(2) by (auto simp: r m)
    then show ?thesis
      using assms rb(1) True by (auto simp: r m tree_node_balance_def max_def split: if_splits)
  qed
qed

section \<open>Insertion\<close>

text \<open>Keys that lie less than \<open>2 ^ 31\<close> apart are compared correctly.\<close>

definition in_window :: "int \<Rightarrow> u64 \<Rightarrow> bool" where
  "in_window base key \<longleftrightarrow> base \<le> uint key \<and> uint key < base + 2 ^ 31"

lemma key_cmp_diff:
  assumes "in_window base a" "in_window base b"
  shows "key_cmp a b = uint a - uint b"
proof -
  let ?d = "uint a - uint b"
  have d: "- (2 ^ 31) \<le> ?d" "?d < 2 ^ 31" using assms by (auto simp: in_window_def)
  have "uint (a - b) = take_bit 64 ?d" by (simp only: uint_word_ariths take_bit_eq_mod) simp
  then have "uint (ucast (a - b) :: 32 word) = take_bit 32 (take_bit 64 ?d)"
    by (simp only: unsigned_ucast_eq) simp
  then have "key_cmp a b = signed_take_bit 31 (take_bit 32 (take_bit 64 ?d))"
    by (simp only: key_cmp_def sint_uint) simp
  also have "\<dots> = signed_take_bit 31 ?d" by (simp add: signed_take_bit_take_bit)
  also have "\<dots> = ?d" using d by (simp add: signed_take_bit_int_eq_self)
  finally show ?thesis .
qed

lemma key_cmp_order:
  assumes "in_window base a" "in_window base b"
  shows "key_cmp a b < 0 \<longleftrightarrow> a < b" "key_cmp a b = 0 \<longleftrightarrow> a = b"
  using key_cmp_diff [OF assms] by (auto simp: word_less_def word_uint_eq_iff)


definition keys_ok :: "int \<Rightarrow> DirectNode \<Rightarrow> bool" where
  "keys_ok base t \<longleftrightarrow> ascending (entries t) \<and> (\<forall>k \<in> fst ` set (entries t). in_window base k)"

lemma keys_ok_Node:
  assumes "keys_ok base (Node b l k v r)"
  shows "keys_ok base l" "keys_ok base r" "in_window base k" "ascending (entries l @ (k, v) # entries r)"
  using assms by (auto simp: keys_ok_def ascending_def sorted_wrt_append)

lemma keys_ok_upd:
  assumes "keys_ok base t" "in_window base key" "entries t' = upd key value (entries t)"
  shows "keys_ok base t'"
  using assms ascending_upd set_upd [of key "value" "entries t"] by (auto simp: keys_ok_def)

lemma entries_Nil: "entries t = [] \<longleftrightarrow> t = NoNode"
  by (cases t) auto

text \<open>
  The induction: what the recursion reports through \<^verbatim>\<open>*inserted\<close> and the stored balances is exactly
  whether the height grew.
\<close>

definition insert_ok :: "DirectNode \<Rightarrow> u64 \<Rightarrow> u64 \<Rightarrow> DirectNode \<Rightarrow> bool \<Rightarrow> bool" where
  "insert_ok t key value t' ins \<longleftrightarrow> avl t' \<and> t' \<noteq> NoNode \<and> entries t' = upd key value (entries t) \<and>
    (t \<noteq> NoNode \<longrightarrow>
      height t' = height t + (if node_balance t \<noteq> node_balance t' \<and> node_balance t' \<noteq> 0 then 1 else 0)) \<and>
    (\<not> ins \<longrightarrow> t \<noteq> NoNode \<and> node_balance t' = node_balance t)"

text \<open>The step after the recursive call: the changed child has grown or not, and the node is rebalanced if needed.\<close>

lemma grown_left:
  assumes "avl (Node b l k v r)" "avl l'" "l' \<noteq> NoNode" "height l' = height l + (if g then 1 else 0)"
    and "g \<longrightarrow> l \<noteq> NoNode \<longrightarrow> node_balance l' \<noteq> 0" "g \<longrightarrow> ins"
  shows "\<exists>t'. (if ins \<and> ((if g then b - 1 else b) < -1 \<or> (if g then b - 1 else b) > 1)
      then tree_node_balance (Node (if g then b - 1 else b) l' k v r)
      else Some (Node (if g then b - 1 else b) l' k v r)) = Some t' \<and> avl t' \<and> t' \<noteq> NoNode \<and>
    entries t' = entries l' @ (k, v) # entries r \<and>
    height t' = height (Node b l k v r) + (if b \<noteq> node_balance t' \<and> node_balance t' \<noteq> 0 then 1 else 0) \<and>
    (\<not> g \<longrightarrow> node_balance t' = b)"
proof (cases "g \<and> b = -1")
  case False
  define c where "c = (if g then b - 1 else b)"
  have b: "\<bar>c\<bar> \<le> 1" "b = height r - height l" "avl l" "avl r" "\<bar>b\<bar> \<le> 1" "\<not> g \<Longrightarrow> c = b"
    using assms(1) False by (auto simp: c_def)
  let ?t = "Node c l' k v r"
  have "avl ?t" using b assms(2,4) by (simp add: c_def split: if_splits)
  moreover have "height ?t = height (Node b l k v r) + (if b \<noteq> node_balance ?t \<and> node_balance ?t \<noteq> 0 then 1 else 0)"
    using b assms(4) by (auto simp: c_def max_def abs_le_iff)
  moreover have "(if ins \<and> (c < -1 \<or> c > 1) then tree_node_balance ?t else Some ?t) = Some ?t" using b(1) by auto
  moreover have "?t \<noteq> NoNode" "entries ?t = entries l' @ (k, v) # entries r" "\<not> g \<longrightarrow> node_balance ?t = b" using b(6) by auto
  ultimately show ?thesis unfolding c_def [symmetric] by blast
next
  case True
  then have h: "height l' = height r + 2" "height l = height r + 1" "b - 1 = height r - height l'"
    using assms(1,4) by auto
  have "l \<noteq> NoNode" using h(2) height_nonneg [of r] by auto
  then have "node_balance l' \<noteq> 0" using assms(5) True by blast
  then obtain t where t: "tree_node_balance (Node (b - 1) l' k v r) = Some t" "avl t"
    "entries t = entries (Node 0 l' k v r)" "height t = height l'" "node_balance t = 0"
    using balance_left [OF assms(2) _ h(1), of k v] assms(1) h(3) by auto
  have "t \<noteq> NoNode" using t(3) by (cases t) auto
  then show ?thesis using True assms(6) h t by (intro exI [of _ t]) (simp add: max_def)
qed

lemma grown_right:
  assumes "avl (Node b l k v r)" "avl r'" "r' \<noteq> NoNode" "height r' = height r + (if g then 1 else 0)"
    and "g \<longrightarrow> r \<noteq> NoNode \<longrightarrow> node_balance r' \<noteq> 0" "g \<longrightarrow> ins"
  shows "\<exists>t'. (if ins \<and> ((if g then b + 1 else b) < -1 \<or> (if g then b + 1 else b) > 1)
      then tree_node_balance (Node (if g then b + 1 else b) l k v r')
      else Some (Node (if g then b + 1 else b) l k v r')) = Some t' \<and> avl t' \<and> t' \<noteq> NoNode \<and>
    entries t' = entries l @ (k, v) # entries r' \<and>
    height t' = height (Node b l k v r) + (if b \<noteq> node_balance t' \<and> node_balance t' \<noteq> 0 then 1 else 0) \<and>
    (\<not> g \<longrightarrow> node_balance t' = b)"
proof (cases "g \<and> b = 1")
  case False
  define c where "c = (if g then b + 1 else b)"
  have b: "\<bar>c\<bar> \<le> 1" "b = height r - height l" "avl l" "avl r" "\<bar>b\<bar> \<le> 1" "\<not> g \<Longrightarrow> c = b"
    using assms(1) False by (auto simp: c_def)
  let ?t = "Node c l k v r'"
  have "avl ?t" using b assms(2,4) by (simp add: c_def split: if_splits)
  moreover have "height ?t = height (Node b l k v r) + (if b \<noteq> node_balance ?t \<and> node_balance ?t \<noteq> 0 then 1 else 0)"
    using b assms(4) by (auto simp: c_def max_def abs_le_iff)
  moreover have "(if ins \<and> (c < -1 \<or> c > 1) then tree_node_balance ?t else Some ?t) = Some ?t" using b(1) by auto
  moreover have "?t \<noteq> NoNode" "entries ?t = entries l @ (k, v) # entries r'" "\<not> g \<longrightarrow> node_balance ?t = b" using b(6) by auto
  ultimately show ?thesis unfolding c_def [symmetric] by blast
next
  case True
  then have h: "height r' = height l + 2" "height r = height l + 1" "b + 1 = height r' - height l"
    using assms(1,4) by auto
  have "r \<noteq> NoNode" using h(2) height_nonneg [of l] by auto
  then have "node_balance r' \<noteq> 0" using assms(5) True by blast
  then obtain t where t: "tree_node_balance (Node (b + 1) l k v r') = Some t" "avl t"
    "entries t = entries (Node 0 l k v r')" "height t = height r'" "node_balance t = 0"
    using balance_right [OF _ assms(2) h(1), of k v] assms(1) h(3) by auto
  have "t \<noteq> NoNode" using t(3) by (cases t) auto
  then show ?thesis using True assms(6) h t by (intro exI [of _ t]) (simp add: max_def)
qed


lemma node_insert_unfold:
  "key_cmp key k < 0 \<Longrightarrow> tree_node_insert True (Node b l k v r) key value =
     (if l = NoNode then
        (if b - 1 < -1 \<or> b - 1 > 1
         then map_option (\<lambda>t. (t, True)) (tree_node_balance (Node (b - 1) (Node 0 NoNode key value NoNode) k v r))
         else Some (Node (b - 1) (Node 0 NoNode key value NoNode) k v r, True))
      else
        (case tree_node_insert True l key value of
           None \<Rightarrow> None
         | Some (l', ins) \<Rightarrow>
             map_option (\<lambda>t. (t, ins))
              (let g = (node_balance l \<noteq> node_balance l' \<and> node_balance l' \<noteq> 0)
               in if ins \<and> ((if g then b - 1 else b) < -1 \<or> (if g then b - 1 else b) > 1)
                  then tree_node_balance (Node (if g then b - 1 else b) l' k v r)
                  else Some (Node (if g then b - 1 else b) l' k v r))))"
  "key_cmp key k > 0 \<Longrightarrow> tree_node_insert True (Node b l k v r) key value =
     (if r = NoNode then
        (if b + 1 < -1 \<or> b + 1 > 1
         then map_option (\<lambda>t. (t, True)) (tree_node_balance (Node (b + 1) l k v (Node 0 NoNode key value NoNode)))
         else Some (Node (b + 1) l k v (Node 0 NoNode key value NoNode), True))
      else
        (case tree_node_insert True r key value of
           None \<Rightarrow> None
         | Some (r', ins) \<Rightarrow>
             map_option (\<lambda>t. (t, ins))
              (let g = (node_balance r \<noteq> node_balance r' \<and> node_balance r' \<noteq> 0)
               in if ins \<and> ((if g then b + 1 else b) < -1 \<or> (if g then b + 1 else b) > 1)
                  then tree_node_balance (Node (if g then b + 1 else b) l k v r')
                  else Some (Node (if g then b + 1 else b) l k v r'))))"
  by (auto simp: Let_def map_option_case tree_node_new_def split: option.splits if_splits)

lemma tree_node_insert_ok:
  assumes "avl t" "keys_ok base t" "in_window base key"
  shows "\<exists>t' ins. tree_node_insert True t key value = Some (t', ins) \<and> insert_ok t key value t' ins"
  using assms
proof (induction t)
  case NoNode
  then show ?case by (auto simp: insert_ok_def tree_node_new_def)
next
  case (Node b l k v r)
  note ko = keys_ok_Node [OF Node.prems(2)]
  note ord = key_cmp_order [OF Node.prems(3) ko(3)]
  have av: "avl l" "avl r" "b = height r - height l" "\<bar>b\<bar> \<le> 1" using Node.prems(1) by auto
  let ?n = "Node 0 NoNode key value NoNode"
  have n: "avl ?n" "?n \<noteq> NoNode" "height ?n = 1" "entries ?n = [(key, value)]" "node_balance ?n = 0"
    by simp_all
  consider "key_cmp key k = 0" | "key_cmp key k < 0" | "key_cmp key k > 0" by linarith
  then show ?case
  proof cases
    case 1
    then have "key = k" using ord by simp
    then show ?thesis
      using 1 av upd_append [OF ko(4), of key "value"] by (auto simp: insert_ok_def)
  next
    case 2
    have lt: "key < k" using 2 ord by simp
    note u = upd_append [OF ko(4), of key "value"]
    show ?thesis
    proof (cases "l = NoNode")
      case True
      have "height ?n = height l + (if True then 1 else 0)" using n(3) True by simp
      from grown_left [OF Node.prems(1) n(1,2) this, of True] True
      obtain t' where t': "(if True \<and> ((if True then b - 1 else b) < -1 \<or> (if True then b - 1 else b) > 1)
          then tree_node_balance (Node (if True then b - 1 else b) ?n k v r)
          else Some (Node (if True then b - 1 else b) ?n k v r)) = Some t'" "avl t'" "t' \<noteq> NoNode"
        "entries t' = entries ?n @ (k, v) # entries r"
        "height t' = height (Node b l k v r) + (if b \<noteq> node_balance t' \<and> node_balance t' \<noteq> 0 then 1 else 0)"
        by blast
      have "tree_node_insert True (Node b l k v r) key value = Some (t', True)"
        unfolding node_insert_unfold(1) [OF 2] using t'(1) True by (auto split: if_splits)
      then show ?thesis using t' u lt True n(4) by (auto simp: insert_ok_def)
    next
      case False
      obtain l' ins where i: "tree_node_insert True l key value = Some (l', ins)" "insert_ok l key value l' ins"
        using Node.IH(1) av(1) ko(1) Node.prems(3) by blast
      define g where "g = (node_balance l \<noteq> node_balance l' \<and> node_balance l' \<noteq> 0)"
      have g: "avl l'" "l' \<noteq> NoNode" "height l' = height l + (if g then 1 else 0)"
        "g \<longrightarrow> l \<noteq> NoNode \<longrightarrow> node_balance l' \<noteq> 0" "g \<longrightarrow> ins" "entries l' = upd key value (entries l)"
        using i(2) False by (auto simp: insert_ok_def g_def)
      from grown_left [OF Node.prems(1) g(1-5)]
      obtain t' where t': "(if ins \<and> ((if g then b - 1 else b) < -1 \<or> (if g then b - 1 else b) > 1)
          then tree_node_balance (Node (if g then b - 1 else b) l' k v r)
          else Some (Node (if g then b - 1 else b) l' k v r)) = Some t'" "avl t'" "t' \<noteq> NoNode"
        "entries t' = entries l' @ (k, v) # entries r"
        "height t' = height (Node b l k v r) + (if b \<noteq> node_balance t' \<and> node_balance t' \<noteq> 0 then 1 else 0)"
        "\<not> g \<longrightarrow> node_balance t' = b"
        by blast
      have "tree_node_insert True (Node b l k v r) key value = Some (t', ins)"
        unfolding node_insert_unfold(1) [OF 2] i(1) option.case prod.case Let_def g_def [symmetric] t'(1)
        using False by simp
      then show ?thesis using t' u lt g(5,6) by (auto simp: insert_ok_def)
    qed
  next
    case 3
    have gt: "\<not> key < k" "key \<noteq> k" using 3 ord by auto
    note u = upd_append [OF ko(4), of key "value"]
    show ?thesis
    proof (cases "r = NoNode")
      case True
      have "height ?n = height r + (if True then 1 else 0)" using n(3) True by simp
      from grown_right [OF Node.prems(1) n(1,2) this, of True] True
      obtain t' where t': "(if True \<and> ((if True then b + 1 else b) < -1 \<or> (if True then b + 1 else b) > 1)
          then tree_node_balance (Node (if True then b + 1 else b) l k v ?n)
          else Some (Node (if True then b + 1 else b) l k v ?n)) = Some t'" "avl t'" "t' \<noteq> NoNode"
        "entries t' = entries l @ (k, v) # entries ?n"
        "height t' = height (Node b l k v r) + (if b \<noteq> node_balance t' \<and> node_balance t' \<noteq> 0 then 1 else 0)"
        by blast
      have "tree_node_insert True (Node b l k v r) key value = Some (t', True)"
        unfolding node_insert_unfold(2) [OF 3] using t'(1) True by (auto split: if_splits)
      then show ?thesis using t' u gt True n(4) by (auto simp: insert_ok_def)
    next
      case False
      obtain r' ins where i: "tree_node_insert True r key value = Some (r', ins)" "insert_ok r key value r' ins"
        using Node.IH(2) av(2) ko(2) Node.prems(3) by blast
      define g where "g = (node_balance r \<noteq> node_balance r' \<and> node_balance r' \<noteq> 0)"
      have g: "avl r'" "r' \<noteq> NoNode" "height r' = height r + (if g then 1 else 0)"
        "g \<longrightarrow> r \<noteq> NoNode \<longrightarrow> node_balance r' \<noteq> 0" "g \<longrightarrow> ins" "entries r' = upd key value (entries r)"
        using i(2) False by (auto simp: insert_ok_def g_def)
      from grown_right [OF Node.prems(1) g(1-5)]
      obtain t' where t': "(if ins \<and> ((if g then b + 1 else b) < -1 \<or> (if g then b + 1 else b) > 1)
          then tree_node_balance (Node (if g then b + 1 else b) l k v r')
          else Some (Node (if g then b + 1 else b) l k v r')) = Some t'" "avl t'" "t' \<noteq> NoNode"
        "entries t' = entries l @ (k, v) # entries r'"
        "height t' = height (Node b l k v r) + (if b \<noteq> node_balance t' \<and> node_balance t' \<noteq> 0 then 1 else 0)"
        "\<not> g \<longrightarrow> node_balance t' = b"
        by blast
      have "tree_node_insert True (Node b l k v r) key value = Some (t', ins)"
        unfolding node_insert_unfold(2) [OF 3] i(1) option.case prod.case Let_def g_def [symmetric] t'(1)
        using False by simp
      then show ?thesis using t' u gt g(5,6) by (auto simp: insert_ok_def)
    qed
  qed
qed

lemma tree_node_lookup_correct:
  assumes "keys_ok base t" "in_window base key"
  shows "tree_node_lookup t key = map_of (entries t) key"
  using assms
proof (induction t)
  case (Node b l k v r)
  note ko = keys_ok_Node [OF Node.prems(1)]
  note ord = key_cmp_order [OF Node.prems(2) ko(3)]
  have "tree_node_lookup (Node b l k v r) key =
      (if key < k then tree_node_lookup l key else if key = k then Some v else tree_node_lookup r key)"
    using ord by (auto simp: Let_def)
  then show ?case
    using Node.IH ko Node.prems(2) map_of_append_key [OF ko(4), of key] by simp
qed simp


text \<open>Without memory only keys of the tree can be stored; a new one is written through \<^verbatim>\<open>NULL\<close>.\<close>

lemma tree_node_insert_no_memory:
  assumes "keys_ok base t" "in_window base key"
  shows "tree_node_insert False t key value =
    (if map_of (entries t) key = None then None else tree_node_insert True t key value)"
  using assms
proof (induction t)
  case (Node b l k v r)
  note ko = keys_ok_Node [OF Node.prems(1)]
  note ord = key_cmp_order [OF Node.prems(2) ko(3)]
  note found = map_of_append_key [OF ko(4), of key]
  consider "key_cmp key k = 0" | "key_cmp key k < 0" "key < k" | "key_cmp key k > 0" "\<not> key < k" "key \<noteq> k" using ord by force
  then show ?case
  proof cases
    case 1
    then show ?thesis using ord found by (simp add: Let_def)
  next
    case 2
    then show ?thesis using found Node.IH(1) [OF ko(1) Node.prems(2)] by (cases "l = NoNode") (auto simp: Let_def tree_node_new_def)
  next
    case 3
    then show ?thesis using found Node.IH(2) [OF ko(2) Node.prems(2)] by (cases "r = NoNode") (auto simp: Let_def tree_node_new_def)
  qed
qed (simp add: tree_node_new_def)

section \<open>The tree as a table\<close>

definition tree_inv :: "int \<Rightarrow> DirectTree \<Rightarrow> bool" where
  "tree_inv base tree \<longleftrightarrow> length (dt_fast_keys tree) = 128 \<and> avl (dt_root tree) \<and> keys_ok base (dt_root tree) \<and>
     0 \<notin> snd ` set (entries (dt_root tree))"

definition tree_map :: "DirectTree \<Rightarrow> u64 \<Rightarrow> u64 option" where
  "tree_map tree key =
    (let v = (if key < 128 then dt_fast_keys tree ! unat key
              else (case map_of (entries (dt_root tree)) key of Some v \<Rightarrow> v | None \<Rightarrow> 0))
     in if v = 0 then None else Some v)"

definition tree_find :: "DirectTree \<Rightarrow> u64 \<Rightarrow> u64 option option" where
  "tree_find tree key = Some (let v = direct_tree_lookup tree key in if v = 0 then None else Some v)"

lemma unat_less_128: "(key :: u64) < 128 \<longleftrightarrow> unat key < 128"
  by (simp add: word_less_nat_alt)

interpretation tree_table: overwrite_table "tree_inv base" tree_map tree_find "\<lambda>k. k < 128 \<or> in_window base k" "direct_tree_insert True"
  "\<lambda>k v. v \<noteq> 0 \<and> (k < 128 \<or> in_window base k)"
  for base :: int
proof unfold_locales
  fix tree :: DirectTree and key :: u64 and v :: u64
  assume inv: "tree_inv base tree"
  then have t: "length (dt_fast_keys tree) = 128" "avl (dt_root tree)" "keys_ok base (dt_root tree)" "0 \<notin> snd ` set (entries (dt_root tree))"
    by (auto simp: tree_inv_def)
  show "key < 128 \<or> in_window base key \<Longrightarrow> tree_find tree key = Some (tree_map tree key)"
    using tree_node_lookup_correct [OF t(3), of key]
    by (auto simp: tree_find_def tree_map_def direct_tree_lookup_def Let_def)
  assume v: "v \<noteq> 0 \<and> (key < 128 \<or> in_window base key)"
  show "\<exists>tree'. direct_tree_insert True tree key v = Some tree' \<and> tree_inv base tree' \<and> tree_map tree' = (tree_map tree)(key \<mapsto> v)"
  proof (cases "key < 128")
    case True
    then have "tree_map (tree\<lparr> dt_fast_keys := (dt_fast_keys tree)[unat key := v] \<rparr>) = (tree_map tree)(key \<mapsto> v)"
      using v t(1) by (auto simp: tree_map_def fun_eq_iff Let_def nth_list_update unat_less_128 word_unat_eq_iff)
    then show ?thesis using True t by (simp add: direct_tree_insert_def tree_inv_def)
  next
    case False
    then have w: "in_window base key" using v by simp
    obtain t' ins where i: "tree_node_insert True (dt_root tree) key v = Some (t', ins)" "insert_ok (dt_root tree) key v t' ins"
      using tree_node_insert_ok [OF t(2,3) w] by blast
    have e: "entries t' = upd key v (entries (dt_root tree))" using i(2) by (simp add: insert_ok_def)
    have m: "map_of (entries t') = (map_of (entries (dt_root tree)))(key \<mapsto> v)"
      using t(3) by (simp add: e map_of_upd keys_ok_def)
    have "tree_map (tree\<lparr> dt_root := t' \<rparr>) = (tree_map tree)(key \<mapsto> v)"
      using v False by (auto simp: tree_map_def m fun_eq_iff Let_def)
    moreover have "tree_inv base (tree\<lparr> dt_root := t' \<rparr>)"
      using t i(2) keys_ok_upd [OF t(3) w e] values_upd [of key v "entries (dt_root tree)"] v by (auto simp: tree_inv_def insert_ok_def e)
    ultimately show ?thesis using i(1) False by (simp add: direct_tree_insert_def)
  qed
qed

text \<open>An AVL tree of height \<open>h\<close> has at least \<open>2 ^ (h div 2) - 1\<close> nodes.\<close>

lemma avl_size:
  "avl t \<Longrightarrow> 2 ^ (nat (height t) div 2) \<le> length (entries t) + 1"
proof (induction t)
  case (Node b l k v r)
  let ?t = "Node b l k v r"
  have av: "avl l" "avl r" "b = height r - height l" "\<bar>b\<bar> \<le> 1" using Node.prems by auto
  have nn: "0 \<le> height l" "0 \<le> height r" using height_nonneg by blast+
  have h: "height ?t = 1 + max (height l) (height r)" by simp
  have l: "2 ^ (nat (height l) div 2) \<le> length (entries l) + 1"
    and r: "2 ^ (nat (height r) div 2) \<le> length (entries r) + 1"
    using Node.IH av(1,2) by blast+
  have le: "nat (height ?t) \<le> nat (height l) + 2" "nat (height ?t) \<le> nat (height r) + 2"
    using av(3,4) h nn by auto
  have half: "nat (height ?t) div 2 \<le> Suc (nat (height l) div 2)" "nat (height ?t) div 2 \<le> Suc (nat (height r) div 2)"
    using le by linarith+
  have p: "(2::nat) ^ (nat (height ?t) div 2) \<le> 2 ^ Suc (nat (height l) div 2)"
    "(2::nat) ^ (nat (height ?t) div 2) \<le> 2 ^ Suc (nat (height r) div 2)"
    using half by (intro power_increasing; simp)+
  have "(2::nat) ^ (nat (height ?t) div 2) * 2 \<le> 2 * (length (entries l) + 1) + 2 * (length (entries r) + 1)"
    using p l r by simp
  then show ?case by simp
qed simp

section \<open>Properties\<close>

text \<open>
  C20: The tree is a table and stays balanced. After any sequence of insertions of non-null values
  under keys that are below 128 or lie within one window of \<open>2 ^ 31\<close> addresses, no rotation has
  followed a null pointer, every lookup (of a key below 128 or in the window) finds the value
  stored last, or \<^verbatim>\<open>NULL\<close>, and the depth of the tree is at most twice the logarithm of the number
  of nodes. This holds as long as nodes can be allocated. When that fails, a key that needs no new node is stored all the
  same; a new key above 127 is not: the unchecked pointer is followed.
\<close>

theorem tree_refines_map:
  assumes "\<forall>(k, v) \<in> set kvs. v \<noteq> 0 \<and> (k < 128 \<or> in_window base k)"
  shows "\<exists>tree. put_all (direct_tree_insert True) direct_tree_new kvs = Some tree \<and>
    (\<forall>k. k < 128 \<or> in_window base k \<longrightarrow>
       direct_tree_lookup tree k = (case map_of (rev kvs) k of Some v \<Rightarrow> v | None \<Rightarrow> 0)) \<and>
    2 ^ (nat (height (dt_root tree)) div 2) \<le> length (entries (dt_root tree)) + 1 \<and>
    (\<forall>k v. k < 128 \<or> in_window base k \<longrightarrow> direct_tree_insert False tree k v =
       (if k < 128 \<or> k \<in> fst ` set kvs then direct_tree_insert True tree k v else None))"
proof -
  have "tree_inv base direct_tree_new"
    by (simp add: tree_inv_def direct_tree_new_def keys_ok_def ascending_def)
  moreover have "tree_map direct_tree_new = Map.empty"
    by (auto simp: tree_map_def direct_tree_new_def fun_eq_iff unat_less_128)
  ultimately obtain tree where tree: "put_all (direct_tree_insert True) direct_tree_new kvs = Some tree" "tree_inv base tree"
    "tree_map tree = map_of (rev kvs)"
    using tree_table.put_all_amap [of base direct_tree_new kvs] assms by auto
  have "direct_tree_lookup tree k = (case map_of (rev kvs) k of Some v \<Rightarrow> v | None \<Rightarrow> 0)"
    if "k < 128 \<or> in_window base k" for k
    using tree_table.lookup_amap [OF tree(2) that] tree(3)
    by (cases "map_of (rev kvs) k") (auto simp: tree_find_def Let_def split: if_splits)
  moreover have "direct_tree_insert False tree k v =
      (if k < 128 \<or> k \<in> fst ` set kvs then direct_tree_insert True tree k v else None)"
    if "k < 128 \<or> in_window base k" for k v
  proof (cases "k < 128")
    case False
    have "map_of (entries (dt_root tree)) k \<noteq> Some 0"
      using tree(2) by (force simp: tree_inv_def dest: map_of_SomeD)
    then have "map_of (entries (dt_root tree)) k = map_of (rev kvs) k"
      using fun_cong [OF tree(3), of k] False by (auto simp: tree_map_def Let_def split: option.splits if_splits)
    then have "map_of (entries (dt_root tree)) k = None \<longleftrightarrow> k \<notin> fst ` set kvs" by (simp add: map_of_eq_None_iff)
    then show ?thesis
      using that False tree(2) tree_node_insert_no_memory [of base "dt_root tree" k v]
      by (simp add: direct_tree_insert_def tree_inv_def)
  qed (simp add: direct_tree_insert_def)
  ultimately show ?thesis using tree(1,2) avl_size by (auto simp: tree_inv_def)
qed

theorem tree_refines_map_witness:
  "\<exists>tree. put_all (direct_tree_insert True) direct_tree_new [(1000, 1), (2000, 2), (3000, 3), (5, 4), (2000, 9)] = Some tree \<and>
     direct_tree_lookup tree 2000 = 9 \<and> direct_tree_lookup tree 5 = 4 \<and> direct_tree_lookup tree 4000 = 0 \<and>
     direct_tree_insert False tree 4000 1 = None \<and> direct_tree_insert False tree 7 1 \<noteq> None"
proof -
  have "\<forall>(k, v) \<in> set [(1000, 1), (2000, 2), (3000, 3), (5, 4), (2000, 9)].
      (v :: u64) \<noteq> 0 \<and> ((k :: u64) < 128 \<or> in_window 0 k)" by (simp add: in_window_def)
  from tree_refines_map [OF this] obtain tree where
    run: "put_all (direct_tree_insert True) direct_tree_new [(1000, 1), (2000, 2), (3000, 3), (5, 4), (2000, 9)] = Some tree" and
    look: "\<And>k. k < 128 \<or> in_window 0 k \<Longrightarrow> direct_tree_lookup tree k =
      (case map_of (rev [(1000, 1), (2000, 2), (3000, 3), (5, 4), (2000, 9)]) k of Some v \<Rightarrow> v | None \<Rightarrow> 0)" and
    full: "\<And>k v. k < 128 \<or> in_window 0 k \<Longrightarrow> direct_tree_insert False tree k v =
      (if k < 128 \<or> k \<in> fst ` set [(1000, 1), (2000, 2), (3000, 3), (5, 4), (2000, 9 :: u64)]
       then direct_tree_insert True tree k v else None)"
    by blast
  show ?thesis
    using run look [of 2000] look [of 5] look [of 4000] full [of 4000 1] full [of 7 1]
    by (intro exI [of _ tree] conjI) (simp_all add: in_window_def direct_tree_insert_def)
qed

text \<open>
  Keys a multiple of 4 GiB apart are confused. The key difference is cut to 32 bits before it
  is compared with zero, so after storing a value under \<open>k\<close>, storing another under \<open>k'\<close> with
  the same low 32 bits replaces it: the lookup of \<open>k\<close> returns the value of \<open>k'\<close>.
\<close>

theorem tree_keys_collide:
  assumes "128 \<le> k" and "128 \<le> k'" and "ucast k = (ucast k' :: 32 word)"
  shows "\<exists>tree. put_all (direct_tree_insert True) direct_tree_new [(k, v), (k', w)] = Some tree \<and>
    direct_tree_lookup tree k = w \<and> direct_tree_lookup tree k' = w"
proof -
  have "uint (k' - k) = take_bit 64 (uint k' - uint k)" by (simp only: uint_word_ariths take_bit_eq_mod) simp
  then have "uint (ucast (k' - k) :: 32 word) = take_bit 32 (uint k' - uint k)"
    by (simp add: unsigned_ucast_eq)
  moreover have "take_bit 32 (uint k') = take_bit 32 (uint k)"
    using arg_cong [OF assms(3), of uint] by (simp add: unsigned_ucast_eq)
  then have "2 ^ 32 dvd uint k' - uint k" by (simp only: take_bit_eq_mod mod_eq_dvd_iff)
  then have "take_bit 32 (uint k' - uint k) = 0" by (simp only: take_bit_eq_mod dvd_eq_mod_eq_0)
  ultimately have "key_cmp k' k = 0" "key_cmp k k = 0" by (simp_all add: key_cmp_def sint_uint)
  then show ?thesis
    using assms(1,2)
    by (simp add: direct_tree_insert_def direct_tree_new_def direct_tree_lookup_def tree_node_new_def Let_def not_less [symmetric])
qed

theorem tree_keys_collide_witness:
  "\<exists>tree. put_all (direct_tree_insert True) direct_tree_new [(0x1000, 7), (0x100001000, 8)] = Some tree \<and>
     direct_tree_lookup tree 0x1000 = 8"
  using tree_keys_collide [of "0x1000" "0x100001000" 7 8] by auto

end
