(* ===== verification/Base64.thy ===== *)
theory Base64
  imports DFB_Prelude
begin

text \<open>
  Base-64 encoding and decoding, \<^verbatim>\<open>direct_base64_encode\<close> and \<^verbatim>\<open>direct_base64_decode\<close> of
  \<^verbatim>\<open>lib/direct/util.c\<close>. Strings and buffers are lists of bytes; the terminating \<^verbatim>\<open>NUL\<close> is implicit
  at the end of a string. A read beyond it, or an index outside the initialised decode table, is
  the model value \<^term>\<open>None\<close>.
\<close>

section \<open>Encoding\<close>

definition enc :: "u8 list" where
  "enc = [65, 66, 67, 68, 69, 70, 71, 72, 73, 74, 75, 76, 77, 78, 79, 80, 81, 82, 83, 84, 85, 86, 87, 88, 89, 90,
     97, 98, 99, 100, 101, 102, 103, 104, 105, 106, 107, 108, 109, 110, 111, 112, 113, 114, 115, 116, 117, 118, 119,
     120, 121, 122, 48, 49, 50, 51, 52, 53, 54, 55, 56, 57, 43, 47, 61]"

abbreviation (input) EQ :: u8 where "EQ \<equiv> 61"

text \<open>The loop over groups of three bytes, then the rest of one or two bytes.\<close>

fun direct_base64_encode :: "u8 list \<Rightarrow> u8 list" where
  "direct_base64_encode (s0 # s1 # s2 # src) =
    [enc ! unat (drop_bit 2 (s0 AND 0xfc)),
     enc ! unat (push_bit 4 (s0 AND 0x03) OR drop_bit 4 (s1 AND 0xf0)),
     enc ! unat (push_bit 2 (s1 AND 0x0f) OR drop_bit 6 (s2 AND 0xc0)),
     enc ! unat (s2 AND 0x3f)] @ direct_base64_encode src"
| "direct_base64_encode [s0, s1] =
    [enc ! unat (drop_bit 2 (s0 AND 0xfc)),
     enc ! unat (push_bit 4 (s0 AND 0x03) OR drop_bit 4 (s1 AND 0xf0)),
     enc ! unat (push_bit 2 (s1 AND 0x0f)),
     EQ]"
| "direct_base64_encode [s0] =
    [enc ! unat (drop_bit 2 (s0 AND 0xfc)),
     enc ! unat (push_bit 4 (s0 AND 0x03)),
     EQ, EQ]"
| "direct_base64_encode [] = []"

text \<open>The size of the block allocated for the result, computed in \<^verbatim>\<open>int\<close>; \<^term>\<open>None\<close> when that overflows.\<close>

definition encode_alloc :: "int \<Rightarrow> int option" where
  "encode_alloc sz = do { a \<leftarrow> chk (sz + 2); b \<leftarrow> c_div a 3; c \<leftarrow> chk (b * 4); chk (c + 1) }"

section \<open>Decoding\<close>

text \<open>The decode table; entry 255 is never written.\<close>

definition dec :: "nat \<Rightarrow> u8 option" where
  "dec c = (if c = 61 then Some 0
    else if c = 47 then Some 63
    else if c = 43 then Some 62
    else if 48 \<le> c \<and> c \<le> 57 then Some (52 + of_nat (c - 48))
    else if 97 \<le> c \<and> c \<le> 122 then Some (26 + of_nat (c - 97))
    else if 65 \<le> c \<and> c \<le> 90 then Some (of_nat (c - 65))
    else if c < 255 then Some 0x80
    else None)"

text \<open>A character of the string, which is signed: bytes from 128 would index the table below zero.\<close>

definition char_at :: "u8 list \<Rightarrow> nat \<Rightarrow> u8 option" where
  "char_at s i = (if i < length s then Some (s ! i) else if i = length s then Some 0 else None)"

definition dec_at :: "u8 \<Rightarrow> u8 option" where
  "dec_at c = (if c < 128 then dec (unat c) else None)"

function decode_loop :: "u8 list \<Rightarrow> u8 list option" where
  "decode_loop s =
    (if s = [] then Some []
     else do {
       a0 \<leftarrow> char_at s 0; b0 \<leftarrow> dec_at a0;
       a1 \<leftarrow> char_at s 1; b1 \<leftarrow> dec_at a1;
       a2 \<leftarrow> char_at s 2; b2 \<leftarrow> dec_at a2;
       a3 \<leftarrow> char_at s 3; b3 \<leftarrow> dec_at a3;
       let out = [push_bit 2 b0 OR drop_bit 4 b1, push_bit 4 b1 OR drop_bit 2 b2, push_bit 6 b2 OR b3];
       if a2 = EQ \<or> a3 = EQ then Some out
       else do { rest \<leftarrow> decode_loop (drop 4 s); Some (out @ rest) } })"
  by pat_completeness auto
termination by (relation "measure length") auto

declare decode_loop.simps [simp del]

text \<open>The bytes written before the final \<^verbatim>\<open>NUL\<close>; their number is what \<^verbatim>\<open>*ret_size\<close> receives.\<close>

definition direct_base64_decode :: "u8 list \<Rightarrow> u8 list option" where
  "direct_base64_decode string = decode_loop string"

definition decode_alloc :: "int \<Rightarrow> int option" where
  "decode_alloc len = do { a \<leftarrow> chk (len * 3); b \<leftarrow> c_div a 4; chk (b + 3) }"

section \<open>Single groups\<close>

lemma enc_range:
  assumes "x < (64 :: u8)"
  shows "dec_at (enc ! unat x) = Some x" "enc ! unat x \<noteq> EQ"
proof -
  have "unat x < 64" using assms by (simp add: word_less_nat_alt)
  moreover have "\<forall>n \<in> set [0..<64]. dec_at (enc ! n) = Some (of_nat n) \<and> enc ! n \<noteq> EQ"
    by code_simp
  ultimately have "dec_at (enc ! unat x) = Some (of_nat (unat x)) \<and> enc ! unat x \<noteq> EQ"
    by (simp only: set_upt) auto
  then show "dec_at (enc ! unat x) = Some x" "enc ! unat x \<noteq> EQ" by simp_all
qed

lemma dec_at_EQ: "dec_at EQ = Some 0"
  by (simp add: dec_at_def dec_def)

text \<open>The six-bit pieces are in range and recombine to the bytes.\<close>

lemma lt_8: "n < 8 \<longleftrightarrow> n \<in> {0, 1, 2, 3, 4, 5, 6, 7 :: nat}"
  by auto

lemma piece_range:
  fixes a b :: u8
  shows "drop_bit 2 (a AND 0xfc) < 64" "push_bit 4 (a AND 0x03) OR drop_bit 4 (b AND 0xf0) < 64"
    "push_bit 2 (a AND 0x0f) OR drop_bit 6 (b AND 0xc0) < 64" "a AND 0x3f < 64"
    "push_bit 2 (a AND 0x0f) < 64" "push_bit 4 (a AND 0x03) < 64"
proof -
  have small: "w < 64" if "w AND 0xc0 = (0 :: u8)" for w :: u8
  proof -
    have "w = take_bit 6 w"
    proof (rule bit_word_eqI)
      fix n assume "n < LENGTH(8)"
      have "\<not> bit (w AND 0xc0) n" using that by simp
      with \<open>n < LENGTH(8)\<close> show "bit w n = bit (take_bit 6 w) n"
        unfolding len_num1 by (auto simp: lt_8 bit_simps)
    qed
    then have "w = w mod 64" by (simp add: take_bit_eq_mod)
    then show ?thesis using word_mod_less_divisor [of 64 w] by simp
  qed
  show "drop_bit 2 (a AND 0xfc) < 64" by (rule small) (rule bit_word_eqI, auto simp: lt_8 bit_simps)
  show "push_bit 4 (a AND 0x03) OR drop_bit 4 (b AND 0xf0) < 64"
    by (rule small) (rule bit_word_eqI, auto simp: lt_8 bit_simps)
  show "push_bit 2 (a AND 0x0f) OR drop_bit 6 (b AND 0xc0) < 64"
    by (rule small) (rule bit_word_eqI, auto simp: lt_8 bit_simps)
  show "a AND 0x3f < 64" by (rule small) (rule bit_word_eqI, auto simp: lt_8 bit_simps)
  show "push_bit 2 (a AND 0x0f) < 64" by (rule small) (rule bit_word_eqI, auto simp: lt_8 bit_simps)
  show "push_bit 4 (a AND 0x03) < 64" by (rule small) (rule bit_word_eqI, auto simp: lt_8 bit_simps)
qed

lemma pieces_join:
  fixes a b c :: u8
  shows "push_bit 2 (drop_bit 2 (a AND 0xfc)) OR drop_bit 4 (push_bit 4 (a AND 0x03) OR drop_bit 4 (b AND 0xf0)) = a" (is ?A)
    "push_bit 4 (push_bit 4 (a AND 0x03) OR drop_bit 4 (b AND 0xf0)) OR
       drop_bit 2 (push_bit 2 (b AND 0x0f) OR drop_bit 6 (c AND 0xc0)) = b" (is ?B)
    "push_bit 6 (push_bit 2 (b AND 0x0f) OR drop_bit 6 (c AND 0xc0)) OR (c AND 0x3f) = c" (is ?C)
    "push_bit 2 (drop_bit 2 (a AND 0xfc)) OR drop_bit 4 (push_bit 4 (a AND 0x03)) = a" (is ?D)
    "push_bit 4 (push_bit 4 (a AND 0x03) OR drop_bit 4 (b AND 0xf0)) OR drop_bit 2 (push_bit 2 (b AND 0x0f)) = b" (is ?E)
    "push_bit 4 (push_bit 4 (a AND 0x03)) = 0" (is ?F)
    "push_bit 6 (push_bit 2 (b AND 0x0f)) = 0" (is ?G)
proof -
  note bits = lt_8 bit_simps numeral_2_eq_2 [symmetric] numeral_3_eq_3 [symmetric]
  show ?A by (rule bit_word_eqI) (auto simp: bits)
  show ?B by (rule bit_word_eqI) (auto simp: bits)
  show ?C by (rule bit_word_eqI) (auto simp: bits)
  show ?D by (rule bit_word_eqI) (auto simp: bits)
  show ?E by (rule bit_word_eqI) (auto simp: bits)
  show ?F by (rule bit_word_eqI) (auto simp: bits)
  show ?G by (rule bit_word_eqI) (auto simp: bits)
qed


section \<open>Properties\<close>

text \<open>One turn of the decode loop on four characters that stand for six-bit values.\<close>

lemma decode_group:
  assumes "dec_at a0 = Some b0" "dec_at a1 = Some b1" "dec_at a2 = Some b2" "dec_at a3 = Some b3"
  shows "decode_loop (a0 # a1 # a2 # a3 # s) =
    (let out = [push_bit 2 b0 OR drop_bit 4 b1, push_bit 4 b1 OR drop_bit 2 b2, push_bit 6 b2 OR b3]
     in if a2 = EQ \<or> a3 = EQ then Some out
        else do { rest \<leftarrow> decode_loop s; Some (out @ rest) })"
proof -
  have "drop 4 (a0 # a1 # a2 # a3 # s) = s" by (simp add: numeral_eq_Suc)
  then show ?thesis
    using assms by (simp add: decode_loop.simps [of "a0 # a1 # a2 # a3 # s"] char_at_def Let_def)
qed

text \<open>The same for characters produced by the encoder.\<close>

lemma decode_pieces:
  assumes "p0 < 64" "p1 < 64" "p2 < 64" "p3 < 64"
  shows "decode_loop (enc ! unat p0 # enc ! unat p1 # enc ! unat p2 # enc ! unat p3 # s) =
      map_option ((@) [push_bit 2 p0 OR drop_bit 4 p1, push_bit 4 p1 OR drop_bit 2 p2, push_bit 6 p2 OR p3]) (decode_loop s)"
    "decode_loop [enc ! unat p0, enc ! unat p1, enc ! unat p2, EQ] =
      Some [push_bit 2 p0 OR drop_bit 4 p1, push_bit 4 p1 OR drop_bit 2 p2, push_bit 6 p2]"
    "decode_loop [enc ! unat p0, enc ! unat p1, EQ, EQ] =
      Some [push_bit 2 p0 OR drop_bit 4 p1, push_bit 4 p1, 0]"
  using assms by (simp_all add: decode_group enc_range dec_at_EQ Let_def map_option_case split: option.splits)

text \<open>
  C33: Decoding inverts encoding, up to padding. For every byte string the decoder returns (no
  read past the end of the string or outside the table) the bytes that were encoded, followed
  by zero bytes up to the next multiple of three, which the reported size counts as data.
\<close>

theorem base64_roundtrip:
  "direct_base64_decode (direct_base64_encode data) =
    Some (data @ replicate ((3 - length data mod 3) mod 3) 0)"
proof (induction data rule: direct_base64_encode.induct)
  case (1 s0 s1 s2 src)
  have "length (s0 # s1 # s2 # src) mod 3 = length src mod 3" by simp
  then show ?case
    using 1 unfolding direct_base64_decode_def direct_base64_encode.simps append_Cons append_Nil
      decode_pieces(1) [OF piece_range(1,2,3,4)] pieces_join
    by simp
next
  case (2 s0 s1)
  show ?case
    unfolding direct_base64_decode_def direct_base64_encode.simps
      decode_pieces(2) [OF piece_range(1,2,5,4)] pieces_join
    by simp
next
  case (3 s0)
  show ?case
    unfolding direct_base64_decode_def direct_base64_encode.simps
      decode_pieces(3) [OF piece_range(1,6,4,4)] pieces_join
    by (simp add: numeral_2_eq_2)
next
  case 4
  show ?case by (simp add: direct_base64_decode_def decode_loop.simps)
qed

text \<open>The loop body: if it goes round, the string has at least three characters and the rest is decoded.\<close>

lemma decode_loop_step:
  assumes "decode_loop s = Some out" "s \<noteq> []"
  shows "3 \<le> length s \<and> (length out = 3 \<or> (\<exists>rest. decode_loop (drop 4 s) = Some rest \<and> length out = 3 + length rest))"
proof -
  have "char_at s 3 \<noteq> None" using assms by (auto simp: decode_loop.simps [of s] bind_eq_Some_conv)
  then have "3 \<le> length s" by (auto simp: char_at_def split: if_splits)
  moreover have "length out = 3 \<or> (\<exists>rest. decode_loop (drop 4 s) = Some rest \<and> length out = 3 + length rest)"
    using assms by (auto simp: decode_loop.simps [of s] bind_eq_Some_conv Let_def split: if_splits)
  ultimately show ?thesis by blast
qed

lemma decode_loop_length: "decode_loop s = Some out \<Longrightarrow> length out \<le> (length s + 1) div 4 * 3"
proof (induction "length s" arbitrary: s out rule: less_induct)
  case less
  show ?case
  proof (cases "s = []")
    case True
    then show ?thesis using less.prems by (simp add: decode_loop.simps)
  next
    case False
    note step = decode_loop_step [OF less.prems False]
    have one: "1 \<le> (length s + 1) div 4" using step by linarith
    show ?thesis
    proof (cases "length out = 3")
      case False
      then obtain rest where r: "decode_loop (drop 4 s) = Some rest" "length out = 3 + length rest" using step by blast
      have "length rest \<le> (length (drop 4 s) + 1) div 4 * 3" using less.hyps [OF _ r(1)] \<open>s \<noteq> []\<close> by simp
      also have "\<dots> \<le> ((length s + 1) div 4 - 1) * 3" using step by (intro mult_le_mono1) auto
      finally show ?thesis using r(2) one by linarith
    qed (use one in linarith)
  qed
qed

lemma encode_length: "length (direct_base64_encode data) = (length data + 2) div 3 * 4"
proof (induction data rule: direct_base64_encode.induct)
  case (1 s0 s1 s2 src)
  have "length (s0 # s1 # s2 # src) + 2 = length src + 2 + 3" by simp
  then have "(length (s0 # s1 # s2 # src) + 2) div 3 = (length src + 2) div 3 + 1" by (simp only: div_add_self2)
  then show ?case using 1 by simp
qed simp_all

lemma sdiv_nat: "int n sdiv numeral k = int (n div numeral k)" "(numeral k :: int) = 0 \<longleftrightarrow> False"
  by (cases "n = 0") (simp_all add: signed_divide_int_def zdiv_int)

lemma encode_alloc_small:
  assumes "n < 1610612730"
  shows "encode_alloc (int n) = Some (int ((n + 2) div 3 * 4) + 1)"
proof -
  have "(n + 2) div 3 * 4 + 1 < 2147483648" using assms by linarith
  then have "int32 (int (n + 2))" "int32 (int ((n + 2) div 3))" "int32 (int ((n + 2) div 3 * 4))" "int32 (int ((n + 2) div 3 * 4) + 1)"
    using assms by (simp_all add: int32_def)
  moreover have "int n + 2 = int (n + 2)" "int ((n + 2) div 3) * 4 = int ((n + 2) div 3 * 4)" by simp_all
  ultimately show ?thesis
    unfolding encode_alloc_def c_div_def by (simp only: chk_Some sdiv_nat bind.bind_lunit if_False)
qed

lemma decode_alloc_small:
  assumes "n < 715827883"
  shows "decode_alloc (int n) = Some (int (n * 3 div 4) + 3)"
proof -
  have "int32 (int (n * 3))" "int32 (int (n * 3 div 4))" "int32 (int (n * 3 div 4) + 3)" using assms by (simp_all add: int32_def)
  moreover have "int n * 3 = int (n * 3)" by simp
  ultimately show ?thesis
    unfolding decode_alloc_def c_div_def by (simp only: chk_Some sdiv_nat bind.bind_lunit if_False)
qed

text \<open>
  The buffers are large enough. As long as the computation of its size stays within \<^verbatim>\<open>int\<close>, the encoding with its
  \<^verbatim>\<open>NUL\<close> fills the allocated block exactly, and what decoding writes, with its \<^verbatim>\<open>NUL\<close>, fits the block for any string on
  which it returns. A string of 715827883 characters or more overflows the product with 3.
\<close>

theorem base64_buffers:
  "(length data < 1610612730 \<longrightarrow> encode_alloc (int (length data)) = Some (int (length (direct_base64_encode data)) + 1)) \<and>
    (length string < 715827883 \<longrightarrow> direct_base64_decode string = Some out \<longrightarrow>
      (\<exists>n. decode_alloc (int (length string)) = Some n \<and> int (length out) + 1 \<le> n)) \<and>
    (715827883 \<le> length string \<longrightarrow> decode_alloc (int (length string)) = None)"
proof (intro conjI impI)
  show "encode_alloc (int (length data)) = Some (int (length (direct_base64_encode data)) + 1)" if "length data < 1610612730"
    using encode_alloc_small [OF that] by (simp add: encode_length)
  show "\<exists>n. decode_alloc (int (length string)) = Some n \<and> int (length out) + 1 \<le> n"
    if "length string < 715827883" "direct_base64_decode string = Some out"
  proof -
    have "length out \<le> (length string + 1) div 4 * 3"
      using decode_loop_length [of string out] that(2) by (simp add: direct_base64_decode_def)
    also have "\<dots> + 1 \<le> length string * 3 div 4 + 3" by linarith
    finally have "length out + 1 \<le> length string * 3 div 4 + 3" by simp
    then show ?thesis unfolding decode_alloc_small [OF that(1)] by (intro exI [of _ "int (length string * 3 div 4) + 3"]) simp
  qed
  show "decode_alloc (int (length string)) = None" if "715827883 \<le> length string"
    using that by (simp add: decode_alloc_def chk_def int32_def)
qed

theorem base64_buffers_witness:
  "encode_alloc 4 = Some (int (length (direct_base64_encode [1, 2, 3, 4])) + 1) \<and> (\<exists>n. decode_alloc 4 = Some n \<and> 4 \<le> n)"
proof -
  have "direct_base64_decode (direct_base64_encode [0, 0, 0]) = Some [0, 0, 0]" by code_simp
  then have "direct_base64_decode [65, 65, 65, 65] = Some [0, 0, 0]" by (simp add: enc_def)
  then show ?thesis
    using base64_buffers [of "[1, 2, 3, 4]" "[65, 65, 65, 65]" "[0, 0, 0]"] by simp
qed

text \<open>
  The decoder reads past the end of a string whose length is one or two more than a multiple
  of four (and that has no padding character): the characters fetched for the last
  group lie behind the terminating \<^verbatim>\<open>NUL\<close>.
\<close>

theorem base64_decode_overreads:
  assumes "length s mod 4 = 1 \<or> length s mod 4 = 2" and "\<forall>c \<in> set s. c < 128 \<and> c \<noteq> EQ"
  shows "direct_base64_decode s = None"
proof -
  have "decode_loop s = None"
    using assms
  proof (induction "length s" arbitrary: s rule: less_induct)
    case less
    show ?case
    proof (cases "length s < 4")
      case True
      then have "char_at s 3 = None" using less.prems(1) by (auto simp: char_at_def)
      moreover have "s \<noteq> []" using less.prems(1) by auto
      ultimately have "decode_loop s \<noteq> Some out" for out
        by (auto simp: decode_loop.simps [of s] bind_eq_Some_conv)
      then show ?thesis by (metis not_None_eq)
    next
      case False
      then obtain a0 a1 a2 a3 t where s: "s = a0 # a1 # a2 # a3 # t"
        by (cases s; cases "tl s"; cases "tl (tl s)"; cases "tl (tl (tl s))") auto
      have "decode_loop t = None" using less.hyps [of t] less.prems by (simp add: s)
      moreover have "\<exists>b. dec_at c = Some b" if "c \<in> set s" for c
        using less.prems(2) that by (auto simp: dec_at_def dec_def word_less_nat_alt)
      then obtain b0 b1 b2 b3 where "dec_at a0 = Some b0" "dec_at a1 = Some b1" "dec_at a2 = Some b2" "dec_at a3 = Some b3"
        unfolding s by (meson list.set_intros)
      ultimately show ?thesis using less.prems(2) by (simp add: s decode_group)
    qed
  qed
  then show ?thesis by (simp add: direct_base64_decode_def)
qed

theorem base64_decode_overreads_witness: "direct_base64_decode [81, 81] = None"
  using base64_decode_overreads [of "[81, 81]"] by simp

end
