(* ===== verification/Sine_Table.thy ===== *)
theory Sine_Table
  imports Complex_Main
begin

text \<open>
  The integral parts of \<open>2 ^ 32 * \<bar>sin k\<bar>\<close> for \<open>k = 1, 2, \<dots>\<close>, from which RFC 1321 takes the constants of MD5. Sine
  and cosine of 1 are computed from their series to 128 bits; the addition theorems lead from one angle to the next, in
  integers, and the error at most doubles. A list of integral parts is checked along the way (\<open>sines\<close>).
\<close>

definition sine_1 :: int where "sine_1 = 286337738405724074564845076175058320434"
definition cosine_1 :: int where "cosine_1 = 183855347493651442427684920285310598441"

lemma sine_series: "\<bar>sin (1::real) - (\<Sum>m<36. sin_coeff m)\<bar> \<le> inverse (fact 36)"
  using Maclaurin_sin_bound [of 1 36] by simp

lemma cosine_series: "\<bar>cos (1::real) - (\<Sum>m<36. cos_coeff m)\<bar> \<le> inverse (fact 36)"
proof -
  obtain t :: real where "cos 1 = (\<Sum>m<36. cos_coeff m * 1 ^ m) + cos (t + 1/2 * real 36 * pi) / fact 36 * 1 ^ 36"
    using Maclaurin_cos_expansion [of 1 36] by blast
  then have "cos 1 - (\<Sum>m<36. cos_coeff m) = cos (t + 1/2 * real 36 * pi) / fact 36" by simp
  moreover have "\<bar>cos (t + 1/2 * real 36 * pi) / fact 36\<bar> \<le> 1 / fact 36"
    unfolding abs_divide by (simp add: divide_right_mono)
  ultimately show ?thesis by (simp add: inverse_eq_divide)
qed

lemma sums_at_1:
  "\<bar>2 ^ 128 * (\<Sum>m<36. sin_coeff m) - real_of_int sine_1\<bar> \<le> 1"
  "\<bar>2 ^ 128 * (\<Sum>m<36. cos_coeff m) - real_of_int cosine_1\<bar> \<le> 1"
  unfolding sine_1_def cosine_1_def
  by (simp_all add: sin_coeff_def cos_coeff_def lessThan_nat_numeral fact_numeral)

text \<open>From one angle to the next, within the same precision.\<close>

definition near :: "real \<Rightarrow> real \<Rightarrow> int \<Rightarrow> int \<Rightarrow> bool" where
  "near e x s c \<longleftrightarrow> \<bar>2 ^ 128 * sin x - real_of_int s\<bar> \<le> e \<and> \<bar>2 ^ 128 * cos x - real_of_int c\<bar> \<le> e"

lemma near_1: "near 2 1 sine_1 cosine_1"
proof -
  have small: "2 ^ 128 * inverse (fact 36 :: real) \<le> 1" by (simp add: fact_numeral)
  have "\<bar>2 ^ 128 * x - s\<bar> \<le> 2" if "\<bar>x - y\<bar> \<le> inverse (fact 36)" "\<bar>2 ^ 128 * y - s\<bar> \<le> 1" for x y s :: real
  proof -
    have "\<bar>2 ^ 128 * x - 2 ^ 128 * y\<bar> = 2 ^ 128 * \<bar>x - y\<bar>"
      using abs_mult [of "2 ^ 128" "x - y"] by (simp only: right_diff_distrib) simp
    also have "\<dots> \<le> 2 ^ 128 * inverse (fact 36)" using that(1) by simp
    finally show ?thesis using that(2) small by linarith
  qed
  then show ?thesis unfolding near_def using sine_series cosine_series sums_at_1 by blast
qed

lemma near_product:
  assumes "\<bar>2 ^ 128 * u - real_of_int a\<bar> \<le> e" "\<bar>2 ^ 128 * v - real_of_int b\<bar> \<le> 2" "\<bar>u\<bar> \<le> 1" "\<bar>real_of_int b\<bar> \<le> q * 2 ^ 128"
  shows "\<bar>2 ^ 128 * (u * v) - real_of_int (a * b) / 2 ^ 128\<bar> \<le> q * e + 2"
proof -
  have "2 ^ 128 * (u * v) - real_of_int (a * b) / 2 ^ 128 =
      u * (2 ^ 128 * v - real_of_int b) + (2 ^ 128 * u - real_of_int a) * (real_of_int b / 2 ^ 128)"
    by (simp add: field_simps)
  moreover have "\<bar>u * (2 ^ 128 * v - real_of_int b)\<bar> \<le> 1 * 2"
    unfolding abs_mult by (rule mult_mono) (use assms in auto)
  moreover have "\<bar>(2 ^ 128 * u - real_of_int a) * (real_of_int b / 2 ^ 128)\<bar> \<le> e * q"
    unfolding abs_mult by (rule mult_mono) (use assms in \<open>auto simp: field_simps\<close>)
  ultimately show ?thesis by (simp add: mult.commute)
qed

lemma near_next:
  assumes "near e x s c" "10 \<le> e"
  shows "near (2 * e) (x + 1) ((s * cosine_1 + c * sine_1) div 2 ^ 128) ((c * cosine_1 - s * sine_1) div 2 ^ 128)"
proof -
  have one: "\<bar>2 ^ 128 * sin 1 - real_of_int sine_1\<bar> \<le> 2" "\<bar>2 ^ 128 * cos 1 - real_of_int cosine_1\<bar> \<le> 2"
    using near_1 by (simp_all add: near_def)
  have size: "\<bar>real_of_int sine_1\<bar> \<le> 0.85 * 2 ^ 128" "\<bar>real_of_int cosine_1\<bar> \<le> 0.55 * 2 ^ 128"
    by (simp_all add: sine_1_def cosine_1_def)
  have xs: "\<bar>2 ^ 128 * sin x - real_of_int s\<bar> \<le> e" "\<bar>2 ^ 128 * cos x - real_of_int c\<bar> \<le> e"
    using assms(1) by (simp_all add: near_def)
  note products = near_product [OF xs(1) one(2) abs_sin_le_one size(2)] near_product [OF xs(2) one(1) abs_cos_le_one size(1)]
    near_product [OF xs(2) one(2) abs_cos_le_one size(2)] near_product [OF xs(1) one(1) abs_sin_le_one size(1)]
  have floor: "\<bar>real_of_int (a div 2 ^ 128) - real_of_int a / 2 ^ 128\<bar> \<le> 1" for a :: int
  proof -
    have "real_of_int (a div 2 ^ 128) \<le> real_of_int a / 2 ^ 128" "real_of_int a / 2 ^ 128 < real_of_int (a div 2 ^ 128) + 1"
      using floor_divide_of_int_eq [of a "2 ^ 128"] floor_correct [of "real_of_int a / 2 ^ 128"] by (simp_all add: floor_divide_of_int_eq)
    then show ?thesis by linarith
  qed
  have "\<bar>2 ^ 128 * (sin x * cos 1 + cos x * sin 1) - real_of_int (s * cosine_1 + c * sine_1) / 2 ^ 128\<bar> \<le> 1.4 * e + 4"
    using products(1,2) by (simp add: add_divide_distrib algebra_simps abs_le_iff)
  moreover have "\<bar>2 ^ 128 * (cos x * cos 1 - sin x * sin 1) - real_of_int (c * cosine_1 - s * sine_1) / 2 ^ 128\<bar> \<le> 1.4 * e + 4"
    using products(3,4) by (simp add: diff_divide_distrib algebra_simps abs_le_iff)
  ultimately show ?thesis
    unfolding near_def sin_add cos_add
    using floor [of "s * cosine_1 + c * sine_1"] floor [of "c * cosine_1 - s * sine_1"] assms(2) by linarith
qed

text \<open>The numbers \<open>n\<close> are the integral parts, by a margin that the errors do not reach.\<close>

fun sines :: "int list \<Rightarrow> int \<Rightarrow> int \<Rightarrow> bool" where
  "sines [] s c \<longleftrightarrow> True"
| "sines (n # ns) s c \<longleftrightarrow> n * 2 ^ 96 + 2 ^ 70 \<le> \<bar>s\<bar> \<and> \<bar>s\<bar> + 2 ^ 70 < (n + 1) * 2 ^ 96 \<and>
     sines ns ((s * cosine_1 + c * sine_1) div 2 ^ 128) ((c * cosine_1 - s * sine_1) div 2 ^ 128)"

lemma sines_floor:
  assumes "sines ns s c" "near e x s c" "10 \<le> e" "e * 2 ^ length ns \<le> 2 ^ 70" "i < length ns"
  shows "\<lfloor>2 ^ 32 * \<bar>sin (x + real i)\<bar>\<rfloor> = ns ! i"
  using assms
proof (induction ns arbitrary: s c e x i)
  case (Cons n ns)
  show ?case
  proof (cases i)
    case 0
    have "e * 1 \<le> e * 2 ^ length (n # ns)" using Cons.prems(3) by (intro mult_left_mono one_le_power) simp_all
    then have e: "e \<le> 2 ^ 70" using Cons.prems(4) by simp
    have "\<bar>2 ^ 128 * \<bar>sin x\<bar> - real_of_int \<bar>s\<bar>\<bar> \<le> e"
      using Cons.prems(2) unfolding near_def by (auto simp: abs_if split: if_splits)
    moreover have "real_of_int (n * 2 ^ 96 + 2 ^ 70) \<le> real_of_int \<bar>s\<bar>" "real_of_int (\<bar>s\<bar> + 2 ^ 70) < real_of_int ((n + 1) * 2 ^ 96)"
      using Cons.prems(1) by (simp_all only: of_int_le_iff of_int_less_iff sines.simps)
    ultimately have "real_of_int n \<le> 2 ^ 32 * \<bar>sin x\<bar> \<and> 2 ^ 32 * \<bar>sin x\<bar> < real_of_int n + 1"
      using e by auto
    then show ?thesis using 0 by (simp add: floor_unique)
  next
    case (Suc j)
    have "near (2 * e) (x + 1) ((s * cosine_1 + c * sine_1) div 2 ^ 128) ((c * cosine_1 - s * sine_1) div 2 ^ 128)"
      using Cons.prems(2,3) by (rule near_next)
    moreover have "2 * e * 2 ^ length ns \<le> 2 ^ 70" using Cons.prems(4) by simp
    moreover have "sines ns ((s * cosine_1 + c * sine_1) div 2 ^ 128) ((c * cosine_1 - s * sine_1) div 2 ^ 128)" "j < length ns" "10 \<le> 2 * e"
      using Cons.prems(1,3,5) Suc by simp_all
    ultimately have "\<lfloor>2 ^ 32 * \<bar>sin (x + 1 + real j)\<bar>\<rfloor> = ns ! j" by (intro Cons.IH)
    then show ?thesis using Suc by (simp add: algebra_simps)
  qed
qed simp

end
