(* ===== verification/MD5.thy ===== *)
theory MD5
  imports DFB_Prelude Sine_Table
begin

text \<open>
  \<^verbatim>\<open>direct_md5_sum\<close> of \<^verbatim>\<open>lib/direct/util.c\<close>, and the definition of MD5 in RFC 1321 as a reference, with tables of its
  own (the sines, \<open>rfc_T\<close>, and the shifts): padding the whole message, cutting it into blocks of 64 bytes, folding the compression function. The
  code keeps the four registers in reverse order, streams the bytes through a block buffer and
  uses shorter formulas for the round functions.
\<close>

section \<open>The code\<close>

definition S :: "nat list list" where
  "S = [[7, 12, 17, 22], [5, 9, 14, 20], [4, 11, 16, 23], [6, 10, 15, 21]]"

definition T :: "u32 list" where
  "T = [0xd76aa478, 0xe8c7b756, 0x242070db, 0xc1bdceee, 0xf57c0faf, 0x4787c62a, 0xa8304613, 0xfd469501,
     0x698098d8, 0x8b44f7af, 0xffff5bb1, 0x895cd7be, 0x6b901122, 0xfd987193, 0xa679438e, 0x49b40821,
     0xf61e2562, 0xc040b340, 0x265e5a51, 0xe9b6c7aa, 0xd62f105d, 0x02441453, 0xd8a1e681, 0xe7d3fbc8,
     0x21e1cde6, 0xc33707d6, 0xf4d50d87, 0x455a14ed, 0xa9e3e905, 0xfcefa3f8, 0x676f02d9, 0x8d2a4c8a,
     0xfffa3942, 0x8771f681, 0x6d9d6122, 0xfde5380c, 0xa4beea44, 0x4bdecfa9, 0xf6bb4b60, 0xbebfbc70,
     0x289b7ec6, 0xeaa127fa, 0xd4ef3085, 0x04881d05, 0xd9d4d039, 0xe6db99e5, 0x1fa27cf8, 0xc4ac5665,
     0xf4292244, 0x432aff97, 0xab9423a7, 0xfc93a039, 0x655b59c3, 0x8f0ccc92, 0xffeff47d, 0x85845dd1,
     0x6fa87e4f, 0xfe2ce6e0, 0xa3014314, 0x4e0811a1, 0xf7537e82, 0xbd3af235, 0x2ad7d2bb, 0xeb86d391]"

type_synonym registers = "u32 \<times> u32 \<times> u32 \<times> u32"

text \<open>One turn of the loop of \<^verbatim>\<open>md5_hash\<close>, on the registers \<open>a\<close>, \<open>b\<close>, \<open>c\<close>, \<open>d\<close>.\<close>

definition md5_turn :: "u32 list \<Rightarrow> registers \<Rightarrow> nat \<Rightarrow> registers" where
  "md5_turn X = (\<lambda>(a, b, c, d) i.
    (let t = S ! drop_bit 4 i ! (i AND 3);
         a = a + T ! i;
         a = (if drop_bit 4 i = 0 then a + ((d XOR (b AND (c XOR d))) + X ! (i AND 15))
              else if drop_bit 4 i = 1 then a + ((c XOR (d AND (c XOR b))) + X ! ((1 + 5 * i) AND 15))
              else if drop_bit 4 i = 2 then a + ((b XOR c XOR d) + X ! ((5 + 3 * i) AND 15))
              else a + ((c XOR (b OR NOT d)) + X ! ((7 * i) AND 15)));
         a = b + (push_bit t a OR drop_bit (32 - t) a)
     in (d, a, b, c)))"

text \<open>\<^verbatim>\<open>ABCD\<close> is the list of four words, lowest index first.\<close>

definition md5_hash :: "u32 list \<Rightarrow> u32 list \<Rightarrow> u32 list" where
  "md5_hash ABCD X =
    (let (a, b, c, d) = foldl (md5_turn X) (ABCD ! 3, ABCD ! 2, ABCD ! 1, ABCD ! 0) [0..<64]
     in [ABCD ! 0 + d, ABCD ! 1 + c, ABCD ! 2 + b, ABCD ! 3 + a])"

text \<open>\<^verbatim>\<open>(u32*) block\<close> on a little-endian machine (on others \<^verbatim>\<open>BSWAP32\<close> gives the same).\<close>

definition le_word :: "u8 list \<Rightarrow> u32" where
  "le_word bs = ucast (bs ! 0) OR push_bit 8 (ucast (bs ! 1)) OR push_bit 16 (ucast (bs ! 2)) OR push_bit 24 (ucast (bs ! 3))"

definition block_words :: "u8 list \<Rightarrow> u32 list" where
  "block_words block = map (\<lambda>i. le_word (take 4 (drop (4 * i) block))) [0..<16]"

definition word_bytes :: "u32 \<Rightarrow> u8 list" where
  "word_bytes w = map (\<lambda>i. ucast (drop_bit (8 * i) w)) [0..<4]"

text \<open>The loop over the input: \<open>block\<close> is the part \<^verbatim>\<open>block[0..j-1]\<close> that has been filled.\<close>

definition md5_feed :: "u32 list \<times> u8 list \<Rightarrow> u8 \<Rightarrow> u32 list \<times> u8 list" where
  "md5_feed = (\<lambda>(ABCD, block) b.
    (let block = block @ [b]
     in if length block = 64 then (md5_hash ABCD (block_words block), []) else (ABCD, block)))"

definition direct_md5_sum :: "u8 list \<Rightarrow> u8 list" where
  "direct_md5_sum src =
    (let (ABCD, block) = foldl md5_feed ([0x10325476, 0x98badcfe, 0xefcdab89, 0x67452301], []) src;
         block = block @ [0x80];
         j = length block;
         block = block @ replicate (64 - j) 0;
         (ABCD, block) = (if j > 56 then (md5_hash ABCD (block_words block), replicate 64 0) else (ABCD, block));
         block = take 56 block @ map (\<lambda>i. ucast (drop_bit (8 * i) (push_bit 3 (of_nat (length src) :: u64)))) [0..<8];
         ABCD = md5_hash ABCD (block_words block)
     in concat (map (\<lambda>i. word_bytes (ABCD ! (3 - i))) [0..<4]))"

section \<open>RFC 1321\<close>

definition rfc_F :: "u32 \<Rightarrow> u32 \<Rightarrow> u32 \<Rightarrow> u32" where "rfc_F x y z = (x AND y) OR (NOT x AND z)"

definition rfc_G :: "u32 \<Rightarrow> u32 \<Rightarrow> u32 \<Rightarrow> u32" where "rfc_G x y z = (x AND z) OR (y AND NOT z)"

definition rfc_H :: "u32 \<Rightarrow> u32 \<Rightarrow> u32 \<Rightarrow> u32" where "rfc_H x y z = x XOR y XOR z"

definition rfc_I :: "u32 \<Rightarrow> u32 \<Rightarrow> u32 \<Rightarrow> u32" where "rfc_I x y z = y XOR (x OR NOT z)"

text \<open>
  The constants of the RFC: element \<open>i\<close> of the table is the integer part of 4294967296 times \<open>abs (sin (i))\<close>, \<open>i\<close> in
  radians and from 1; the shifts are those written beside the four rounds.
\<close>

definition rfc_T :: "nat \<Rightarrow> u32" where
  "rfc_T i = word_of_int \<lfloor>4294967296 * \<bar>sin (real i)\<bar>\<rfloor>"

definition rfc_shift :: "nat \<Rightarrow> nat" where
  "rfc_shift i = (if i < 16 then [7, 12, 17, 22] else if i < 32 then [5, 9, 14, 20]
     else if i < 48 then [4, 11, 16, 23] else [6, 10, 15, 21]) ! (i mod 4)"

text \<open>Operation \<open>i\<close> of the 64: round function, message word, shift; then the registers change roles.\<close>

definition rfc_step :: "u32 list \<Rightarrow> registers \<Rightarrow> nat \<Rightarrow> registers" where
  "rfc_step X = (\<lambda>(a, b, c, d) i.
    (let (f, k) = (if i < 16 then (rfc_F b c d, i) else if i < 32 then (rfc_G b c d, (5 * i + 1) mod 16)
                   else if i < 48 then (rfc_H b c d, (3 * i + 5) mod 16) else (rfc_I b c d, (7 * i) mod 16))
     in (d, b + word_rotl (rfc_shift i) (a + f + X ! k + rfc_T (i + 1)), b, c)))"

definition rfc_compress :: "registers \<Rightarrow> u32 list \<Rightarrow> registers" where
  "rfc_compress = (\<lambda>(A, B, C, D) X.
    (let (a, b, c, d) = foldl (rfc_step X) (A, B, C, D) [0..<64] in (A + a, B + b, C + c, D + d)))"

definition rfc_pad :: "u8 list \<Rightarrow> u8 list" where
  "rfc_pad msg = msg @ 0x80 # replicate ((55 + 64 - length msg mod 64) mod 64) 0 @
     map (\<lambda>i. ucast (drop_bit (8 * i) (of_nat (8 * length msg) :: u64))) [0..<8]"

function blocks :: "u8 list \<Rightarrow> u8 list list" where
  "blocks bs = (if length bs < 64 then [] else take 64 bs # blocks (drop 64 bs))"
  by pat_completeness auto
termination by (relation "measure length") auto

declare blocks.simps [simp del]

definition rfc_md5 :: "u8 list \<Rightarrow> u8 list" where
  "rfc_md5 msg =
    (let (A, B, C, D) = foldl (\<lambda>h block. rfc_compress h (block_words block))
           (0x67452301, 0xefcdab89, 0x98badcfe, 0x10325476) (blocks (rfc_pad msg))
     in concat (map word_bytes [A, B, C, D]))"

section \<open>Equivalence\<close>

text \<open>The shorter formulas, bit by bit.\<close>

lemma round_functions:
  "d XOR (b AND (c XOR d)) = rfc_F b c d" "c XOR (d AND (c XOR b)) = rfc_G b c d"
  "b XOR c XOR d = rfc_H b c d" "c XOR (b OR NOT d) = rfc_I b c d"
  unfolding rfc_F_def rfc_G_def rfc_H_def rfc_I_def
  by (rule bit_word_eqI; auto simp: bit_simps)+

lemma rotation:
  assumes "0 < t" "t < 32"
  shows "push_bit t (w :: u32) OR drop_bit (32 - t) w = word_rotl t w"
proof (rule bit_word_eqI)
  fix n assume "n < LENGTH(32)"
  then have n: "n < 32" by simp
  have r: "bit (word_rotl t w) n = bit w ((n + (32 - t)) mod 32)"
    using n assms by (simp add: bit_word_rotl_iff)
  show "bit (push_bit t w OR drop_bit (32 - t) w) n = bit (word_rotl t w) n"
  proof (cases "t \<le> n")
    case True
    have "n + (32 - t) = (n - t) + 32" using True assms by linarith
    then have "(n + (32 - t)) mod 32 = (n - t) mod 32" by (simp only: mod_add_self2)
    then have "(n + (32 - t)) mod 32 = n - t" using n by simp
    moreover have "\<not> bit w (n + (32 - t))" using bit_imp_le_length [of w "n + (32 - t)"] True assms by auto
    ultimately show ?thesis unfolding r using True n assms by (simp add: bit_simps add.commute)
  next
    case False
    then have "(n + (32 - t)) mod 32 = n + (32 - t)" using assms by simp
    then show ?thesis unfolding r using False n assms by (simp add: bit_simps add.commute)
  qed
qed

lemma low_bits: "(n :: nat) AND 15 = n mod 16" "n AND 3 = n mod 4"
  using take_bit_eq_mask [of 4 n] take_bit_eq_mask [of 2 n] by (simp_all add: take_bit_eq_mod mask_eq_exp_minus_1)

lemma shift_range:
  assumes "i < 64"
  shows "0 < S ! (i div 16) ! (i mod 4) \<and> S ! (i div 16) ! (i mod 4) < 32"
proof -
  have "\<forall>i \<in> set [0..<64]. 0 < S ! (i div 16) ! (i mod 4) \<and> S ! (i div 16) ! (i mod 4) < 32" by code_simp
  then show ?thesis using assms by simp
qed

text \<open>The tables of the code are those of the RFC.\<close>

lemma table_T:
  assumes "i < 64"
  shows "T ! i = rfc_T (i + 1)"
proof -
  have "near 10 1 sine_1 cosine_1" using near_1 by (auto simp: near_def)
  moreover have "sines (map uint T) sine_1 cosine_1" by code_simp
  moreover have "length T = 64" by (simp add: T_def)
  ultimately have "\<lfloor>2 ^ 32 * \<bar>sin (1 + real i)\<bar>\<rfloor> = map uint T ! i"
    using assms by (intro sines_floor [of _ sine_1 cosine_1 10]) simp_all
  then show ?thesis using assms \<open>length T = 64\<close> by (simp add: rfc_T_def)
qed

lemma table_S:
  assumes "i < 64"
  shows "S ! (i div 16) ! (i mod 4) = rfc_shift i"
proof -
  have "\<forall>i \<in> set [0..<64]. S ! (i div 16) ! (i mod 4) = rfc_shift i" by code_simp
  then show ?thesis using assms by simp
qed

lemma turn_step:
  assumes "i < 64"
  shows "md5_turn X r i = rfc_step X r i"
proof -
  obtain a b c d where r: "r = (a, b, c, d)" by (cases r)
  have q: "drop_bit 4 i = i div 16" by (simp add: drop_bit_eq_div)
  have "i div 16 = 0 \<longleftrightarrow> i < 16" "i div 16 = 1 \<longleftrightarrow> 16 \<le> i \<and> i < 32" "i div 16 = 2 \<longleftrightarrow> 32 \<le> i \<and> i < 48"
    by linarith+
  then show ?thesis
    using rotation shift_range [OF assms] table_T [OF assms] table_S [OF assms]
    by (auto simp: r md5_turn_def rfc_step_def Let_def q low_bits round_functions add.assoc add.commute add.left_commute)
qed

text \<open>The compression functions agree, up to the order of the registers.\<close>

definition in_order :: "registers \<Rightarrow> u32 list" where
  "in_order = (\<lambda>(A, B, C, D). [D, C, B, A])"

lemma hash_compress: "md5_hash (in_order h) X = in_order (rfc_compress h X)"
proof -
  obtain A B C D where h: "h = (A, B, C, D)" by (cases h)
  have "foldl (md5_turn X) r ks = foldl (rfc_step X) r ks" if "set ks \<subseteq> {..<64}" for r ks
    using that by (induction ks arbitrary: r) (auto simp: turn_step)
  then have "foldl (md5_turn X) (A, B, C, D) [0..<64] = foldl (rfc_step X) (A, B, C, D) [0..<64]"
    by (simp add: atLeast_upt lessThan_atLeast0)
  then show ?thesis
    by (simp add: md5_hash_def rfc_compress_def in_order_def h eval_nat_numeral split: prod.splits)
qed

text \<open>\<open>absorb\<close>: folding the compression over the blocks of a padded message.\<close>

definition absorb :: "registers \<Rightarrow> u8 list \<Rightarrow> registers" where
  "absorb h bs = foldl (\<lambda>h block. rfc_compress h (block_words block)) h (blocks bs)"

lemma absorb_block: "length bl = 64 \<Longrightarrow> absorb h (bl @ bs) = absorb (rfc_compress h (block_words bl)) bs"
  by (simp add: absorb_def blocks.simps [of "bl @ bs"])

lemma absorb_short: "length bs < 64 \<Longrightarrow> absorb h bs = h"
  by (simp add: absorb_def blocks.simps)

text \<open>Streaming: what is left in the buffer, with the rest to come, absorbs like the whole.\<close>

lemma feed_absorb:
  assumes "length block < 64"
  shows "\<exists>h' block'. foldl md5_feed (in_order h, block) src = (in_order h', block') \<and>
    length block' = (length block + length src) mod 64 \<and>
    (\<forall>rest. absorb h (block @ src @ rest) = absorb h' (block' @ rest))"
  using assms
proof (induction src arbitrary: h block)
  case Nil
  then show ?case by (intro exI [of _ h] exI [of _ block]) simp
next
  case (Cons b src)
  show ?case
  proof (cases "length block = 63")
    case True
    let ?h = "rfc_compress h (block_words (block @ [b]))"
    have "md5_feed (in_order h, block) b = (in_order ?h, [])"
      using True by (simp add: md5_feed_def hash_compress)
    moreover have "absorb h (block @ (b # src) @ rest) = absorb ?h (src @ rest)" for rest
      using absorb_block [of "block @ [b]" h "src @ rest"] True by simp
    moreover have "(length block + length (b # src)) mod 64 = length src mod 64" using True by simp
    ultimately show ?thesis using Cons.IH [of "[]" ?h] by simp
  next
    case False
    then have "md5_feed (in_order h, block) b = (in_order h, block @ [b])" by (simp add: md5_feed_def)
    then show ?thesis using Cons.IH [of "block @ [b]" h] False Cons.prems by auto
  qed
qed

text \<open>
  C24: \<^verbatim>\<open>direct_md5_sum\<close> computes MD5. For every input the streaming implementation, with its
  reversed registers, block buffer and in-place padding, returns the digest RFC 1321 defines, with the sines of that document in place of the code's table.
\<close>

theorem md5_matches_rfc: "direct_md5_sum src = rfc_md5 src"
proof -
  let ?iv = "(0x67452301, 0xefcdab89, 0x98badcfe, 0x10325476) :: registers"
  let ?bits = "map (\<lambda>i. ucast (drop_bit (8 * i) (push_bit 3 (of_nat (length src) :: u64)))) [0..<8] :: u8 list"
  obtain h block where f: "foldl md5_feed (in_order ?iv, []) src = (in_order h, block)"
    "length block = length src mod 64" "\<forall>rest. absorb ?iv (src @ rest) = absorb h (block @ rest)"
    using feed_absorb [of "[]" ?iv src] by auto
  have iv: "[0x10325476, 0x98badcfe, 0xefcdab89, 0x67452301] = in_order ?iv" by (simp add: in_order_def)
  have bits: "?bits = map (\<lambda>i. ucast (drop_bit (8 * i) (of_nat (8 * length src) :: u64))) [0..<8]"
    by (simp add: push_bit_eq_mult mult.commute)
  have lb: "length block < 64" using f(2) by simp
  define h' where "h' = absorb ?iv (rfc_pad src)"
  have rfc: "rfc_md5 src = concat (map word_bytes (rev (in_order h')))"
    by (simp add: rfc_md5_def h'_def absorb_def in_order_def split: prod.splits)
  have fin: "concat (map (\<lambda>i. word_bytes (in_order g ! (3 - i))) [0..<4]) = concat (map word_bytes (rev (in_order g)))" for g
    by (cases g) (simp add: in_order_def upt_rec eval_nat_numeral)
  let ?p = "(block @ [0x80]) @ replicate (64 - length (block @ [0x80])) 0"
  have p: "length ?p = 64" using lb by simp
  show ?thesis
  proof (cases "length (block @ [0x80]) > 56")
    case True
    let ?q = "take 56 (replicate 64 0) @ ?bits" and ?h1 = "rfc_compress h (block_words ?p)"
    have "take 56 (replicate 64 (0 :: u8)) = replicate 56 0" by simp
    moreover have "(55 + 64 - length src mod 64) mod 64 = (64 - length (block @ [0x80])) + 56"
      using True f(2) by simp
    ultimately have "rfc_pad src = src @ (0x80 # replicate (64 - length (block @ [0x80])) 0 @ ?q)"
      unfolding rfc_pad_def bits by (simp only: replicate_add append_assoc append_Cons)
    then have "h' = absorb h (?p @ ?q)" using f(3) by (simp add: h'_def)
    also have "\<dots> = absorb ?h1 (?q @ [])" using absorb_block [OF p] by simp
    also have "\<dots> = absorb (rfc_compress ?h1 (block_words ?q)) []" by (rule absorb_block) simp
    finally have h': "h' = rfc_compress ?h1 (block_words ?q)" by (simp only: absorb_short list.size zero_less_numeral)
    have c: "(length (block @ [0x80]) > 56) = True" using True by simp
    show ?thesis
      unfolding direct_md5_sum_def iv f(1) Let_def prod.case c if_True hash_compress fin rfc h' ..
  next
    case False
    let ?q = "take 56 ?p @ ?bits"
    have "length block \<le> 55" using False by simp
    then have "55 + 64 - length src mod 64 = (55 - length block) + 64" using f(2) by linarith
    then have "(55 + 64 - length src mod 64) mod 64 = (55 - length block) mod 64" by (simp only: mod_add_self2)
    then have "(55 + 64 - length src mod 64) mod 64 = 55 - length block" by simp
    moreover have "take 56 ?p = block @ 0x80 # replicate (55 - length block) 0"
      using False by (simp add: take_Cons')
    ultimately have "rfc_pad src = src @ 0x80 # replicate (55 - length block) 0 @ ?bits"
      unfolding rfc_pad_def bits by simp
    then have "h' = absorb h (block @ 0x80 # replicate (55 - length block) 0 @ ?bits)"
      using f(3) by (simp add: h'_def)
    also have "\<dots> = absorb h (?q @ [])" using \<open>take 56 ?p = _\<close> by simp
    also have "\<dots> = absorb (rfc_compress h (block_words ?q)) []" by (rule absorb_block) (use p in simp)
    finally have h': "h' = rfc_compress h (block_words ?q)" by (simp only: absorb_short list.size zero_less_numeral)
    have c: "(length (block @ [0x80]) > 56) = False" using False by simp
    show ?thesis
      unfolding direct_md5_sum_def iv f(1) Let_def prod.case c if_False hash_compress fin rfc h' ..
  qed
qed

end
