(* ===== verification/Direct_Util.thy ===== *)
theory Direct_Util
  imports DFB_Prelude
begin

text \<open>
  The string and error helpers of \<^verbatim>\<open>lib/direct/util.c\<close>: \<^verbatim>\<open>direct_trim\<close>, \<^verbatim>\<open>direct_strtok_r\<close>,
  \<^verbatim>\<open>direct_snputs\<close>, \<^verbatim>\<open>direct_strerror\<close> and \<^verbatim>\<open>errno2result\<close>. Strings are lists of bytes without the
  terminating \<^verbatim>\<open>NUL\<close>; \<^verbatim>\<open>char\<close> is signed, as on the platforms the code is built for.
\<close>

section \<open>Trimming\<close>

definition c_string :: "u8 list \<Rightarrow> u8 list" where
  "c_string s = takeWhile (\<lambda>c. c \<noteq> 0) s"

text \<open>The loop from the end, with \<open>i + 1\<close> characters still to be looked at.\<close>

fun trim_tail :: "nat \<Rightarrow> u8 list \<Rightarrow> u8 list" where
  "trim_tail 0 s = s"
| "trim_tail (Suc i) s = (if sint (s ! i) \<le> 32 then trim_tail i (s[i := 0]) else s)"

fun trim_head :: "u8 list \<Rightarrow> u8 list" where
  "trim_head [] = []"
| "trim_head (c # s) = (if sint c \<le> 32 then trim_head s else c # s)"

definition direct_trim :: "u8 list \<Rightarrow> u8 list" where
  "direct_trim s = trim_head (c_string (trim_tail (length s) s))"

text \<open>The characters trimmed: blanks and control characters, and every byte from 128 up.\<close>

definition trimmed :: "u8 \<Rightarrow> bool" where
  "trimmed c \<longleftrightarrow> c \<le> 32 \<or> 128 \<le> c"

lemma trimmed_signed: "sint c \<le> 32 \<longleftrightarrow> trimmed c"
proof -
  have "sint c = (if uint c < 128 then uint c else uint c - 256)"
    using uint_lt2p [of c] by (simp add: sint_uint signed_take_bit_eq_take_bit_minus take_bit_int_eq_self bit_iff_odd
        word_size push_bit_eq_mult split: if_splits) presburger
  then show ?thesis
    using uint_lt2p [of c] by (auto simp: trimmed_def word_le_def)
qed

lemma trim_tail_correct:
  assumes "0 \<notin> set s"
  shows "c_string (trim_tail (length s) (s @ replicate n 0)) = rev (dropWhile trimmed (rev s))"
  using assms
proof (induction s arbitrary: n rule: rev_induct)
  case Nil
  then show ?case by (simp add: c_string_def takeWhile_eq_Nil_iff hd_replicate)
next
  case (snoc c s)
  show ?case
  proof (cases "trimmed c")
    case True
    have "trim_tail (length (s @ [c])) ((s @ [c]) @ replicate n 0) = trim_tail (length s) (s @ replicate (Suc n) 0)"
      using True by (simp add: nth_append trimmed_signed)
    then show ?thesis using snoc.IH [of "Suc n"] snoc.prems True by (simp only: set_append) simp
  next
    case False
    have "trim_tail (length (s @ [c])) ((s @ [c]) @ replicate n 0) = (s @ [c]) @ replicate n 0"
      using False by (simp add: nth_append trimmed_signed)
    moreover have "takeWhile (\<lambda>c. c \<noteq> 0) ((s @ [c]) @ replicate n 0) = s @ [c]"
      using snoc.prems by (subst takeWhile_append2) (auto simp: takeWhile_eq_Nil_iff hd_replicate)
    ultimately show ?thesis using False by (simp add: c_string_def)
  qed
qed

lemma trim_head_dropWhile: "trim_head s = dropWhile trimmed s"
  by (induction s) (auto simp: trimmed_signed)

text \<open>
  \<^verbatim>\<open>direct_trim\<close> strips both ends and nothing else: the string is a stripped prefix, the result and
  a stripped suffix, and the result neither starts nor ends with a character that is stripped.
  Those are the characters up to the blank and, since \<^verbatim>\<open>char\<close> is signed, also all bytes from 128
  up, so a word in UTF-8 loses its non-ASCII ends.
\<close>

theorem trim_exact:
  assumes "0 \<notin> set s"
  shows "\<exists>pre post. s = pre @ direct_trim s @ post \<and>
    (\<forall>c \<in> set pre \<union> set post. c \<le> 32 \<or> 128 \<le> c) \<and>
    (direct_trim s \<noteq> [] \<longrightarrow> 32 < hd (direct_trim s) \<and> hd (direct_trim s) < 128 \<and>
       32 < last (direct_trim s) \<and> last (direct_trim s) < 128)"
proof -
  let ?m = "rev (dropWhile trimmed (rev s))"
  have r: "direct_trim s = dropWhile trimmed ?m"
    using trim_tail_correct [OF assms, of 0] by (simp add: direct_trim_def trim_head_dropWhile)
  have "s = takeWhile trimmed ?m @ direct_trim s @ rev (takeWhile trimmed (rev s))"
    unfolding r by (simp flip: append_assoc rev_append)
  moreover have "\<forall>c \<in> set (takeWhile trimmed ?m) \<union> set (rev (takeWhile trimmed (rev s))). c \<le> 32 \<or> 128 \<le> c"
    by (auto simp: trimmed_def dest: set_takeWhileD)
  moreover have "\<not> trimmed (hd (direct_trim s)) \<and> \<not> trimmed (last (direct_trim s))" if "direct_trim s \<noteq> []"
  proof
    show "\<not> trimmed (hd (direct_trim s))" using that hd_dropWhile unfolding r by blast
    have "last (direct_trim s) = last ?m" using that unfolding r
      by (metis append_Nil2 last_appendR takeWhile_dropWhile_id)
    moreover have "?m \<noteq> []" using that unfolding r by (metis dropWhile.simps(1))
    ultimately show "\<not> trimmed (last (direct_trim s))"
      using hd_dropWhile [of trimmed "rev s"] by (simp add: last_rev)
  qed
  ultimately show ?thesis by (metis not_less trimmed_def)
qed

theorem trim_exact_witness: "\<exists>pre post. [32, 195, 164, 97, 32, 98, 9] = pre @ direct_trim [32, 195, 164, 97, 32, 98, 9] @ post"
  using trim_exact [of "[32, 195, 164, 97, 32, 98, 9]"] by auto

section \<open>Tokens\<close>

text \<open>
  One call of \<^verbatim>\<open>__D_strtok_r\<close> on the rest of the string; the result is the token (\<^term>\<open>None\<close> for \<^verbatim>\<open>NULL\<close>)
  and what \<^verbatim>\<open>*save_ptr\<close> then points to.
\<close>

definition D_strtok_r :: "u8 list \<Rightarrow> u8 list \<Rightarrow> u8 list option \<times> u8 list" where
  "D_strtok_r s delim =
    (let s = dropWhile (\<lambda>c. c \<in> set delim) s
     in if s = [] then (None, s)
        else
         (let token = takeWhile (\<lambda>c. c \<notin> set delim) s;
              rest = dropWhile (\<lambda>c. c \<notin> set delim) s
          in if rest = [] then (Some token, []) else (Some token, tl rest)))"

text \<open>The single-delimiter variant.\<close>

definition D_strtok_r_1c :: "u8 list \<Rightarrow> u8 \<Rightarrow> u8 list option \<times> u8 list" where
  "D_strtok_r_1c s sep =
    (let s = dropWhile (\<lambda>c. c = sep) s
     in if s = [] then (None, s)
        else (Some (takeWhile (\<lambda>c. c \<noteq> sep) s), tl (dropWhile (\<lambda>c. c \<noteq> sep) s)))"

lemma strtok_shorter:
  assumes "D_strtok_r s delim = (Some token, rest)"
  shows "length rest < length s"
proof -
  let ?s = "dropWhile (\<lambda>c. c \<in> set delim) s"
  have ne: "?s \<noteq> []"
  proof
    assume "?s = []"
    then have "D_strtok_r s delim = (None, [])" unfolding D_strtok_r_def Let_def by simp
    then show False using assms by simp
  qed
  have "length ?s \<le> length s" by (rule length_dropWhile_le)
  moreover have "length rest < length ?s"
  proof (cases "dropWhile (\<lambda>c. c \<notin> set delim) ?s = []")
    case True
    have "(Some (takeWhile (\<lambda>c. c \<notin> set delim) ?s), []) = (Some token, rest)"
      using assms unfolding D_strtok_r_def Let_def if_not_P [OF ne] if_P [OF True] .
    then show ?thesis using ne by simp
  next
    case False
    have "(Some (takeWhile (\<lambda>c. c \<notin> set delim) ?s), tl (dropWhile (\<lambda>c. c \<notin> set delim) ?s)) = (Some token, rest)"
      using assms unfolding D_strtok_r_def Let_def if_not_P [OF ne] if_not_P [OF False] .
    then have "rest = tl (dropWhile (\<lambda>c. c \<notin> set delim) ?s)" by simp
    then have "length rest < length (dropWhile (\<lambda>c. c \<notin> set delim) ?s)" using False by simp
    then show ?thesis using length_dropWhile_le [of "\<lambda>c. c \<notin> set delim" ?s] by linarith
  qed
  ultimately show ?thesis by linarith
qed

text \<open>The usual loop of a caller: until \<^verbatim>\<open>NULL\<close>.\<close>

function all_tokens :: "u8 list \<Rightarrow> u8 list \<Rightarrow> u8 list list" where
  "all_tokens s delim =
    (case D_strtok_r s delim of (None, _) \<Rightarrow> [] | (Some token, rest) \<Rightarrow> token # all_tokens rest delim)"
  by pat_completeness auto
termination by (relation "measure (\<lambda>(s, _). length s)") (auto dest: strtok_shorter sym)

declare all_tokens.simps [simp del]

text \<open>Splitting at every delimiter, as a reference.\<close>

fun split_at :: "u8 list \<Rightarrow> u8 list \<Rightarrow> u8 list list" where
  "split_at [] delim = [[]]"
| "split_at (c # s) delim =
    (if c \<in> set delim then [] # split_at s delim
     else (c # hd (split_at s delim)) # tl (split_at s delim))"

lemma split_at_ne [simp]: "split_at s delim \<noteq> []"
  by (induction s) auto

lemma split_at_token:
  assumes "\<forall>c \<in> set t. c \<notin> set delim"
  shows "split_at t delim = [t]" "d \<in> set delim \<Longrightarrow> split_at (t @ d # s) delim = t # split_at s delim"
  using assms by (induction t) auto

lemma split_at_skip:
  "filter (\<lambda>t. t \<noteq> []) (split_at (dropWhile (\<lambda>c. c \<in> set delim) s) delim) = filter (\<lambda>t. t \<noteq> []) (split_at s delim)"
  by (induction s) auto

text \<open>
  C39: The tokenizer splits correctly and terminates. Calling \<^verbatim>\<open>direct_strtok_r\<close> until it returns
  \<^verbatim>\<open>NULL\<close> ends, and yields exactly the non-empty pieces of the string between delimiters, in
  order, for any set of delimiters.
\<close>

theorem tokens_split: "all_tokens s delim = filter (\<lambda>t. t \<noteq> []) (split_at s delim)"
proof (induction "length s" arbitrary: s rule: less_induct)
  case less
  let ?s = "dropWhile (\<lambda>c. c \<in> set delim) s"
  show ?case
  proof (cases "?s = []")
    case True
    then have "D_strtok_r s delim = (None, [])" by (simp add: D_strtok_r_def Let_def)
    then show ?thesis
      using split_at_skip [of delim s] True by (simp add: all_tokens.simps [of s])
  next
    case False
    define t where "t = takeWhile (\<lambda>c. c \<notin> set delim) ?s"
    define u where "u = dropWhile (\<lambda>c. c \<notin> set delim) ?s"
    have s: "?s = t @ u" by (simp add: t_def u_def)
    have t: "\<forall>c \<in> set t. c \<notin> set delim" by (auto simp: t_def dest: set_takeWhileD)
    have "t \<noteq> []" using False hd_dropWhile [of "\<lambda>c. c \<in> set delim" s] by (cases ?s) (auto simp: t_def)
    have tok: "D_strtok_r s delim = (Some t, tl u)"
    proof -
      have "D_strtok_r s delim = (if u = [] then (Some t, []) else (Some t, tl u))"
        using False unfolding D_strtok_r_def Let_def t_def u_def by (simp only: if_False)
      then show ?thesis by (cases u) simp_all
    qed
    have "all_tokens s delim = t # filter (\<lambda>t. t \<noteq> []) (split_at (tl u) delim)"
      using less.hyps [OF strtok_shorter [OF tok]] tok by (simp add: all_tokens.simps [of s])
    also have "\<dots> = filter (\<lambda>t. t \<noteq> []) (split_at ?s delim)"
    proof (cases u)
      case Nil
      then show ?thesis using split_at_token(1) [OF t] \<open>t \<noteq> []\<close> by (simp add: s)
    next
      case (Cons d v)
      then have "d \<in> set delim" using hd_dropWhile [of "\<lambda>c. c \<notin> set delim" ?s] by (simp add: u_def)
      then show ?thesis using split_at_token(2) [OF t] \<open>t \<noteq> []\<close> Cons by (simp add: s)
    qed
    also have "\<dots> = filter (\<lambda>t. t \<noteq> []) (split_at s delim)" by (rule split_at_skip)
    finally show ?thesis .
  qed
qed

lemma strtok_1c_agrees: "D_strtok_r_1c s sep = D_strtok_r s [sep]"
proof -
  have "(\<lambda>c. c \<in> set [sep]) = (\<lambda>c. c = sep)" "(\<lambda>c. c \<notin> set [sep]) = (\<lambda>c. c \<noteq> sep)" by auto
  note sets = this
  have "(if u = [] then (None, u) else (Some t, tl v)) =
      (if u = [] then (None, u) else if v = [] then (Some t, []) else (Some t, tl v))" for t u v :: "u8 list"
    by (cases v) simp_all
  then show ?thesis unfolding D_strtok_r_1c_def D_strtok_r_def Let_def sets .
qed

section \<open>Bounded copies\<close>

text \<open>The bytes written to \<^verbatim>\<open>dest\<close>, the \<^verbatim>\<open>NUL\<close> included; \<^term>\<open>None\<close> is the result \<^verbatim>\<open>NULL\<close>.\<close>

fun snputs_loop :: "nat \<Rightarrow> u8 list \<Rightarrow> u8 list" where
  "snputs_loop n [] = [0]"
| "snputs_loop n (c # src) = (if n > 1 then c # snputs_loop (n - 1) src else [0])"

definition direct_snputs :: "u8 list \<Rightarrow> nat \<Rightarrow> u8 list option" where
  "direct_snputs src n = (if n = 0 then None else Some (snputs_loop n src))"

lemma snputs_fits: "direct_snputs src n = (if n = 0 then None else Some (take (n - 1) src @ [0]))"
proof -
  have "0 < n \<Longrightarrow> snputs_loop n src = take (n - 1) src @ [0]"
    by (induction n src rule: snputs_loop.induct) (auto simp: take_Cons')
  then show ?thesis by (simp add: direct_snputs_def)
qed

section \<open>Error numbers\<close>

text \<open>The numbers of \<^verbatim>\<open>errno.h\<close> on Linux.\<close>

definition strings_base :: "int \<Rightarrow> string option" where
  "strings_base = map_of
    [(1, ''Operation not permitted''), (2, ''No such file or directory''), (3, ''No such process''),
     (4, ''Interrupted system call''), (5, ''I/O error''), (6, ''No such device or address''),
     (7, ''Argument list too long''), (8, ''Exec format error''), (9, ''Bad file number''),
     (10, ''No child processes''), (11, ''Try again''), (12, ''Out of memory''), (13, ''Permission denied''),
     (14, ''Bad address''), (15, ''Block device required''), (16, ''Device or resource busy''), (17, ''File exists''),
     (18, ''Cross-device link''), (19, ''No such device''), (20, ''Not a directory''), (21, ''Is a directory''),
     (22, ''Invalid argument''), (23, ''File table overflow''), (24, ''Too many open files''),
     (25, ''Not a typewriter''), (26, ''Text file busy''), (27, ''File too large''), (28, ''No space left on device''),
     (29, ''Illegal seek''), (30, ''Read-only file system''), (31, ''Too many links''), (32, ''Broken pipe''),
     (33, ''Math argument out of domain of func''), (34, ''Math result not representable''), (110, ''Timed out'')]"

text \<open>The table has 150 entries; those never set are \<^verbatim>\<open>NULL\<close>, here \<^term>\<open>None\<close>.\<close>

definition direct_strerror :: "int \<Rightarrow> string option" where
  "direct_strerror erno =
    (if erno < 0 then Some ''negative errno''
     else if erno \<ge> 150 then Some ''too high errno''
     else strings_base erno)"

definition errno2result :: "int \<Rightarrow> DirectResult" where
  "errno2result erno =
    (if erno = 0 then DR_OK
     else if erno = 2 then DR_FILENOTFOUND
     else if erno = 13 \<or> erno = 1 then DR_ACCESSDENIED
     else if erno = 16 \<or> erno = 11 then DR_BUSY
     else if erno = 110 then DR_TIMEOUT
     else if erno = 111 then DR_ACCESSDENIED
     else if erno = 4 then DR_SIGNALLED
     else if erno = 38 then DR_NOSUCHMETHOD
     else if erno = 22 then DR_INVARG
     else if erno = 19 \<or> erno = 6 \<or> erno = 95 then DR_UNSUPPORTED
     else DR_FAILURE)"

lemma errno2result_ok: "errno2result erno = DR_OK \<longleftrightarrow> erno = 0"
  by (simp add: errno2result_def)

text \<open>\<^verbatim>\<open>ENOSYS\<close> and \<^verbatim>\<open>ECONNREFUSED\<close> have results of their own, but \<^verbatim>\<open>direct_strerror\<close> returns \<^verbatim>\<open>NULL\<close> for them.\<close>

lemma strerror_null: "direct_strerror 38 = None \<and> direct_strerror 111 = None \<and> direct_strerror 0 = None"
  by (simp add: direct_strerror_def strings_base_def)
end
