(* ===== verification/Simulation.thy ===== *)
theory Simulation
  imports DFB_Prelude
begin

text \<open>
  The contract of the components that keep a state behind a set of calls: each call on a
  concrete state that represents an abstract one returns, and answers as one step of the
  specification allows. \<open>rep n d s\<close> says that \<open>d\<close> represents \<open>s\<close> and that at least \<open>n\<close> more calls
  stay within the limits of the code's integers. Every sequence of legal calls then
  returns, and its answers are a trace of the specification.
\<close>

fun run_calls :: "('d \<Rightarrow> 'op \<Rightarrow> ('d \<times> 'a) option) \<Rightarrow> 'd \<Rightarrow> 'op list \<Rightarrow> ('d \<times> 'a list) option" where
  "run_calls call d [] = Some (d, [])"
| "run_calls call d (op # ops) = do {
     (d, a) \<leftarrow> call d op;
     (d, as) \<leftarrow> run_calls call d ops;
     Some (d, a # as) }"

inductive spec_trace :: "('s \<Rightarrow> 'op \<Rightarrow> 'a \<Rightarrow> 's \<Rightarrow> bool) \<Rightarrow> 's \<Rightarrow> 'op list \<Rightarrow> 'a list \<Rightarrow> 's \<Rightarrow> bool" for spec where
  trace_nil: "spec_trace spec s [] [] s"
| trace_cons: "\<lbrakk> spec s op a s'; spec_trace spec s' ops as s'' \<rbrakk> \<Longrightarrow> spec_trace spec s (op # ops) (a # as) s''"

inductive_cases spec_trace_NilE: "spec_trace spec s [] as t"
inductive_cases spec_trace_ConsE: "spec_trace spec s (op # ops) as t"
inductive_simps spec_trace_Nil [simp]: "spec_trace spec s [] as t"
inductive_simps spec_trace_Cons: "spec_trace spec s (op # ops) as t"

text \<open>An invariant of the specification's steps holds at the end of every trace.\<close>

lemma spec_trace_invariant:
  assumes "spec_trace spec s ops as t" and "I s" and "\<And>s op a s'. spec s op a s' \<Longrightarrow> I s \<Longrightarrow> I s'"
  shows "I t"
  using assms by (induction rule: spec_trace.induct) auto

lemma spec_trace_lengths: "spec_trace spec s ops as t \<Longrightarrow> length as = length ops"
  by (induction rule: spec_trace.induct) auto

locale simulation =
  fixes rep :: "nat \<Rightarrow> 'd \<Rightarrow> 's \<Rightarrow> bool" and call :: "'d \<Rightarrow> 'op \<Rightarrow> ('d \<times> 'a) option"
    and spec :: "'s \<Rightarrow> 'op \<Rightarrow> 'a \<Rightarrow> 's \<Rightarrow> bool" and legal :: "'op \<Rightarrow> bool"
  assumes call_step: "\<lbrakk> rep (Suc n) d s; legal op \<rbrakk> \<Longrightarrow>
      \<exists>d' a s'. call d op = Some (d', a) \<and> spec s op a s' \<and> rep n d' s'"
begin

lemma run_simulates:
  "\<lbrakk> rep (length ops + n) d s; list_all legal ops \<rbrakk> \<Longrightarrow>
    \<exists>d' as s'. run_calls call d ops = Some (d', as) \<and> spec_trace spec s ops as s' \<and> rep n d' s'"
proof (induction ops arbitrary: d s)
  case Nil
  then show ?case by (auto intro: trace_nil)
next
  case (Cons op ops)
  have rep: "rep (Suc (length ops + n)) d s" and "legal op" and legal: "list_all legal ops"
    using Cons.prems by auto
  obtain d' a s' where step: "call d op = Some (d', a)" "spec s op a s'" "rep (length ops + n) d' s'"
    using call_step [OF rep \<open>legal op\<close>] by blast
  obtain d'' as s'' where run: "run_calls call d' ops = Some (d'', as)" "spec_trace spec s' ops as s''"
      "rep n d'' s''"
    using Cons.IH [OF step(3) legal] by blast
  have "run_calls call d (op # ops) = Some (d'', a # as)" using step(1) run(1) by simp
  moreover have "spec_trace spec s (op # ops) (a # as) s''" using trace_cons [OF step(2) run(2)] .
  ultimately show ?case using run(3) by blast
qed

end

end
