(* ===== verification/Fusion_Vector.thy ===== *)
theory Fusion_Vector
  imports Simulation
begin

text \<open>
  The growing pointer array of \<^verbatim>\<open>lib/fusion/vector.c\<close> and \<^verbatim>\<open>vector.h\<close>. A memory block is a list of
  cells, \<^term>\<open>None\<close> for a cell never written; an operation returns \<^term>\<open>None\<close> where the C code
  reads such a cell, leaves its block, or overflows an \<^verbatim>\<open>int\<close>. Each call that may allocate takes
  the outcome of its allocation as an argument.
\<close>

type_synonym ptr = u64

record FusionVector =
  vec_elements :: "ptr option list option"
  vec_count :: int
  vec_capacity :: int

section \<open>Blocks of memory\<close>

definition cell :: "ptr option list \<Rightarrow> int \<Rightarrow> ptr option" where
  "cell es i = (if 0 \<le> i \<and> i < int (length es) then es ! nat i else None)"

definition store_cell :: "ptr option list \<Rightarrow> int \<Rightarrow> ptr \<Rightarrow> ptr option list option" where
  "store_cell es i x = (if 0 \<le> i \<and> i < int (length es) then Some (es[nat i := Some x]) else None)"

text \<open>\<^verbatim>\<open>memmove\<close> of \<open>n\<close> cells within a block, from index \<open>src\<close> to index \<open>dst\<close>.\<close>

definition move_cells :: "ptr option list \<Rightarrow> int \<Rightarrow> int \<Rightarrow> int \<Rightarrow> ptr option list option" where
  "move_cells es dst src n =
    (if 0 \<le> n \<and> 0 \<le> src \<and> 0 \<le> dst \<and> src + n \<le> int (length es) \<and> dst + n \<le> int (length es)
     then Some (take (nat dst) es @ take (nat n) (drop (nat src) es) @ drop (nat (dst + n)) es)
     else None)"

definition copy_cells :: "ptr option list \<Rightarrow> ptr option list \<Rightarrow> int \<Rightarrow> ptr option list option" where
  "copy_cells dst src n =
    (if 0 \<le> n \<and> n \<le> int (length src) \<and> n \<le> int (length dst)
     then Some (take (nat n) src @ drop (nat n) dst) else None)"

definition fresh_block :: "int \<Rightarrow> ptr option list" where
  "fresh_block n = replicate (nat n) None"

section \<open>Operations\<close>

definition fusion_vector_init :: "int \<Rightarrow> FusionVector" where
  "fusion_vector_init capacity = \<lparr> vec_elements = None, vec_count = 0, vec_capacity = capacity \<rparr>"

text \<open>The flag tells whether there is a free cell now; \<open>avail\<close> is the outcome of the allocation.\<close>

definition ensure_capacity :: "bool \<Rightarrow> FusionVector \<Rightarrow> (FusionVector \<times> bool) option" where
  "ensure_capacity avail v = (case vec_elements v of
     None \<Rightarrow> Some (if avail then (v\<lparr>vec_elements := Some (fresh_block (vec_capacity v))\<rparr>, True) else (v, False))
   | Some es \<Rightarrow>
       if vec_count v = vec_capacity v then do {
         capacity \<leftarrow> chk (2 * vec_capacity v);
         if \<not> avail then Some (v, False)
         else do {
           elements \<leftarrow> copy_cells (fresh_block capacity) es (vec_count v);
           Some (v\<lparr>vec_elements := Some elements, vec_capacity := capacity\<rparr>, True) } }
       else Some (v, True))"

definition fusion_vector_destroy :: "FusionVector \<Rightarrow> FusionVector" where
  "fusion_vector_destroy v = (case vec_elements v of None \<Rightarrow> v | Some _ \<Rightarrow> v\<lparr>vec_elements := None\<rparr>)"

definition fusion_vector_add :: "bool \<Rightarrow> FusionVector \<Rightarrow> ptr \<Rightarrow> (FusionVector \<times> DirectResult) option" where
  "fusion_vector_add avail v element = do {
     (v, free) \<leftarrow> ensure_capacity avail v;
     if \<not> free then Some (v, DR_NOSHAREDMEMORY)
     else do {
       es \<leftarrow> vec_elements v;
       es \<leftarrow> store_cell es (vec_count v) element;
       Some (v\<lparr>vec_elements := Some es, vec_count := vec_count v + 1\<rparr>, DR_OK) } }"

definition fusion_vector_insert ::
    "bool \<Rightarrow> FusionVector \<Rightarrow> ptr \<Rightarrow> int \<Rightarrow> (FusionVector \<times> DirectResult) option" where
  "fusion_vector_insert avail v element index = do {
     (v, free) \<leftarrow> ensure_capacity avail v;
     if \<not> free then Some (v, DR_NOSHAREDMEMORY)
     else do {
       es \<leftarrow> vec_elements v;
       es \<leftarrow> move_cells es (index + 1) index (vec_count v - index);
       es \<leftarrow> store_cell es index element;
       Some (v\<lparr>vec_elements := Some es, vec_count := vec_count v + 1\<rparr>, DR_OK) } }"

definition fusion_vector_move :: "FusionVector \<Rightarrow> int \<Rightarrow> int \<Rightarrow> (FusionVector \<times> DirectResult) option" where
  "fusion_vector_move v fr to =
    (if to = fr then Some (v, DR_OK)
     else do {
       es \<leftarrow> vec_elements v;
       element \<leftarrow> cell es fr;
       es \<leftarrow> (if to > fr then move_cells es fr (fr + 1) (to - fr) else move_cells es (to + 1) to (fr - to));
       es \<leftarrow> store_cell es to element;
       Some (v\<lparr>vec_elements := Some es\<rparr>, DR_OK) })"

definition fusion_vector_remove :: "FusionVector \<Rightarrow> int \<Rightarrow> (FusionVector \<times> DirectResult) option" where
  "fusion_vector_remove v index = do {
     es \<leftarrow> vec_elements v;
     es \<leftarrow> move_cells es index (index + 1) (vec_count v - index - 1);
     Some (v\<lparr>vec_elements := Some es, vec_count := vec_count v - 1\<rparr>, DR_OK) }"

definition fusion_vector_remove_last :: "FusionVector \<Rightarrow> FusionVector \<times> DirectResult" where
  "fusion_vector_remove_last v = (v\<lparr>vec_count := vec_count v - 1\<rparr>, DR_OK)"

definition fusion_vector_has_elements :: "FusionVector \<Rightarrow> bool" where
  "fusion_vector_has_elements v \<longleftrightarrow> vec_count v > 0"

definition fusion_vector_is_empty :: "FusionVector \<Rightarrow> bool" where
  "fusion_vector_is_empty v \<longleftrightarrow> vec_count v = 0"

definition fusion_vector_size :: "FusionVector \<Rightarrow> int" where
  "fusion_vector_size v = vec_count v"

definition fusion_vector_at :: "FusionVector \<Rightarrow> int \<Rightarrow> ptr option" where
  "fusion_vector_at v index = do { es \<leftarrow> vec_elements v; cell es index }"

text \<open>The search from the end, with \<open>n\<close> cells left; the answer \<^term>\<open>None\<close> inside is "not found".\<close>

fun search_down :: "FusionVector \<Rightarrow> ptr \<Rightarrow> nat \<Rightarrow> int option option" where
  "search_down v x 0 = Some None"
| "search_down v x (Suc i) = do {
     y \<leftarrow> fusion_vector_at v (int i);
     if y = x then Some (Some (int i)) else search_down v x i }"

definition fusion_vector_contains :: "FusionVector \<Rightarrow> ptr \<Rightarrow> bool option" where
  "fusion_vector_contains v element =
    map_option (\<lambda>r. r \<noteq> None) (search_down v element (nat (vec_count v)))"

text \<open>\<^verbatim>\<open>INT_MIN >> 2\<close> is returned for a missing element.\<close>

definition fusion_vector_index_of :: "FusionVector \<Rightarrow> ptr \<Rightarrow> int option" where
  "fusion_vector_index_of v element =
    map_option (\<lambda>r. case r of Some i \<Rightarrow> i | None \<Rightarrow> - (2 ^ 29)) (search_down v element (nat (vec_count v)))"

text \<open>
  The elements a loop visits. Both loops end at a \<^verbatim>\<open>NULL\<close> element; \<open>n\<close> counts the cells left.
\<close>

fun foreach_from :: "FusionVector \<Rightarrow> nat \<Rightarrow> nat \<Rightarrow> ptr list option" where
  "foreach_from v i 0 = Some []"
| "foreach_from v i (Suc n) = do {
     x \<leftarrow> fusion_vector_at v (int i);
     if x = 0 then Some [] else map_option ((#) x) (foreach_from v (Suc i) n) }"

definition fusion_vector_foreach :: "FusionVector \<Rightarrow> ptr list option" where
  "fusion_vector_foreach v = foreach_from v 0 (nat (vec_count v))"

fun foreach_reverse_from :: "FusionVector \<Rightarrow> nat \<Rightarrow> ptr list option" where
  "foreach_reverse_from v 0 = Some []"
| "foreach_reverse_from v (Suc i) =
    (if vec_count v = 0 \<or> vec_elements v = None then Some []
     else do {
       x \<leftarrow> fusion_vector_at v (int i);
       if x = 0 then Some [] else map_option ((#) x) (foreach_reverse_from v i) })"

definition fusion_vector_foreach_reverse :: "FusionVector \<Rightarrow> ptr list option" where
  "fusion_vector_foreach_reverse v = foreach_reverse_from v (nat (vec_count v))"

section \<open>Representation\<close>

text \<open>The vector holds the list \<open>xs\<close>: the block starts with its elements and has \<open>capacity\<close> cells.\<close>

definition vec_rep :: "FusionVector \<Rightarrow> ptr list \<Rightarrow> bool" where
  "vec_rep v xs \<longleftrightarrow> 0 < vec_capacity v \<and> int32 (vec_capacity v) \<and> vec_count v = int (length xs) \<and> 0 \<notin> set xs \<and>
    (case vec_elements v of None \<Rightarrow> xs = []
     | Some es \<Rightarrow> int (length es) = vec_capacity v \<and> (\<exists>rest. es = map Some xs @ rest))"

text \<open>With a free cell after the elements:\<close>

definition vec_room :: "FusionVector \<Rightarrow> ptr list \<Rightarrow> bool" where
  "vec_room v xs \<longleftrightarrow> (\<exists>c rest. vec_elements v = Some (map Some xs @ c # rest))"

lemma move_cells_up:
  "move_cells (as @ bs @ c # cs) (int (length as) + 1) (int (length as)) (int (length bs))
     = Some (as @ hd (bs @ [c]) # bs @ cs)"
  by (cases bs) (auto simp: move_cells_def nat_add_distrib)

lemma move_cells_down:
  "move_cells (as @ c # bs @ cs) (int (length as)) (int (length as) + 1) (int (length bs))
     = Some (as @ bs @ last (c # bs) # cs)"
  by (cases bs rule: rev_cases) (auto simp: move_cells_def nat_add_distrib)

lemma store_cell_append: "store_cell (as @ c # cs) (int (length as)) x = Some (as @ Some x # cs)"
  by (simp add: store_cell_def)

lemma cell_append: "cell (as @ c # cs) (int (length as)) = c"
  by (simp add: cell_def)

lemma ensure_capacity_rep:
  assumes "vec_rep v xs" and "int (length xs) < 2 ^ 30"
  shows "\<exists>v' free. ensure_capacity avail v = Some (v', free) \<and> vec_rep v' xs \<and>
           (free \<longrightarrow> vec_room v' xs) \<and> (\<not> free \<longrightarrow> v' = v \<and> \<not> avail)"
proof (cases "vec_elements v")
  case None
  have xs: "xs = []" and cap: "0 < vec_capacity v" "int32 (vec_capacity v)" "vec_count v = 0"
    using assms(1) None by (auto simp: vec_rep_def)
  have "fresh_block (vec_capacity v) = None # replicate (nat (vec_capacity v) - 1) None"
    unfolding fresh_block_def using cap(1) by (metis Suc_diff_1 replicate_Suc zero_less_nat_eq)
  then have room: "vec_room (v\<lparr>vec_elements := Some (fresh_block (vec_capacity v))\<rparr>) []"
    unfolding vec_room_def by simp
  have rep: "vec_rep (v\<lparr>vec_elements := Some (fresh_block (vec_capacity v))\<rparr>) []"
    using cap by (simp add: vec_rep_def fresh_block_def)
  show ?thesis
    using assms(1) None xs room rep by (cases avail) (simp_all add: ensure_capacity_def ex_bool_eq)
next
  case (Some es)
  obtain rest where es: "es = map Some xs @ rest" "int (length es) = vec_capacity v" "0 < vec_capacity v"
      "int32 (vec_capacity v)" "vec_count v = int (length xs)" "0 \<notin> set xs"
    using assms(1) Some by (auto simp: vec_rep_def)
  show ?thesis
  proof (cases "vec_count v = vec_capacity v")
    case full: True
    then have rest: "rest = []" and cap: "vec_capacity v < 2 ^ 30" using es assms(2) by auto
    have int32: "int32 (2 * vec_capacity v)" using cap es(3) by (simp add: int32_def)
    have cap_eq: "vec_capacity v = int (length xs)" and es_eq: "es = map Some xs" using full es rest by auto
    then obtain m where m: "length xs = Suc m" using es(3) by (cases "length xs") auto
    have fresh: "fresh_block (2 * vec_capacity v) = replicate (length xs) None @ None # replicate m None"
      unfolding fresh_block_def cap_eq using m by (simp flip: replicate_Suc replicate_add add: nat_mult_distrib)
    have "copy_cells (fresh_block (2 * vec_capacity v)) es (vec_count v) = Some (map Some xs @ None # replicate m None)"
      by (simp add: copy_cells_def fresh es_eq es(5))
    then show ?thesis
      using es full Some int32 m es_eq cap_eq
      by (auto simp: ensure_capacity_def vec_rep_def vec_room_def chk_def)
  next
    case False
    then obtain c cs where "rest = c # cs" using es by (cases rest) auto
    then show ?thesis
      using es Some False assms(1) by (auto simp: ensure_capacity_def vec_room_def)
  qed
qed

lemma vec_cell:
  assumes "vec_rep v xs" and "i < length xs"
  shows "fusion_vector_at v (int i) = Some (xs ! i)"
  using assms by (auto simp: vec_rep_def fusion_vector_at_def cell_def nth_append split: option.splits)

text \<open>The list operations the vector stands for.\<close>

definition insert_at :: "nat \<Rightarrow> 'a \<Rightarrow> 'a list \<Rightarrow> 'a list" where
  "insert_at i x xs = take i xs @ x # drop i xs"

definition remove_at :: "nat \<Rightarrow> 'a list \<Rightarrow> 'a list" where
  "remove_at i xs = take i xs @ drop (Suc i) xs"

lemma fusion_vector_add_rep:
  assumes "vec_rep v xs" and "int (length xs) < 2 ^ 30" and "x \<noteq> 0"
  shows "\<exists>v'. fusion_vector_add avail v x = Some (v', DR_OK) \<and> vec_rep v' (xs @ [x]) \<or>
              fusion_vector_add avail v x = Some (v, DR_NOSHAREDMEMORY) \<and> \<not> avail"
proof -
  obtain v' free where ens: "ensure_capacity avail v = Some (v', free)" "vec_rep v' xs"
      "free \<longrightarrow> vec_room v' xs" "\<not> free \<longrightarrow> v' = v \<and> \<not> avail"
    using ensure_capacity_rep [OF assms(1,2)] by blast
  show ?thesis
  proof (cases free)
    case True
    then obtain c rest where room: "vec_elements v' = Some (map Some xs @ c # rest)"
      using ens(3) by (auto simp: vec_room_def)
    have "store_cell (map Some xs @ c # rest) (vec_count v') x = Some (map Some xs @ Some x # rest)"
      using store_cell_append [of "map Some xs" c rest x] ens(2) by (simp add: vec_rep_def)
    then show ?thesis
      using ens True room assms(3) by (auto simp: fusion_vector_add_def vec_rep_def)
  next
    case False
    then show ?thesis using ens by (auto simp: fusion_vector_add_def)
  qed
qed

lemma fusion_vector_insert_rep:
  assumes "vec_rep v xs" and "int (length xs) < 2 ^ 30" and "x \<noteq> 0" and "i \<le> length xs"
  shows "\<exists>v'. fusion_vector_insert avail v x (int i) = Some (v', DR_OK) \<and> vec_rep v' (insert_at i x xs) \<or>
              fusion_vector_insert avail v x (int i) = Some (v, DR_NOSHAREDMEMORY) \<and> \<not> avail"
proof -
  obtain v' free where ens: "ensure_capacity avail v = Some (v', free)" "vec_rep v' xs"
      "free \<longrightarrow> vec_room v' xs" "\<not> free \<longrightarrow> v' = v \<and> \<not> avail"
    using ensure_capacity_rep [OF assms(1,2)] by blast
  show ?thesis
  proof (cases free)
    case True
    then obtain c rest where room: "vec_elements v' = Some (map Some xs @ c # rest)"
      using ens(3) by (auto simp: vec_room_def)
    define ys zs where "ys = take i xs" and "zs = drop i xs"
    have xs: "xs = ys @ zs" "length ys = i" using assms(4) by (auto simp: ys_def zs_def)
    let ?d = "hd (map Some zs @ [c])"
    have "move_cells (map Some xs @ c # rest) (int i + 1) (int i) (vec_count v' - int i)
        = Some (map Some ys @ ?d # map Some zs @ rest)"
      using move_cells_up [of "map Some ys" "map Some zs" c rest] ens(2) xs by (simp add: vec_rep_def)
    moreover have "store_cell (map Some ys @ ?d # map Some zs @ rest) (int i) x
        = Some (map Some ys @ Some x # map Some zs @ rest)"
      using store_cell_append [of "map Some ys" ?d "map Some zs @ rest" x] xs by simp
    ultimately show ?thesis
      using ens True room assms(3) xs by (auto simp: fusion_vector_insert_def vec_rep_def insert_at_def)
  next
    case False
    then show ?thesis using ens by (auto simp: fusion_vector_insert_def)
  qed
qed

lemma vec_rep_elements:
  assumes "vec_rep v xs" and "xs \<noteq> []"
  obtains rest where "vec_elements v = Some (map Some xs @ rest)"
    "int (length xs) + int (length rest) = vec_capacity v"
  using assms by (cases "vec_elements v") (auto simp: vec_rep_def)

text \<open>Elements may be replaced, dropped at the end included, as long as the block keeps its length.\<close>

lemma vec_rep_update:
  assumes "vec_rep v xs" and "vec_elements v = Some es" and "length (map Some ys @ rest) = length es"
    and "0 \<notin> set ys" and "n = int (length ys)"
  shows "vec_rep (v\<lparr>vec_elements := Some (map Some ys @ rest), vec_count := n\<rparr>) ys"
  using assms by (auto simp: vec_rep_def)

lemma fusion_vector_remove_rep:
  assumes "vec_rep v xs" and "i < length xs"
  shows "\<exists>v'. fusion_vector_remove v (int i) = Some (v', DR_OK) \<and> vec_rep v' (remove_at i xs)"
proof -
  obtain rest where rest: "vec_elements v = Some (map Some xs @ rest)"
    using vec_rep_elements [OF assms(1)] assms(2) by fastforce
  obtain ys x zs where xs: "xs = ys @ x # zs" "length ys = i" using assms(2) by (metis id_take_nth_drop length_take min.absorb4)
  let ?es = "map Some ys @ map Some zs @ last (Some x # map Some zs) # rest"
  have count: "vec_count v = int (length xs)" and nz: "0 \<notin> set xs" using assms(1) by (auto simp: vec_rep_def)
  have "move_cells (map Some xs @ rest) (int i) (int i + 1) (vec_count v - int i - 1) = Some ?es"
    using move_cells_down [of "map Some ys" "Some x" "map Some zs" rest] xs count by simp
  then have "fusion_vector_remove v (int i) =
      Some (v\<lparr>vec_elements := Some ?es, vec_count := vec_count v - 1\<rparr>, DR_OK)"
    using rest by (simp add: fusion_vector_remove_def)
  moreover have "vec_rep (v\<lparr>vec_elements := Some ?es, vec_count := vec_count v - 1\<rparr>) (remove_at i xs)"
    using vec_rep_update [OF assms(1) rest, of "ys @ zs" "last (Some x # map Some zs) # rest"] xs count nz
    by (auto simp: remove_at_def)
  ultimately show ?thesis by blast
qed

lemma fusion_vector_remove_last_rep:
  assumes "vec_rep v xs" and "xs \<noteq> []"
  shows "fusion_vector_remove_last v = (v\<lparr>vec_count := vec_count v - 1\<rparr>, DR_OK) \<and>
         vec_rep (fst (fusion_vector_remove_last v)) (butlast xs)"
proof -
  obtain rest where rest: "vec_elements v = Some (map Some xs @ rest)"
    using vec_rep_elements [OF assms] by metis
  obtain ys x where xs: "xs = ys @ [x]" using assms(2) by (cases xs rule: rev_cases) auto
  then show ?thesis
    using assms(1) rest by (auto simp: fusion_vector_remove_last_def vec_rep_def)
qed

text \<open>Moving an element is removing it and inserting it at its new place.\<close>

lemma fusion_vector_move_rep:
  assumes "vec_rep v xs" and "f < length xs" and "t < length xs"
  shows "\<exists>v'. fusion_vector_move v (int f) (int t) = Some (v', DR_OK) \<and>
           vec_rep v' (insert_at t (xs ! f) (remove_at f xs))"
proof -
  obtain rest where rest: "vec_elements v = Some (map Some xs @ rest)"
    using vec_rep_elements [OF assms(1)] assms(2) by fastforce
  have nz: "0 \<notin> set xs" and count: "vec_count v = int (length xs)" using assms(1) by (auto simp: vec_rep_def)
  have upd: "vec_rep (v\<lparr>vec_elements := Some (map Some ys @ rest)\<rparr>) ys"
    if "length ys = length xs" "set ys = set xs" for ys
    using that nz count assms(1) rest by (auto simp: vec_rep_def)
  have fetch: "cell (map Some xs @ rest) (int f) = Some (xs ! f)"
    using assms(2) by (simp add: cell_def nth_append)
  define pre post where "pre = take f xs" and "post = drop (Suc f) xs"
  have xs: "xs = pre @ xs ! f # post" and len: "length pre = f" "length post = length xs - Suc f"
    using assms(2) id_take_nth_drop [OF assms(2)] by (auto simp: pre_def post_def)
  have elems: "set xs = insert (xs ! f) (set pre \<union> set post)" "length xs = Suc (length pre + length post)"
    using arg_cong [OF xs, of set] len assms(2) by auto
  have removed: "remove_at f xs = pre @ post" by (simp add: remove_at_def pre_def post_def)
  consider (same) "f = t" | (up) "f < t" | (down) "t < f" by linarith
  then show ?thesis
  proof cases
    case same
    then have "insert_at t (xs ! f) (remove_at f xs) = pre @ xs ! f # post"
      unfolding removed insert_at_def using len by simp
    then have "insert_at t (xs ! f) (remove_at f xs) = xs" unfolding xs [symmetric] .
    then show ?thesis using same assms(1) by (simp add: fusion_vector_move_def)
  next
    case up
    define bs ds where "bs = take (t - f) post" and "ds = drop (t - f) post"
    have post: "post = bs @ ds" "length bs = t - f" using up assms(3) len by (auto simp: bs_def ds_def)
    have xs': "map Some xs @ rest = map Some pre @ Some (xs ! f) # map Some bs @ map Some ds @ rest"
      by (subst xs) (simp add: post)
    have spec: "insert_at t (xs ! f) (remove_at f xs) = pre @ bs @ xs ! f # ds"
      using up len post by (simp add: insert_at_def removed)
    let ?l = "last (Some (xs ! f) # map Some bs)"
    have "move_cells (map Some xs @ rest) (int f) (int f + 1) (int t - int f)
        = Some (map Some pre @ map Some bs @ ?l # map Some ds @ rest)"
      unfolding xs' using move_cells_down [of "map Some pre" "Some (xs ! f)" "map Some bs" "map Some ds @ rest"]
        len post(2) up by (simp add: of_nat_diff)
    moreover have "store_cell (map Some pre @ map Some bs @ ?l # map Some ds @ rest) (int t) (xs ! f)
        = Some (map Some (pre @ bs @ xs ! f # ds) @ rest)"
      using store_cell_append [of "map Some (pre @ bs)" ?l "map Some ds @ rest" "xs ! f"] len post(2) up by simp
    moreover have "vec_rep (v\<lparr>vec_elements := Some (map Some (pre @ bs @ xs ! f # ds) @ rest)\<rparr>) (pre @ bs @ xs ! f # ds)"
      by (rule upd) (auto simp: post(1) elems)
    ultimately show ?thesis
      unfolding spec using up rest fetch by (simp add: fusion_vector_move_def del: map_append append_assoc)
  next
    case down
    define as bs where "as = take t pre" and "bs = drop t pre"
    have pre: "pre = as @ bs" "length as = t" "length bs = f - t" using down len by (auto simp: as_def bs_def)
    have xs': "map Some xs @ rest = map Some as @ map Some bs @ Some (xs ! f) # map Some post @ rest"
      by (subst xs) (simp add: pre)
    have spec: "insert_at t (xs ! f) (remove_at f xs) = as @ xs ! f # bs @ post"
      using pre by (simp add: insert_at_def removed)
    let ?h = "hd (map Some bs @ [Some (xs ! f)])"
    have "move_cells (map Some xs @ rest) (int t + 1) (int t) (int f - int t)
        = Some (map Some as @ ?h # map Some bs @ map Some post @ rest)"
      unfolding xs' using move_cells_up [of "map Some as" "map Some bs" "Some (xs ! f)" "map Some post @ rest"]
        pre(2,3) down by (simp add: of_nat_diff)
    moreover have "store_cell (map Some as @ ?h # map Some bs @ map Some post @ rest) (int t) (xs ! f)
        = Some (map Some (as @ xs ! f # bs @ post) @ rest)"
      using store_cell_append [of "map Some as" ?h "map Some bs @ map Some post @ rest" "xs ! f"] pre(2) by simp
    moreover have "vec_rep (v\<lparr>vec_elements := Some (map Some (as @ xs ! f # bs @ post) @ rest)\<rparr>) (as @ xs ! f # bs @ post)"
      by (rule upd) (auto simp: pre(1) elems)
    ultimately show ?thesis
      unfolding spec using down rest fetch by (simp add: fusion_vector_move_def del: map_append append_assoc)
  qed
qed

section \<open>Searching and iterating\<close>

text \<open>The last position of an element, or the address that cannot be used by mistake.\<close>

definition last_index :: "ptr list \<Rightarrow> ptr \<Rightarrow> int" where
  "last_index xs x =
    (if x \<in> set xs then int (length xs - 1 - length (takeWhile (\<lambda>y. y \<noteq> x) (rev xs))) else - (2 ^ 29))"

lemma search_down_rep:
  assumes "vec_rep v xs" and "n \<le> length xs"
  shows "search_down v x n = Some (if x \<in> set (take n xs) then Some (last_index (take n xs) x) else None)"
  using assms(2)
proof (induction n)
  case (Suc n)
  then have "take (Suc n) xs = take n xs @ [xs ! n]" by (simp add: take_Suc_conv_app_nth)
  then show ?case
    using Suc vec_cell [OF assms(1), of n] by (auto simp: last_index_def)
qed simp

lemma fusion_vector_index_of_rep:
  "vec_rep v xs \<Longrightarrow> fusion_vector_index_of v x = Some (last_index xs x)"
  using search_down_rep [of v xs "length xs" x]
  by (auto simp: fusion_vector_index_of_def vec_rep_def last_index_def)

lemma fusion_vector_contains_rep:
  "vec_rep v xs \<Longrightarrow> fusion_vector_contains v x = Some (x \<in> set xs)"
  using search_down_rep [of v xs "length xs" x]
  by (auto simp: fusion_vector_contains_def vec_rep_def)

lemma vec_rep_nonnull: "\<lbrakk> vec_rep v xs; i < length xs \<rbrakk> \<Longrightarrow> xs ! i \<noteq> 0"
  by (metis nth_mem vec_rep_def)

lemma foreach_from_rep:
  assumes "vec_rep v xs"
  shows "i + n = length xs \<Longrightarrow> foreach_from v i n = Some (drop i xs)"
proof (induction n arbitrary: i)
  case (Suc n)
  then have "xs ! i \<noteq> 0" using vec_rep_nonnull [OF assms, of i] by simp
  then show ?case
    using Suc vec_cell [OF assms, of i] by (simp add: Cons_nth_drop_Suc)
qed simp

lemma foreach_reverse_from_rep:
  assumes "vec_rep v xs"
  shows "n \<le> length xs \<Longrightarrow> foreach_reverse_from v n = Some (rev (take n xs))"
proof (induction n)
  case (Suc n)
  then have "xs ! n \<noteq> 0" "xs \<noteq> []" using vec_rep_nonnull [OF assms, of n] by auto
  moreover have "vec_elements v \<noteq> None" "vec_count v \<noteq> 0"
    using assms \<open>xs \<noteq> []\<close> by (auto simp: vec_rep_def split: option.splits)
  ultimately show ?case
    using Suc vec_cell [OF assms, of n] by (simp add: take_Suc_conv_app_nth)
qed simp

lemma foreach_rep:
  assumes "vec_rep v xs"
  shows "fusion_vector_foreach v = Some xs" and "fusion_vector_foreach_reverse v = Some (rev xs)"
  using foreach_from_rep [OF assms, of 0 "length xs"] foreach_reverse_from_rep [OF assms, of "length xs"] assms
  by (auto simp: fusion_vector_foreach_def fusion_vector_foreach_reverse_def vec_rep_def)

section \<open>The vector as a list\<close>

datatype seq_op = Append ptr | Insert_At ptr int | Move_To int int | Remove_At int | Remove_Last
  | Item_At int | Contains ptr | Index_Of ptr | Size

datatype seq_answer = Result DirectResult | Item ptr | Is_In bool | Index int | Refused

text \<open>
  A call by a client that honours the assertions at the head of each function: where
  \<^verbatim>\<open>D_ASSERT\<close> fails the call is refused. The flag is the outcome of an allocation.
\<close>

fun vec_call :: "FusionVector \<Rightarrow> bool \<times> seq_op \<Rightarrow> (FusionVector \<times> seq_answer) option" where
  "vec_call v (avail, Append x) =
    (if x \<noteq> 0 then map_option (map_prod id Result) (fusion_vector_add avail v x) else Some (v, Refused))"
| "vec_call v (avail, Insert_At x i) =
    (if x \<noteq> 0 \<and> 0 \<le> i \<and> i \<le> fusion_vector_size v
     then map_option (map_prod id Result) (fusion_vector_insert avail v x i) else Some (v, Refused))"
| "vec_call v (avail, Move_To f t) =
    (if 0 \<le> f \<and> f < fusion_vector_size v \<and> 0 \<le> t \<and> t < fusion_vector_size v
     then map_option (map_prod id Result) (fusion_vector_move v f t) else Some (v, Refused))"
| "vec_call v (avail, Remove_At i) =
    (if 0 \<le> i \<and> i < fusion_vector_size v
     then map_option (map_prod id Result) (fusion_vector_remove v i) else Some (v, Refused))"
| "vec_call v (avail, Remove_Last) =
    (if fusion_vector_has_elements v then Some (map_prod id Result (fusion_vector_remove_last v))
     else Some (v, Refused))"
| "vec_call v (avail, Item_At i) =
    (if 0 \<le> i \<and> i < fusion_vector_size v
     then map_option (\<lambda>x. (v, Item x)) (fusion_vector_at v i) else Some (v, Refused))"
| "vec_call v (avail, Contains x) =
    (if x \<noteq> 0 then map_option (\<lambda>b. (v, Is_In b)) (fusion_vector_contains v x) else Some (v, Refused))"
| "vec_call v (avail, Index_Of x) =
    (if x \<noteq> 0 then map_option (\<lambda>i. (v, Index i)) (fusion_vector_index_of v x) else Some (v, Refused))"
| "vec_call v (avail, Size) = Some (v, Index (fusion_vector_size v))"

text \<open>What each call does to the list; only a call whose allocation fails may report so.\<close>

inductive list_step :: "ptr list \<Rightarrow> bool \<times> seq_op \<Rightarrow> seq_answer \<Rightarrow> ptr list \<Rightarrow> bool" where
  append: "x \<noteq> 0 \<Longrightarrow> list_step xs (avail, Append x) (Result DR_OK) (xs @ [x])"
| append_oom: "x \<noteq> 0 \<Longrightarrow> list_step xs (False, Append x) (Result DR_NOSHAREDMEMORY) xs"
| insert: "\<lbrakk> x \<noteq> 0; i \<le> length xs \<rbrakk> \<Longrightarrow>
    list_step xs (avail, Insert_At x (int i)) (Result DR_OK) (insert_at i x xs)"
| insert_oom: "\<lbrakk> x \<noteq> 0; i \<le> length xs \<rbrakk> \<Longrightarrow>
    list_step xs (False, Insert_At x (int i)) (Result DR_NOSHAREDMEMORY) xs"
| move: "\<lbrakk> f < length xs; t < length xs \<rbrakk> \<Longrightarrow>
    list_step xs (avail, Move_To (int f) (int t)) (Result DR_OK) (insert_at t (xs ! f) (remove_at f xs))"
| remove: "i < length xs \<Longrightarrow> list_step xs (avail, Remove_At (int i)) (Result DR_OK) (remove_at i xs)"
| remove_last: "xs \<noteq> [] \<Longrightarrow> list_step xs (avail, Remove_Last) (Result DR_OK) (butlast xs)"
| item: "i < length xs \<Longrightarrow> list_step xs (avail, Item_At (int i)) (Item (xs ! i)) xs"
| contains: "x \<noteq> 0 \<Longrightarrow> list_step xs (avail, Contains x) (Is_In (x \<in> set xs)) xs"
| index_of: "x \<noteq> 0 \<Longrightarrow> list_step xs (avail, Index_Of x) (Index (last_index xs x)) xs"
| count: "list_step xs (avail, Size) (Index (int (length xs))) xs"
| bad_element: "op \<in> {Append 0, Insert_At 0 i, Contains 0, Index_Of 0} \<Longrightarrow> list_step xs (avail, op) Refused xs"
| bad_insert: "i < 0 \<or> int (length xs) < i \<Longrightarrow> list_step xs (avail, Insert_At x i) Refused xs"
| bad_move: "f < 0 \<or> int (length xs) \<le> f \<or> t < 0 \<or> int (length xs) \<le> t \<Longrightarrow>
    list_step xs (avail, Move_To f t) Refused xs"
| bad_index: "\<lbrakk> i < 0 \<or> int (length xs) \<le> i; op = Remove_At i \<or> op = Item_At i \<rbrakk> \<Longrightarrow>
    list_step xs (avail, op) Refused xs"
| bad_last: "list_step [] (avail, Remove_Last) Refused []"

inductive_cases list_step_AppendE: "list_step xs (avail, Append x) a ys"
inductive_simps list_step_Item_At: "list_step xs (avail, Item_At i) a ys"

definition vec_sim :: "nat \<Rightarrow> FusionVector \<Rightarrow> ptr list \<Rightarrow> bool" where
  "vec_sim n v xs \<longleftrightarrow> vec_rep v xs \<and> int (length xs) + int n \<le> 2 ^ 30"

lemma vec_rep_size: "vec_rep v xs \<Longrightarrow> fusion_vector_size v = int (length xs)"
  by (simp add: vec_rep_def fusion_vector_size_def)

lemma vec_rep_has_elements: "vec_rep v xs \<Longrightarrow> fusion_vector_has_elements v \<longleftrightarrow> xs \<noteq> []"
  by (simp add: vec_rep_def fusion_vector_has_elements_def)

lemma vec_call_simulates:
  assumes "vec_sim (Suc n) v xs"
  shows "\<exists>v' a ys. vec_call v op = Some (v', a) \<and> list_step xs op a ys \<and> vec_sim n v' ys"
proof -
  obtain avail o' where op: "op = (avail, o')" by (cases op)
  have rep: "vec_rep v xs" and room: "int (length xs) < 2 ^ 30" and room': "int (length xs) + 1 + int n \<le> 2 ^ 30"
    using assms by (auto simp: vec_sim_def)
  note size = vec_rep_size [OF rep] and has = vec_rep_has_elements [OF rep]
  have same: "vec_sim n v xs" using rep room' by (simp add: vec_sim_def)
  have refused: ?thesis if "list_step xs op Refused xs" and "vec_call v op = Some (v, Refused)"
    using that same by blast
  show ?thesis
  proof (cases o')
    case (Append x)
    show ?thesis
    proof (cases "x = 0")
      case False
      consider v' where "fusion_vector_add avail v x = Some (v', DR_OK)" "vec_rep v' (xs @ [x])"
        | "fusion_vector_add avail v x = Some (v, DR_NOSHAREDMEMORY)" "\<not> avail"
        using fusion_vector_add_rep [OF rep room False, of avail] by blast
      then show ?thesis
        using False room' same op Append
        by cases (auto simp: vec_sim_def intro: list_step.append list_step.append_oom)
    qed (use same op Append in \<open>auto intro: list_step.bad_element\<close>)
  next
    case (Insert_At x i)
    show ?thesis
    proof (cases "x \<noteq> 0 \<and> 0 \<le> i \<and> i \<le> int (length xs)")
      case True
      then obtain k where k: "i = int k" "k \<le> length xs" and x: "x \<noteq> 0" by (metis nonneg_int_cases of_nat_le_iff)
      consider v' where "fusion_vector_insert avail v x (int k) = Some (v', DR_OK)" "vec_rep v' (insert_at k x xs)"
        | "fusion_vector_insert avail v x (int k) = Some (v, DR_NOSHAREDMEMORY)" "\<not> avail"
        using fusion_vector_insert_rep [OF rep room x k(2), of avail] by blast
      then show ?thesis
        using x k room' same op Insert_At size
        by cases (auto simp: vec_sim_def insert_at_def intro: list_step.insert [unfolded insert_at_def] list_step.insert_oom)
    next
      case False
      have "list_step xs (avail, Insert_At x i) Refused xs"
      proof (cases "x = 0")
        case True
        then show ?thesis by (auto intro: list_step.bad_element)
      next
        case False
        then show ?thesis using \<open>\<not> (x \<noteq> 0 \<and> 0 \<le> i \<and> i \<le> int (length xs))\<close> by (intro list_step.bad_insert) linarith
      qed
      then show ?thesis using False same op Insert_At size by auto
    qed
  next
    case (Move_To f t)
    show ?thesis
    proof (cases "0 \<le> f \<and> f < int (length xs) \<and> 0 \<le> t \<and> t < int (length xs)")
      case True
      then obtain j k where jk: "f = int j" "t = int k" "j < length xs" "k < length xs"
        by (metis nonneg_int_cases of_nat_less_iff)
      obtain v' where v': "fusion_vector_move v (int j) (int k) = Some (v', DR_OK)"
          "vec_rep v' (insert_at k (xs ! j) (remove_at j xs))"
        using fusion_vector_move_rep [OF rep jk(3,4)] by blast
      have "length (insert_at k (xs ! j) (remove_at j xs)) = length xs"
        using jk by (simp add: insert_at_def remove_at_def)
      then show ?thesis
        using v' jk room' op Move_To size by (auto simp: vec_sim_def intro!: list_step.move)
    next
      case False
      then have "f < 0 \<or> int (length xs) \<le> f \<or> t < 0 \<or> int (length xs) \<le> t" by linarith
      then show ?thesis
        using False op Move_To size by (intro refused) (auto intro: list_step.bad_move)
    qed
  next
    case (Remove_At i)
    show ?thesis
    proof (cases "0 \<le> i \<and> i < int (length xs)")
      case True
      then obtain k where k: "i = int k" "k < length xs" by (metis nonneg_int_cases of_nat_less_iff)
      obtain v' where "fusion_vector_remove v (int k) = Some (v', DR_OK)" "vec_rep v' (remove_at k xs)"
        using fusion_vector_remove_rep [OF rep k(2)] by blast
      moreover have "length (remove_at k xs) < length xs" using k by (simp add: remove_at_def)
      ultimately show ?thesis
        using k room' op Remove_At size by (auto simp: vec_sim_def intro!: list_step.remove)
    next
      case False
      then have "i < 0 \<or> int (length xs) \<le> i" by linarith
      then show ?thesis
        using False op Remove_At size by (intro refused) (auto intro: list_step.bad_index)
    qed
  next
    case Remove_Last
    show ?thesis
    proof (cases "xs = []")
      case False
      then show ?thesis
        using fusion_vector_remove_last_rep [OF rep False] room' op Remove_Last has
        by (auto simp: vec_sim_def intro!: list_step.remove_last)
    qed (use same op Remove_Last has in \<open>auto intro: list_step.bad_last\<close>)
  next
    case (Item_At i)
    show ?thesis
    proof (cases "0 \<le> i \<and> i < int (length xs)")
      case True
      then obtain k where k: "i = int k" "k < length xs" by (metis nonneg_int_cases of_nat_less_iff)
      then show ?thesis
        using vec_cell [OF rep k(2)] same op Item_At size by (auto intro!: list_step.item)
    next
      case False
      then have "i < 0 \<or> int (length xs) \<le> i" by linarith
      then show ?thesis
        using False op Item_At size by (intro refused) (auto intro: list_step.bad_index)
    qed
  next
    case (Contains x)
    then show ?thesis
      using same op fusion_vector_contains_rep [OF rep, of x]
      by (cases "x = 0") (auto intro: list_step.bad_element list_step.contains)
  next
    case (Index_Of x)
    then show ?thesis
      using same op fusion_vector_index_of_rep [OF rep, of x]
      by (cases "x = 0") (auto intro: list_step.bad_element list_step.index_of)
  next
    case Size
    then show ?thesis using same op size by (auto intro: list_step.count)
  qed
qed

interpretation vec: simulation vec_sim vec_call list_step "\<lambda>_. True"
  by unfold_locales (rule vec_call_simulates)

lemma vec_sim_init:
  assumes "0 < capacity" and "int32 capacity" and "int n \<le> 2 ^ 30"
  shows "vec_sim n (fusion_vector_init capacity) []"
  using assms by (simp add: vec_sim_def vec_rep_def fusion_vector_init_def)

text \<open>
  C23: starting from an empty vector, every sequence of up to \<^verbatim>\<open>2^30\<close> calls, whichever of its
  allocations fail, returns without leaving its block or reading a cell never written, answers
  as the list operations do, and ends with the list in order under both iterations. A call whose
  allocation fails leaves the list alone.
\<close>

theorem vector_refines_list:
  assumes "0 < capacity" and "int32 capacity" and "int (length ops) \<le> 2 ^ 30"
  shows "\<exists>v as xs. run_calls vec_call (fusion_vector_init capacity) ops = Some (v, as) \<and>
           spec_trace list_step [] ops as xs \<and>
           fusion_vector_foreach v = Some xs \<and> fusion_vector_foreach_reverse v = Some (rev xs) \<and>
           vec_elements (fusion_vector_destroy v) = None"
proof -
  obtain v as xs where run: "run_calls vec_call (fusion_vector_init capacity) ops = Some (v, as)"
      "spec_trace list_step [] ops as xs" "vec_sim 0 v xs"
    using vec.run_simulates [of ops 0 "fusion_vector_init capacity" "[]"] vec_sim_init [OF assms]
    by (auto simp: list_all_iff)
  then have "vec_rep v xs" by (simp add: vec_sim_def)
  with run foreach_rep [OF this] show ?thesis
    by (auto simp: fusion_vector_destroy_def split: option.splits)
qed

lemma vector_refines_list_witness:
  "\<exists>v as xs. run_calls vec_call (fusion_vector_init 1)
       [(True, Append 7), (False, Append 8), (True, Insert_At 9 0), (True, Move_To 0 1)] = Some (v, as) \<and>
     spec_trace list_step [] [(True, Append 7), (False, Append 8), (True, Insert_At 9 0), (True, Move_To 0 1)] as xs \<and>
     fusion_vector_foreach v = Some xs \<and> fusion_vector_foreach_reverse v = Some (rev xs) \<and>
     vec_elements (fusion_vector_destroy v) = None"
  by (rule vector_refines_list) (simp_all add: int32_def)

end
