(* ===== verification/Fusion_Property.thy ===== *)
theory Fusion_Property
  imports Simulation "HOL-Library.Multiset"
begin

text \<open>
  The property of \<^verbatim>\<open>lib/fusion/property.c\<close>, a resource that is leased or purchased by one party:
  the variant for a single application, on a mutex and a wait queue, and the built-in
  variant for several, on shared memory and polling (theory \<open>Fusion_Property_Multi\<close>).
\<close>

type_synonym tid = nat

datatype FusionPropertyState = FUSION_PROPERTY_AVAILABLE | FUSION_PROPERTY_LEASED | FUSION_PROPERTY_PURCHASED

section \<open>The single-application variant\<close>

text \<open>
  Each function holds the property's mutex from start to end, except while it waits, so a call
  is one step up to the point where it returns or goes to sleep, and another from the
  moment it is woken. A sleeping call is its thread and what it asks for.
\<close>

datatype request = Lease | Purchase

record FusionPropertySingle =
  ps_state :: FusionPropertyState
  ps_sleeping :: "(tid \<times> request) list"
  ps_woken :: "(tid \<times> request) list"

datatype outcome = Returns DirectResult | Sleeps

definition fusion_property_init_single :: FusionPropertySingle where
  "fusion_property_init_single = \<lparr> ps_state = FUSION_PROPERTY_AVAILABLE, ps_sleeping = [], ps_woken = [] \<rparr>"

text \<open>The condition variable: \<open>n\<close> is the scheduler's choice of whom a signal wakes.\<close>

definition direct_waitqueue_signal :: "nat \<Rightarrow> FusionPropertySingle \<Rightarrow> FusionPropertySingle" where
  "direct_waitqueue_signal n p = (case drop (n mod length (ps_sleeping p)) (ps_sleeping p) of
      [] \<Rightarrow> p
    | c # cs \<Rightarrow> p\<lparr>ps_sleeping := take (n mod length (ps_sleeping p)) (ps_sleeping p) @ cs,
                  ps_woken := ps_woken p @ [c]\<rparr>)"

definition direct_waitqueue_broadcast :: "FusionPropertySingle \<Rightarrow> FusionPropertySingle" where
  "direct_waitqueue_broadcast p = p\<lparr>ps_sleeping := [], ps_woken := ps_woken p @ ps_sleeping p\<rparr>"

definition direct_waitqueue_wait :: "tid \<times> request \<Rightarrow> FusionPropertySingle \<Rightarrow> FusionPropertySingle" where
  "direct_waitqueue_wait c p = p\<lparr>ps_sleeping := ps_sleeping p @ [c]\<rparr>"

definition fusion_property_lease_single :: "tid \<Rightarrow> FusionPropertySingle \<Rightarrow> FusionPropertySingle \<times> outcome" where
  "fusion_property_lease_single t p =
    (if ps_state p = FUSION_PROPERTY_LEASED then (direct_waitqueue_wait (t, Lease) p, Sleeps)
     else if ps_state p = FUSION_PROPERTY_PURCHASED then (p, Returns DR_BUSY)
     else (p\<lparr>ps_state := FUSION_PROPERTY_LEASED\<rparr>, Returns DR_OK))"

definition fusion_property_purchase_single :: "tid \<Rightarrow> FusionPropertySingle \<Rightarrow> FusionPropertySingle \<times> outcome" where
  "fusion_property_purchase_single t p =
    (if ps_state p = FUSION_PROPERTY_LEASED then (direct_waitqueue_wait (t, Purchase) p, Sleeps)
     else if ps_state p = FUSION_PROPERTY_PURCHASED then (p, Returns DR_BUSY)
     else (direct_waitqueue_broadcast (p\<lparr>ps_state := FUSION_PROPERTY_PURCHASED\<rparr>), Returns DR_OK))"

definition fusion_property_cede_single :: "nat \<Rightarrow> FusionPropertySingle \<Rightarrow> FusionPropertySingle \<times> DirectResult" where
  "fusion_property_cede_single n p =
    (direct_waitqueue_signal n (p\<lparr>ps_state := FUSION_PROPERTY_AVAILABLE\<rparr>), DR_OK)"

definition fusion_property_holdup_single :: "FusionPropertySingle \<Rightarrow> FusionPropertySingle \<times> DirectResult" where
  "fusion_property_holdup_single p = (p, DR_OK)"

fun property_call :: "tid \<times> request \<Rightarrow> FusionPropertySingle \<Rightarrow> FusionPropertySingle \<times> outcome" where
  "property_call (t, Lease) p = fusion_property_lease_single t p"
| "property_call (t, Purchase) p = fusion_property_purchase_single t p"

definition pending :: "FusionPropertySingle \<Rightarrow> (tid \<times> request) list" where
  "pending p = ps_sleeping p @ ps_woken p"

text \<open>
  The steps of the threads. A woken call runs again from its loop; a sleeping one may also
  wake spuriously. The assertion of \<^verbatim>\<open>fusion_property_cede\<close> is its client's obligation.
\<close>

datatype property_event = Call "tid \<times> request" outcome | Resume "tid \<times> request" outcome
  | Cede | Holdup | Spurious "tid \<times> request"

inductive property_step :: "FusionPropertySingle \<Rightarrow> property_event \<Rightarrow> FusionPropertySingle \<Rightarrow> bool" where
  call: "\<lbrakk> fst c \<notin> fst ` set (pending p); property_call c p = (q, out) \<rbrakk> \<Longrightarrow> property_step p (Call c out) q"
| resume: "\<lbrakk> c \<in> set (ps_woken p); property_call c (p\<lparr>ps_woken := remove1 c (ps_woken p)\<rparr>) = (q, out) \<rbrakk> \<Longrightarrow>
    property_step p (Resume c out) q"
| cede: "\<lbrakk> ps_state p \<noteq> FUSION_PROPERTY_AVAILABLE; fusion_property_cede_single n p = (q, r) \<rbrakk> \<Longrightarrow>
    property_step p Cede q"
| holdup: "fusion_property_holdup_single p = (q, r) \<Longrightarrow> property_step p Holdup q"
| spurious: "c \<in> set (ps_sleeping p) \<Longrightarrow>
    property_step p (Spurious c) (p\<lparr>ps_sleeping := remove1 c (ps_sleeping p), ps_woken := ps_woken p @ [c]\<rparr>)"

inductive_cases property_step_CedeE: "property_step p Cede q"
inductive_cases property_step_ResumeE: "property_step p (Resume c out) q"
inductive_cases property_step_CallE: "property_step p (Call c out) q"
inductive_cases property_step_SpuriousE: "property_step p (Spurious c) q"
inductive_cases property_step_HoldupE: "property_step p Holdup q"

inductive property_run :: "FusionPropertySingle \<Rightarrow> property_event list \<Rightarrow> FusionPropertySingle \<Rightarrow> bool" where
  start: "property_run p [] p"
| more: "\<lbrakk> property_run p es q; property_step q e r \<rbrakk> \<Longrightarrow> property_run p (es @ [e]) r"

section \<open>Exclusion\<close>

fun granted :: "property_event \<Rightarrow> bool" where
  "granted (Call c (Returns r)) = (r = DR_OK)"
| "granted (Resume c (Returns r)) = (r = DR_OK)"
| "granted _ = False"

definition grants :: "property_event list \<Rightarrow> nat" where
  "grants es = length (filter granted es)"

definition cedes :: "property_event list \<Rightarrow> nat" where
  "cedes es = length (filter ((=) Cede) es)"

lemmas property_defs = fusion_property_lease_single_def fusion_property_purchase_single_def
  fusion_property_cede_single_def fusion_property_holdup_single_def direct_waitqueue_wait_def
  direct_waitqueue_broadcast_def

lemma signal_fields [simp]:
  "ps_state (direct_waitqueue_signal n p) = ps_state p"
  "mset (pending (direct_waitqueue_signal n p)) = mset (pending p)"
proof -
  let ?n = "n mod length (ps_sleeping p)"
  have split: "ps_sleeping p = take ?n (ps_sleeping p) @ drop ?n (ps_sleeping p)" by simp
  show "ps_state (direct_waitqueue_signal n p) = ps_state p"
    by (simp add: direct_waitqueue_signal_def split: list.split)
  show "mset (pending (direct_waitqueue_signal n p)) = mset (pending p)"
    by (cases "drop ?n (ps_sleeping p)")
      (use arg_cong [OF split, of mset] in \<open>auto simp: direct_waitqueue_signal_def pending_def\<close>)
qed

lemma signal_wakes:
  "ps_sleeping p \<noteq> [] \<Longrightarrow> length (ps_woken (direct_waitqueue_signal n p)) = Suc (length (ps_woken p))"
proof -
  assume "ps_sleeping p \<noteq> []"
  then have "n mod length (ps_sleeping p) < length (ps_sleeping p)" by simp
  then have "drop (n mod length (ps_sleeping p)) (ps_sleeping p) \<noteq> []" by simp
  then show ?thesis
    by (cases "drop (n mod length (ps_sleeping p)) (ps_sleeping p)")
      (simp_all add: direct_waitqueue_signal_def del: drop_eq_Nil)
qed

text \<open>What one call does, by the state it meets.\<close>

lemma property_call_cases:
  assumes "property_call c p = (q, out)"
  shows "ps_state p = FUSION_PROPERTY_LEASED \<and> out = Sleeps \<and> q = p\<lparr>ps_sleeping := ps_sleeping p @ [c]\<rparr>
       \<or> ps_state p = FUSION_PROPERTY_PURCHASED \<and> out = Returns DR_BUSY \<and> q = p
       \<or> ps_state p = FUSION_PROPERTY_AVAILABLE \<and> out = Returns DR_OK \<and>
         (snd c = Lease \<and> q = p\<lparr>ps_state := FUSION_PROPERTY_LEASED\<rparr> \<or>
          snd c = Purchase \<and> q = p\<lparr>ps_state := FUSION_PROPERTY_PURCHASED, ps_sleeping := [],
            ps_woken := ps_woken p @ ps_sleeping p\<rparr>)"
proof (cases c)
  case (Pair t r)
  then show ?thesis
    using assms by (cases r; cases "ps_state p") (auto simp: property_defs)
qed

definition held :: "FusionPropertySingle \<Rightarrow> nat" where
  "held p = (if ps_state p = FUSION_PROPERTY_AVAILABLE then 0 else 1)"

lemma property_step_held:
  "property_step p e q \<Longrightarrow> held p + of_bool (granted e) = held q + of_bool (e = Cede)"
proof (induction rule: property_step.induct)
  case (call c p q out)
  then show ?case using property_call_cases [OF call(2)] by (auto simp: held_def)
next
  case (resume c p q out)
  then show ?case using property_call_cases [OF resume(2)] by (auto simp: held_def)
qed (auto simp: held_def property_defs)

lemma property_run_held: "property_run p es q \<Longrightarrow> held p + grants es = held q + cedes es"
proof (induction rule: property_run.induct)
  case (more p es q e r)
  then show ?case using property_step_held [OF more(2)] by (auto simp: grants_def cedes_def)
qed (simp add: grants_def cedes_def)

lemma property_run_snocE:
  assumes "property_run p (es @ [e]) r"
  obtains q where "property_run p es q" and "property_step q e r"
  using assms by (cases rule: property_run.cases) auto

lemma property_run_append:
  "property_run p (es @ fs) r \<Longrightarrow> \<exists>q. property_run p es q \<and> property_run q fs r"
proof (induction fs arbitrary: r rule: rev_induct)
  case Nil
  then show ?case by (auto intro: property_run.start)
next
  case (snoc f fs)
  then have "property_run p ((es @ fs) @ [f]) r" by simp
  then obtain r' where "property_run p (es @ fs) r'" and step: "property_step r' f r"
    by (rule property_run_snocE)
  with snoc.IH obtain q where "property_run p es q" and "property_run q fs r'" by metis
  from this(1) property_run.more [OF this(2) step] show ?case by metis
qed

lemma property_run_trans: "property_run q fs r \<Longrightarrow> property_run p es q \<Longrightarrow> property_run p (es @ fs) r"
  by (induction rule: property_run.induct) (auto simp flip: append_assoc intro: property_run.more)

lemma property_run_single: "property_run p [e] q \<longleftrightarrow> property_step p e q"
proof
  assume "property_run p [e] q"
  then obtain r where "property_run p [] r" "property_step r e q"
    using property_run_snocE [of p "[]" e q] by auto
  then show "property_step p e q" by (cases rule: property_run.cases) auto
next
  assume "property_step p e q"
  then show "property_run p [e] q" using property_run.more [OF property_run.start] by fastforce
qed

text \<open>
  C30: the property is exclusive. Whatever the threads do, in whatever order they are woken,
  between two calls that return \<^const>\<open>DR_OK\<close> from leasing or purchasing it has been ceded; and
  a call that meets it purchased returns \<^const>\<open>DR_BUSY\<close>, it never sleeps.
\<close>

theorem property_exclusive:
  assumes "property_run fusion_property_init_single (es @ e # fs @ [f]) p" and "granted e" and "granted f"
  shows "Cede \<in> set fs"
proof -
  obtain q where q: "property_run fusion_property_init_single (es @ [e]) q" and rest: "property_run q (fs @ [f]) p"
    using property_run_append [of fusion_property_init_single "es @ [e]" "fs @ [f]" p] assms(1) by (metis append_assoc append_Cons append_Nil)
  obtain q0 where "property_run fusion_property_init_single es q0" and "property_run q0 [e] q"
    using property_run_append [OF q] by metis
  then have "held q = 1"
    using property_step_held [of q0 e q] assms(2) by (cases e) (auto simp: property_run_single held_def)
  then have "1 + grants (fs @ [f]) = held p + cedes (fs @ [f])" using property_run_held [OF rest] by simp
  moreover have "grants (fs @ [f]) \<ge> 1" "held p \<le> 1" using assms(3) by (auto simp: grants_def held_def)
  moreover have "f \<noteq> Cede" using assms(3) by auto
  ultimately have "cedes fs \<ge> 1" by (auto simp: cedes_def)
  then have "filter ((=) Cede) fs \<noteq> []" by (auto simp: cedes_def)
  then show ?thesis by (auto simp: filter_empty_conv)
qed

lemma property_exclusive_witness:
  "\<exists>p. property_run fusion_property_init_single
     ([] @ Call (1, Purchase) (Returns DR_OK) # [Call (2, Lease) (Returns DR_BUSY), Cede] @ [Call (2, Lease) (Returns DR_OK)]) p \<and>
     Cede \<in> set [Call (2, Lease) (Returns DR_BUSY), Cede]"
proof -
  let ?p = "\<lambda>s. \<lparr> ps_state = s, ps_sleeping = [], ps_woken = [] \<rparr>"
  have s1: "property_step (?p FUSION_PROPERTY_AVAILABLE) (Call (1, Purchase) (Returns DR_OK)) (?p FUSION_PROPERTY_PURCHASED)"
    by (rule property_step.call) (simp_all add: pending_def property_defs)
  have s2: "property_step (?p FUSION_PROPERTY_PURCHASED) (Call (2, Lease) (Returns DR_BUSY)) (?p FUSION_PROPERTY_PURCHASED)"
    by (rule property_step.call) (simp_all add: pending_def property_defs)
  have s3: "property_step (?p FUSION_PROPERTY_PURCHASED) Cede (?p FUSION_PROPERTY_AVAILABLE)"
    by (rule property_step.cede [where n = 0 and r = DR_OK]) (simp_all add: property_defs direct_waitqueue_signal_def)
  have s4: "property_step (?p FUSION_PROPERTY_AVAILABLE) (Call (2, Lease) (Returns DR_OK)) (?p FUSION_PROPERTY_LEASED)"
    by (rule property_step.call) (simp_all add: pending_def property_defs)
  have init: "fusion_property_init_single = ?p FUSION_PROPERTY_AVAILABLE"
    by (simp add: fusion_property_init_single_def)
  have run: "property_run fusion_property_init_single
     ([] @ Call (1, Purchase) (Returns DR_OK) # [Call (2, Lease) (Returns DR_BUSY), Cede] @ [Call (2, Lease) (Returns DR_OK)])
     (?p FUSION_PROPERTY_LEASED)"
    unfolding init
    using property_run.more [OF property_run.more [OF property_run.more [OF property_run.more
      [OF property_run.start s1] s2] s3] s4] by simp
  from run property_exclusive [OF run] show ?thesis by auto
qed

section \<open>Every request is answered\<close>

text \<open>No wake-up is lost: a call sleeps only while the property is leased or another call is awake.\<close>

definition property_inv :: "FusionPropertySingle \<Rightarrow> bool" where
  "property_inv p \<longleftrightarrow>
    (ps_sleeping p = [] \<or> ps_state p = FUSION_PROPERTY_LEASED \<or>
     ps_state p = FUSION_PROPERTY_AVAILABLE \<and> ps_woken p \<noteq> []) \<and>
    distinct (map fst (pending p))"

lemma distinct_fst_mset: "mset xs = mset ys \<Longrightarrow> distinct (map fst xs) = distinct (map fst ys)"
  by (metis mset_eq_imp_distinct_iff mset_map)

lemma property_call_pending:
  "property_call c p = (q, out) \<Longrightarrow> mset (pending q) = mset (if out = Sleeps then c # pending p else pending p)"
  by (drule property_call_cases) (auto simp: pending_def)

lemma property_call_inv:
  assumes "property_call c p = (q, out)" and "distinct (map fst (c # pending p))"
    and "ps_sleeping p = [] \<or> ps_state p = FUSION_PROPERTY_LEASED \<or> ps_state p = FUSION_PROPERTY_AVAILABLE"
  shows "property_inv q"
proof -
  have "distinct (map fst (pending q))"
    using distinct_fst_mset [OF property_call_pending [OF assms(1)]] assms(2) by (auto split: if_splits)
  then show ?thesis
    using property_call_cases [OF assms(1)] assms(3) by (auto simp: property_inv_def)
qed

lemma property_step_inv: "property_step p e q \<Longrightarrow> property_inv p \<Longrightarrow> property_inv q"
proof (induction rule: property_step.induct)
  case (call c p q out)
  then show ?case by (intro property_call_inv [OF call(2)]) (auto simp: property_inv_def image_iff)
next
  case (resume c p q out)
  have "mset (ps_woken p) = mset (c # remove1 c (ps_woken p))" using resume(1) by simp
  then have "mset (pending p) = mset (c # pending (p\<lparr>ps_woken := remove1 c (ps_woken p)\<rparr>))"
    by (simp only: pending_def mset_append) simp
  then have "distinct (map fst (c # pending (p\<lparr>ps_woken := remove1 c (ps_woken p)\<rparr>)))"
    using resume(3) distinct_fst_mset by (metis property_inv_def)
  then show ?case
    using resume(3) by (intro property_call_inv [OF resume(2)]) (auto simp: property_inv_def)
next
  case (cede p n q r)
  let ?p = "p\<lparr>ps_state := FUSION_PROPERTY_AVAILABLE\<rparr>"
  have q: "q = direct_waitqueue_signal n ?p" using cede(2) by (simp add: fusion_property_cede_single_def)
  have "distinct (map fst (pending q))"
    using cede(3) distinct_fst_mset [OF signal_fields(2) [of n ?p]] unfolding q
    by (simp only: property_inv_def pending_def) simp
  moreover have "ps_woken q \<noteq> [] \<or> ps_sleeping q = []"
    using signal_wakes [of ?p n] q by (cases "ps_sleeping p = []") (auto simp: direct_waitqueue_signal_def)
  ultimately show ?case using q by (auto simp: property_inv_def)
next
  case (spurious c p)
  have "mset (ps_sleeping p) = mset (c # remove1 c (ps_sleeping p))" using spurious(1) by simp
  then have "mset (pending p) = mset (pending (p\<lparr>ps_sleeping := remove1 c (ps_sleeping p), ps_woken := ps_woken p @ [c]\<rparr>))"
    by (simp only: pending_def mset_append) simp
  then have "distinct (map fst (pending (p\<lparr>ps_sleeping := remove1 c (ps_sleeping p), ps_woken := ps_woken p @ [c]\<rparr>)))"
    using spurious(2) distinct_fst_mset by (metis property_inv_def)
  then show ?case using spurious by (auto simp: property_inv_def)
qed (simp add: fusion_property_holdup_single_def)

lemma property_run_inv: "property_run p es q \<Longrightarrow> property_inv p \<Longrightarrow> property_inv q"
  by (induction rule: property_run.induct) (auto intro: property_step_inv)

lemma property_inv_init: "property_inv fusion_property_init_single"
  by (simp add: property_inv_def fusion_property_init_single_def pending_def)

text \<open>The steps that answer requests: a woken call runs, or the holder cedes.\<close>

inductive answering :: "FusionPropertySingle \<Rightarrow> FusionPropertySingle \<Rightarrow> bool" where
  run_woken: "property_step p (Resume c out) q \<Longrightarrow> answering p q"
| holder_cedes: "property_step p Cede q \<Longrightarrow> answering p q"

definition state_rank :: "FusionPropertySingle \<Rightarrow> nat" where
  "state_rank p = (case ps_state p of FUSION_PROPERTY_LEASED \<Rightarrow> 2 | FUSION_PROPERTY_PURCHASED \<Rightarrow> 1
     | FUSION_PROPERTY_AVAILABLE \<Rightarrow> 0)"

definition answering_measure :: "(FusionPropertySingle \<times> FusionPropertySingle) set" where
  "answering_measure = measures [\<lambda>p. length (pending p), state_rank, \<lambda>p. length (ps_woken p)]"

lemma answering_decreases: "answering p q \<Longrightarrow> (q, p) \<in> answering_measure"
proof (induction rule: answering.induct)
  case (run_woken p c out q)
  have c: "c \<in> set (ps_woken p)" and call: "property_call c (p\<lparr>ps_woken := remove1 c (ps_woken p)\<rparr>) = (q, out)"
    using run_woken by (auto elim: property_step_ResumeE)
  have "length (remove1 c (ps_woken p)) < length (ps_woken p)"
    using c length_pos_if_in_set [OF c] by (simp add: length_remove1)
  then show ?case
    using property_call_cases [OF call] by (auto simp: answering_measure_def pending_def state_rank_def)
next
  case (holder_cedes p q)
  then obtain n where av: "ps_state p \<noteq> FUSION_PROPERTY_AVAILABLE"
      and q: "q = direct_waitqueue_signal n (p\<lparr>ps_state := FUSION_PROPERTY_AVAILABLE\<rparr>)"
    by (auto elim!: property_step_CedeE simp: fusion_property_cede_single_def)
  have "length (pending q) = length (pending p)"
    using arg_cong [OF signal_fields(2) [of n "p\<lparr>ps_state := FUSION_PROPERTY_AVAILABLE\<rparr>"], of size]
    by (simp add: q pending_def)
  then show ?case
    using av q by (cases "ps_state p") (auto simp: answering_measure_def state_rank_def)
qed

lemma answering_stuck: "(\<nexists>q. answering p q) \<longleftrightarrow> ps_woken p = [] \<and> ps_state p = FUSION_PROPERTY_AVAILABLE"
proof
  assume stuck: "\<nexists>q. answering p q"
  have "ps_woken p = []"
  proof (rule ccontr)
    assume "ps_woken p \<noteq> []"
    then have c: "hd (ps_woken p) \<in> set (ps_woken p)" (is "?c \<in> _") by simp
    obtain q out where "property_call ?c (p\<lparr>ps_woken := remove1 ?c (ps_woken p)\<rparr>) = (q, out)" by fastforce
    from answering.run_woken [OF property_step.resume [OF c this]] stuck show False by blast
  qed
  moreover have "ps_state p = FUSION_PROPERTY_AVAILABLE"
  proof (rule ccontr)
    assume "ps_state p \<noteq> FUSION_PROPERTY_AVAILABLE"
    obtain q r where "fusion_property_cede_single 0 p = (q, r)" by fastforce
    from answering.holder_cedes [OF property_step.cede [OF \<open>ps_state p \<noteq> FUSION_PROPERTY_AVAILABLE\<close> this]] stuck
    show False by blast
  qed
  ultimately show "ps_woken p = [] \<and> ps_state p = FUSION_PROPERTY_AVAILABLE" ..
next
  assume "ps_woken p = [] \<and> ps_state p = FUSION_PROPERTY_AVAILABLE"
  then show "\<nexists>q. answering p q"
    by (auto elim!: answering.cases property_step_ResumeE property_step_CedeE)
qed

lemma answering_inv: "answering\<^sup>*\<^sup>* p q \<Longrightarrow> property_inv p \<Longrightarrow> property_inv q"
  by (induction rule: rtranclp_induct) (auto elim!: answering.cases intro: property_step_inv)

text \<open>
  C18: no request waits for ever. In every state the threads can reach, with however many
  requests asleep, the steps that let a woken call run or the holder cede cannot go on for
  ever, and when none is possible any more every request has been answered.
\<close>

theorem property_requests_answered:
  assumes "property_run fusion_property_init_single es p" and "answering\<^sup>*\<^sup>* p q" and "\<nexists>r. answering q r"
  shows "pending q = [] \<and> (\<nexists>f. f 0 = p \<and> (\<forall>i. answering (f i) (f (Suc i))))"
proof
  have "property_inv q"
    using answering_inv [OF assms(2)] property_run_inv [OF assms(1) property_inv_init] by blast
  moreover have "ps_woken q = [] \<and> ps_state q = FUSION_PROPERTY_AVAILABLE"
    using assms(3) answering_stuck [of q] by blast
  ultimately show "pending q = []" by (auto simp: property_inv_def pending_def)
  show "\<nexists>f. f 0 = p \<and> (\<forall>i. answering (f i) (f (Suc i)))"
  proof
    assume "\<exists>f. f 0 = p \<and> (\<forall>i. answering (f i) (f (Suc i)))"
    then obtain f where "\<And>i. answering (f i) (f (Suc i))" by blast
    then have "\<And>i. (f (Suc i), f i) \<in> answering_measure" by (intro answering_decreases)
    moreover have "wf answering_measure" by (simp add: answering_measure_def)
    ultimately show False using wf_no_infinite_down_chainE by blast
  qed
qed

lemma property_requests_answered_witness:
  "\<exists>p q. property_run fusion_property_init_single [Call (1, Lease) (Returns DR_OK), Call (2, Purchase) Sleeps] p \<and>
     pending p = [(2, Purchase)] \<and> answering\<^sup>*\<^sup>* p q \<and>
     (pending q = [] \<and> (\<nexists>f. f 0 = p \<and> (\<forall>i. answering (f i) (f (Suc i)))))"
proof -
  let ?p = "\<lambda>s xs ys. \<lparr> ps_state = s, ps_sleeping = xs, ps_woken = ys \<rparr>"
  have s1: "property_step (?p FUSION_PROPERTY_AVAILABLE [] []) (Call (1, Lease) (Returns DR_OK)) (?p FUSION_PROPERTY_LEASED [] [])"
    by (rule property_step.call) (simp_all add: pending_def property_defs)
  have s2: "property_step (?p FUSION_PROPERTY_LEASED [] []) (Call (2, Purchase) Sleeps) (?p FUSION_PROPERTY_LEASED [(2, Purchase)] [])"
    by (rule property_step.call) (simp_all add: pending_def property_defs)
  have init: "fusion_property_init_single = ?p FUSION_PROPERTY_AVAILABLE [] []"
    by (simp add: fusion_property_init_single_def)
  have run: "property_run fusion_property_init_single
      [Call (1, Lease) (Returns DR_OK), Call (2, Purchase) Sleeps] (?p FUSION_PROPERTY_LEASED [(2, Purchase)] [])"
    unfolding init
    using property_run.more [OF property_run.more [OF property_run.start s1] s2] by simp
  have "answering (?p FUSION_PROPERTY_LEASED [(2, Purchase)] []) (?p FUSION_PROPERTY_AVAILABLE [] [(2, Purchase)])"
    by (rule answering.holder_cedes, rule property_step.cede [where n = 0 and r = DR_OK])
      (simp_all add: property_defs direct_waitqueue_signal_def)
  moreover have "answering (?p FUSION_PROPERTY_AVAILABLE [] [(2, Purchase)]) (?p FUSION_PROPERTY_PURCHASED [] [])"
    by (rule answering.run_woken, rule property_step.resume [where c = "(2, Purchase)" and out = "Returns DR_OK"])
      (simp_all add: property_defs)
  moreover have "answering (?p FUSION_PROPERTY_PURCHASED [] []) (?p FUSION_PROPERTY_AVAILABLE [] [])"
    by (rule answering.holder_cedes, rule property_step.cede [where n = 0 and r = DR_OK])
      (simp_all add: property_defs direct_waitqueue_signal_def)
  ultimately have steps: "answering\<^sup>*\<^sup>* (?p FUSION_PROPERTY_LEASED [(2, Purchase)] []) (?p FUSION_PROPERTY_AVAILABLE [] [])"
    by (meson converse_rtranclp_into_rtranclp rtranclp.rtrancl_refl)
  have "\<nexists>r. answering (?p FUSION_PROPERTY_AVAILABLE [] []) r"
    unfolding answering_stuck by simp
  from property_requests_answered [OF run steps this] run steps show ?thesis
    by (intro exI conjI) (assumption | simp add: pending_def)+
qed

end
