(* ===== verification/Fusion_Property_Multi.thy ===== *)
theory Fusion_Property_Multi
  imports Fusion_Property
begin

text \<open>
  The built-in variant of \<^verbatim>\<open>lib/fusion/property.c\<close> for several applications without the kernel
  module: the property lives in shared memory and is accessed without a lock. A call that
  acquires it is a machine whose steps are the single accesses of the code, so that the steps
  of several processes interleave. \<open>alive pid\<close> stands for \<^verbatim>\<open>kill( pid, 0 )\<close> not failing with
  \<^verbatim>\<open>ESRCH\<close>.
\<close>

record FusionPropertyBuiltin =
  pb_state :: FusionPropertyState
  pb_owner :: nat
  pb_requested :: bool
  pb_destroyed :: bool

definition fusion_property_init_multi :: FusionPropertyBuiltin where
  "fusion_property_init_multi =
    \<lparr> pb_state = FUSION_PROPERTY_AVAILABLE, pb_owner = 0, pb_requested = False, pb_destroyed = False \<rparr>"

section \<open>Acquiring\<close>

datatype place = At_Entry | At_Loop | At_Owner | At_Reset | At_Request | At_Yield
  | At_Purchased | At_Buyer | At_Take | At_Sign | Done DirectResult

text \<open>\<^verbatim>\<open>fusion_property_lease\<close> and \<^verbatim>\<open>fusion_property_purchase\<close> differ only in the state they set.\<close>

fun acquire_step :: "FusionPropertyState \<Rightarrow> (nat \<Rightarrow> bool) \<Rightarrow> nat \<Rightarrow>
    FusionPropertyBuiltin \<times> place \<Rightarrow> FusionPropertyBuiltin \<times> place" where
  "acquire_step won alive t (p, At_Entry) = (p, if pb_destroyed p then Done DR_DESTROYED else At_Loop)"
| "acquire_step won alive t (p, At_Loop) =
    (p, if pb_state p = FUSION_PROPERTY_LEASED then At_Owner else At_Purchased)"
| "acquire_step won alive t (p, At_Owner) =
    (if alive (pb_owner p) then (p, At_Request) else (p\<lparr>pb_state := FUSION_PROPERTY_AVAILABLE\<rparr>, At_Reset))"
| "acquire_step won alive t (p, At_Reset) = (p\<lparr>pb_requested := False\<rparr>, At_Purchased)"
| "acquire_step won alive t (p, At_Request) = (p\<lparr>pb_requested := True\<rparr>, At_Yield)"
| "acquire_step won alive t (p, At_Yield) = (p, if pb_destroyed p then Done DR_DESTROYED else At_Loop)"
| "acquire_step won alive t (p, At_Purchased) =
    (p, if pb_state p = FUSION_PROPERTY_PURCHASED then At_Buyer else At_Take)"
| "acquire_step won alive t (p, At_Buyer) = (p, if alive (pb_owner p) then Done DR_BUSY else At_Take)"
| "acquire_step won alive t (p, At_Take) = (p\<lparr>pb_state := won\<rparr>, At_Sign)"
| "acquire_step won alive t (p, At_Sign) = (p\<lparr>pb_owner := t\<rparr>, Done DR_OK)"
| "acquire_step won alive t (p, Done r) = (p, Done r)"

definition fusion_property_lease_multi :: "(nat \<Rightarrow> bool) \<Rightarrow> nat \<Rightarrow>
    FusionPropertyBuiltin \<times> place \<Rightarrow> FusionPropertyBuiltin \<times> place" where
  "fusion_property_lease_multi = acquire_step FUSION_PROPERTY_LEASED"

definition fusion_property_purchase_multi :: "(nat \<Rightarrow> bool) \<Rightarrow> nat \<Rightarrow>
    FusionPropertyBuiltin \<times> place \<Rightarrow> FusionPropertyBuiltin \<times> place" where
  "fusion_property_purchase_multi = acquire_step FUSION_PROPERTY_PURCHASED"

section \<open>The other operations\<close>

definition fusion_property_cede_multi :: "FusionPropertyBuiltin \<Rightarrow> FusionPropertyBuiltin \<times> DirectResult" where
  "fusion_property_cede_multi p =
    (if pb_destroyed p then (p, DR_DESTROYED)
     else let p = p\<lparr>pb_state := FUSION_PROPERTY_AVAILABLE, pb_owner := 0\<rparr> in
       if pb_requested p then (p\<lparr>pb_requested := False\<rparr>, DR_OK) else (p, DR_OK))"

text \<open>
  \<open>killed\<close> tells whether \<^verbatim>\<open>SIGKILL\<close> could be sent (or the process was gone), \<open>gone\<close> whether the
  process ended before the property was destroyed, while its end was awaited.
\<close>

definition fusion_property_holdup_multi ::
    "bool \<Rightarrow> bool \<Rightarrow> nat \<Rightarrow> FusionPropertyBuiltin \<Rightarrow> FusionPropertyBuiltin \<times> DirectResult" where
  "fusion_property_holdup_multi killed gone t p =
    (if pb_destroyed p then (p, DR_DESTROYED)
     else if pb_state p = FUSION_PROPERTY_PURCHASED \<and> pb_owner p \<noteq> t then
       if \<not> killed then (p, DR_UNSUPPORTED)
       else if \<not> gone then (p\<lparr>pb_destroyed := True\<rparr>, DR_DESTROYED)
       else (p\<lparr>pb_state := FUSION_PROPERTY_AVAILABLE, pb_owner := 0, pb_requested := False\<rparr>, DR_OK)
     else (p, DR_OK))"

definition fusion_property_destroy_multi :: "FusionPropertyBuiltin \<Rightarrow> FusionPropertyBuiltin \<times> DirectResult" where
  "fusion_property_destroy_multi p =
    (if pb_destroyed p then (p, DR_DESTROYED) else (p\<lparr>pb_destroyed := True\<rparr>, DR_OK))"

section \<open>An undisturbed call\<close>

text \<open>What a call returns, with the state it leaves, when nothing interferes; \<^term>\<open>None\<close>: it waits.\<close>

definition acquired :: "FusionPropertyState \<Rightarrow> (nat \<Rightarrow> bool) \<Rightarrow> nat \<Rightarrow> FusionPropertyBuiltin \<Rightarrow>
    (FusionPropertyBuiltin \<times> DirectResult) option" where
  "acquired won alive t p =
    (if pb_destroyed p then Some (p, DR_DESTROYED)
     else case pb_state p of
       FUSION_PROPERTY_AVAILABLE \<Rightarrow> Some (p\<lparr>pb_state := won, pb_owner := t\<rparr>, DR_OK)
     | FUSION_PROPERTY_LEASED \<Rightarrow>
         if alive (pb_owner p) then None
         else Some (p\<lparr>pb_state := won, pb_owner := t, pb_requested := False\<rparr>, DR_OK)
     | FUSION_PROPERTY_PURCHASED \<Rightarrow>
         if alive (pb_owner p) then Some (p, DR_BUSY) else Some (p\<lparr>pb_state := won, pb_owner := t\<rparr>, DR_OK))"

lemma waiting_call:
  assumes "\<not> pb_destroyed p" and "pb_state p = FUSION_PROPERTY_LEASED" and "alive (pb_owner p)"
  shows "fst ((acquire_step won alive t ^^ n) (p, At_Entry)) \<in> {p, p\<lparr>pb_requested := True\<rparr>} \<and>
    snd ((acquire_step won alive t ^^ n) (p, At_Entry)) \<in> {At_Entry, At_Loop, At_Owner, At_Request, At_Yield}"
proof (induction n)
  case (Suc n)
  obtain q pc where s: "(acquire_step won alive t ^^ n) (p, At_Entry) = (q, pc)" by fastforce
  then have "q = p \<or> q = p\<lparr>pb_requested := True\<rparr>" and "pc \<in> {At_Entry, At_Loop, At_Owner, At_Request, At_Yield}"
    using Suc by auto
  then show ?case using s assms by auto
qed simp

lemma finished_call:
  assumes "acquired won alive t p = Some (q, r)"
  shows "(acquire_step won alive t ^^ 7) (p, At_Entry) = (q, Done r)"
  using assms
  by (cases "pb_state p"; cases "pb_destroyed p"; cases "alive (pb_owner p)")
    (auto simp: acquired_def numeral_eq_Suc)

text \<open>
  a call nobody disturbs returns within seven steps, with the result and the new state
  that its documentation gives: acquired when available or when the owner has died, busy when
  purchased, destroyed; and it waits, as long as nobody disturbs it, exactly when the
  property is leased by a living owner, changing nothing but the request flag.
\<close>

theorem property_call_alone:
  "case acquired won alive t p of
     Some (q, r) \<Rightarrow> (acquire_step won alive t ^^ 7) (p, At_Entry) = (q, Done r)
   | None \<Rightarrow> \<forall>n. \<exists>pc. (acquire_step won alive t ^^ n) (p, At_Entry) \<in>
       {(p, pc), (p\<lparr>pb_requested := True\<rparr>, pc)} \<and> (\<nexists>r. pc = Done r)"
proof (cases "acquired won alive t p")
  case None
  then have "\<not> pb_destroyed p" "pb_state p = FUSION_PROPERTY_LEASED" "alive (pb_owner p)"
    by (auto simp: acquired_def split: if_splits FusionPropertyState.splits)
  note wait = waiting_call [where alive = alive and p = p, OF this]
  have "\<exists>pc. (acquire_step won alive t ^^ n) (p, At_Entry) \<in>
       {(p, pc), (p\<lparr>pb_requested := True\<rparr>, pc)} \<and> (\<nexists>r. pc = Done r)" for n
    using wait [of n won t] by (cases "(acquire_step won alive t ^^ n) (p, At_Entry)") auto
  then show ?thesis using None by simp
next
  case (Some a)
  then show ?thesis using finished_call [of won alive t p] by (cases a) auto
qed

section \<open>Interleaved calls\<close>

text \<open>Processes by number, each at its place in a call of its own; a schedule says who steps next.\<close>

fun run_schedule :: "(nat \<Rightarrow> FusionPropertyState) \<Rightarrow> (nat \<Rightarrow> bool) \<Rightarrow> FusionPropertyBuiltin \<times> (nat \<Rightarrow> place) \<Rightarrow>
    nat list \<Rightarrow> FusionPropertyBuiltin \<times> (nat \<Rightarrow> place)" where
  "run_schedule won alive (p, at) [] = (p, at)"
| "run_schedule won alive (p, at) (t # ts) =
    (let (q, pc) = acquire_step (won t) alive t (p, at t) in run_schedule won alive (q, at(t := pc)) ts)"

text \<open>
  the test of the state and its update are not one access, so the property is not
  exclusive: two living processes that purchase an available property at the same time can
  both be told \<^const>\<open>DR_OK\<close>, and it then records only one of them as its owner.
\<close>

theorem property_purchase_race:
  assumes "t \<noteq> u"
  shows "\<exists>schedule p at. set schedule = {t, u} \<and>
     run_schedule (\<lambda>_. FUSION_PROPERTY_PURCHASED) (\<lambda>_. True) (fusion_property_init_multi, \<lambda>_. At_Entry) schedule = (p, at) \<and>
     at t = Done DR_OK \<and> at u = Done DR_OK \<and> pb_owner p = u"
proof -
  let ?s = "[t, t, t, u, u, u, t, t, u, u]"
  let ?p = "\<lparr> pb_state = FUSION_PROPERTY_PURCHASED, pb_owner = u, pb_requested = False, pb_destroyed = False \<rparr>"
  let ?at = "(\<lambda>_. At_Entry)(t := Done DR_OK, u := Done DR_OK)"
  have run: "run_schedule (\<lambda>_. FUSION_PROPERTY_PURCHASED) (\<lambda>_. True) (fusion_property_init_multi, \<lambda>_. At_Entry) ?s =
      (?p, ?at)"
    using assms by (auto simp: fusion_property_init_multi_def Let_def)
  have "set ?s = {t, u}" and "?at t = Done DR_OK" "?at u = Done DR_OK" and "pb_owner ?p = u" using assms by auto
  with run show ?thesis by blast
qed

lemma property_purchase_race_witness:
  "\<exists>schedule p at. set schedule = {1, 2} \<and>
     run_schedule (\<lambda>_. FUSION_PROPERTY_PURCHASED) (\<lambda>_. True) (fusion_property_init_multi, \<lambda>_. At_Entry) schedule = (p, at) \<and>
     at 1 = Done DR_OK \<and> at 2 = Done DR_OK \<and> pb_owner p = 2"
  by (rule property_purchase_race) simp

end
