(* ===== verification/Fusion_Skirmish.thy ===== *)
theory Fusion_Skirmish
  imports Simulation Direct_Util
begin

text \<open>
  The skirmish of \<^verbatim>\<open>lib/fusion/lock.c\<close>, the recursive lock of the whole library: the local
  variant, on a recursive \<^verbatim>\<open>pthread\<close> mutex (\<^verbatim>\<open>lib/direct/os/linux/glibc/mutex.c\<close>), and the built-in
  variant for several applications, on shared memory. Both are shown to implement the same
  specification of a recursive lock.
\<close>

type_synonym thread = nat

section \<open>The specification\<close>

datatype lock_op = Prevail thread bool | Swoop thread bool int | Lock_Count thread int | Dismiss thread

datatype lock_answer = Answer DirectResult | Count DirectResult int | Blocked | Not_Held

text \<open>
  The lock is free, or held by a thread a number of times. The flag of an operation tells whether
  the thread that holds the lock is still alive; \<open>recovers\<close> whether the lock of a dead thread is
  taken over, as the built-in variant does. A call that must wait is \<^const>\<open>Blocked\<close>, and changes nothing.
  The variants differ for a thread that does not hold the lock: the built-in one refuses to dismiss the lock of another
  and lets a free one be, while the local one may not be dismissed then (\<^const>\<open>Not_Held\<close>: the call is not made); and
  asked for the count, the built-in one tells that of the owner, the local one fails and tells zero.
\<close>

type_synonym lock_state = "(thread \<times> nat) option"

fun acquires :: "bool \<Rightarrow> lock_state \<Rightarrow> thread \<Rightarrow> bool \<Rightarrow> lock_state option" where
  "acquires recovers None t alive = Some (Some (t, 1))"
| "acquires recovers (Some (u, k)) t alive =
    (if u = t then Some (Some (t, Suc k))
     else if recovers \<and> \<not> alive then Some (Some (t, 1)) else None)"

fun releases :: "thread \<times> nat \<Rightarrow> lock_state" where
  "releases (t, k) = (if k \<le> 1 then None else Some (t, k - 1))"

inductive lock_spec :: "bool \<Rightarrow> lock_state \<Rightarrow> lock_op \<Rightarrow> lock_answer \<Rightarrow> lock_state \<Rightarrow> bool" where
  prevail: "acquires recovers s t alive = Some s' \<Longrightarrow> lock_spec recovers s (Prevail t alive) (Answer DR_OK) s'"
| blocked: "acquires recovers s t alive = None \<Longrightarrow> lock_spec recovers s (Prevail t alive) Blocked s"
| swoop: "acquires recovers s t alive = Some s' \<Longrightarrow> lock_spec recovers s (Swoop t alive e) (Answer DR_OK) s'"
| busy: "\<lbrakk> acquires recovers s t alive = None; r \<noteq> DR_OK \<rbrakk> \<Longrightarrow> lock_spec recovers s (Swoop t alive e) (Answer r) s"
| count: "s = Some (t, k) \<Longrightarrow> lock_spec recovers s (Lock_Count t e) (Count DR_OK (int k)) s"
| count_free: "lock_spec recovers None (Lock_Count t e) (Count DR_OK 0) None"
| count_other: "\<lbrakk> u \<noteq> t; if recovers then r = DR_OK \<and> c = int k else r \<noteq> DR_OK \<and> c = 0 \<rbrakk> \<Longrightarrow>
    lock_spec recovers (Some (u, k)) (Lock_Count t e) (Count r c) (Some (u, k))"
| dismiss: "lock_spec recovers (Some (t, k)) (Dismiss t) (Answer DR_OK) (releases (t, k))"
| not_held: "\<nexists>k. s = Some (t, k) \<Longrightarrow> lock_spec False s (Dismiss t) Not_Held s"
| refused: "u \<noteq> t \<Longrightarrow> lock_spec True (Some (u, k)) (Dismiss t) (Answer DR_ACCESSDENIED) (Some (u, k))"
| idle: "lock_spec True None (Dismiss t) (Answer DR_OK) None"

inductive_simps lock_spec_Prevail: "lock_spec recovers s (Prevail t alive) a s'"
inductive_simps lock_spec_Swoop: "lock_spec recovers s (Swoop t alive e) a s'"
inductive_simps lock_spec_Lock_Count: "lock_spec recovers s (Lock_Count t e) a s'"

text \<open>A lock never gets into other hands while its owner holds it and lives.\<close>

lemma lock_spec_owner:
  assumes "lock_spec recovers (Some (u, k)) op a s'" and "\<And>t alive e. op \<in> {Prevail t alive, Swoop t alive e} \<Longrightarrow> alive"
    and "op \<noteq> Dismiss u"
  shows "\<exists>k'. s' = Some (u, k') \<and> k \<le> k'"
  using assms by (cases rule: lock_spec.cases) (auto split: if_splits)

section \<open>The local variant\<close>

text \<open>A recursive mutex of the C library; its functions return an error number, and do not set \<^verbatim>\<open>errno\<close>.\<close>

record DirectMutex =
  mx_owner :: "thread option"
  mx_depth :: nat

definition pthread_mutex_lock :: "thread \<Rightarrow> DirectMutex \<Rightarrow> (DirectMutex \<times> int) option" where
  "pthread_mutex_lock t m = (case mx_owner m of
     None \<Rightarrow> Some (\<lparr> mx_owner = Some t, mx_depth = 1 \<rparr>, 0)
   | Some u \<Rightarrow> if u = t then Some (m\<lparr>mx_depth := Suc (mx_depth m)\<rparr>, 0) else None)"

definition pthread_mutex_trylock :: "thread \<Rightarrow> DirectMutex \<Rightarrow> DirectMutex \<times> int" where
  "pthread_mutex_trylock t m = (case pthread_mutex_lock t m of Some r \<Rightarrow> r | None \<Rightarrow> (m, 16))"

definition pthread_mutex_unlock :: "thread \<Rightarrow> DirectMutex \<Rightarrow> DirectMutex \<times> int" where
  "pthread_mutex_unlock t m =
    (if mx_owner m \<noteq> Some t then (m, 1)
     else if mx_depth m \<le> 1 then (\<lparr> mx_owner = None, mx_depth = 0 \<rparr>, 0)
     else (m\<lparr>mx_depth := mx_depth m - 1\<rparr>, 0))"

definition direct_recursive_mutex_init :: DirectMutex where
  "direct_recursive_mutex_init = \<lparr> mx_owner = None, mx_depth = 0 \<rparr>"

text \<open>\<open>e\<close> is the value of \<^verbatim>\<open>errno\<close> in the calling thread.\<close>

definition direct_mutex_lock :: "int \<Rightarrow> thread \<Rightarrow> DirectMutex \<Rightarrow> (DirectMutex \<times> DirectResult) option" where
  "direct_mutex_lock e t m = map_option (\<lambda>(m, r). (m, if r \<noteq> 0 then errno2result e else DR_OK)) (pthread_mutex_lock t m)"

definition direct_mutex_trylock :: "int \<Rightarrow> thread \<Rightarrow> DirectMutex \<Rightarrow> DirectMutex \<times> DirectResult" where
  "direct_mutex_trylock e t m =
    (let (m, r) = pthread_mutex_trylock t m in (m, if r \<noteq> 0 then errno2result e else DR_OK))"

definition direct_mutex_unlock :: "int \<Rightarrow> thread \<Rightarrow> DirectMutex \<Rightarrow> DirectMutex \<times> DirectResult" where
  "direct_mutex_unlock e t m =
    (let (m, r) = pthread_mutex_unlock t m in (m, if r \<noteq> 0 then errno2result e else DR_OK))"

record FusionSkirmishSingle =
  sk_lock :: DirectMutex
  sk_count :: int

definition fusion_skirmish_init_local :: FusionSkirmishSingle where
  "fusion_skirmish_init_local = \<lparr> sk_lock = direct_recursive_mutex_init, sk_count = 0 \<rparr>"

definition fusion_skirmish_prevail_local ::
    "int \<Rightarrow> thread \<Rightarrow> FusionSkirmishSingle \<Rightarrow> (FusionSkirmishSingle \<times> DirectResult) option" where
  "fusion_skirmish_prevail_local e t s = do {
     (m, r) \<leftarrow> direct_mutex_lock e t (sk_lock s);
     if r \<noteq> DR_OK then Some (s\<lparr>sk_lock := m\<rparr>, errno2result e)
     else Some (s\<lparr>sk_lock := m, sk_count := sk_count s + 1\<rparr>, DR_OK) }"

definition fusion_skirmish_swoop_local ::
    "int \<Rightarrow> thread \<Rightarrow> FusionSkirmishSingle \<Rightarrow> FusionSkirmishSingle \<times> DirectResult" where
  "fusion_skirmish_swoop_local e t s =
    (let (m, r) = direct_mutex_trylock e t (sk_lock s) in
     if r \<noteq> DR_OK then (s\<lparr>sk_lock := m\<rparr>, errno2result e)
     else (s\<lparr>sk_lock := m, sk_count := sk_count s + 1\<rparr>, DR_OK))"

definition fusion_skirmish_lock_count_local ::
    "int \<Rightarrow> thread \<Rightarrow> FusionSkirmishSingle \<Rightarrow> FusionSkirmishSingle \<times> DirectResult \<times> int" where
  "fusion_skirmish_lock_count_local e t s =
    (let (m, r) = direct_mutex_trylock e t (sk_lock s) in
     if r \<noteq> DR_OK then (s\<lparr>sk_lock := m\<rparr>, errno2result e, 0)
     else let (m, _) = direct_mutex_unlock e t m in (s\<lparr>sk_lock := m\<rparr>, DR_OK, sk_count s))"

definition fusion_skirmish_dismiss_local ::
    "int \<Rightarrow> thread \<Rightarrow> FusionSkirmishSingle \<Rightarrow> FusionSkirmishSingle \<times> DirectResult" where
  "fusion_skirmish_dismiss_local e t s =
    (let (m, r) = direct_mutex_unlock e t (sk_lock s) in
     (s\<lparr>sk_lock := m, sk_count := sk_count s - 1\<rparr>, if r \<noteq> DR_OK then errno2result e else DR_OK))"

text \<open>The timeout of \<^verbatim>\<open>fusion_skirmish_wait\<close> in microseconds: an \<^verbatim>\<open>unsigned int\<close> product.\<close>

definition wait_micros :: "u32 \<Rightarrow> u32" where
  "wait_micros timeout = timeout * 1000"

definition local_call :: "FusionSkirmishSingle \<Rightarrow> lock_op \<Rightarrow> (FusionSkirmishSingle \<times> lock_answer) option" where
  "local_call s op = (case op of
     Prevail t alive \<Rightarrow> (case fusion_skirmish_prevail_local 0 t s of
         None \<Rightarrow> Some (s, Blocked) | Some (s', r) \<Rightarrow> Some (s', Answer r))
   | Swoop t alive e \<Rightarrow> Some (map_prod id Answer (fusion_skirmish_swoop_local e t s))
   | Lock_Count t e \<Rightarrow> Some (let (s', r, c) = fusion_skirmish_lock_count_local e t s in (s', Count r c))
   | Dismiss t \<Rightarrow> if mx_owner (sk_lock s) = Some t then Some (map_prod id Answer (fusion_skirmish_dismiss_local 0 t s))
                  else Some (s, Not_Held))"

fun errno_set :: "lock_op \<Rightarrow> bool" where
  "errno_set (Swoop t alive e) \<longleftrightarrow> e \<noteq> 0"
| "errno_set (Lock_Count t e) \<longleftrightarrow> e \<noteq> 0"
| "errno_set _ \<longleftrightarrow> True"

text \<open>The counter keeps the depth of the mutex; \<open>n\<close> more calls stay below its limit.\<close>

definition local_rep :: "nat \<Rightarrow> FusionSkirmishSingle \<Rightarrow> lock_state \<Rightarrow> bool" where
  "local_rep n s l \<longleftrightarrow> sk_count s + int n < 2 ^ 31 \<and> (case l of
     None \<Rightarrow> sk_lock s = \<lparr> mx_owner = None, mx_depth = 0 \<rparr> \<and> sk_count s = 0
   | Some (t, k) \<Rightarrow> sk_lock s = \<lparr> mx_owner = Some t, mx_depth = k \<rparr> \<and> sk_count s = int k \<and> 0 < k)"

lemmas local_defs = fusion_skirmish_prevail_local_def fusion_skirmish_swoop_local_def
  fusion_skirmish_lock_count_local_def fusion_skirmish_dismiss_local_def direct_mutex_lock_def
  direct_mutex_trylock_def direct_mutex_unlock_def pthread_mutex_lock_def pthread_mutex_trylock_def
  pthread_mutex_unlock_def

lemma local_call_simulates:
  assumes "local_rep (Suc n) s l" and "errno_set op"
  shows "\<exists>s' a l'. local_call s op = Some (s', a) \<and> lock_spec False l op a l' \<and> local_rep n s' l'"
proof (cases op)
  case (Prevail t alive)
  then show ?thesis
    using assms
    by (cases l) (auto simp: local_call_def local_rep_def local_defs lock_spec_Prevail split: if_splits)
next
  case (Swoop t alive e)
  then show ?thesis
    using assms
    by (cases l) (auto simp: local_call_def local_rep_def local_defs lock_spec_Swoop errno2result_ok split: if_splits)
next
  case (Lock_Count t e)
  then show ?thesis
    using assms
    by (cases l) (auto simp: local_call_def local_rep_def local_defs errno2result_ok lock_spec_Lock_Count split: if_splits)
next
  case (Dismiss t)
  show ?thesis
  proof (cases "\<exists>k. l = Some (t, k)")
    case True
    then obtain k where l: "l = Some (t, k)" ..
    define s' where "s' = fst (fusion_skirmish_dismiss_local 0 t s)"
    have s': "local_call s op = Some (s', Answer DR_OK)" "local_rep n s' (releases (t, k))"
      using assms Dismiss l by (cases "k \<le> 1"; auto simp: s'_def local_call_def local_rep_def local_defs)+
    show ?thesis unfolding l Dismiss
      by (rule exI [of _ s'], rule exI, rule exI, intro conjI, rule s'(1) [unfolded Dismiss], rule lock_spec.dismiss, rule s'(2))
  next
    case False
    moreover have "local_call s op = Some (s, Not_Held)"
      using assms Dismiss False by (cases l) (auto simp: local_call_def local_rep_def)
    moreover have "local_rep n s l" using assms(1) by (cases l) (auto simp: local_rep_def)
    ultimately show ?thesis using Dismiss lock_spec.not_held by blast
  qed
qed

interpretation local_lock: simulation local_rep local_call "lock_spec False" errno_set
  by unfold_locales (rule local_call_simulates)

lemma local_rep_init: "int n < 2 ^ 31 \<Longrightarrow> local_rep n fusion_skirmish_init_local None"
  by (simp add: local_rep_def fusion_skirmish_init_local_def direct_recursive_mutex_init_def)

text \<open>
  C21: provided no thread comes with \<^verbatim>\<open>errno\<close> equal to zero when it fails to get the lock, every
  sequence of up to \<^verbatim>\<open>2^31\<close> calls of any threads on a new local skirmish is answered as by a
  recursive lock: held by one thread at a time, as often as it prevailed more than it dismissed,
  and the counter says how often.
\<close>

theorem skirmish_local_refines_lock:
  assumes "int (length ops) < 2 ^ 31" and "list_all errno_set ops"
  shows "\<exists>s as l. run_calls local_call fusion_skirmish_init_local ops = Some (s, as) \<and>
     spec_trace (lock_spec False) None ops as l \<and>
     mx_owner (sk_lock s) = map_option fst l \<and> sk_count s = (case l of None \<Rightarrow> 0 | Some (t, k) \<Rightarrow> int k)"
proof -
  have "local_rep (length ops + 0) fusion_skirmish_init_local None" using local_rep_init assms(1) by simp
  from local_lock.run_simulates [OF this assms(2)]
  obtain s as l where "run_calls local_call fusion_skirmish_init_local ops = Some (s, as)"
      "spec_trace (lock_spec False) None ops as l" "local_rep 0 s l" by blast
  then show ?thesis by (cases l) (auto simp: local_rep_def)
qed

lemma skirmish_local_refines_lock_witness:
  "\<exists>s as l. run_calls local_call fusion_skirmish_init_local
       [Prevail 1 True, Swoop 2 True 16, Prevail 1 True, Dismiss 1, Lock_Count 1 5] = Some (s, as) \<and>
     spec_trace (lock_spec False) None [Prevail 1 True, Swoop 2 True 16, Prevail 1 True, Dismiss 1, Lock_Count 1 5] as l \<and>
     mx_owner (sk_lock s) = map_option fst l \<and> sk_count s = (case l of None \<Rightarrow> 0 | Some (t, k) \<Rightarrow> int k)"
  by (rule skirmish_local_refines_lock) simp_all

text \<open>
  \<^verbatim>\<open>pthread_mutex_trylock\<close> returns its error and does not set \<^verbatim>\<open>errno\<close>, but the result is
  made from \<^verbatim>\<open>errno\<close>. So whoever holds the lock, however often, a thread whose \<^verbatim>\<open>errno\<close> is zero
  is told \<^const>\<open>DR_OK\<close> by \<^verbatim>\<open>fusion_skirmish_swoop\<close>: it believes to hold the lock and the
  counter counts it, while the mutex stays with its owner.
\<close>

theorem swoop_not_exclusive:
  assumes "mx_owner (sk_lock s) = Some u" and "t \<noteq> u"
  shows "\<exists>s'. fusion_skirmish_swoop_local 0 t s = (s', DR_OK) \<and> sk_count s' = sk_count s + 1 \<and>
     sk_lock s' = sk_lock s \<and> fusion_skirmish_dismiss_local 0 t s' = (s, DR_OK)"
  using assms by (auto simp: local_defs errno2result_def)

lemma swoop_not_exclusive_witness:
  "\<exists>s s'. fusion_skirmish_prevail_local 0 1 fusion_skirmish_init_local = Some (s, DR_OK) \<and>
     (fusion_skirmish_swoop_local 0 2 s = (s', DR_OK) \<and> sk_count s' = sk_count s + 1 \<and>
     sk_lock s' = sk_lock s \<and> fusion_skirmish_dismiss_local 0 2 s' = (s, DR_OK))"
proof -
  let ?s = "\<lparr> sk_lock = \<lparr> mx_owner = Some 1, mx_depth = 1 \<rparr>, sk_count = 1 \<rparr>"
  have "fusion_skirmish_prevail_local 0 1 fusion_skirmish_init_local = Some (?s, DR_OK)"
    by (simp add: local_defs fusion_skirmish_init_local_def direct_recursive_mutex_init_def)
  then show ?thesis using swoop_not_exclusive [of ?s 1 2] by auto
qed

section \<open>The built-in variant\<close>

text \<open>\<open>locked\<close> is an \<^verbatim>\<open>unsigned int\<close>, counted modulo \<^verbatim>\<open>2^32\<close>; a process number 0 is nobody.\<close>

record WaitNode =
  wn_pid :: nat
  wn_notified :: bool

record FusionSkirmishBuiltin =
  sb_locked :: u32
  sb_owner :: nat
  sb_waiting :: "WaitNode list"
  sb_requested :: bool
  sb_destroyed :: bool


text \<open>
  \<open>alive\<close> is the outcome of \<^verbatim>\<open>kill( owner, 0 )\<close>. \<^verbatim>\<open>fusion_skirmish_prevail\<close> polls: one round of its
  loop either ends it or leaves it waiting (\<^term>\<open>None\<close>) with the request flag set.
\<close>

definition skirmish_take :: "nat \<Rightarrow> FusionSkirmishBuiltin \<Rightarrow> FusionSkirmishBuiltin" where
  "skirmish_take t s = s\<lparr>sb_locked := sb_locked s + 1, sb_owner := t\<rparr>"

definition fusion_skirmish_prevail_builtin ::
    "bool \<Rightarrow> nat \<Rightarrow> FusionSkirmishBuiltin \<Rightarrow> FusionSkirmishBuiltin \<times> DirectResult option" where
  "fusion_skirmish_prevail_builtin alive t s =
    (if sb_destroyed s then (s, Some DR_DESTROYED)
     else if sb_locked s \<noteq> 0 \<and> sb_owner s \<noteq> t then
       if \<not> alive then (skirmish_take t (s\<lparr>sb_locked := 0, sb_requested := False\<rparr>), Some DR_OK)
       else (s\<lparr>sb_requested := True\<rparr>, None)
     else (skirmish_take t s, Some DR_OK))"

definition fusion_skirmish_swoop_builtin ::
    "bool \<Rightarrow> nat \<Rightarrow> FusionSkirmishBuiltin \<Rightarrow> FusionSkirmishBuiltin \<times> DirectResult" where
  "fusion_skirmish_swoop_builtin alive t s =
    (if sb_destroyed s then (s, DR_DESTROYED)
     else if sb_locked s \<noteq> 0 \<and> sb_owner s \<noteq> t then
       if \<not> alive then (skirmish_take t (s\<lparr>sb_locked := 0, sb_requested := False\<rparr>), DR_OK)
       else (s, DR_BUSY)
     else (skirmish_take t s, DR_OK))"

text \<open>The count is stored through a pointer to \<^verbatim>\<open>int\<close>.\<close>

definition fusion_skirmish_lock_count_builtin :: "FusionSkirmishBuiltin \<Rightarrow> DirectResult \<times> int" where
  "fusion_skirmish_lock_count_builtin s = (if sb_destroyed s then (DR_DESTROYED, 0) else (DR_OK, sint (sb_locked s)))"

definition fusion_skirmish_dismiss_builtin ::
    "nat \<Rightarrow> FusionSkirmishBuiltin \<Rightarrow> FusionSkirmishBuiltin \<times> DirectResult" where
  "fusion_skirmish_dismiss_builtin t s =
    (if sb_destroyed s then (s, DR_DESTROYED)
     else if sb_locked s \<noteq> 0 then
       if sb_owner s \<noteq> t then (s, DR_ACCESSDENIED)
       else let s = s\<lparr>sb_locked := sb_locked s - 1\<rparr> in
         if sb_locked s = 0 then
           let s = s\<lparr>sb_owner := 0\<rparr> in
           (if sb_requested s then s\<lparr>sb_requested := False\<rparr> else s, DR_OK)
         else (s, DR_OK)
     else (s, DR_OK))"

text \<open>
  Notification: every waiting node not notified yet is marked and its process signalled; the
  node of a dead process is removed.
\<close>

definition fusion_skirmish_notify_builtin ::
    "(nat \<Rightarrow> bool) \<Rightarrow> FusionSkirmishBuiltin \<Rightarrow> FusionSkirmishBuiltin \<times> DirectResult" where
  "fusion_skirmish_notify_builtin alive s =
    (if sb_destroyed s then (s, DR_DESTROYED)
     else (s\<lparr>sb_waiting := concat (map (\<lambda>n.
        if wn_notified n then [n]
        else if alive (wn_pid n) then [n\<lparr>wn_notified := True\<rparr>] else []) (sb_waiting s))\<rparr>, DR_OK))"

definition fusion_skirmish_destroy_builtin ::
    "(nat \<Rightarrow> bool) \<Rightarrow> FusionSkirmishBuiltin \<Rightarrow> FusionSkirmishBuiltin \<times> DirectResult" where
  "fusion_skirmish_destroy_builtin alive s =
    (if sb_destroyed s then (s, DR_DESTROYED)
     else let s = (if sb_waiting s \<noteq> [] then fst (fusion_skirmish_notify_builtin alive s) else s) in
       (s\<lparr>sb_destroyed := True\<rparr>, DR_OK))"

text \<open>
  \<^verbatim>\<open>fusion_skirmish_wait\<close> before and after its sleep: the node is queued and the lock dismissed
  once; afterwards the lock is taken again (the result of that is \<open>r\<close>) and the node removed.
\<close>

definition fusion_skirmish_wait_begin ::
    "bool \<Rightarrow> nat \<Rightarrow> FusionSkirmishBuiltin \<Rightarrow> FusionSkirmishBuiltin \<times> DirectResult" where
  "fusion_skirmish_wait_begin avail t s =
    (if sb_destroyed s then (s, DR_DESTROYED)
     else if \<not> avail then (s, DR_NOSHAREDMEMORY)
     else (fst (fusion_skirmish_dismiss_builtin t
       (s\<lparr>sb_waiting := sb_waiting s @ [\<lparr> wn_pid = t, wn_notified = False \<rparr>]\<rparr>)), DR_OK))"

definition fusion_skirmish_wait_end ::
    "bool \<Rightarrow> bool \<Rightarrow> nat \<Rightarrow> FusionSkirmishBuiltin \<Rightarrow> (FusionSkirmishBuiltin \<times> DirectResult) option" where
  "fusion_skirmish_wait_end timed_out alive t s = (case fusion_skirmish_prevail_builtin alive t s of
     (s, None) \<Rightarrow> None
   | (s, Some r) \<Rightarrow> Some (s\<lparr>sb_waiting := filter (\<lambda>n. wn_pid n \<noteq> t) (sb_waiting s)\<rparr>,
       if r \<noteq> DR_OK then DR_DESTROYED else if timed_out then DR_TIMEOUT else DR_OK))"


definition builtin_rep :: "nat \<Rightarrow> FusionSkirmishBuiltin \<Rightarrow> lock_state \<Rightarrow> bool" where
  "builtin_rep n s l \<longleftrightarrow> \<not> sb_destroyed s \<and> unat (sb_locked s) + n < 2 ^ 31 \<and> (case l of
     None \<Rightarrow> sb_locked s = 0
   | Some (t, k) \<Rightarrow> sb_owner s = t \<and> unat (sb_locked s) = k \<and> 0 < k)"

lemmas builtin_defs = fusion_skirmish_prevail_builtin_def fusion_skirmish_swoop_builtin_def
  fusion_skirmish_lock_count_builtin_def fusion_skirmish_dismiss_builtin_def skirmish_take_def


lemma locked_pred: "0 < unat (w :: u32) \<Longrightarrow> unat (w - 1) = unat w - 1"
  using unat_minus_one [of w] by (cases "w = 0") auto








section \<open>Waiting and notifying\<close>

text \<open>After a notification every node still queued is marked, and belongs to a living process or was marked before.\<close>

lemma notify_marks:
  assumes "\<not> sb_destroyed s" and "n \<in> set (sb_waiting (fst (fusion_skirmish_notify_builtin alive s)))"
  shows "wn_notified n \<and> (\<exists>m \<in> set (sb_waiting s). wn_pid m = wn_pid n \<and> (alive (wn_pid m) \<or> wn_notified m))"
  using assms by (fastforce simp: fusion_skirmish_notify_builtin_def split: if_splits)

text \<open>
  A thread that holds the lock once frees it while it waits, and has it again afterwards; one
  that holds it more often keeps it, so that nobody else gets in to notify it.
\<close>

lemma wait_releases_one_level:
  assumes "builtin_rep n s (Some (t, k))" and "fusion_skirmish_wait_begin True t s = (s', r)"
  shows "r = DR_OK \<and> builtin_rep n s' (releases (t, k)) \<and> \<lparr> wn_pid = t, wn_notified = False \<rparr> \<in> set (sb_waiting s')"
proof -
  have k: "sb_owner s = t" "unat (sb_locked s) = k" "0 < k" "\<not> sb_destroyed s" "k + n < 2 ^ 31"
    using assms by (auto simp: builtin_rep_def)
  then have nz: "sb_locked s \<noteq> 0" and dec: "unat (sb_locked s - 1) = k - 1" using locked_pred [of "sb_locked s"] by auto
  have last: "sb_locked s - 1 = 0 \<longleftrightarrow> k \<le> 1" using dec k(3) by (metis diff_is_0_eq unat_eq_zero)
  show ?thesis
    using assms(2) k nz dec last
    by (cases "k \<le> 1"; cases "sb_requested s") (auto simp: fusion_skirmish_wait_begin_def builtin_rep_def builtin_defs Let_def)
qed

end
