(* ===== verification/Fusion_Ref.thy ===== *)
theory Fusion_Ref
  imports Simulation
begin

text \<open>
  The reference counter of \<^verbatim>\<open>lib/fusion/ref.c\<close>, single-application variant: up and down, the lock
  that can be had while there are no references, and the call made when the last one goes.
  Each function runs under the counter's mutex, except while \<^verbatim>\<open>fusion_ref_zero_lock\<close> waits.
\<close>

text \<open>
  A watching call is its argument and whether it has a handler. \<open>rs_called\<close> logs the arguments
  of the calls executed; \<open>rs_locked\<close> is a thread, or 0. A thread number is positive.
\<close>

record FusionRefSingle =
  rs_refs :: int
  rs_locked :: nat
  rs_destroyed :: bool
  rs_call :: "(int \<times> bool) option"
  rs_sleeping :: "nat list"
  rs_woken :: "nat list"
  rs_called :: "int list"

datatype ref_outcome = Gives DirectResult | Waits

text \<open>
  Initialisation of the memory \<open>m\<close> of a counter. The fields of the watching call are not written; the log starts here.
\<close>

definition fusion_ref_init :: "FusionRefSingle \<Rightarrow> FusionRefSingle" where
  "fusion_ref_init m = m\<lparr> rs_refs := 0, rs_locked := 0, rs_destroyed := False, rs_sleeping := [], rs_woken := [], rs_called := [] \<rparr>"

text \<open>Memory that was cleared.\<close>

definition zeroed_ref :: FusionRefSingle where
  "zeroed_ref = \<lparr> rs_refs = 0, rs_locked = 0, rs_destroyed = False, rs_call = None,
     rs_sleeping = [], rs_woken = [], rs_called = [] \<rparr>"

definition ref_broadcast :: "FusionRefSingle \<Rightarrow> FusionRefSingle" where
  "ref_broadcast r = r\<lparr>rs_sleeping := [], rs_woken := rs_woken r @ rs_sleeping r\<rparr>"

text \<open>The counter is an \<^verbatim>\<open>int\<close>; at its largest value counting on is undefined.\<close>

definition fusion_ref_up :: "FusionRefSingle \<Rightarrow> (FusionRefSingle \<times> DirectResult) option" where
  "fusion_ref_up r =
    (if rs_destroyed r then Some (r, DR_DESTROYED)
     else if rs_locked r \<noteq> 0 then Some (r, DR_LOCKED)
     else map_option (\<lambda>n. (r\<lparr>rs_refs := n\<rparr>, DR_OK)) (chk (rs_refs r + 1)))"

definition fusion_ref_down :: "FusionRefSingle \<Rightarrow> FusionRefSingle \<times> DirectResult" where
  "fusion_ref_down r =
    (if rs_refs r = 0 then (r, DR_BUG)
     else if rs_destroyed r then (r, DR_DESTROYED)
     else let r = r\<lparr>rs_refs := rs_refs r - 1\<rparr> in
       if rs_refs r = 0 then
         (case rs_call r of
            Some (arg, handler) \<Rightarrow> (if handler then r\<lparr>rs_called := rs_called r @ [arg]\<rparr> else r, DR_OK)
          | None \<Rightarrow> (ref_broadcast r, DR_OK))
       else (r, DR_OK))"

definition fusion_ref_catch :: "FusionRefSingle \<Rightarrow> FusionRefSingle \<times> DirectResult" where
  "fusion_ref_catch r = fusion_ref_down r"

definition fusion_ref_throw :: "FusionRefSingle \<Rightarrow> FusionRefSingle \<times> DirectResult" where
  "fusion_ref_throw r = (r, DR_OK)"

definition fusion_ref_stat :: "FusionRefSingle \<Rightarrow> DirectResult \<times> int" where
  "fusion_ref_stat r = (if rs_destroyed r then (DR_DESTROYED, 0) else (DR_OK, rs_refs r))"

text \<open>One round of the loop of \<^verbatim>\<open>fusion_ref_zero_lock\<close>, by thread \<open>t\<close>; a woken thread runs another.\<close>

definition fusion_ref_zero_lock :: "nat \<Rightarrow> FusionRefSingle \<Rightarrow> FusionRefSingle \<times> ref_outcome" where
  "fusion_ref_zero_lock t r =
    (if rs_destroyed r then (r, Gives DR_DESTROYED)
     else if rs_locked r \<noteq> 0 then (r, Gives DR_LOCKED)
     else if rs_refs r \<noteq> 0 then (r\<lparr>rs_sleeping := rs_sleeping r @ [t]\<rparr>, Waits)
     else (r\<lparr>rs_locked := t\<rparr>, Gives DR_OK))"

definition fusion_ref_zero_trylock :: "nat \<Rightarrow> FusionRefSingle \<Rightarrow> FusionRefSingle \<times> DirectResult" where
  "fusion_ref_zero_trylock t r =
    (if rs_destroyed r then (r, DR_DESTROYED)
     else if rs_locked r \<noteq> 0 then (r, DR_LOCKED)
     else if rs_refs r \<noteq> 0 then (r, DR_BUSY)
     else (r\<lparr>rs_locked := t\<rparr>, DR_OK))"

definition fusion_ref_unlock :: "nat \<Rightarrow> FusionRefSingle \<Rightarrow> FusionRefSingle \<times> DirectResult" where
  "fusion_ref_unlock t r =
    (if rs_locked r = t then (ref_broadcast (r\<lparr>rs_locked := 0\<rparr>), DR_OK) else (r, DR_ACCESSDENIED))"

definition fusion_ref_watch :: "int \<times> bool \<Rightarrow> FusionRefSingle \<Rightarrow> FusionRefSingle \<times> DirectResult" where
  "fusion_ref_watch call r =
    (if rs_destroyed r then (r, DR_DESTROYED)
     else if rs_refs r = 0 then (r, DR_BUG)
     else if rs_call r \<noteq> None then (r, DR_BUSY)
     else (r\<lparr>rs_call := Some call\<rparr>, DR_OK))"

definition fusion_ref_inherit :: "FusionRefSingle \<Rightarrow> (FusionRefSingle \<times> DirectResult) option" where
  "fusion_ref_inherit r = fusion_ref_up r"

definition fusion_ref_destroy :: "FusionRefSingle \<Rightarrow> FusionRefSingle \<times> DirectResult" where
  "fusion_ref_destroy r = (ref_broadcast (r\<lparr>rs_destroyed := True\<rparr>), DR_OK)"

section \<open>The steps of the threads\<close>

datatype ref_event = Up DirectResult | Down DirectResult | Zero_Lock nat ref_outcome | Zero_Resume nat ref_outcome
  | Zero_Trylock nat DirectResult | Unlock nat DirectResult | Watch "int \<times> bool" DirectResult | Destroy

inductive ref_step :: "FusionRefSingle \<Rightarrow> ref_event \<Rightarrow> FusionRefSingle \<Rightarrow> bool" where
  up: "fusion_ref_up r = Some (r', ret) \<Longrightarrow> ref_step r (Up ret) r'"
| down: "fusion_ref_down r = (r', ret) \<Longrightarrow> ref_step r (Down ret) r'"
| zero_lock: "\<lbrakk> t \<noteq> 0; fusion_ref_zero_lock t r = (r', out) \<rbrakk> \<Longrightarrow> ref_step r (Zero_Lock t out) r'"
| zero_resume: "\<lbrakk> t \<in> set (rs_woken r); t \<noteq> 0; fusion_ref_zero_lock t (r\<lparr>rs_woken := remove1 t (rs_woken r)\<rparr>) = (r', out) \<rbrakk> \<Longrightarrow>
    ref_step r (Zero_Resume t out) r'"
| zero_trylock: "\<lbrakk> t \<noteq> 0; fusion_ref_zero_trylock t r = (r', ret) \<rbrakk> \<Longrightarrow> ref_step r (Zero_Trylock t ret) r'"
| unlock: "\<lbrakk> t \<noteq> 0; fusion_ref_unlock t r = (r', ret) \<rbrakk> \<Longrightarrow> ref_step r (Unlock t ret) r'"
| watch: "fusion_ref_watch c r = (r', ret) \<Longrightarrow> ref_step r (Watch c ret) r'"
| destroy: "fusion_ref_destroy r = (r', ret) \<Longrightarrow> ref_step r Destroy r'"

inductive_cases ref_step_UpE: "ref_step r (Up ret) r'"
inductive_cases ref_step_DownE: "ref_step r (Down ret) r'"

inductive ref_run :: "FusionRefSingle \<Rightarrow> ref_event list \<Rightarrow> FusionRefSingle \<Rightarrow> bool" where
  ref_start: "ref_run r [] r"
| ref_more: "\<lbrakk> ref_run r es s; ref_step s e u \<rbrakk> \<Longrightarrow> ref_run r (es @ [e]) u"

lemmas ref_defs = fusion_ref_up_def fusion_ref_down_def fusion_ref_zero_lock_def fusion_ref_zero_trylock_def
  fusion_ref_unlock_def fusion_ref_watch_def fusion_ref_destroy_def ref_broadcast_def Let_def

section \<open>Counting\<close>

text \<open>The effect of an event on the count, and the lock it takes or gives back.\<close>

definition ref_delta :: "ref_event \<Rightarrow> int" where
  "ref_delta e = (if e = Up DR_OK then 1 else if e = Down DR_OK then - 1 else 0)"

definition ref_balance :: "ref_event list \<Rightarrow> int" where
  "ref_balance es = sum_list (map ref_delta es)"

text \<open>The threads that hold the lock after an event.\<close>

definition lock_after :: "nat \<Rightarrow> ref_event \<Rightarrow> nat" where
  "lock_after l e = (case e of
     Zero_Lock t out \<Rightarrow> if out = Gives DR_OK then t else l
   | Zero_Resume t out \<Rightarrow> if out = Gives DR_OK then t else l
   | Zero_Trylock t ret \<Rightarrow> if ret = DR_OK then t else l
   | Unlock t ret \<Rightarrow> if ret = DR_OK then 0 else l
   | _ \<Rightarrow> l)"

definition lock_holder :: "ref_event list \<Rightarrow> nat" where
  "lock_holder es = foldl lock_after 0 es"

definition ref_inv :: "FusionRefSingle \<Rightarrow> bool" where
  "ref_inv r \<longleftrightarrow> 0 \<le> rs_refs r \<and> (rs_locked r = 0 \<or> rs_refs r = 0)"

lemma ref_step_inv: "ref_step r e r' \<Longrightarrow> ref_inv r \<Longrightarrow> ref_inv r'"
  by (induction rule: ref_step.induct)
    (auto simp: ref_inv_def ref_defs chk_def split: if_splits option.splits)

lemma ref_step_delta: "ref_step r e r' \<Longrightarrow> rs_refs r' = rs_refs r + ref_delta e"
  by (induction rule: ref_step.induct)
    (auto simp: ref_delta_def ref_defs chk_def split: if_splits option.splits)

lemma ref_step_lock: "ref_step r e r' \<Longrightarrow> rs_locked r' = lock_after (rs_locked r) e"
  by (induction rule: ref_step.induct)
    (auto simp: lock_after_def ref_defs chk_def split: if_splits option.splits)

lemma ref_run_inv: "ref_run r es r' \<Longrightarrow> ref_inv r \<Longrightarrow> ref_inv r'"
  by (induction rule: ref_run.induct) (auto intro: ref_step_inv)

lemma ref_run_counts:
  "ref_run r es r' \<Longrightarrow> rs_refs r' = rs_refs r + ref_balance es \<and> rs_locked r' = foldl lock_after (rs_locked r) es"
  by (induction rule: ref_run.induct) (auto simp: ref_balance_def dest: ref_step_delta ref_step_lock)

lemma ref_init_inv: "ref_inv (fusion_ref_init m)"
  by (simp add: ref_inv_def fusion_ref_init_def)

lemma ref_run_single: "ref_step r e s \<Longrightarrow> ref_run r [e] s"
  using ref_run.ref_more [OF ref_run.ref_start] by fastforce

text \<open>
  C26: whatever was in its memory before and whatever the threads do, the counter is the number of references taken less those
  given back, never negative; the lock is with the thread that last got it; and while it is
  with a thread there are no references.
\<close>

theorem ref_counts:
  assumes "ref_run (fusion_ref_init m) es r"
  shows "rs_refs r = ref_balance es \<and> 0 \<le> ref_balance es \<and> rs_locked r = lock_holder es \<and>
     (lock_holder es = 0 \<or> ref_balance es = 0)"
proof -
  have "rs_refs r = ref_balance es \<and> rs_locked r = lock_holder es"
    using ref_run_counts [OF assms] by (simp add: fusion_ref_init_def lock_holder_def)
  with ref_run_inv [OF assms ref_init_inv] show ?thesis by (auto simp: ref_inv_def)
qed

lemma ref_counts_witness:
  "\<exists>r. ref_run (fusion_ref_init zeroed_ref) [Up DR_OK, Zero_Trylock 3 DR_BUSY, Down DR_OK, Zero_Trylock 3 DR_OK, Up DR_LOCKED] r \<and>
     rs_refs r = ref_balance [Up DR_OK, Zero_Trylock 3 DR_BUSY, Down DR_OK, Zero_Trylock 3 DR_OK, Up DR_LOCKED] \<and>
     lock_holder [Up DR_OK, Zero_Trylock 3 DR_BUSY, Down DR_OK, Zero_Trylock 3 DR_OK, Up DR_LOCKED] = 3"
proof -
  let ?r = "\<lambda>n l. \<lparr> rs_refs = n, rs_locked = l, rs_destroyed = False, rs_call = None,
     rs_sleeping = [], rs_woken = [], rs_called = [] \<rparr>"
  have s1: "ref_step (?r 0 0) (Up DR_OK) (?r 1 0)" by (rule ref_step.up) (simp add: ref_defs chk_def int32_def)
  have s2: "ref_step (?r 1 0) (Zero_Trylock 3 DR_BUSY) (?r 1 0)" by (rule ref_step.zero_trylock) (simp_all add: ref_defs)
  have s3: "ref_step (?r 1 0) (Down DR_OK) (?r 0 0)" by (rule ref_step.down) (simp add: ref_defs)
  have s4: "ref_step (?r 0 0) (Zero_Trylock 3 DR_OK) (?r 0 3)" by (rule ref_step.zero_trylock) (simp_all add: ref_defs)
  have s5: "ref_step (?r 0 3) (Up DR_LOCKED) (?r 0 3)" by (rule ref_step.up) (simp add: ref_defs)
  have run: "ref_run (fusion_ref_init zeroed_ref) [Up DR_OK, Zero_Trylock 3 DR_BUSY, Down DR_OK, Zero_Trylock 3 DR_OK, Up DR_LOCKED] (?r 0 3)"
    using ref_run.ref_more [OF ref_run.ref_more [OF ref_run.ref_more [OF ref_run.ref_more [OF ref_run_single [OF s1] s2] s3] s4] s5]
    by (simp add: fusion_ref_init_def zeroed_ref_def)
  from run ref_counts [OF run] show ?thesis by (auto simp: lock_holder_def lock_after_def)
qed

section \<open>Waiting for the last reference\<close>

definition unwatched :: "ref_event list \<Rightarrow> bool" where
  "unwatched es \<longleftrightarrow> list_all (\<lambda>e. case e of Watch c ret \<Rightarrow> ret \<noteq> DR_OK | _ \<Rightarrow> True) es"

definition sleep_inv :: "FusionRefSingle \<Rightarrow> bool" where
  "sleep_inv r \<longleftrightarrow> rs_call r = None \<and> (rs_sleeping r = [] \<or> rs_refs r \<noteq> 0 \<and> rs_locked r = 0 \<and> \<not> rs_destroyed r)"

lemma ref_step_sleep_inv:
  "ref_step r e r' \<Longrightarrow> unwatched [e] \<Longrightarrow> ref_inv r \<Longrightarrow> sleep_inv r \<Longrightarrow> sleep_inv r'"
  by (induction rule: ref_step.induct)
    (auto simp: sleep_inv_def ref_inv_def unwatched_def ref_defs chk_def split: if_splits option.splits)

lemma ref_run_sleep_inv:
  "ref_run r es r' \<Longrightarrow> unwatched es \<Longrightarrow> ref_inv r \<Longrightarrow> sleep_inv r \<Longrightarrow> sleep_inv r'"
proof (induction rule: ref_run.induct)
  case (ref_more r es s e u)
  then have "unwatched es" "unwatched [e]" by (auto simp: unwatched_def)
  then show ?case using ref_more ref_run_inv [OF ref_more(1)] ref_step_sleep_inv [OF ref_more(2)] by blast
qed simp

lemma downs_wake:
  "ref_inv r \<Longrightarrow> sleep_inv r \<Longrightarrow> \<not> rs_destroyed r \<Longrightarrow> rs_refs r = int n \<Longrightarrow> rs_sleeping (((fst \<circ> fusion_ref_down) ^^ n) r) = []"
proof (induction n arbitrary: r)
  case (Suc n)
  let ?s = "fst (fusion_ref_down r)"
  have step: "ref_step r (Down DR_OK) ?s" using Suc.prems
    by (intro ref_step.down) (auto simp: ref_defs split: option.splits)
  have "ref_inv ?s" "sleep_inv ?s" "\<not> rs_destroyed ?s" "rs_refs ?s = int n"
    using ref_step_inv [OF step] ref_step_sleep_inv [OF step] ref_step_delta [OF step] Suc.prems
    by (auto simp: unwatched_def ref_delta_def ref_defs split: option.splits)
  from Suc.IH [OF this] show ?case by (simp add: funpow_Suc_right del: funpow.simps)
qed (simp add: sleep_inv_def)

text \<open>
  C36: as long as no call watches the counter, from its cleared memory on, a thread that waits in \<^verbatim>\<open>fusion_ref_zero_lock\<close>
  sleeps only while there are references, and giving them back wakes every sleeping thread.
\<close>

theorem zero_lock_woken:
  assumes "ref_run (fusion_ref_init m) es r" and "rs_call m = None" and "unwatched es" and "rs_sleeping r \<noteq> []"
  shows "0 < rs_refs r \<and> rs_locked r = 0 \<and> \<not> rs_destroyed r \<and>
     rs_sleeping (((fst \<circ> fusion_ref_down) ^^ nat (rs_refs r)) r) = []"
proof -
  have inv: "ref_inv r" "sleep_inv r"
    using ref_run_inv [OF assms(1) ref_init_inv] ref_run_sleep_inv [OF assms(1,3) ref_init_inv] assms(2)
    by (auto simp: sleep_inv_def fusion_ref_init_def)
  with assms(4) have r: "0 < rs_refs r" "rs_locked r = 0" "\<not> rs_destroyed r"
    by (auto simp: sleep_inv_def ref_inv_def)
  with downs_wake [OF inv r(3), of "nat (rs_refs r)"] show ?thesis by simp
qed

text \<open>A counter with one reference, thread 1 waiting for the lock, possibly watched.\<close>

definition waited_ref :: "int \<Rightarrow> (int \<times> bool) option \<Rightarrow> int list \<Rightarrow> FusionRefSingle" where
  "waited_ref n call called = \<lparr> rs_refs = n, rs_locked = 0, rs_destroyed = False, rs_call = call,
     rs_sleeping = [1], rs_woken = [], rs_called = called \<rparr>"

lemma run_to_waited_ref: "ref_run (fusion_ref_init zeroed_ref) [Up DR_OK, Zero_Lock 1 Waits] (waited_ref 1 None [])"
proof -
  let ?r = "(waited_ref 1 None [])\<lparr>rs_sleeping := []\<rparr>"
  have s1: "ref_step (fusion_ref_init zeroed_ref) (Up DR_OK) ?r"
    by (rule ref_step.up) (simp add: ref_defs chk_def int32_def waited_ref_def fusion_ref_init_def zeroed_ref_def)
  have s2: "ref_step ?r (Zero_Lock 1 Waits) (waited_ref 1 None [])"
    by (rule ref_step.zero_lock) (simp_all add: ref_defs waited_ref_def)
  show ?thesis using ref_run.ref_more [OF ref_run_single [OF s1] s2] by simp
qed

lemma zero_lock_woken_witness:
  "\<exists>r. ref_run (fusion_ref_init zeroed_ref) [Up DR_OK, Zero_Lock 1 Waits] r \<and> rs_sleeping r = [1] \<and>
     (0 < rs_refs r \<and> rs_locked r = 0 \<and> \<not> rs_destroyed r \<and>
     rs_sleeping (((fst \<circ> fusion_ref_down) ^^ nat (rs_refs r)) r) = [])"
  using zero_lock_woken [OF run_to_waited_ref] run_to_waited_ref by (auto simp: unwatched_def waited_ref_def zeroed_ref_def)

lemma starving:
  "ref_run r es s \<Longrightarrow> Destroy \<notin> set es \<Longrightarrow> \<nexists>u. Unlock u DR_OK \<in> set es \<Longrightarrow>
   rs_call r \<noteq> None \<and> t \<in> set (rs_sleeping r) \<Longrightarrow> rs_call s \<noteq> None \<and> t \<in> set (rs_sleeping s)"
proof (induction rule: ref_run.induct)
  case (ref_more r es s e u)
  then have s: "rs_call s \<noteq> None \<and> t \<in> set (rs_sleeping s)" by auto
  have "e \<noteq> Destroy" "\<nexists>u. e = Unlock u DR_OK" using ref_more.prems by auto
  with ref_more(2) s show ?case
    by (cases rule: ref_step.cases) (auto simp: ref_defs chk_def split: if_splits option.splits)
qed simp

text \<open>
  a watching call suppresses the wake-up: a thread that waits in \<^verbatim>\<open>fusion_ref_zero_lock\<close>
  while a call is set up by \<^verbatim>\<open>fusion_ref_watch\<close> stays asleep whatever happens, the last reference
  going included, until the counter is destroyed or another thread has had the lock and
  released it.
\<close>

theorem zero_lock_starves:
  assumes "ref_run (fusion_ref_init m) es r" and "rs_call r \<noteq> None" and "t \<in> set (rs_sleeping r)"
    and "ref_run r fs s" and "Destroy \<notin> set fs" and "\<nexists>u. Unlock u DR_OK \<in> set fs"
  shows "t \<in> set (rs_sleeping s)"
  using starving [OF assms(4-6), of t] assms(2,3) by blast

lemma zero_lock_starves_witness:
  "\<exists>s. ref_run (fusion_ref_init zeroed_ref) ([Up DR_OK, Zero_Lock 1 Waits, Watch (7, True) DR_OK] @ [Down DR_OK]) s \<and>
     rs_refs s = 0 \<and> rs_called s = [7] \<and> 1 \<in> set (rs_sleeping s)"
proof -
  have s1: "ref_step (waited_ref 1 None []) (Watch (7, True) DR_OK) (waited_ref 1 (Some (7, True)) [])"
    by (rule ref_step.watch) (simp add: ref_defs waited_ref_def)
  have s2: "ref_step (waited_ref 1 (Some (7, True)) []) (Down DR_OK) (waited_ref 0 (Some (7, True)) [7])"
    by (rule ref_step.down) (simp add: ref_defs waited_ref_def)
  have run: "ref_run (fusion_ref_init zeroed_ref) [Up DR_OK, Zero_Lock 1 Waits, Watch (7, True) DR_OK] (waited_ref 1 (Some (7, True)) [])"
    using ref_run.ref_more [OF run_to_waited_ref s1] by simp
  have "1 \<in> set (rs_sleeping (waited_ref 0 (Some (7, True)) [7]))"
    by (rule zero_lock_starves [OF run _ _ ref_run_single [OF s2]]) (auto simp: waited_ref_def)
  with ref_run.ref_more [OF run s2] show ?thesis by (auto simp: waited_ref_def)
qed

end
