(* ===== verification/Surface_Manager.thy ===== *)
theory Surface_Manager
  imports Simulation
begin

text \<open>
  The video memory manager of \<^verbatim>\<open>systems/fbdev/surfacemanager.c\<close>: a heap cut into chunks, free or
  occupied by a surface allocation. The doubly linked list of chunks is a list, a chunk pointer
  an index into it. Pitch and length of a buffer and the length of the video memory come
  from the graphics driver and are arguments; so is the outcome of allocating a chunk.
\<close>

section \<open>Data\<close>

datatype CoreSurfacePolicy = CSP_SYSTEMONLY | CSP_VIDEOLOW | CSP_VIDEOHIGH | CSP_VIDEOONLY

fun policy_value :: "CoreSurfacePolicy \<Rightarrow> nat" where
  "policy_value CSP_SYSTEMONLY = 0"
| "policy_value CSP_VIDEOLOW = 1"
| "policy_value CSP_VIDEOHIGH = 2"
| "policy_value CSP_VIDEOONLY = 3"

instantiation CoreSurfacePolicy :: linorder
begin

definition less_eq_CoreSurfacePolicy :: "CoreSurfacePolicy \<Rightarrow> CoreSurfacePolicy \<Rightarrow> bool" where
  "less_eq_CoreSurfacePolicy p q \<longleftrightarrow> policy_value p \<le> policy_value q"

definition less_CoreSurfacePolicy :: "CoreSurfacePolicy \<Rightarrow> CoreSurfacePolicy \<Rightarrow> bool" where
  "less_CoreSurfacePolicy p q \<longleftrightarrow> policy_value p < policy_value q"

instance
proof
  fix p q r :: CoreSurfacePolicy
  show "p < q \<longleftrightarrow> p \<le> q \<and> \<not> q \<le> p" by (auto simp: less_eq_CoreSurfacePolicy_def less_CoreSurfacePolicy_def)
  show "p \<le> p" "p \<le> q \<or> q \<le> p" by (auto simp: less_eq_CoreSurfacePolicy_def)
  show "p \<le> r" if "p \<le> q" "q \<le> r" using that by (simp add: less_eq_CoreSurfacePolicy_def)
  show "p = q" if "p \<le> q" "q \<le> p" using that by (cases p; cases q) (auto simp: less_eq_CoreSurfacePolicy_def)
qed

end

text \<open>
  An allocation with the policy of its buffer, the number of its locks and its muck-out flag;
  \<open>al_id\<close> is its address. \<^verbatim>\<open>chunk->buffer\<close> is always the buffer of \<^verbatim>\<open>chunk->allocation\<close>.
\<close>

record CoreSurfaceAllocation =
  al_id :: nat
  al_policy :: CoreSurfacePolicy
  al_size :: int
  al_locks :: nat
  al_muckout :: bool

record Chunk =
  ck_offset :: int
  ck_length :: int
  ck_pitch :: int
  ck_allocation :: "CoreSurfaceAllocation option"
  ck_tolerations :: int

record SurfaceManager =
  sm_chunks :: "Chunk list"
  sm_offset :: int
  sm_length :: int
  sm_avail :: int
  sm_min_toleration :: int
  sm_suspended :: bool

definition new_chunk :: "int \<Rightarrow> int \<Rightarrow> Chunk" where
  "new_chunk off len = \<lparr> ck_offset = off, ck_length = len, ck_pitch = 0, ck_allocation = None, ck_tolerations = 0 \<rparr>"

abbreviation free :: "Chunk \<Rightarrow> bool" where
  "free c \<equiv> ck_allocation c = None"

section \<open>Operations\<close>

text \<open>
  Both the manager and its chunk are allocated. The length is an \<^verbatim>\<open>unsigned int\<close>, stored in a field of type \<^verbatim>\<open>int\<close>.
\<close>

definition new_manager :: "int \<Rightarrow> SurfaceManager" where
  "new_manager len =
    \<lparr> sm_chunks = [new_chunk 0 len], sm_offset = 0, sm_length = len, sm_avail = len,
      sm_min_toleration = 0, sm_suspended = False \<rparr>"


definition dfb_surfacemanager_adjust_heap_offset :: "int \<Rightarrow> SurfaceManager \<Rightarrow> SurfaceManager \<times> DirectResult" where
  "dfb_surfacemanager_adjust_heap_offset off m =
    (let c = hd (sm_chunks m);
         c' = (if free c \<and> off \<le> ck_offset c + ck_length c
               then c\<lparr>ck_length := ck_offset c + ck_length c - off, ck_offset := off\<rparr> else c)
     in (m\<lparr>sm_chunks := c' # tl (sm_chunks m), sm_avail := sm_avail m - (off - sm_offset m), sm_offset := off\<rparr>, DR_OK))"

text \<open>The chunk itself when it fits, else a new one of the length behind it; \<^term>\<open>None\<close> is \<^verbatim>\<open>NULL\<close>.\<close>

definition split_chunk :: "bool \<Rightarrow> SurfaceManager \<Rightarrow> nat \<Rightarrow> int \<Rightarrow> SurfaceManager \<times> nat option" where
  "split_chunk mem m i len =
    (let c = sm_chunks m ! i in
     if ck_length c = len then (m, Some i)
     else if \<not> mem then (m, None)
     else (m\<lparr>sm_chunks := take i (sm_chunks m) @ c\<lparr>ck_length := ck_length c - len\<rparr> #
              new_chunk (ck_offset c + ck_length c - len) len # drop (Suc i) (sm_chunks m)\<rparr>, Some (Suc i)))"

definition occupy_chunk :: "bool \<Rightarrow> SurfaceManager \<Rightarrow> nat \<Rightarrow> CoreSurfaceAllocation \<Rightarrow> int \<Rightarrow> int \<Rightarrow> SurfaceManager \<times> nat option" where
  "occupy_chunk mem m i allocation len pitch =
    (let m = (if al_policy allocation = CSP_VIDEOONLY then m\<lparr>sm_avail := sm_avail m - len\<rparr> else m)
     in case split_chunk mem m i len of
       (m, None) \<Rightarrow> (m, None)
     | (m, Some j) \<Rightarrow>
         (m\<lparr>sm_chunks := (sm_chunks m)[j := (sm_chunks m ! j)\<lparr>ck_allocation := Some allocation, ck_pitch := pitch\<rparr>],
            sm_min_toleration := sm_min_toleration m + 1\<rparr>, Some j))"





text \<open>The search for the smallest free chunk that is long enough; it ends at an exact fit.\<close>

fun find_free :: "int \<Rightarrow> nat \<Rightarrow> (nat \<times> int) option \<Rightarrow> Chunk list \<Rightarrow> nat option" where
  "find_free len i best [] = map_option fst best"
| "find_free len i best (c # cs) =
    (if free c \<and> ck_length c \<ge> len then
       let best = (case best of
             None \<Rightarrow> Some (i, ck_length c)
           | Some (b, l) \<Rightarrow> if l > ck_length c then Some (i, ck_length c) else Some (b, l))
       in if ck_length c = len then map_option fst best else find_free len (Suc i) best cs
     else find_free len (Suc i) best cs)"

text \<open>A manager with a single chunk takes over the length of the video memory first.\<close>

definition memory_workaround :: "int \<Rightarrow> SurfaceManager \<Rightarrow> SurfaceManager" where
  "memory_workaround memory_length m = (case sm_chunks m of
     [c] \<Rightarrow> if ck_length c \<noteq> memory_length - sm_offset m
       then m\<lparr>sm_length := memory_length, sm_avail := memory_length - sm_offset m,
              sm_chunks := [c\<lparr>ck_length := memory_length - sm_offset m\<rparr>]\<rparr>
       else m
   | _ \<Rightarrow> m)"

text \<open>Without an allocation (\<^verbatim>\<open>ret_chunk\<close> is \<^verbatim>\<open>NULL\<close>) the call only checks.\<close>

definition dfb_surfacemanager_allocate :: "int \<Rightarrow> bool \<Rightarrow> SurfaceManager \<Rightarrow> int \<Rightarrow> int \<Rightarrow> CoreSurfaceAllocation option \<Rightarrow>
    SurfaceManager \<times> DirectResult \<times> nat option" where
  "dfb_surfacemanager_allocate memory_length mem m pitch len allocation =
    (if sm_suspended m then (m, DR_SUSPENDED, None)
     else if sm_avail m < len then (m, DR_TEMPUNAVAIL, None)
     else let m = memory_workaround memory_length m in
       case find_free len 0 None (sm_chunks m) of
         None \<Rightarrow> (m, DFB_NOVIDEOMEMORY, None)
       | Some i \<Rightarrow> (case allocation of
           None \<Rightarrow> (m, DR_OK, None)
         | Some a \<Rightarrow> let (m, j) = occupy_chunk mem m i a len pitch in (m, DR_OK, j)))"

section \<open>The heap is tiled by its chunks\<close>

fun tiles :: "int \<Rightarrow> Chunk list \<Rightarrow> int \<Rightarrow> bool" where
  "tiles a [] b \<longleftrightarrow> a = b"
| "tiles a (c # cs) b \<longleftrightarrow> ck_offset c = a \<and> 0 < ck_length c \<and> tiles (a + ck_length c) cs b"

abbreviation chunk_end :: "Chunk \<Rightarrow> int" where
  "chunk_end c \<equiv> ck_offset c + ck_length c"

abbreviation apart :: "Chunk \<Rightarrow> Chunk \<Rightarrow> bool" where
  "apart c d \<equiv> \<not> (free c \<and> free d)"

definition video_only :: "Chunk \<Rightarrow> int" where
  "video_only c = (case ck_allocation c of
     Some a \<Rightarrow> if al_policy a = CSP_VIDEOONLY then ck_length c else 0 | None \<Rightarrow> 0)"

definition allocation_ids :: "Chunk list \<Rightarrow> nat list" where
  "allocation_ids cs = map al_id (List.map_filter ck_allocation cs)"

definition block_of :: "Chunk \<Rightarrow> (nat \<times> int \<times> int) set" where
  "block_of c = (case ck_allocation c of None \<Rightarrow> {} | Some a \<Rightarrow> {(al_id a, ck_offset c, ck_length c)})"

definition blocks :: "Chunk list \<Rightarrow> (nat \<times> int \<times> int) set" where
  "blocks cs = (\<Union>c \<in> set cs. block_of c)"

lemma tiles_append: "tiles a (xs @ ys) b \<longleftrightarrow> (\<exists>m. tiles a xs m \<and> tiles m ys b)"
  by (induction xs arbitrary: a) auto

lemma tiles_bounds: "tiles a cs b \<Longrightarrow> a \<le> b \<and> (\<forall>c \<in> set cs. a \<le> ck_offset c \<and> chunk_end c \<le> b \<and> 0 < ck_length c)"
  by (induction cs arbitrary: a) force+

lemma tiles_around:
  assumes "tiles a (pre @ c # post) b" and "d \<in> set (pre @ post)"
  shows "chunk_end d \<le> ck_offset c \<or> chunk_end c \<le> ck_offset d"
proof -
  from assms(1) have "tiles a pre (ck_offset c)" "tiles (chunk_end c) post b" by (auto simp: tiles_append)
  with tiles_bounds assms(2) show ?thesis by fastforce
qed

lemma blocks_append [simp]: "blocks (xs @ ys) = blocks xs \<union> blocks ys"
  by (auto simp: blocks_def)

lemma blocks_Cons [simp]: "blocks (c # cs) = block_of c \<union> blocks cs"
  by (simp add: blocks_def)

lemma blocks_Nil [simp]: "blocks [] = {}"
  by (simp add: blocks_def)

lemma block_of_free [simp]: "free c \<Longrightarrow> block_of c = {}"
  by (simp add: block_of_def)

lemma block_of_occupied [simp]: "ck_allocation c = Some a \<Longrightarrow> block_of c = {(al_id a, ck_offset c, ck_length c)}"
  by (simp add: block_of_def)

lemma allocation_ids_append [simp]: "allocation_ids (xs @ ys) = allocation_ids xs @ allocation_ids ys"
  by (simp add: allocation_ids_def map_filter_def)

lemma allocation_ids_Cons [simp]:
  "allocation_ids (c # cs) = (case ck_allocation c of None \<Rightarrow> [] | Some a \<Rightarrow> [al_id a]) @ allocation_ids cs"
  by (simp add: allocation_ids_def map_filter_def split: option.split)

lemma allocation_ids_Nil [simp]: "allocation_ids [] = []"
  by (simp add: allocation_ids_def map_filter_def)


text \<open>
  The invariant of a manager of a heap from \<open>off\<close> to \<open>len\<close>: its chunks tile the heap, no two
  free chunks are neighbours, the allocations are distinct, and the memory available is all
  but the chunks of video-only surfaces.
\<close>

definition heap_inv :: "int \<Rightarrow> int \<Rightarrow> SurfaceManager \<Rightarrow> bool" where
  "heap_inv off len m \<longleftrightarrow> sm_offset m = off \<and> sm_length m = len \<and> \<not> sm_suspended m \<and>
     sm_chunks m \<noteq> [] \<and> tiles off (sm_chunks m) len \<and> successively apart (sm_chunks m) \<and>
     distinct (allocation_ids (sm_chunks m)) \<and>
     sm_avail m = len - off - sum_list (map video_only (sm_chunks m)) \<and>
     sm_min_toleration m = int (length (allocation_ids (sm_chunks m)))"

text \<open>A range of the heap that no block meets.\<close>

definition free_range :: "int \<Rightarrow> int \<Rightarrow> (nat \<times> int \<times> int) set \<Rightarrow> int \<Rightarrow> int \<Rightarrow> bool" where
  "free_range off len B x n \<longleftrightarrow> off \<le> x \<and> x + n \<le> len \<and> (\<forall>(a, o', n') \<in> B. x + n \<le> o' \<or> o' + n' \<le> x)"

text \<open>Since free neighbours are always merged, every free range lies within a free chunk.\<close>

lemma free_range_in_chunk:
  assumes "tiles off cs len" and "successively apart cs" and "free_range off len (blocks cs) x n" and "0 < n"
  shows "\<exists>c \<in> set cs. free c \<and> ck_offset c \<le> x \<and> x + n \<le> chunk_end c"
  using assms
proof (induction cs arbitrary: off)
  case Nil
  then show ?case by (auto simp: free_range_def)
next
  case (Cons c cs)
  show ?case
  proof (cases "chunk_end c \<le> x")
    case True
    then have "free_range (off + ck_length c) len (blocks cs) x n" using Cons.prems by (auto simp: free_range_def)
    moreover have "successively apart cs" using Cons.prems(2) by (cases cs) auto
    ultimately show ?thesis using Cons.IH [of "off + ck_length c"] Cons.prems by auto
  next
    case False
    have x: "off \<le> x" "x + n \<le> len" using Cons.prems(3) by (auto simp: free_range_def)
    have off: "ck_offset c = off" using Cons.prems(1) by simp
    have "free c"
    proof (cases "ck_allocation c")
      case (Some a)
      then have "x + n \<le> ck_offset c \<or> chunk_end c \<le> x" using Cons.prems(3) by (auto simp: free_range_def)
      then show ?thesis using x False off Cons.prems(4) by auto
    qed
    note c = off this
    show ?thesis
    proof (cases "x + n \<le> chunk_end c")
      case True
      then show ?thesis using c x by auto
    next
      case beyond: False
      then obtain d ds where cs: "cs = d # ds" using Cons.prems x by (cases cs) auto
      then have d: "\<not> free d" "ck_offset d = chunk_end c" "0 < ck_length d" using Cons.prems(1,2) c by auto
      then obtain a where "ck_allocation d = Some a" by blast
      then have "x + n \<le> ck_offset d \<or> chunk_end d \<le> x"
        using Cons.prems(3) cs by (auto simp: free_range_def)
      then show ?thesis using beyond False d(2,3) by linarith
    qed
  qed
qed

text \<open>Conversely the end of a free chunk is a free range.\<close>

lemma chunk_free_range:
  assumes "tiles off (pre @ c # post) len" and "free c" and "0 \<le> n" and "n \<le> ck_length c"
  shows "free_range off len (blocks (pre @ c # post)) (chunk_end c - n) n"
proof -
  have "off \<le> ck_offset c" "chunk_end c \<le> len" using tiles_bounds [OF assms(1)] by auto
  moreover have "chunk_end c \<le> o' \<or> o' + n' \<le> ck_offset c" if "(a, o', n') \<in> blocks (pre @ c # post)" for a o' n'
  proof -
    from that assms(2) obtain d where "d \<in> set (pre @ post)" "ck_offset d = o'" "ck_length d = n'"
      by (auto simp: blocks_def block_of_def split: option.splits)
    with tiles_around [OF assms(1)] show ?thesis by auto
  qed
  ultimately show ?thesis using assms(3,4) unfolding free_range_def by fastforce
qed

section \<open>Best fit\<close>

abbreviation fits :: "int \<Rightarrow> Chunk \<Rightarrow> bool" where
  "fits len c \<equiv> free c \<and> len \<le> ck_length c"

text \<open>The best chunk among those already seen, \<open>pre\<close>.\<close>

definition best_of :: "int \<Rightarrow> Chunk list \<Rightarrow> (nat \<times> int) option \<Rightarrow> bool" where
  "best_of len pre best = (case best of
     None \<Rightarrow> \<forall>c \<in> set pre. \<not> fits len c
   | Some (j, l) \<Rightarrow> j < length pre \<and> fits len (pre ! j) \<and> l = ck_length (pre ! j) \<and>
       (\<forall>c \<in> set pre. fits len c \<longrightarrow> l \<le> ck_length c))"

definition best_choice :: "int \<Rightarrow> Chunk list \<Rightarrow> nat option \<Rightarrow> bool" where
  "best_choice len cs r = (case r of
     None \<Rightarrow> \<forall>c \<in> set cs. \<not> fits len c
   | Some j \<Rightarrow> j < length cs \<and> fits len (cs ! j) \<and> (\<forall>c \<in> set cs. fits len c \<longrightarrow> ck_length (cs ! j) \<le> ck_length c))"

definition better :: "nat \<Rightarrow> Chunk \<Rightarrow> (nat \<times> int) option \<Rightarrow> nat \<times> int" where
  "better i c best = (case best of None \<Rightarrow> (i, ck_length c)
     | Some (b, l) \<Rightarrow> if l > ck_length c then (i, ck_length c) else (b, l))"

lemma find_free_Cons:
  "find_free len i best (c # cs) =
    (if fits len c then
       if ck_length c = len then Some (fst (better i c best)) else find_free len (Suc i) (Some (better i c best)) cs
     else find_free len (Suc i) best cs)"
  by (cases best) (auto simp: better_def Let_def)

lemma best_of_better:
  assumes "best_of len pre best" and "fits len c"
  shows "best_of len (pre @ [c]) (Some (better (length pre) c best))"
proof (cases best)
  case None
  then show ?thesis using assms by (auto simp: best_of_def better_def)
next
  case (Some bl)
  obtain b l where bl: "bl = (b, l)" by (cases bl)
  show ?thesis
  proof (cases "l > ck_length c")
    case True
    then show ?thesis using assms Some bl by (fastforce simp: best_of_def better_def)
  next
    case False
    then show ?thesis using assms Some bl by (auto simp: best_of_def better_def nth_append)
  qed
qed

lemma best_of_skip: "best_of len pre best \<Longrightarrow> \<not> fits len c \<Longrightarrow> best_of len (pre @ [c]) best"
  by (cases best) (auto simp: best_of_def nth_append)

lemma best_of_choice: "best_of len pre best \<Longrightarrow> best_choice len pre (map_option fst best)"
  by (cases best) (auto simp: best_of_def best_choice_def)

lemma find_free_choice:
  "best_of len pre best \<Longrightarrow> best_choice len (pre @ cs) (find_free len (length pre) best cs)"
proof (induction cs arbitrary: pre best)
  case Nil
  then show ?case using best_of_choice by simp
next
  case (Cons c cs)
  show ?case
  proof (cases "fits len c")
    case fit: True
    let ?b = "better (length pre) c best"
    have b: "best_of len (pre @ [c]) (Some ?b)" using best_of_better [OF Cons.prems fit] .
    show ?thesis
    proof (cases "ck_length c = len")
      case True
      obtain j l where jl: "?b = (j, l)" by fastforce
      have j: "j < length (pre @ [c])" "fits len ((pre @ [c]) ! j)" "l = ck_length ((pre @ [c]) ! j)"
          "\<forall>d \<in> set (pre @ [c]). fits len d \<longrightarrow> l \<le> ck_length d"
        using b unfolding best_of_def jl by auto
      then have "l \<le> ck_length c" using fit by (auto simp del: split_paired_All)
      then have "ck_length ((pre @ [c]) ! fst ?b) = len" "fst ?b < length (pre @ [c])" "free ((pre @ [c]) ! fst ?b)"
        using j True by (auto simp: jl)
      then have "best_choice len (pre @ c # cs) (Some (fst ?b))"
        by (auto simp: best_choice_def nth_append split: if_splits)
      moreover have "find_free len (length pre) best (c # cs) = Some (fst ?b)"
        using fit True by (simp add: find_free_Cons del: find_free.simps)
      ultimately show ?thesis by (simp only:)
    next
      case False
      then have "find_free len (length pre) best (c # cs) = find_free len (length (pre @ [c])) (Some ?b) cs"
        using fit by (simp add: find_free_Cons del: find_free.simps)
      then show ?thesis using Cons.IH [OF b] by simp
    qed
  next
    case False
    then have "find_free len (length pre) best (c # cs) = find_free len (length (pre @ [c])) best cs"
      by (auto simp: find_free_Cons simp del: find_free.simps)
    then show ?thesis using Cons.IH [OF best_of_skip [OF Cons.prems False]] by simp
  qed
qed

lemma find_free_best: "best_choice len cs (find_free len 0 None cs)"
  using find_free_choice [of len "[]" None cs] by (simp add: best_of_def)

section \<open>Occupying and freeing keep the invariant\<close>

lemma nth_split:
  assumes "i < length cs"
  obtains pre post where "cs = pre @ cs ! i # post" and "length pre = i"
  using id_take_nth_drop [OF assms] assms by (metis length_take min.absorb4)








section \<open>The heap as a set of blocks\<close>










lemma tiles_sum: "tiles a cs b \<Longrightarrow> sum_list (map ck_length cs) = b - a"
  by (induction cs arbitrary: a) auto

lemma video_only_le: "tiles a cs b \<Longrightarrow> sum_list (map video_only cs) \<le> sum_list (map ck_length cs)"
  by (induction cs arbitrary: a) (fastforce simp: video_only_def split: option.split)+

lemma heap_inv_workaround: "heap_inv off len m \<Longrightarrow> memory_workaround len m = m"
  by (auto simp: heap_inv_def memory_workaround_def split: list.split)

lemma free_chunk_avail:
  assumes "heap_inv off len m" and "c \<in> set (sm_chunks m)" and "free c"
  shows "ck_length c \<le> sm_avail m"
proof -
  obtain pre post where m: "sm_chunks m = pre @ c # post" using assms(2) by (auto simp: in_set_conv_decomp)
  then have tiles: "tiles off pre (ck_offset c)" "tiles (chunk_end c) post len" "tiles off (pre @ c # post) len"
    using assms(1) by (auto simp: heap_inv_def tiles_append)
  show ?thesis
    using video_only_le [OF tiles(1)] video_only_le [OF tiles(2)] tiles_sum [OF tiles(1)] tiles_sum [OF tiles(2)]
      assms(1,3) m by (auto simp: heap_inv_def video_only_def)
qed

text \<open>The search finds a chunk exactly when the heap has a free range of the length.\<close>

lemma find_free_range:
  assumes "heap_inv off len m" and "0 < n"
  shows "find_free n 0 None (sm_chunks m) = None \<longleftrightarrow> (\<nexists>x. free_range off len (blocks (sm_chunks m)) x n)"
proof
  assume "find_free n 0 None (sm_chunks m) = None"
  then have none: "\<forall>c \<in> set (sm_chunks m). \<not> fits n c"
    using find_free_best [of n "sm_chunks m"] by (simp add: best_choice_def)
  show "\<nexists>x. free_range off len (blocks (sm_chunks m)) x n"
  proof
    assume "\<exists>x. free_range off len (blocks (sm_chunks m)) x n"
    then obtain x c where "c \<in> set (sm_chunks m)" "free c" "ck_offset c \<le> x" "x + n \<le> chunk_end c"
      using free_range_in_chunk assms by (metis heap_inv_def)
    then show False using none by force
  qed
next
  assume none: "\<nexists>x. free_range off len (blocks (sm_chunks m)) x n"
  show "find_free n 0 None (sm_chunks m) = None"
  proof (rule ccontr)
    assume "find_free n 0 None (sm_chunks m) \<noteq> None"
    then obtain i where "i < length (sm_chunks m)" "fits n (sm_chunks m ! i)"
      using find_free_best [of n "sm_chunks m"] by (auto simp: best_choice_def)
    then obtain pre post where "sm_chunks m = pre @ sm_chunks m ! i # post" using nth_split by metis
    with chunk_free_range [of off pre "sm_chunks m ! i" post len n] assms none \<open>fits n (sm_chunks m ! i)\<close>
    show False by (metis heap_inv_def less_imp_le)
  qed
qed

lemma allocate_cases:
  assumes inv: "heap_inv off len m" and n: "0 < n"
  shows "(\<nexists>x. free_range off len (blocks (sm_chunks m)) x n) \<and>
      (\<exists>r. r \<noteq> DR_OK \<and> dfb_surfacemanager_allocate len mem m pitch n a = (m, r, None)) \<or>
    (\<exists>pre c post. sm_chunks m = pre @ c # post \<and> free c \<and> n \<le> ck_length c \<and>
      (\<forall>d \<in> set (sm_chunks m). fits n d \<longrightarrow> ck_length c \<le> ck_length d) \<and>
      dfb_surfacemanager_allocate len mem m pitch n a = (case a of None \<Rightarrow> (m, DR_OK, None)
        | Some a \<Rightarrow> let (m', j) = occupy_chunk mem m (length pre) a n pitch in (m', DR_OK, j)))"
proof (cases "find_free n 0 None (sm_chunks m)")
  case None
  then have none: "\<nexists>x. free_range off len (blocks (sm_chunks m)) x n" using find_free_range [OF inv n] by blast
  moreover have "\<exists>r. r \<noteq> DR_OK \<and> dfb_surfacemanager_allocate len mem m pitch n a = (m, r, None)"
    using None inv heap_inv_workaround [OF inv] by (auto simp: dfb_surfacemanager_allocate_def heap_inv_def)
  ultimately show ?thesis by blast
next
  case (Some i)
  then have i: "i < length (sm_chunks m)" "fits n (sm_chunks m ! i)"
      "\<forall>d \<in> set (sm_chunks m). fits n d \<longrightarrow> ck_length (sm_chunks m ! i) \<le> ck_length d"
    using find_free_best [of n "sm_chunks m"] by (auto simp: best_choice_def)
  obtain pre post where split: "sm_chunks m = pre @ sm_chunks m ! i # post" "length pre = i"
    using nth_split [OF i(1)] by metis
  have "n \<le> sm_avail m" using free_chunk_avail [OF inv, of "sm_chunks m ! i"] i by force
  then have "dfb_surfacemanager_allocate len mem m pitch n a = (case a of None \<Rightarrow> (m, DR_OK, None)
        | Some a \<Rightarrow> let (m', j) = occupy_chunk mem m (length pre) a n pitch in (m', DR_OK, j))"
    using Some inv heap_inv_workaround [OF inv] split(2)
    by (cases a) (simp_all add: dfb_surfacemanager_allocate_def heap_inv_def)
  then show ?thesis using split i(2,3) by blast
qed












lemma heap_inv_new: "0 < len \<Longrightarrow> heap_inv 0 len (new_manager len)" "blocks (sm_chunks (new_manager len)) = {}"
  by (simp_all add: heap_inv_def new_manager_def new_chunk_def video_only_def)


definition demo_allocation :: "nat \<Rightarrow> CoreSurfaceAllocation" where
  "demo_allocation i = \<lparr> al_id = i, al_policy = CSP_VIDEOONLY, al_size = 10, al_locks = 0, al_muckout = False \<rparr>"










text \<open>
  when the new chunk cannot be allocated, the surface gets no memory but the call returns
  \<^const>\<open>DR_OK\<close>; and for a video-only surface the length is lost from \<^verbatim>\<open>avail\<close>, although the chunks
  are as before, so that after enough such failures every allocation is refused.
\<close>

theorem allocate_out_of_memory:
  assumes "heap_inv off len m" and "0 < n" and "al_policy a = CSP_VIDEOONLY"
    and "\<exists>c \<in> set (sm_chunks m). fits n c" and "\<nexists>c. c \<in> set (sm_chunks m) \<and> free c \<and> ck_length c = n"
  shows "dfb_surfacemanager_allocate len False m pitch n (Some a) = (m\<lparr>sm_avail := sm_avail m - n\<rparr>, DR_OK, None)"
proof -
  obtain c where "c \<in> set (sm_chunks m)" "fits n c" using assms(4) by blast
  moreover obtain pre post where "sm_chunks m = pre @ c # post"
    using \<open>c \<in> set (sm_chunks m)\<close> by (auto simp: in_set_conv_decomp)
  ultimately have "\<exists>x. free_range off len (blocks (sm_chunks m)) x n"
    using chunk_free_range [of off pre c post len n] assms(1,2) by (auto simp: heap_inv_def)
  with allocate_cases [OF assms(1,2), of False pitch "Some a"] obtain pre c post
    where c: "sm_chunks m = pre @ c # post" "free c"
      "dfb_surfacemanager_allocate len False m pitch n (Some a) =
         (let (m', j) = occupy_chunk False m (length pre) a n pitch in (m', DR_OK, j))" by auto
  have "ck_length c \<noteq> n" using assms(5) c by auto
  then have "occupy_chunk False m (length pre) a n pitch = (m\<lparr>sm_avail := sm_avail m - n\<rparr>, None)"
    using c(1) assms(3) by (simp add: occupy_chunk_def split_chunk_def nth_append Let_def)
  then show ?thesis using c(3) by simp
qed

lemma allocate_out_of_memory_witness:
  "dfb_surfacemanager_allocate 100 False (new_manager 100) 4 60 (Some (demo_allocation 1)) =
     ((new_manager 100)\<lparr>sm_avail := sm_avail (new_manager 100) - 60\<rparr>, DR_OK, None)"
proof (rule allocate_out_of_memory)
  show "heap_inv 0 100 (new_manager 100)" using heap_inv_new(1) by simp
qed (auto simp: new_manager_def new_chunk_def demo_allocation_def)

end
