(* ===== verification/Surface_Displace.thy ===== *)
theory Surface_Displace
  imports Surface_Manager
begin

text \<open>
  \<^verbatim>\<open>dfb_surfacemanager_displace\<close> of \<^verbatim>\<open>systems/fbdev/surfacemanager.c\<close>: when the heap is full, mark
  allocations to be thrown out so that a buffer of a given length and policy fits. Either a
  single allocation that frees enough with its free neighbours, or a run of neighbouring
  ones, the cheapest it finds.
\<close>

section \<open>The scan\<close>

text \<open>
  The variables of the scan: the smallest allocation that is enough on its own (its chunk
  and its size); the run of chunks under examination, with its first chunk, the sum of its
  lengths, the occupied part of it and the number of its allocations; the best run so far,
  with its first chunk, the number of its allocations and their size.
\<close>

type_synonym run = "nat \<times> int \<times> int \<times> int"

type_synonym best_run = "(nat \<times> int \<times> int) option"

record displace_scan =
  ds_smallest :: "(nat \<times> int) option"
  ds_multi :: "run option"
  ds_best :: best_run

definition used :: "Chunk \<Rightarrow> int" where
  "used c = (if free c then 0 else ck_length c)"

definition users :: "Chunk \<Rightarrow> int" where
  "users c = (if free c then 0 else 1)"

text \<open>The comparison of two runs; its product is an \<^verbatim>\<open>int\<close> and may overflow.\<close>

definition better_run :: "run \<Rightarrow> best_run \<Rightarrow> best_run option" where
  "better_run r best = (case r of (start, tsize, sz, n) \<Rightarrow> (case best of
     None \<Rightarrow> Some (Some (start, n, sz))
   | Some (bstart, bn, bsz) \<Rightarrow> do {
       p \<leftarrow> chk (sz * n);
       q \<leftarrow> c_div p bn;
       Some (if bsz > q then Some (start, n, sz) else best) }))"

text \<open>
  The inner loop, which shortens the run from its start while it is long enough and has more than
  two allocations; \<open>win\<close> are the chunks of the run. A run that ran out of chunks would be
  read beyond its end.
\<close>

fun shrink :: "int \<Rightarrow> Chunk list \<Rightarrow> run \<Rightarrow> best_run \<Rightarrow> (run \<times> best_run) option" where
  "shrink len [] r best = (case r of (start, tsize, sz, n) \<Rightarrow>
     if tsize \<ge> len \<and> n > 1 then None else Some (r, best))"
| "shrink len (c # win) (start, tsize, sz, n) best =
    (if tsize \<ge> len \<and> n > 1 then do {
       best \<leftarrow> better_run (start, tsize, sz, n) best;
       if n \<le> 2 then Some ((start, tsize, sz, n), best)
       else if free c then
         (case win of
            [] \<Rightarrow> None
          | d # win \<Rightarrow> shrink len win (start + 2, tsize - ck_length c - ck_length d, sz - used d, n - users d) best)
       else shrink len win (start + 1, tsize - ck_length c, sz - ck_length c, n - 1) best }
     else Some ((start, tsize, sz, n), best))"

text \<open>An allocation that must not be displaced ends the run; \<open>min_tol\<close> is the least toleration.\<close>

definition tolerated :: "Chunk \<Rightarrow> Chunk" where
  "tolerated c = c\<lparr>ck_tolerations := (if ck_tolerations c + 1 > 255 then 255 else ck_tolerations c + 1)\<rparr>"

definition displaceable :: "CoreSurfacePolicy \<Rightarrow> CoreSurfaceAllocation \<Rightarrow> bool" where
  "displaceable policy a \<longleftrightarrow> al_locks a = 0 \<and> \<not> al_policy a > policy \<and> al_policy a \<noteq> CSP_VIDEOONLY"

definition with_neighbours :: "Chunk list \<Rightarrow> nat \<Rightarrow> int \<Rightarrow> int" where
  "with_neighbours cs i sz =
    sz + (if i \<noteq> 0 \<and> free (cs ! (i - 1)) then ck_length (cs ! (i - 1)) else 0)
       + (if Suc i < length cs \<and> free (cs ! Suc i) then ck_length (cs ! Suc i) else 0)"

text \<open>The part of the loop that is shared by free and displaceable chunks.\<close>

definition extend_run :: "int \<Rightarrow> Chunk list \<Rightarrow> nat \<Rightarrow> displace_scan \<Rightarrow> displace_scan option" where
  "extend_run len cs i s = (if ds_smallest s \<noteq> None then Some s
     else case ds_multi s of
       None \<Rightarrow> Some (s\<lparr>ds_multi := Some (i, ck_length (cs ! i), used (cs ! i), users (cs ! i))\<rparr>)
     | Some (start, tsize, sz, n) \<Rightarrow> do {
         (r, best) \<leftarrow> shrink len (drop start (take (Suc i) cs))
           (start, tsize + ck_length (cs ! i), sz + used (cs ! i), n + users (cs ! i)) (ds_best s);
         Some (s\<lparr>ds_multi := Some r, ds_best := best\<rparr>) })"

definition displace_chunk :: "int \<Rightarrow> CoreSurfacePolicy \<Rightarrow> int \<Rightarrow> Chunk list \<Rightarrow> nat \<Rightarrow> displace_scan \<Rightarrow>
    (Chunk list \<times> displace_scan) option" where
  "displace_chunk len policy min_tol cs i s = (case ck_allocation (cs ! i) of
     None \<Rightarrow> map_option (Pair cs) (extend_run len cs i s)
   | Some a \<Rightarrow>
       if \<not> displaceable policy a then Some (cs, s\<lparr>ds_multi := None\<rparr>)
       else let cs = cs[i := tolerated (cs ! i)] in
         if al_policy a = policy \<and> ck_tolerations (cs ! i) < min_tol then Some (cs, s\<lparr>ds_multi := None\<rparr>)
         else let s = (if with_neighbours cs i (al_size a) \<ge> len \<and>
                          (case ds_smallest s of None \<Rightarrow> True | Some (j, sz) \<Rightarrow> sz > al_size a)
                       then s\<lparr>ds_smallest := Some (i, al_size a)\<rparr> else s)
              in map_option (Pair cs) (extend_run len cs i s))"

text \<open>The loop over the chunks from \<open>i\<close> on, \<open>k\<close> of them.\<close>

fun displace_loop :: "int \<Rightarrow> CoreSurfacePolicy \<Rightarrow> int \<Rightarrow> nat \<Rightarrow> nat \<Rightarrow> Chunk list \<Rightarrow> displace_scan \<Rightarrow>
    (Chunk list \<times> displace_scan) option" where
  "displace_loop len policy min_tol i 0 cs s = Some (cs, s)"
| "displace_loop len policy min_tol i (Suc k) cs s = do {
     (cs, s) \<leftarrow> displace_chunk len policy min_tol cs i s;
     displace_loop len policy min_tol (Suc i) k cs s }"

section \<open>Marking\<close>

definition muckout :: "Chunk \<Rightarrow> Chunk" where
  "muckout c = c\<lparr>ck_allocation := map_option (\<lambda>a. a\<lparr>al_muckout := True\<rparr>) (ck_allocation c)\<rparr>"

text \<open>The first \<open>n\<close> allocations; running off the end of the list is undefined.\<close>

fun muckout_first :: "int \<Rightarrow> Chunk list \<Rightarrow> Chunk list option" where
  "muckout_first n [] = (if n \<noteq> 0 then None else Some [])"
| "muckout_first n (c # cs) =
    (if n = 0 then Some (c # cs) else map_option ((#) (muckout c)) (muckout_first (n - users c) cs))"

definition dfb_surfacemanager_displace ::
    "SurfaceManager \<Rightarrow> CoreSurfacePolicy \<Rightarrow> int \<Rightarrow> (SurfaceManager \<times> DirectResult) option" where
  "dfb_surfacemanager_displace m policy len = do {
     t \<leftarrow> c_div (sm_min_toleration m) 8;
     (cs, s) \<leftarrow> displace_loop len policy (t + 2) 0 (length (sm_chunks m)) (sm_chunks m)
       \<lparr> ds_smallest = None, ds_multi = None, ds_best = None \<rparr>;
     case ds_smallest s of
       Some (i, sz) \<Rightarrow> Some (m\<lparr>sm_chunks := cs[i := muckout (cs ! i)]\<rparr>, DR_OK)
     | None \<Rightarrow> (case ds_best s of
         Some (start, n, sz) \<Rightarrow> do {
           rest \<leftarrow> muckout_first n (drop start cs);
           Some (m\<lparr>sm_chunks := take start cs @ rest\<rparr>, DR_OK) }
       | None \<Rightarrow> Some (m\<lparr>sm_chunks := cs\<rparr>, DFB_NOVIDEOMEMORY)) }"

section \<open>The runs examined\<close>

text \<open>What counts of a chunk: everything but its pitch and its tolerations.\<close>

definition key :: "Chunk \<Rightarrow> int \<times> int \<times> CoreSurfaceAllocation option" where
  "key c = (ck_offset c, ck_length c, ck_allocation c)"

lemma key_fields: "key c = key d \<longleftrightarrow> ck_offset c = ck_offset d \<and> ck_length c = ck_length d \<and> ck_allocation c = ck_allocation d"
  by (simp add: key_def)

lemma key_tolerated [simp]: "key (tolerated c) = key c"
  by (simp add: key_def tolerated_def)

lemma key_used: "key c = key d \<Longrightarrow> used c = used d \<and> users c = users d"
  by (simp add: key_fields used_def users_def)

definition lengths :: "Chunk list \<Rightarrow> int" where
  "lengths w = sum_list (map ck_length w)"

definition run_of :: "nat \<Rightarrow> Chunk list \<Rightarrow> run" where
  "run_of start w = (start, lengths w, sum_list (map used w), sum_list (map users w))"

definition eligible :: "CoreSurfacePolicy \<Rightarrow> Chunk list \<Rightarrow> bool" where
  "eligible policy w \<longleftrightarrow> (\<forall>c \<in> set w. case ck_allocation c of None \<Rightarrow> True | Some a \<Rightarrow> displaceable policy a)"

text \<open>The best run frees enough, and has two allocations at least.\<close>

definition best_ok :: "int \<Rightarrow> CoreSurfacePolicy \<Rightarrow> Chunk list \<Rightarrow> best_run \<Rightarrow> bool" where
  "best_ok len policy cs best = (case best of None \<Rightarrow> True
     | Some (start, n, sz) \<Rightarrow> \<exists>w post. drop start cs = w @ post \<and> start \<le> length cs \<and> lengths w \<ge> len \<and>
         sum_list (map users w) = n \<and> 2 \<le> n \<and> eligible policy w)"

lemma users_cases: "users c = 0 \<and> free c \<or> users c = 1 \<and> \<not> free c"
  by (simp add: users_def)

lemma users_pos: "0 \<le> sum_list (map users w)"
  by (induction w) (auto simp: users_def)

lemma used_pos: "\<forall>c \<in> set w. 0 < ck_length c \<Longrightarrow> 0 \<le> sum_list (map used w)"
  by (induction w) (auto simp: used_def)

lemma better_run_ok:
  assumes "best_ok len policy cs best" and "0 \<le> sz" and "0 \<le> n" and "sz * n < 2 ^ 31"
  shows "\<exists>best'. better_run (start, tsize, sz, n) best = Some best' \<and> (best' = best \<or> best' = Some (start, n, sz))"
proof (cases best)
  case None
  then show ?thesis by (simp add: better_run_def)
next
  case (Some b)
  obtain bstart bn bsz where b: "b = (bstart, bn, bsz)" by (cases b) auto
  have bn: "2 \<le> bn" using assms(1) Some b by (auto simp: best_ok_def)
  have prod: "0 \<le> sz * n" using assms(2,3) by simp
  then have "chk (sz * n) = Some (sz * n)" using assms(4) by (simp add: chk_def int32_def)
  moreover have q: "(sz * n) sdiv bn = (sz * n) div bn" using prod bn by (simp add: signed_divide_int_def sgn_if)
  moreover have "0 \<le> (sz * n) div bn" "(sz * n) div bn \<le> sz * n"
    using prod bn zdiv_mono2 [of "sz * n" 1 bn] by (auto simp: pos_imp_zdiv_nonneg_iff)
  then have "int32 ((sz * n) div bn)" using assms(4) by (simp add: int32_def)
  then have "c_div (sz * n) bn = Some ((sz * n) div bn)" using bn q by (simp add: c_div_def chk_def)
  ultimately show ?thesis by (auto simp: better_run_def Some b)
qed

definition bounded_run :: "Chunk list \<Rightarrow> bool" where
  "bounded_run w \<longleftrightarrow> (\<forall>c \<in> set w. 0 < ck_length c) \<and> sum_list (map used w) * sum_list (map users w) < 2 ^ 31"

lemma bounded_run_tl:
  assumes "bounded_run (c # w)"
  shows "bounded_run w"
proof -
  have pos: "0 \<le> used c" "0 \<le> users c" "0 \<le> sum_list (map used w)" "0 \<le> sum_list (map users w)"
    using assms used_pos [of w] users_pos [of w] by (auto simp: bounded_run_def used_def users_def)
  then have "sum_list (map used w) * sum_list (map users w) \<le> (used c + sum_list (map used w)) * (users c + sum_list (map users w))"
    by (intro mult_mono) auto
  then show ?thesis using assms by (auto simp: bounded_run_def)
qed

lemma shrink_stop:
  "\<not> (lengths w \<ge> len \<and> sum_list (map users w) > 1) \<Longrightarrow> shrink len w (run_of start w) best = Some (run_of start w, best)"
  by (cases w) (auto simp: run_of_def)

lemma shrink_spec:
  assumes "drop start cs = w @ post" and "start \<le> length cs" and "eligible policy w" and "successively apart w"
    and "bounded_run w" and "best_ok len policy cs best"
  shows "\<exists>k best'. k \<le> length w \<and> shrink len w (run_of start w) best = Some (run_of (start + k) (drop k w), best') \<and>
     best_ok len policy cs best'"
  using assms
proof (induction "length w" arbitrary: w start best rule: less_induct)
  case less
  let ?n = "sum_list (map users w)" and ?sz = "sum_list (map used w)"
  show ?case
  proof (cases "lengths w \<ge> len \<and> ?n > 1")
    case False
    then show ?thesis using less.prems(6) shrink_stop [OF False] by (intro exI [of _ 0] exI [of _ best]) auto
  next
    case True
    then obtain c win where w: "w = c # win" by (cases w) auto
    have pos: "\<forall>c \<in> set w. 0 < ck_length c" and prod: "?sz * ?n < 2 ^ 31" using less.prems(5) by (auto simp: bounded_run_def)
    obtain best' where best': "better_run (start, lengths w, ?sz, ?n) best = Some best'"
        "best' = best \<or> best' = Some (start, ?n, ?sz)"
      using better_run_ok [OF less.prems(6) used_pos [OF pos] users_pos prod] by blast
    have ok: "best_ok len policy cs best'"
      using best'(2)
    proof
      assume "best' = Some (start, ?n, ?sz)"
      then show ?thesis using less.prems(1-3) True unfolding best_ok_def by auto
    qed (use less.prems(6) in simp)
    have step: "shrink len w (run_of start w) best =
       (if ?n \<le> 2 then Some (run_of start w, best')
        else if free c then (case win of [] \<Rightarrow> None
          | d # win \<Rightarrow> shrink len win (start + 2, lengths w - ck_length c - ck_length d, ?sz - used d, ?n - users d) best')
        else shrink len win (start + 1, lengths w - ck_length c, ?sz - ck_length c, ?n - 1) best')"
      using True best'(1) unfolding w run_of_def by (cases win) simp_all
    consider (two) "?n \<le> 2" | (free) "?n > 2" "free c" | (occ) "?n > 2" "\<not> free c" by linarith
    then show ?thesis
    proof cases
      case two
      then show ?thesis using step ok by (intro exI [of _ 0] exI [of _ best']) auto
    next
      case free
      then have "sum_list (map users win) > 2" using w by (simp add: users_def)
      then obtain d win' where win: "win = d # win'" by (cases win) auto
      have "\<not> free d" using less.prems(4) free w win by auto
      then have run: "run_of (start + 2) win' = (start + 2, lengths w - ck_length c - ck_length d, ?sz - used d, ?n - users d)"
        using free by (auto simp: run_of_def w win lengths_def used_def users_def)
      have "drop (start + 2) cs = win' @ post"
        using less.prems(1) w win by (metis add.commute append_Cons drop0 drop_Suc_Cons drop_drop numeral_2_eq_2)
      moreover have "start + 2 \<le> length cs"
        using arg_cong [OF less.prems(1), of length] w win by simp
      moreover have "bounded_run win'" using less.prems(5) w win bounded_run_tl by metis
      moreover have "eligible policy win'" "successively apart win'"
        using less.prems(3,4) w win by (auto simp: eligible_def successively_Cons)
      ultimately obtain k b where k: "k \<le> length win'"
          "shrink len win' (run_of (start + 2) win') best' = Some (run_of (start + 2 + k) (drop k win'), b)"
          "best_ok len policy cs b"
        using less.hyps [of win' "start + 2" best'] ok w win by auto
      have "shrink len w (run_of start w) best = shrink len win' (run_of (start + 2) win') best'"
        using step free unfolding run win by auto
      with k have "shrink len w (run_of start w) best = Some (run_of (start + Suc (Suc k)) (drop (Suc (Suc k)) w), b)"
        by (simp add: w win)
      then show ?thesis using k(1,3) w win by (intro exI [of _ "Suc (Suc k)"] exI [of _ b]) auto
    next
      case occ
      have run: "run_of (start + 1) win = (start + 1, lengths w - ck_length c, ?sz - ck_length c, ?n - 1)"
        using occ by (auto simp: run_of_def w lengths_def used_def users_def)
      have "drop (start + 1) cs = win @ post"
        using less.prems(1) w by (metis Suc_eq_plus1 append_Cons drop_Suc list.sel(3) tl_drop)
      moreover have "start + 1 \<le> length cs"
        using arg_cong [OF less.prems(1), of length] w by simp
      moreover have "bounded_run win" using less.prems(5) w bounded_run_tl by metis
      moreover have "eligible policy win" "successively apart win"
        using less.prems(3,4) w by (auto simp: eligible_def successively_Cons)
      ultimately obtain k b where k: "k \<le> length win"
          "shrink len win (run_of (start + 1) win) best' = Some (run_of (start + 1 + k) (drop k win), b)"
          "best_ok len policy cs b"
        using less.hyps [of win "start + 1" best'] ok w by auto
      have "shrink len w (run_of start w) best = shrink len win (run_of (start + 1) win) best'"
        using step occ unfolding run by auto
      with k have "shrink len w (run_of start w) best = Some (run_of (start + Suc k) (drop (Suc k) w), b)"
        by (simp add: w)
      then show ?thesis using k(1,3) w by (intro exI [of _ "Suc k"] exI [of _ b]) auto
    qed
  qed
qed

section \<open>The scan keeps its promises\<close>

lemma key_sums:
  "map key w = map key w' \<Longrightarrow> lengths w = lengths w' \<and> map used w = map used w' \<and> map users w = map users w' \<and>
     (eligible policy w \<longleftrightarrow> eligible policy w')"
proof (induction w arbitrary: w')
  case (Cons c w)
  then obtain c' w'' where w': "w' = c' # w''" "key c = key c'" "map key w = map key w''" by auto
  then show ?case using Cons.IH [of w''] key_used [of c c'] by (auto simp: lengths_def eligible_def key_fields)
qed (simp add: lengths_def eligible_def)

definition layout_ok :: "Chunk list \<Rightarrow> bool" where
  "layout_ok cs \<longleftrightarrow> successively apart cs \<and> bounded_run cs"

lemma layout_ok_key:
  assumes "map key cs = map key cs'" and "layout_ok cs"
  shows "layout_ok cs'"
proof -
  let ?apart = "\<lambda>k k'. \<not> (snd (snd k) = None \<and> snd (snd k') = (None :: CoreSurfaceAllocation option))"
  have "successively apart ds \<longleftrightarrow> successively ?apart (map key ds)" for ds
    by (simp add: successively_map key_def)
  then have "successively apart cs \<longleftrightarrow> successively apart cs'" using assms(1) by (simp only:)
  moreover have "(\<forall>c \<in> set ds. 0 < ck_length c) \<longleftrightarrow> (\<forall>k \<in> set (map key ds). 0 < fst (snd k))" for ds
    by (simp add: key_def)
  then have "(\<forall>c \<in> set cs. 0 < ck_length c) \<longleftrightarrow> (\<forall>c \<in> set cs'. 0 < ck_length c)" using assms(1) by (simp only:)
  moreover have "map used cs = map used cs'" "map users cs = map users cs'" using key_sums [OF assms(1)] by blast+
  ultimately show ?thesis using assms(2) unfolding layout_ok_def bounded_run_def by metis
qed

lemma bounded_run_sub:
  assumes "bounded_run (xs @ w @ ys)"
  shows "bounded_run w"
proof -
  have pos: "\<forall>c \<in> set (xs @ w @ ys). 0 < ck_length c" using assms by (simp add: bounded_run_def)
  then have "0 \<le> sum_list (map used xs)" "0 \<le> sum_list (map used w)" "0 \<le> sum_list (map used ys)"
    using used_pos by simp_all
  then have "sum_list (map used w) * sum_list (map users w)
      \<le> sum_list (map used (xs @ w @ ys)) * sum_list (map users (xs @ w @ ys))"
    using users_pos [of xs] users_pos [of w] users_pos [of ys] by (intro mult_mono) auto
  then show ?thesis using assms pos by (simp add: bounded_run_def)
qed

lemma window_split:
  assumes "start \<le> k"
  shows "cs = take start cs @ drop start (take k cs) @ drop k cs"
proof -
  have "take k cs = take start cs @ drop start (take k cs)"
    using append_take_drop_id [of start "take k cs"] assms by (simp add: min.absorb1)
  then show ?thesis using append_take_drop_id [of k cs] by (metis append.assoc)
qed

lemma layout_ok_window:
  assumes "layout_ok cs" and "start \<le> k" and "k \<le> length cs"
  shows "successively apart (drop start (take k cs)) \<and> bounded_run (drop start (take k cs))"
proof -
  have split: "cs = take start cs @ drop start (take k cs) @ drop k cs" by (rule window_split [OF assms(2)])
  then have "successively apart (take start cs @ drop start (take k cs) @ drop k cs)"
    and "bounded_run (take start cs @ drop start (take k cs) @ drop k cs)"
    using assms(1) by (simp_all add: layout_ok_def)
  then show ?thesis using bounded_run_sub by (auto simp: successively_append_iff)
qed

definition multi_ok :: "CoreSurfacePolicy \<Rightarrow> Chunk list \<Rightarrow> nat \<Rightarrow> run option \<Rightarrow> bool" where
  "multi_ok policy cs i r = (case r of None \<Rightarrow> True
     | Some r \<Rightarrow> \<exists>start \<le> i. r = run_of start (drop start (take i cs)) \<and> eligible policy (drop start (take i cs)))"

definition smallest_ok :: "int \<Rightarrow> CoreSurfacePolicy \<Rightarrow> Chunk list \<Rightarrow> (nat \<times> int) option \<Rightarrow> bool" where
  "smallest_ok len policy cs r = (case r of None \<Rightarrow> True
     | Some (i, sz) \<Rightarrow> i < length cs \<and> (\<exists>a. ck_allocation (cs ! i) = Some a \<and> displaceable policy a \<and>
         len \<le> with_neighbours cs i (al_size a)))"

definition scan_ok :: "int \<Rightarrow> CoreSurfacePolicy \<Rightarrow> Chunk list \<Rightarrow> nat \<Rightarrow> displace_scan \<Rightarrow> bool" where
  "scan_ok len policy cs i s \<longleftrightarrow> layout_ok cs \<and> smallest_ok len policy cs (ds_smallest s) \<and>
     (ds_smallest s \<noteq> None \<or> multi_ok policy cs i (ds_multi s)) \<and> best_ok len policy cs (ds_best s)"

lemma key_nth:
  assumes "map key cs = map key cs'" and "i < length cs"
  shows "key (cs ! i) = key (cs' ! i) \<and> length cs' = length cs"
  using assms by (metis length_map nth_map)

lemma with_neighbours_key:
  assumes "map key cs = map key cs'" and "i < length cs"
  shows "with_neighbours cs i sz = with_neighbours cs' i sz"
proof -
  have "length cs' = length cs" using assms key_nth by blast
  moreover have "i \<noteq> 0 \<Longrightarrow> key (cs ! (i - 1)) = key (cs' ! (i - 1))" using key_nth [OF assms(1), of "i - 1"] assms(2) by simp
  moreover have "Suc i < length cs \<Longrightarrow> key (cs ! Suc i) = key (cs' ! Suc i)" using key_nth [OF assms(1), of "Suc i"] by simp
  ultimately show ?thesis by (auto simp: with_neighbours_def key_fields)
qed

lemma scan_ok_key:
  assumes keys: "map key cs = map key cs'" and ok: "scan_ok len policy cs i s"
  shows "scan_ok len policy cs' i s"
proof -
  have window: "map key (drop a (take b cs)) = map key (drop a (take b cs'))" for a b
    using keys by (simp flip: drop_map take_map)
  have "multi_ok policy cs i r \<Longrightarrow> multi_ok policy cs' i r" for r
    using key_sums [OF window] by (fastforce simp: multi_ok_def run_of_def split: option.splits)
  moreover have "smallest_ok len policy cs r \<Longrightarrow> smallest_ok len policy cs' r" for r
    using key_nth [OF keys] with_neighbours_key [OF keys]
    by (fastforce simp: smallest_ok_def key_fields split: option.splits)
  moreover have "best_ok len policy cs best \<Longrightarrow> best_ok len policy cs' best" for best
  proof (cases best)
    case (Some b)
    obtain start n sz where b: "b = (start, n, sz)" by (cases b) auto
    assume "best_ok len policy cs best"
    then obtain w post where w: "drop start cs = w @ post" "start \<le> length cs" "lengths w \<ge> len"
        "sum_list (map users w) = n" "2 \<le> n" "eligible policy w" using Some b by (auto simp: best_ok_def)
    have "map key (drop start cs') = map key w @ map key post"
      using keys w(1) by (metis drop_map map_append)
    then obtain w' post' where w': "drop start cs' = w' @ post'" "map key w' = map key w" by (auto simp: map_eq_append_conv)
    have "length cs' = length cs" using keys by (metis length_map)
    then show ?thesis
      using w' w key_sums [OF w'(2)] Some b unfolding best_ok_def by auto
  qed (simp add: best_ok_def)
  ultimately show ?thesis using ok layout_ok_key [OF keys] by (auto simp: scan_ok_def)
qed

lemma extend_run_ok:
  assumes ok: "scan_ok len policy cs i s" and i: "i < length cs" and el: "eligible policy [cs ! i]"
  shows "\<exists>s'. extend_run len cs i s = Some s' \<and> scan_ok len policy cs (Suc i) s' \<and> ds_smallest s' = ds_smallest s"
proof (cases "ds_smallest s")
  case (Some a)
  then show ?thesis using ok by (auto simp: extend_run_def scan_ok_def)
next
  case none: None
  show ?thesis
  proof (cases "ds_multi s")
    case None
    have "drop i (take (Suc i) cs) = [cs ! i]" using i by (simp add: take_Suc_conv_app_nth)
    then have "multi_ok policy cs (Suc i) (Some (i, ck_length (cs ! i), used (cs ! i), users (cs ! i)))"
      using el by (auto simp: multi_ok_def run_of_def lengths_def intro!: exI [of _ i])
    then show ?thesis using none None ok by (auto simp: extend_run_def scan_ok_def)
  next
    case (Some r)
    then obtain start where start: "start \<le> i" "r = run_of start (drop start (take i cs))" "eligible policy (drop start (take i cs))"
      using ok none by (auto simp: scan_ok_def multi_ok_def)
    define w where "w = drop start (take (Suc i) cs)"
    have w: "w = drop start (take i cs) @ [cs ! i]" using i start(1) by (simp add: w_def take_Suc_conv_app_nth)
    have layout: "successively apart w" "bounded_run w"
      using layout_ok_window [of cs start "Suc i"] ok i start(1) by (auto simp: scan_ok_def w_def)
    have "eligible policy w" using start(3) el by (auto simp: w eligible_def)
    moreover have "drop start cs = w @ drop (Suc i) cs"
      using arg_cong [OF window_split [of start "Suc i" cs], of "drop start"] start(1) i by (simp add: w_def)
    moreover have "start \<le> length cs" "best_ok len policy cs (ds_best s)" using start(1) i ok by (auto simp: scan_ok_def)
    ultimately obtain k best where k: "k \<le> length w"
        "shrink len w (run_of start w) (ds_best s) = Some (run_of (start + k) (drop k w), best)" "best_ok len policy cs best"
      using shrink_spec [of start cs w "drop (Suc i) cs" policy len "ds_best s"] layout by blast
    obtain t z n where tzn: "r = (start, t, z, n)" using start(2) by (simp add: run_of_def)
    then have "(start, t + ck_length (cs ! i), z + used (cs ! i), n + users (cs ! i)) = run_of start w"
      using start(2) by (simp add: w run_of_def lengths_def)
    then have ext: "extend_run len cs i s = Some (s\<lparr>ds_multi := Some (run_of (start + k) (drop k w)), ds_best := best\<rparr>)"
      using none Some tzn k(2) by (simp add: extend_run_def w_def)
    have "start + k \<le> Suc i" using k(1) start(1) i by (simp add: w_def)
    moreover have "drop k w = drop (start + k) (take (Suc i) cs)" by (simp add: w_def add.commute)
    moreover have "eligible policy (drop k w)"
      using \<open>eligible policy w\<close> by (auto simp: eligible_def dest: in_set_dropD)
    ultimately have "multi_ok policy cs (Suc i) (Some (run_of (start + k) (drop k w)))"
      unfolding multi_ok_def by auto
    then show ?thesis using ext ok k(3) none by (auto simp: scan_ok_def)
  qed
qed

lemma displace_chunk_ok:
  assumes ok: "scan_ok len policy cs i s" and i: "i < length cs"
  shows "\<exists>cs' s'. displace_chunk len policy min_tol cs i s = Some (cs', s') \<and> map key cs' = map key cs \<and>
     scan_ok len policy cs' (Suc i) s'"
proof (cases "ck_allocation (cs ! i)")
  case None
  then have "eligible policy [cs ! i]" by (simp add: eligible_def)
  from extend_run_ok [OF ok i this] show ?thesis using None by (auto simp: displace_chunk_def)
next
  case (Some a)
  have reset: "scan_ok len policy ds (Suc i) (t\<lparr>ds_multi := None\<rparr>)" if "scan_ok len policy ds i t" for ds t
    using that by (auto simp: scan_ok_def multi_ok_def)
  define cs' where "cs' = cs[i := tolerated (cs ! i)]"
  have keys: "map key cs = map key cs'"
    using list_update_id [of "map key cs" i] i by (simp add: cs'_def map_update)
  have ok': "scan_ok len policy cs' i s" using scan_ok_key [OF keys ok] .
  have i': "i < length cs'" and alloc: "ck_allocation (cs' ! i) = Some a"
    using i Some by (simp_all add: cs'_def tolerated_def)
  show ?thesis
  proof (cases "displaceable policy a")
    case False
    then show ?thesis using Some reset [OF ok] by (simp add: displace_chunk_def)
  next
    case disp: True
    show ?thesis
    proof (cases "al_policy a = policy \<and> ck_tolerations (cs' ! i) < min_tol")
      case True
      then show ?thesis using Some disp reset [OF ok'] keys by (simp add: displace_chunk_def Let_def flip: cs'_def)
    next
      case False
      define s' where "s' = (if with_neighbours cs' i (al_size a) \<ge> len \<and>
          (case ds_smallest s of None \<Rightarrow> True | Some (j, sz) \<Rightarrow> sz > al_size a)
          then s\<lparr>ds_smallest := Some (i, al_size a)\<rparr> else s)"
      have "scan_ok len policy cs' i s'"
        using ok' disp alloc i' by (auto simp: s'_def scan_ok_def smallest_ok_def)
      moreover have "eligible policy [cs' ! i]" using disp alloc by (simp add: eligible_def)
      ultimately obtain t where "extend_run len cs' i s' = Some t" "scan_ok len policy cs' (Suc i) t"
        using extend_run_ok i' by blast
      moreover have "displace_chunk len policy min_tol cs i s = map_option (Pair cs') (extend_run len cs' i s')"
        using Some disp False unfolding displace_chunk_def s'_def cs'_def Let_def by auto
      ultimately show ?thesis using keys by auto
    qed
  qed
qed

lemma displace_loop_ok:
  "scan_ok len policy cs i s \<Longrightarrow> i + k = length cs \<Longrightarrow>
   \<exists>cs' s'. displace_loop len policy min_tol i k cs s = Some (cs', s') \<and> map key cs' = map key cs \<and>
     scan_ok len policy cs' (length cs) s'"
proof (induction k arbitrary: i cs s)
  case (Suc k)
  then obtain cs' s' where step: "displace_chunk len policy min_tol cs i s = Some (cs', s')" "map key cs' = map key cs"
      "scan_ok len policy cs' (Suc i) s'"
    using displace_chunk_ok [of len policy cs i s min_tol] by auto
  moreover have "length cs' = length cs" using step(2) by (metis length_map)
  ultimately show ?case using Suc.IH [of cs' "Suc i" s'] Suc.prems by auto
qed auto

section \<open>What marking frees\<close>

text \<open>The blocks that stay when the marked allocations are thrown out.\<close>

definition survives :: "Chunk \<Rightarrow> bool" where
  "survives c \<longleftrightarrow> (case ck_allocation c of None \<Rightarrow> False | Some a \<Rightarrow> \<not> al_muckout a)"

definition survivors :: "Chunk list \<Rightarrow> (nat \<times> int \<times> int) set" where
  "survivors cs = blocks (filter survives cs)"

lemma survivors_append [simp]: "survivors (xs @ ys) = survivors xs \<union> survivors ys"
  by (simp add: survivors_def)

lemma survivors_Cons: "survivors (c # cs) = (if survives c then block_of c else {}) \<union> survivors cs"
  by (simp add: survivors_def)

lemma survivors_Nil [simp]: "survivors [] = {}"
  by (simp add: survivors_def)

lemma survivors_blocks: "survivors cs \<subseteq> blocks cs"
  by (auto simp: survivors_def blocks_def)

lemma survives_muckout [simp]: "\<not> survives (muckout c)"
  by (auto simp: survives_def muckout_def split: option.split)

lemma survives_free [simp]: "free c \<Longrightarrow> \<not> survives c"
  by (simp add: survives_def)

text \<open>A chunk before and after: the same, or a displaceable allocation newly marked.\<close>

definition may_mark :: "CoreSurfacePolicy \<Rightarrow> Chunk \<Rightarrow> Chunk \<Rightarrow> bool" where
  "may_mark policy c c' \<longleftrightarrow> key c' = key c \<or>
     (\<exists>a. ck_allocation c = Some a \<and> displaceable policy a \<and> key c' = key (muckout c))"

lemma may_mark_refl [simp]: "may_mark policy c c"
  by (simp add: may_mark_def)

lemma may_mark_eligible: "eligible policy [c] \<Longrightarrow> may_mark policy c (muckout c)"
  by (cases "ck_allocation c") (auto simp: may_mark_def eligible_def muckout_def key_def)

lemma all2_may_mark_refl: "list_all2 (may_mark policy) cs cs"
  by (simp add: list.rel_refl)

lemma all2_may_mark_key:
  "map key cs = map key ds \<Longrightarrow> list_all2 (may_mark policy) ds es \<Longrightarrow> list_all2 (may_mark policy) cs es"
proof (induction cs arbitrary: ds es)
  case (Cons c cs)
  then obtain d ds' e es' where d: "ds = d # ds'" "es = e # es'" "key c = key d" "map key cs = map key ds'"
      "may_mark policy d e" "list_all2 (may_mark policy) ds' es'" by (auto simp: list_all2_Cons1)
  have "may_mark policy c e"
    using d(3,5) by (auto simp: may_mark_def key_fields muckout_def)
  then show ?case using Cons.IH [OF d(4,6)] d(1,2) by simp
qed auto

lemma users_zero: "sum_list (map users w) = 0 \<Longrightarrow> \<forall>d \<in> set w. free d"
proof (induction w)
  case (Cons c w)
  then have "users c = 0" "sum_list (map users w) = 0" using users_pos [of w] users_cases [of c] by auto
  then show ?case using Cons.IH users_cases [of c] by auto
qed simp

lemma muckout_first_ok:
  "sum_list (map users w) = n \<Longrightarrow> eligible policy w \<Longrightarrow>
   \<exists>w'. muckout_first n (w @ post) = Some (w' @ post) \<and> survivors w' = {} \<and> list_all2 (may_mark policy) w w'"
proof (induction w arbitrary: n)
  case Nil
  then show ?case by (cases post) auto
next
  case (Cons c w)
  have nn: "0 \<le> users c" "0 \<le> sum_list (map users w)" using users_pos [of w] by (auto simp: users_def)
  show ?case
  proof (cases "n = 0")
    case True
    then have "\<forall>d \<in> set (c # w). free d" using Cons.prems(1) users_zero [of "c # w"] by simp
    then have "filter survives (c # w) = []" by (auto simp: filter_empty_conv)
    then have "survivors (c # w) = {}" by (simp add: survivors_def)
    then show ?thesis using True all2_may_mark_refl [of policy "c # w"] by (intro exI [of _ "c # w"]) auto
  next
    case False
    obtain w' where w': "muckout_first (n - users c) (w @ post) = Some (w' @ post)" "survivors w' = {}"
        "list_all2 (may_mark policy) w w'"
      using Cons.IH [of "n - users c"] Cons.prems by (auto simp: eligible_def)
    have "may_mark policy c (muckout c)" using Cons.prems(2) by (intro may_mark_eligible) (simp add: eligible_def)
    then show ?thesis
      using w' False by (intro exI [of _ "muckout c # w'"]) (simp add: survivors_Cons)
  qed
qed

text \<open>Neighbouring chunks that hold no surviving block leave a free range of their total length.\<close>

lemma window_free_range:
  assumes "tiles off (pre @ w @ post) len" and "n \<le> lengths w" and "w \<noteq> []" and "0 \<le> n"
    and "B \<subseteq> blocks pre \<union> blocks post"
  shows "free_range off len B (ck_offset (hd w)) n"
proof -
  obtain x y where xy: "tiles off pre x" "tiles x w y" "tiles y post len" using assms(1) by (auto simp: tiles_append)
  have "ck_offset (hd w) = x" using xy(2) assms(3) by (cases w) auto
  moreover have "y = x + lengths w" using tiles_sum [OF xy(2)] by (simp add: lengths_def)
  moreover have "o' + n' \<le> x \<or> y \<le> o'" if "(a, o', n') \<in> B" for a o' n'
    using that assms(5) tiles_bounds [OF xy(1)] tiles_bounds [OF xy(3)]
    by (fastforce simp: blocks_def block_of_def split: option.splits)
  moreover have "off \<le> x" "y \<le> len" using tiles_bounds [OF xy(1)] tiles_bounds [OF xy(3)] by auto
  ultimately show ?thesis using assms(2,4) by (fastforce simp: free_range_def)
qed

lemma tiles_key: "map key cs = map key ds \<Longrightarrow> tiles a cs b \<Longrightarrow> tiles a ds b"
proof (induction cs arbitrary: a ds)
  case (Cons c cs)
  then obtain d ds' where ds: "ds = d # ds'" "key c = key d" "map key cs = map key ds'" by auto
  then have "ck_offset d = a" "0 < ck_length d" "tiles (a + ck_length d) cs b"
    using Cons.prems(2) by (auto simp: key_fields)
  then show ?case using Cons.IH [OF ds(3)] ds(1) by simp
qed auto

lemma free_tail:
  obtains pre l where "P = pre @ l" and "survivors l = {}"
    and "lengths l = (if P \<noteq> [] \<and> free (last P) then ck_length (last P) else 0)"
proof (cases "P \<noteq> [] \<and> free (last P)")
  case True
  then have "P = butlast P @ [last P]" by simp
  with True that [of "butlast P" "[last P]"] show ?thesis by (auto simp: survivors_Cons lengths_def)
next
  case False
  with that [of P "[]"] show ?thesis by (auto simp: lengths_def)
qed

lemma free_head:
  obtains r post where "Q = r @ post" and "survivors r = {}"
    and "lengths r = (if Q \<noteq> [] \<and> free (hd Q) then ck_length (hd Q) else 0)"
proof (cases "Q \<noteq> [] \<and> free (hd Q)")
  case True
  then have "Q = [hd Q] @ tl Q" by simp
  with True that [of "[hd Q]" "tl Q"] show ?thesis by (auto simp: survivors_Cons lengths_def)
next
  case False
  with that [of "[]" Q] show ?thesis by (auto simp: lengths_def)
qed

lemma lengths_append: "lengths (xs @ ys) = lengths xs + lengths ys"
  by (simp add: lengths_def)

lemma smallest_frees:
  assumes "tiles off cs L" and "i < length cs" and "sz \<le> ck_length (cs ! i)" and "n \<le> with_neighbours cs i sz" and "0 \<le> n"
  shows "\<exists>x. free_range off L (survivors (cs[i := muckout (cs ! i)])) x n"
proof -
  define P Q where "P = take i cs" and "Q = drop (Suc i) cs"
  have cs: "cs = P @ cs ! i # Q" "length P = i" using assms(2) id_take_nth_drop [OF assms(2)] by (auto simp: P_def Q_def)
  have last: "P \<noteq> [] \<longleftrightarrow> i \<noteq> 0" "i \<noteq> 0 \<Longrightarrow> last P = cs ! (i - 1)"
    using assms(2) by (cases i; auto simp: P_def take_Suc_conv_app_nth)+
  have hd: "Q \<noteq> [] \<longleftrightarrow> Suc i < length cs" "Suc i < length cs \<Longrightarrow> hd Q = cs ! Suc i"
    by (auto simp: Q_def hd_drop_conv_nth)
  obtain pre l where l: "P = pre @ l" "survivors l = {}"
      "lengths l = (if P \<noteq> [] \<and> free (last P) then ck_length (last P) else 0)" using free_tail .
  obtain r post where r: "Q = r @ post" "survivors r = {}"
      "lengths r = (if Q \<noteq> [] \<and> free (hd Q) then ck_length (hd Q) else 0)" using free_head .
  have "lengths l = (if i \<noteq> 0 \<and> free (cs ! (i - 1)) then ck_length (cs ! (i - 1)) else 0)"
    using l(3) last by (cases "i = 0") auto
  moreover have "lengths r = (if Suc i < length cs \<and> free (cs ! Suc i) then ck_length (cs ! Suc i) else 0)"
    using r(3) hd by (cases "Suc i < length cs") auto
  ultimately have "with_neighbours cs i sz = sz + lengths l + lengths r"
    by (simp only: with_neighbours_def)
  then have "n \<le> lengths (l @ cs ! i # r)" using assms(3,4) by (simp add: lengths_append) (simp add: lengths_def)
  moreover have "tiles off (pre @ (l @ cs ! i # r) @ post) L" using assms(1) cs(1) l(1) r(1) by (metis append.assoc append_Cons)
  moreover have "cs[i := muckout (cs ! i)] = pre @ l @ muckout (cs ! i) # r @ post"
    using cs l(1) r(1) by (metis append.assoc list_update_length)
  then have "survivors (cs[i := muckout (cs ! i)]) \<subseteq> blocks pre \<union> blocks post"
    using l(2) r(2) survivors_blocks by (auto simp: survivors_Cons)
  ultimately show ?thesis using window_free_range [of off pre "l @ cs ! i # r" post L n] assms(5) by blast
qed

lemma best_run_frees:
  assumes "tiles off cs L" and "best_ok n policy cs (Some (start, k, sz))" and "0 < n"
  shows "\<exists>rest. muckout_first k (drop start cs) = Some rest \<and> list_all2 (may_mark policy) cs (take start cs @ rest) \<and>
    (\<exists>x. free_range off L (survivors (take start cs @ rest)) x n)"
proof -
  obtain w post where w: "drop start cs = w @ post" "start \<le> length cs" "n \<le> lengths w" "sum_list (map users w) = k" "2 \<le> k"
      "eligible policy w" using assms(2) by (auto simp: best_ok_def)
  obtain w' where w': "muckout_first k (w @ post) = Some (w' @ post)" "survivors w' = {}" "list_all2 (may_mark policy) w w'"
    using muckout_first_ok [OF w(4,6)] by blast
  have cs: "cs = take start cs @ w @ post" using w(1) append_take_drop_id [of start cs] by simp
  have "list_all2 (may_mark policy) (take start cs @ w @ post) (take start cs @ w' @ post)"
    using w'(3) by (intro list_all2_appendI all2_may_mark_refl)
  then have marked: "list_all2 (may_mark policy) cs (take start cs @ w' @ post)" using cs by simp
  have "w \<noteq> []" using w(4,5) by auto
  moreover have "survivors (take start cs @ w' @ post) \<subseteq> blocks (take start cs) \<union> blocks post"
    using w'(2) survivors_blocks by auto
  moreover have "tiles off (take start cs @ w @ post) L" using assms(1) cs by simp
  ultimately have "free_range off L (survivors (take start cs @ w' @ post)) (ck_offset (hd w)) n"
    using window_free_range w(3) assms(3) by (metis less_imp_le)
  then show ?thesis using w(1) w'(1) marked by auto
qed

lemma users_ids: "sum_list (map users cs) = int (length (allocation_ids cs))"
  by (induction cs) (auto simp: users_def split: option.split)

lemma used_le: "\<forall>c \<in> set cs. 0 < ck_length c \<Longrightarrow> sum_list (map used cs) \<le> lengths cs"
  by (induction cs) (auto simp: used_def lengths_def)

lemma heap_inv_layout:
  assumes inv: "heap_inv off L m" and bound: "(L - off) * sm_min_toleration m < 2 ^ 31"
  shows "layout_ok (sm_chunks m) \<and> 0 \<le> sm_min_toleration m \<and> sm_min_toleration m < 2 ^ 31"
proof -
  have tiles: "tiles off (sm_chunks m) L" and tol: "sm_min_toleration m = sum_list (map users (sm_chunks m))"
    using inv by (auto simp: heap_inv_def users_ids)
  then have pos: "\<forall>c \<in> set (sm_chunks m). 0 < ck_length c" and len: "lengths (sm_chunks m) = L - off"
    using tiles_bounds tiles_sum by (auto simp: lengths_def)
  have "sum_list (map used (sm_chunks m)) * sum_list (map users (sm_chunks m)) \<le> (L - off) * sm_min_toleration m"
    using used_le [OF pos] len tol users_pos [of "sm_chunks m"] by (simp add: mult_right_mono)
  moreover have "1 \<le> L - off"
    using tiles inv tiles_bounds [OF tiles] by (cases "sm_chunks m") (auto simp: heap_inv_def dest!: tiles_bounds)
  then have "1 * sm_min_toleration m \<le> (L - off) * sm_min_toleration m"
    using tol users_pos [of "sm_chunks m"] by (intro mult_right_mono) auto
  ultimately show ?thesis
    using inv pos bound tol users_pos [of "sm_chunks m"] by (simp add: layout_ok_def bounded_run_def heap_inv_def)
qed

text \<open>
  C25: on a heap in order the scan ends without running off the list or overflowing. If it
  succeeds, throwing out the allocations it marked leaves a free range of the length
  asked for; it marks only allocations that are not locked, not video-only and of no higher
  policy. If it fails it marks nothing.
\<close>

theorem displace_frees_enough:
  assumes "heap_inv off L m" and "0 < n" and "(L - off) * sm_min_toleration m < 2 ^ 31"
    and "\<forall>c \<in> set (sm_chunks m). \<forall>a. ck_allocation c = Some a \<longrightarrow> al_size a \<le> ck_length c"
  shows "\<exists>m' r. dfb_surfacemanager_displace m policy n = Some (m', r) \<and>
     list_all2 (may_mark policy) (sm_chunks m) (sm_chunks m') \<and>
     (r = DR_OK \<and> (\<exists>x. free_range off L (survivors (sm_chunks m')) x n) \<or>
      r = DFB_NOVIDEOMEMORY \<and> map key (sm_chunks m') = map key (sm_chunks m))"
proof -
  let ?cs = "sm_chunks m" and ?s = "\<lparr> ds_smallest = None, ds_multi = None, ds_best = None \<rparr>"
  note layout = heap_inv_layout [OF assms(1,3)]
  obtain t where t: "c_div (sm_min_toleration m) 8 = Some t"
  proof -
    have "sm_min_toleration m sdiv 8 = sm_min_toleration m div 8" using layout by (simp add: signed_divide_int_def sgn_if)
    moreover have "0 \<le> sm_min_toleration m div 8" "sm_min_toleration m div 8 \<le> sm_min_toleration m"
      using layout zdiv_mono2 [of "sm_min_toleration m" 1 8] by (simp_all add: pos_imp_zdiv_nonneg_iff)
    ultimately show ?thesis using that layout by (simp add: c_div_def chk_def int32_def)
  qed
  have "scan_ok n policy ?cs 0 ?s" using layout by (simp add: scan_ok_def smallest_ok_def multi_ok_def best_ok_def)
  then obtain cs s where loop: "displace_loop n policy (t + 2) 0 (length ?cs) ?cs ?s = Some (cs, s)"
      "map key cs = map key ?cs" "scan_ok n policy cs (length ?cs) s"
    using displace_loop_ok [of n policy ?cs 0 ?s "length ?cs" "t + 2"] by auto
  have tiles: "tiles off cs L" using tiles_key [OF loop(2) [symmetric]] assms(1) by (simp add: heap_inv_def)
  show ?thesis
  proof (cases "ds_smallest s")
    case (Some b)
    obtain i sz where b: "b = (i, sz)" by (cases b)
    obtain a where a: "i < length cs" "ck_allocation (cs ! i) = Some a" "displaceable policy a" "n \<le> with_neighbours cs i (al_size a)"
      using loop(3) Some b by (auto simp: scan_ok_def smallest_ok_def)
    have "key (cs ! i) = key (?cs ! i)" "i < length ?cs" using key_nth [OF loop(2) a(1)] a(1) by auto
    then have "al_size a \<le> ck_length (cs ! i)" using assms(4) a(2) nth_mem [of i ?cs] by (auto simp: key_fields)
    then obtain x where "free_range off L (survivors (cs[i := muckout (cs ! i)])) x n"
      using smallest_frees [OF tiles a(1) _ a(4)] assms(2) by auto
    moreover have "list_all2 (may_mark policy) cs (cs[i := muckout (cs ! i)])"
      using a by (auto simp: list_all2_conv_all_nth nth_list_update may_mark_def)
    then have "list_all2 (may_mark policy) ?cs (cs[i := muckout (cs ! i)])" using all2_may_mark_key loop(2) by metis
    ultimately show ?thesis using loop(1) t Some b by (auto simp: dfb_surfacemanager_displace_def)
  next
    case none: None
    show ?thesis
    proof (cases "ds_best s")
      case None
      have "list_all2 (may_mark policy) ?cs cs" using all2_may_mark_key [OF loop(2) [symmetric] all2_may_mark_refl] .
      then show ?thesis using loop(1,2) t none None by (auto simp: dfb_surfacemanager_displace_def)
    next
      case (Some b)
      obtain start k sz where b: "b = (start, k, sz)" by (cases b) auto
      have "best_ok n policy cs (Some (start, k, sz))" using loop(3) Some b by (simp add: scan_ok_def)
      then obtain rest where "muckout_first k (drop start cs) = Some rest" "list_all2 (may_mark policy) cs (take start cs @ rest)"
          "\<exists>x. free_range off L (survivors (take start cs @ rest)) x n"
        using best_run_frees [OF tiles] assms(2) by blast
      moreover from this(2) have "list_all2 (may_mark policy) ?cs (take start cs @ rest)" using all2_may_mark_key loop(2) by metis
      ultimately show ?thesis using loop(1) t none Some b by (auto simp: dfb_surfacemanager_displace_def)
    qed
  qed
qed

text \<open>A heap of 100 bytes with an allocation of low priority in front of 40 free bytes.\<close>

definition demo_heap :: SurfaceManager where
  "demo_heap =
    \<lparr> sm_chunks = [\<lparr> ck_offset = 0, ck_length = 60, ck_pitch = 4, ck_allocation =
        Some \<lparr> al_id = 1, al_policy = CSP_VIDEOLOW, al_size = 60, al_locks = 0, al_muckout = False \<rparr>,
        ck_tolerations = 0 \<rparr>, new_chunk 60 40],
      sm_offset = 0, sm_length = 100, sm_avail = 100, sm_min_toleration = 1, sm_suspended = False \<rparr>"

lemma displace_frees_enough_witness:
  "\<exists>m' r. dfb_surfacemanager_displace demo_heap CSP_VIDEOHIGH 80 = Some (m', r) \<and>
     list_all2 (may_mark CSP_VIDEOHIGH) (sm_chunks demo_heap) (sm_chunks m') \<and>
     (r = DR_OK \<and> (\<exists>x. free_range 0 100 (survivors (sm_chunks m')) x 80) \<or>
      r = DFB_NOVIDEOMEMORY \<and> map key (sm_chunks m') = map key (sm_chunks demo_heap))"
proof (rule displace_frees_enough)
  show "heap_inv 0 100 demo_heap"
    by (simp add: heap_inv_def demo_heap_def new_chunk_def video_only_def)
qed (simp_all add: demo_heap_def new_chunk_def)

end
