(* ===== verification/Window_Types.thy ===== *)
theory Window_Types
  imports Region Updates Fusion_Vector
begin

text \<open>
  Windows and window stacks as the default window manager (\<^verbatim>\<open>wm/default/default.c\<close>) sees them:
  the parts of \<^verbatim>\<open>CoreWindowConfig\<close>, \<^verbatim>\<open>CoreWindow\<close> and \<^verbatim>\<open>WindowData\<close> it reads
  (\<^verbatim>\<open>src/core/windows.h\<close>, \<^verbatim>\<open>windows_internal.h\<close>), the flags as 32-bit masks, and the state of one stack:
  \<^verbatim>\<open>CoreWindowStack\<close> and its \<^verbatim>\<open>StackData\<close> in one record, with the windows in a store addressed by
  pointers. The vector \<^verbatim>\<open>data->windows\<close> is the list of its pointers, bottom first, as justified by
  the refinement of \<^verbatim>\<open>FusionVector\<close> to lists.
\<close>

section \<open>Flags\<close>

definition DWOP_COLORKEYING :: u32 where "DWOP_COLORKEYING = 0x1"
definition DWOP_ALPHACHANNEL :: u32 where "DWOP_ALPHACHANNEL = 0x2"
definition DWOP_OPAQUE_REGION :: u32 where "DWOP_OPAQUE_REGION = 0x4"
definition DWOP_SHAPED :: u32 where "DWOP_SHAPED = 0x8"
definition DWOP_KEEP_POSITION :: u32 where "DWOP_KEEP_POSITION = 0x10"
definition DWOP_KEEP_SIZE :: u32 where "DWOP_KEEP_SIZE = 0x20"
definition DWOP_KEEP_STACKING :: u32 where "DWOP_KEEP_STACKING = 0x40"
definition DWOP_GHOST :: u32 where "DWOP_GHOST = 0x1000"
definition DWOP_INDESTRUCTIBLE :: u32 where "DWOP_INDESTRUCTIBLE = 0x2000"
definition DWOP_SCALE :: u32 where "DWOP_SCALE = 0x10000"

definition DWCAPS_INPUTONLY :: u32 where "DWCAPS_INPUTONLY = 0x4"
definition DWCAPS_COLOR :: u32 where "DWCAPS_COLOR = 0x20"
definition DWCAPS_NOFOCUS :: u32 where "DWCAPS_NOFOCUS = 0x100"

definition CWF_INITIALIZED :: u32 where "CWF_INITIALIZED = 0x1"
definition CWF_DESTROYED :: u32 where "CWF_DESTROYED = 0x8"
definition CWF_INSERTED :: u32 where "CWF_INSERTED = 0x10"

definition D_FLAGS_IS_SET :: "u32 \<Rightarrow> u32 \<Rightarrow> bool" where
  "D_FLAGS_IS_SET flags f \<longleftrightarrow> flags AND f \<noteq> 0"

definition D_FLAGS_ARE_SET :: "u32 \<Rightarrow> u32 \<Rightarrow> bool" where
  "D_FLAGS_ARE_SET flags f \<longleftrightarrow> flags AND f = f"

lemmas window_flags =
  DWOP_COLORKEYING_def DWOP_ALPHACHANNEL_def DWOP_OPAQUE_REGION_def DWOP_SHAPED_def
  DWOP_KEEP_POSITION_def DWOP_KEEP_SIZE_def DWOP_KEEP_STACKING_def DWOP_GHOST_def
  DWOP_INDESTRUCTIBLE_def DWOP_SCALE_def DWCAPS_INPUTONLY_def DWCAPS_COLOR_def
  DWCAPS_NOFOCUS_def CWF_INITIALIZED_def CWF_DESTROYED_def CWF_INSERTED_def
  D_FLAGS_IS_SET_def D_FLAGS_ARE_SET_def

text \<open>A mask of two single bits is set when both are, and touched when one is.\<close>

lemma and_or_bits_zero: "x AND (a OR b) = 0 \<longleftrightarrow> x AND a = 0 \<and> x AND b = (0 :: u32)"
  by (simp add: bit.conj_disj_distrib or_eq_0_iff)

lemma flags_touch_or: "D_FLAGS_IS_SET x (a OR b) \<longleftrightarrow> D_FLAGS_IS_SET x a \<or> D_FLAGS_IS_SET x b"
  by (simp add: D_FLAGS_IS_SET_def and_or_bits_zero)

lemma single_bit_set: "x AND 2 ^ n \<noteq> 0 \<Longrightarrow> x AND 2 ^ n = (2 ^ n :: u32)"
  by (rule bit_eqI) (auto simp: and_exp_eq_0_iff_not_bit bit_and_iff bit_exp_iff)

lemma two_options_set:
  assumes "D_FLAGS_IS_SET x DWOP_ALPHACHANNEL" and "D_FLAGS_IS_SET x DWOP_OPAQUE_REGION"
  shows "D_FLAGS_ARE_SET x (DWOP_ALPHACHANNEL OR DWOP_OPAQUE_REGION)"
proof -
  have "x AND 2 = 2" "x AND 4 = 4"
    using assms single_bit_set [of x 1] single_bit_set [of x 2] by (simp_all add: window_flags)
  then show ?thesis
    unfolding D_FLAGS_ARE_SET_def DWOP_ALPHACHANNEL_def DWOP_OPAQUE_REGION_def bit.conj_disj_distrib
    by (simp only: numeral_One)
qed

section \<open>Windows\<close>

datatype DFBWindowStackingClass = DWSC_MIDDLE | DWSC_UPPER | DWSC_LOWER

datatype DFBWindowKeySelection = DWKS_ALL | DWKS_NONE | DWKS_LIST

record CoreWindowConfig =
  cfg_bounds :: DFBRectangle
  cfg_opacity :: int
  cfg_stacking :: DFBWindowStackingClass
  cfg_options :: u32
  cfg_color_key :: u32
  cfg_opaque :: DFBRegion
  cfg_key_selection :: DFBWindowKeySelection
  cfg_keys :: "int list"
  cfg_rotation :: int

record CoreWindow =
  win_flags :: u32
  win_caps :: u32
  win_config :: CoreWindowConfig
  win_surface :: "DFBDimension option"
  win_priority :: int

abbreviation win_options :: "CoreWindow \<Rightarrow> u32" where
  "win_options w \<equiv> cfg_options (win_config w)"

abbreviation win_opacity :: "CoreWindow \<Rightarrow> int" where
  "win_opacity w \<equiv> cfg_opacity (win_config w)"

abbreviation win_bounds :: "CoreWindow \<Rightarrow> DFBRectangle" where
  "win_bounds w \<equiv> cfg_bounds (win_config w)"

definition TRANSLUCENT_WINDOW :: "CoreWindow \<Rightarrow> bool" where
  "TRANSLUCENT_WINDOW w \<longleftrightarrow>
     win_opacity w < 0xff \<or> D_FLAGS_IS_SET (win_options w) (DWOP_ALPHACHANNEL OR DWOP_COLORKEYING)"

definition VISIBLE_WINDOW :: "CoreWindow \<Rightarrow> bool" where
  "VISIBLE_WINDOW w \<longleftrightarrow> \<not> D_FLAGS_IS_SET (win_caps w) DWCAPS_INPUTONLY \<and> win_opacity w > 0 \<and>
     \<not> D_FLAGS_IS_SET (win_flags w) CWF_DESTROYED"

text \<open>The size of a rotated window on the stack; its position is that of the configuration.\<close>

definition transform_window_to_stack :: "CoreWindow \<Rightarrow> DFBRectangle \<Rightarrow> DFBRectangle" where
  "transform_window_to_stack window rect =
    (let rotation = cfg_rotation (win_config window)
     in if rotation = 90 \<or> rotation = 270
        then \<lparr> rect_x = rect_x rect, rect_y = rect_y rect, rect_w = rect_h rect, rect_h = rect_w rect \<rparr>
        else \<lparr> rect_x = rect_x rect, rect_y = rect_y rect, rect_w = rect_w rect, rect_h = rect_h rect \<rparr>)"

definition window_frame :: "CoreWindow \<Rightarrow> DFBRectangle" where
  "window_frame window = transform_window_to_stack window (win_bounds window)"

definition transform_point_in_window :: "CoreWindow \<Rightarrow> int \<Rightarrow> int \<Rightarrow> int \<times> int" where
  "transform_point_in_window window x y =
    (let rotation = cfg_rotation (win_config window)
     in if rotation = 90 then (rect_w (win_bounds window) - y - 1, x)
        else if rotation = 180 then (rect_w (win_bounds window) - x - 1, rect_h (win_bounds window) - y - 1)
        else if rotation = 270 then (y, rect_h (win_bounds window) - x - 1)
        else (x, y))"

definition get_priority :: "CoreWindow \<Rightarrow> int" where
  "get_priority window = (case cfg_stacking (win_config window) of
     DWSC_UPPER \<Rightarrow> 1 | DWSC_MIDDLE \<Rightarrow> 0 | DWSC_LOWER \<Rightarrow> -1)"

lemma window_frame_ok: "rect_ok (win_bounds w) \<Longrightarrow> rect_ok (window_frame w)"
  by (simp add: window_frame_def transform_window_to_stack_def rect_ok_def Let_def)

text \<open>Turning by a quarter and by three quarters maps the frame of a window onto its surface.\<close>

lemma transform_point_in_frame:
  assumes "cfg_rotation (win_config w) \<in> {0, 90, 180, 270}" and "rect_x (win_bounds w) = 0" and "rect_y (win_bounds w) = 0"
  shows "(x, y) \<in> rect_pixels (window_frame w) \<longleftrightarrow> transform_point_in_window w x y \<in> rect_pixels (win_bounds w)"
  using assms by (auto simp: window_frame_def transform_window_to_stack_def transform_point_in_window_def Let_def dfb_geo)

section \<open>Events\<close>

datatype DFBWindowEvent =
    DWET_KEYDOWN int int int bool | DWET_KEYUP int int int bool
  | DWET_BUTTONDOWN int int int | DWET_BUTTONUP int int int
  | DWET_LOSTFOCUS | DWET_GOTFOCUS | DWET_ENTER int int | DWET_LEAVE int int
  | DWET_MOTION int int | DWET_WHEEL int int int
  | DWET_POSITION int int | DWET_SIZE int int | DWET_POSITION_SIZE int int int int
  | DWET_UPDATE int int int int | DWET_CLOSE

text \<open>What \<^verbatim>\<open>post_event\<close> hands to \<^verbatim>\<open>dfb_window_post_event\<close>.\<close>

record Posted =
  ev_window :: ptr
  ev_event :: DFBWindowEvent
  ev_buttons :: u32
  ev_modifiers :: u32
  ev_locks :: u32
  ev_cx :: int
  ev_cy :: int

record GrabbedKey =
  gk_symbol :: int
  gk_modifiers :: u32
  gk_owner :: ptr

record KeySlot =
  ks_symbol :: int
  ks_id :: int
  ks_code :: int
  ks_owner :: "ptr option"

section \<open>The state of a stack\<close>

record StackData =
  sd_width :: int
  sd_height :: int
  sd_rotation :: int
  sd_hw_mode :: bool
  sd_cursor_enabled :: bool
  sd_cursor_x :: int
  sd_cursor_y :: int
  sd_store :: "ptr \<Rightarrow> CoreWindow"
  sd_windows :: "ptr list"
  sd_updates :: DFBUpdates
  sd_buttons :: u32
  sd_modifiers :: u32
  sd_locks :: u32
  sd_wm_level :: u32
  sd_wm_cycle :: int
  sd_pointer_window :: "ptr option"
  sd_keyboard_window :: "ptr option"
  sd_focused_window :: "ptr option"
  sd_entered_window :: "ptr option"
  sd_unselkeys_window :: "ptr option"
  sd_grabbed_keys :: "GrabbedKey list"
  sd_keys :: "KeySlot list"
  sd_posted :: "Posted list"

definition set_window :: "ptr \<Rightarrow> (CoreWindow \<Rightarrow> CoreWindow) \<Rightarrow> StackData \<Rightarrow> StackData" where
  "set_window w f s = s\<lparr> sd_store := (sd_store s)(w := f (sd_store s w)) \<rparr>"

definition set_config :: "ptr \<Rightarrow> (CoreWindowConfig \<Rightarrow> CoreWindowConfig) \<Rightarrow> StackData \<Rightarrow> StackData" where
  "set_config w f = set_window w (\<lambda>win. win\<lparr> win_config := f (win_config win) \<rparr>)"

definition set_bounds :: "ptr \<Rightarrow> (DFBRectangle \<Rightarrow> DFBRectangle) \<Rightarrow> StackData \<Rightarrow> StackData" where
  "set_bounds w f = set_config w (\<lambda>c. c\<lparr> cfg_bounds := f (cfg_bounds c) \<rparr>)"

definition post_event :: "ptr \<Rightarrow> DFBWindowEvent \<Rightarrow> StackData \<Rightarrow> StackData" where
  "post_event window event s = s\<lparr> sd_posted := sd_posted s @
     [\<lparr> ev_window = window, ev_event = event, ev_buttons = sd_buttons s, ev_modifiers = sd_modifiers s,
        ev_locks = sd_locks s, ev_cx = sd_cursor_x s, ev_cy = sd_cursor_y s \<rparr>] \<rparr>"

definition get_index :: "StackData \<Rightarrow> ptr \<Rightarrow> int" where
  "get_index s window = last_index (sd_windows s) window"

text \<open>The store is the only thing these writes change, and only at the window.\<close>

lemma set_window_fields [simp]:
  "sd_windows (set_window w f s) = sd_windows s"
  "sd_store (set_window w f s) = (sd_store s)(w := f (sd_store s w))"
  "sd_updates (set_window w f s) = sd_updates s"
  "sd_width (set_window w f s) = sd_width s"
  "sd_height (set_window w f s) = sd_height s"
  "sd_rotation (set_window w f s) = sd_rotation s"
  "sd_hw_mode (set_window w f s) = sd_hw_mode s"
  by (simp_all add: set_window_def)

lemma post_event_fields [simp]:
  "sd_windows (post_event w e s) = sd_windows s"
  "sd_store (post_event w e s) = sd_store s"
  "sd_updates (post_event w e s) = sd_updates s"
  "sd_width (post_event w e s) = sd_width s"
  "sd_height (post_event w e s) = sd_height s"
  "sd_rotation (post_event w e s) = sd_rotation s"
  "sd_hw_mode (post_event w e s) = sd_hw_mode s"
  by (simp_all add: post_event_def)

end
