(* ===== verification/Window_Compose.thy ===== *)
theory Window_Compose
  imports Window_Types
begin

text \<open>
  Composition of a window stack: \<^verbatim>\<open>update_region\<close> of \<^verbatim>\<open>wm/default/default.c\<close> as the sequence of
  its \<^verbatim>\<open>draw_window\<close> and \<^verbatim>\<open>draw_background\<close> calls, and the painter's algorithm it is compared with.
\<close>

section \<open>The code\<close>

text \<open>
  The four conditional calls of \<^verbatim>\<open>update_region\<close> and \<^verbatim>\<open>wind_of_change\<close> around an inner region:
  left, upper, right and lower.
\<close>

definition around :: "DFBRegion \<Rightarrow> DFBRegion \<Rightarrow> DFBRegion list" where
  "around outer inner =
    (if rgn_x1 inner \<noteq> rgn_x1 outer then
       [\<lparr> rgn_x1 = rgn_x1 outer, rgn_y1 = rgn_y1 inner, rgn_x2 = rgn_x1 inner - 1, rgn_y2 = rgn_y2 inner \<rparr>] else []) @
    (if rgn_y1 inner \<noteq> rgn_y1 outer then
       [\<lparr> rgn_x1 = rgn_x1 outer, rgn_y1 = rgn_y1 outer, rgn_x2 = rgn_x2 outer, rgn_y2 = rgn_y1 inner - 1 \<rparr>] else []) @
    (if rgn_x2 inner \<noteq> rgn_x2 outer then
       [\<lparr> rgn_x1 = rgn_x2 inner + 1, rgn_y1 = rgn_y1 inner, rgn_x2 = rgn_x2 outer, rgn_y2 = rgn_y2 inner \<rparr>] else []) @
    (if rgn_y2 inner \<noteq> rgn_y2 outer then
       [\<lparr> rgn_x1 = rgn_x1 outer, rgn_y1 = rgn_y2 inner + 1, rgn_x2 = rgn_x2 outer, rgn_y2 = rgn_y2 outer \<rparr>] else [])"

datatype Draw = Draw_Window ptr DFBRegion bool | Draw_Background DFBRegion

definition intersect_frame :: "DFBRegion \<Rightarrow> CoreWindow \<Rightarrow> bool \<times> DFBRegion" where
  "intersect_frame region window =
    (let rotated = dfb_region_from_rectangle (window_frame window)
     in dfb_region_intersect region (rgn_x1 rotated) (rgn_y1 rotated) (rgn_x2 rotated) (rgn_y2 rotated))"

definition opaque_on_stack :: "CoreWindow \<Rightarrow> DFBRegion" where
  "opaque_on_stack window =
     dfb_region_translate (cfg_opaque (win_config window)) (rect_x (win_bounds window)) (rect_y (win_bounds window))"

text \<open>
  The numeral argument is \<open>start + 1\<close>: the windows below that index are considered, the
  search loop and the recursion both going down by one.
\<close>

fun update_region :: "StackData \<Rightarrow> nat \<Rightarrow> DFBRegion \<Rightarrow> Draw list" where
  "update_region s 0 r = [Draw_Background r]"
| "update_region s (Suc i) r =
    (let w = sd_windows s ! i;
         window = sd_store s w;
         (hit, region) = intersect_frame r window
     in if VISIBLE_WINDOW window \<and> hit then
          if D_FLAGS_ARE_SET (win_options window) (DWOP_ALPHACHANNEL OR DWOP_OPAQUE_REGION) then
            (let (meets, opaque) = dfb_region_region_intersect (opaque_on_stack window) region
             in if \<not> meets then update_region s i r @ [Draw_Window w region True]
                else
                  (if win_opacity window < 0xff \<or> D_FLAGS_IS_SET (win_options window) DWOP_COLORKEYING
                   then update_region s i r
                   else concat (map (\<lambda>q. update_region s i q) (around r opaque))) @
                  map (\<lambda>q. Draw_Window w q True) (around region opaque) @
                  [Draw_Window w opaque False])
          else
            (if TRANSLUCENT_WINDOW window then update_region s i r
             else concat (map (\<lambda>q. update_region s i q) (around r region))) @
            [Draw_Window w region True]
        else update_region s i r)"

section \<open>The painter's algorithm at a pixel\<close>

text \<open>The visual attributes of a window, as far as composition depends on them.\<close>

definition appearance :: "CoreWindow \<Rightarrow> DFBRectangle \<times> int \<times> int \<times> u32 \<times> u32" where
  "appearance w = (win_bounds w, cfg_rotation (win_config w), win_opacity w, win_options w, cfg_color_key (win_config w))"

datatype Paint = Paint_Window ptr "DFBRectangle \<times> int \<times> int \<times> u32 \<times> u32" bool | Paint_Background

definition covers :: "CoreWindow \<Rightarrow> int \<times> int \<Rightarrow> bool" where
  "covers w p \<longleftrightarrow> VISIBLE_WINDOW w \<and> p \<in> rect_pixels (window_frame w)"

definition in_opaque :: "CoreWindow \<Rightarrow> int \<times> int \<Rightarrow> bool" where
  "in_opaque w p \<longleftrightarrow> D_FLAGS_ARE_SET (win_options w) (DWOP_ALPHACHANNEL OR DWOP_OPAQUE_REGION) \<and>
     p \<in> region_pixels (opaque_on_stack w)"

definition hides :: "CoreWindow \<Rightarrow> int \<times> int \<Rightarrow> bool" where
  "hides w p \<longleftrightarrow> 0xff \<le> win_opacity w \<and> \<not> D_FLAGS_IS_SET (win_options w) DWOP_COLORKEYING \<and>
     (\<not> D_FLAGS_IS_SET (win_options w) DWOP_ALPHACHANNEL \<or> in_opaque w p)"

text \<open>What is painted at a pixel, bottom first, starting above the topmost window that hides it.\<close>

fun painted :: "StackData \<Rightarrow> nat \<Rightarrow> int \<times> int \<Rightarrow> Paint list" where
  "painted s 0 p = [Paint_Background]"
| "painted s (Suc i) p =
    (let w = sd_windows s ! i; window = sd_store s w
     in if covers window p
        then (if hides window p then [] else painted s i p) @
             [Paint_Window w (appearance window) (\<not> in_opaque window p)]
        else painted s i p)"

section \<open>Composition is the painter's algorithm\<close>

primrec draw_pixels :: "Draw \<Rightarrow> (int \<times> int) set" where
  "draw_pixels (Draw_Window w r a) = region_pixels r"
| "draw_pixels (Draw_Background r) = region_pixels r"

primrec draw_region :: "Draw \<Rightarrow> DFBRegion" where
  "draw_region (Draw_Window w r a) = r"
| "draw_region (Draw_Background r) = r"

primrec paint_of :: "StackData \<Rightarrow> Draw \<Rightarrow> Paint" where
  "paint_of s (Draw_Window w r a) = Paint_Window w (appearance (sd_store s w)) a"
| "paint_of s (Draw_Background r) = Paint_Background"

definition drawn_at :: "StackData \<Rightarrow> int \<times> int \<Rightarrow> Draw list \<Rightarrow> Paint list" where
  "drawn_at s p ds = map (paint_of s) (filter (\<lambda>d. p \<in> draw_pixels d) ds)"

lemma drawn_at_simps [simp]:
  "drawn_at s p [] = []"
  "drawn_at s p (ds @ es) = drawn_at s p ds @ drawn_at s p es"
  "drawn_at s p (Draw_Window w r a # ds) =
     (if p \<in> region_pixels r then [Paint_Window w (appearance (sd_store s w)) a] else []) @ drawn_at s p ds"
  "drawn_at s p (Draw_Background r # ds) =
     (if p \<in> region_pixels r then [Paint_Background] else []) @ drawn_at s p ds"
  by (simp_all add: drawn_at_def)

definition within :: "DFBRegion \<Rightarrow> DFBRegion \<Rightarrow> bool" where
  "within i r \<longleftrightarrow> region_ok i \<and> region_ok r \<and> dfb_region_region_contains r i"

lemma within_iff:
  "within i r \<longleftrightarrow> rgn_x1 r \<le> rgn_x1 i \<and> rgn_x1 i \<le> rgn_x2 i \<and> rgn_x2 i \<le> rgn_x2 r \<and>
     rgn_y1 r \<le> rgn_y1 i \<and> rgn_y1 i \<le> rgn_y2 i \<and> rgn_y2 i \<le> rgn_y2 r"
  by (auto simp: within_def region_ok_def contains_iff)

lemma within_trans: "within q i \<Longrightarrow> within i r \<Longrightarrow> within q r"
  unfolding within_iff by linarith

lemma around_ok:
  assumes "within i r" and "q \<in> set (around r i)"
  shows "region_ok q" and "within q r"
  using assms by (auto simp: around_def within_iff region_ok_def split: if_splits)

text \<open>The four parts tile the difference.\<close>

lemma around_tiles:
  assumes "within i r"
  shows "concat (map (\<lambda>q. if p \<in> region_pixels q then X else []) (around r i)) =
    (if p \<in> region_pixels r \<and> p \<notin> region_pixels i then X else [])"
proof -
  obtain a b where p: "p = (a, b)" by force
  consider "b < rgn_y1 i" | "b > rgn_y2 i" | "rgn_y1 i \<le> b" "b \<le> rgn_y2 i" "a < rgn_x1 i"
    | "rgn_y1 i \<le> b" "b \<le> rgn_y2 i" "a > rgn_x2 i"
    | "rgn_y1 i \<le> b" "b \<le> rgn_y2 i" "rgn_x1 i \<le> a" "a \<le> rgn_x2 i" by linarith
  then show ?thesis
    by cases (use assms in \<open>auto simp: p around_def within_iff dfb_geo\<close>)
qed

lemma drawn_at_around:
  assumes "within i r" and "\<And>q. q \<in> set (around r i) \<Longrightarrow> drawn_at s p (f q) = (if p \<in> region_pixels q then X else [])"
  shows "drawn_at s p (concat (map f (around r i))) = (if p \<in> region_pixels r \<and> p \<notin> region_pixels i then X else [])"
proof -
  have "drawn_at s p (concat (map f qs)) = concat (map (\<lambda>q. drawn_at s p (f q)) qs)" for qs
    by (induction qs) simp_all
  also have "concat (map (\<lambda>q. drawn_at s p (f q)) (around r i)) =
      concat (map (\<lambda>q. if p \<in> region_pixels q then X else []) (around r i))"
    using assms(2) by (simp cong: map_cong)
  also have "\<dots> = (if p \<in> region_pixels r \<and> p \<notin> region_pixels i then X else [])"
    by (rule around_tiles [OF assms(1)])
  finally show ?thesis .
qed

text \<open>Intersections with the frame of a window and with its opaque part.\<close>

lemma intersect_frame_eq:
  "intersect_frame r w = dfb_region_region_intersect r (dfb_region_from_rectangle (window_frame w))"
  by (simp add: intersect_frame_def dfb_region_intersect_def dfb_region_region_intersect_def Let_def)

lemma region_intersect_within:
  assumes "dfb_region_region_intersect a b = (True, c)" and "region_ok a" and "region_ok b"
  shows "within c a" and "within c b" and "region_pixels c = region_pixels a \<inter> region_pixels b"
  using assms by (auto simp: region_region_intersect_eq within_iff region_ok_def dfb_geo split: if_splits)

lemma region_intersect_missed:
  assumes "dfb_region_region_intersect a b = (False, c)" and "region_ok a" and "region_ok b"
  shows "region_pixels a \<inter> region_pixels b = {}"
  using assms by (auto simp: region_region_intersect_eq region_ok_def dfb_geo split: if_splits)

definition window_ok :: "CoreWindow \<Rightarrow> bool" where
  "window_ok w \<longleftrightarrow> rect_ok (win_bounds w) \<and> region_ok (cfg_opaque (win_config w))"

lemma frame_region:
  assumes "window_ok w"
  shows "region_ok (dfb_region_from_rectangle (window_frame w))"
    and "region_pixels (dfb_region_from_rectangle (window_frame w)) = rect_pixels (window_frame w)"
    and "region_ok (opaque_on_stack w)"
proof -
  show "region_pixels (dfb_region_from_rectangle (window_frame w)) = rect_pixels (window_frame w)"
    by (rule region_pixels_from_rectangle)
  show "region_ok (dfb_region_from_rectangle (window_frame w))" "region_ok (opaque_on_stack w)"
    using assms window_frame_ok [of w]
    by (auto simp: window_ok_def region_ok_def rect_ok_def dfb_region_from_rectangle_def
        opaque_on_stack_def dfb_region_translate_def)
qed

lemma opaque_option_has_alpha:
  assumes "D_FLAGS_ARE_SET x (DWOP_ALPHACHANNEL OR DWOP_OPAQUE_REGION)"
  shows "D_FLAGS_IS_SET x DWOP_ALPHACHANNEL"
proof -
  have six: "x AND 6 = (6 :: u32)" using assms by (simp add: window_flags)
  have "x AND 2 = (x AND 6) AND (2 :: u32)" by (simp add: and.assoc)
  then show ?thesis unfolding six by (simp add: window_flags)
qed

lemma translucent_iff:
  assumes "\<not> D_FLAGS_ARE_SET (win_options w) (DWOP_ALPHACHANNEL OR DWOP_OPAQUE_REGION)"
  shows "TRANSLUCENT_WINDOW w \<longleftrightarrow> \<not> hides w p"
  using assms by (auto simp: TRANSLUCENT_WINDOW_def hides_def in_opaque_def flags_touch_or)

text \<open>One window of the painter, on a part \<open>c\<close> of a region.\<close>

lemma update_region_drawn:
  assumes "\<And>w. w \<in> set (take n (sd_windows s)) \<Longrightarrow> window_ok (sd_store s w)" and "n \<le> length (sd_windows s)"
    and "region_ok r"
  shows "drawn_at s p (update_region s n r) = (if p \<in> region_pixels r then painted s n p else [])"
  using assms
proof (induction n arbitrary: r)
  case (Suc i)
  define w window where "w = sd_windows s ! i" and "window = sd_store s w"
  obtain hit region where hit: "intersect_frame r window = (hit, region)" by force
  have "w \<in> set (take (Suc i) (sd_windows s))"
    using Suc.prems(2) by (simp add: w_def take_Suc_conv_app_nth)
  then have ok: "window_ok window" using Suc.prems(1) by (simp add: window_def)
  have below: "drawn_at s p (update_region s i q) = (if p \<in> region_pixels q then painted s i p else [])"
    if "region_ok q" for q
    by (rule Suc.IH) (use Suc.prems that in \<open>auto simp: take_Suc_conv_app_nth\<close>)
  note frame = frame_region [OF ok]
  show ?case
  proof (cases "VISIBLE_WINDOW window \<and> hit")
    case False
    then have "covers window p = False" if "p \<in> region_pixels r"
      using that region_intersect_missed [of r "dfb_region_from_rectangle (window_frame window)" region] hit frame Suc.prems(3)
      by (auto simp: covers_def intersect_frame_eq)
    then show ?thesis
      using False hit below [OF Suc.prems(3)] by (auto simp: w_def [symmetric] window_def [symmetric] Let_def)
  next
    case True
    then have reg: "within region r" "region_pixels region = region_pixels r \<inter> rect_pixels (window_frame window)"
        and reg_ok: "region_ok region"
      using region_intersect_within [of r _ region] hit frame Suc.prems(3) by (auto simp: intersect_frame_eq within_def)
    have covers: "covers window p \<longleftrightarrow> p \<in> region_pixels region" if "p \<in> region_pixels r"
      using that True reg by (auto simp: covers_def)
    have whole: "drawn_at s p (concat (map (update_region s i) (around r q))) =
        (if p \<in> region_pixels r \<and> p \<notin> region_pixels q then painted s i p else [])" if "within q r" for q
      by (rule drawn_at_around [OF that]) (rule below, rule around_ok(1) [OF that])
    have rims: "drawn_at s p (map (\<lambda>q. Draw_Window w q True) (around region q)) =
        (if p \<in> region_pixels region \<and> p \<notin> region_pixels q
         then [Paint_Window w (appearance window) True] else [])" if "within q region" for q
      using drawn_at_around [OF that, of s p "\<lambda>q. [Draw_Window w q True]" "[Paint_Window w (appearance window) True]"]
      by (simp add: window_def concat_map_singleton)
    let ?flags = "D_FLAGS_ARE_SET (win_options window) (DWOP_ALPHACHANNEL OR DWOP_OPAQUE_REGION)"
    have sub: "region_pixels region \<subseteq> region_pixels r" using reg by auto
    show ?thesis
    proof (cases ?flags)
      case False
      have "\<not> in_opaque window p" using False by (simp add: in_opaque_def)
      then show ?thesis
        using False True hit whole [OF reg(1)] below [OF Suc.prems(3)] sub covers translucent_iff [OF False, of p]
        by (auto simp: w_def [symmetric] window_def [symmetric] Let_def)
    next
      case flags: True
      obtain meets opaque where op: "dfb_region_region_intersect (opaque_on_stack window) region = (meets, opaque)"
        by force
      have in_op: "in_opaque window p \<longleftrightarrow> p \<in> region_pixels (opaque_on_stack window)"
        using flags by (simp add: in_opaque_def)
      have hides: "hides window p \<longleftrightarrow> in_opaque window p \<and>
          \<not> (win_opacity window < 0xff \<or> D_FLAGS_IS_SET (win_options window) DWOP_COLORKEYING)"
        using opaque_option_has_alpha [OF flags] by (auto simp: hides_def)
      show ?thesis
      proof (cases meets)
        case False
        then have "region_pixels (opaque_on_stack window) \<inter> region_pixels region = {}"
          using region_intersect_missed op frame(3) reg_ok by auto
        then show ?thesis
          using False flags True hit op below [OF Suc.prems(3)] sub covers hides in_op
          by (auto simp: w_def [symmetric] window_def [symmetric] Let_def)
      next
        case meets: True
        have opq: "within opaque region" "region_pixels opaque = region_pixels (opaque_on_stack window) \<inter> region_pixels region"
          using region_intersect_within [of "opaque_on_stack window" region opaque] op meets frame(3) reg_ok by auto
        have "within opaque r" using opq(1) reg(1) by (auto simp: within_iff)
        then show ?thesis
          using meets flags True hit op below [OF Suc.prems(3)] whole rims [OF opq(1)] sub covers hides in_op opq(2)
          by (auto simp: w_def [symmetric] window_def [symmetric] Let_def)
      qed
    qed
  qed
qed simp

text \<open>Everything is drawn with a well-formed region, as the callees assert.\<close>

lemma update_region_regions_ok:
  assumes "\<And>w. w \<in> set (take n (sd_windows s)) \<Longrightarrow> window_ok (sd_store s w)" and "n \<le> length (sd_windows s)"
    and "region_ok r" and "d \<in> set (update_region s n r)"
  shows "region_ok (draw_region d)"
  using assms
proof (induction n arbitrary: r)
  case (Suc i)
  define window where "window = sd_store s (sd_windows s ! i)"
  obtain hit region where hit: "intersect_frame r window = (hit, region)" by force
  obtain meets opaque where op: "dfb_region_region_intersect (opaque_on_stack window) region = (meets, opaque)" by force
  have "sd_windows s ! i \<in> set (take (Suc i) (sd_windows s))"
    using Suc.prems(2) by (simp add: take_Suc_conv_app_nth)
  then have ok: "window_ok window" using Suc.prems(1) by (simp add: window_def)
  note frame = frame_region [OF ok]
  have below: "region_ok (draw_region d)" if "region_ok q" "d \<in> set (update_region s i q)" for q
    by (rule Suc.IH [OF _ _ that]) (use Suc.prems in \<open>auto simp: take_Suc_conv_app_nth\<close>)
  have reg: "within region r" "region_ok region" if hit
    using region_intersect_within(1) [of r _ region] that hit frame Suc.prems(3) by (auto simp: intersect_frame_eq within_def)
  have opq: "within opaque region" if hit meets
    using region_intersect_within(2) [of "opaque_on_stack window" region opaque] op that reg(2) frame(3) by simp
  have opr: "within opaque r" if hit meets
    using within_trans [OF opq reg(1)] that by simp
  have "region_ok (draw_region d)" if "q \<in> set (around r i')" "within i' r" "d \<in> set (update_region s i q)" for q i'
    using that around_ok(1) below by blast
  moreover have "region_ok (draw_region (Draw_Window w q True))" if "q \<in> set (around region opaque)" hit meets for q w
    using that around_ok(1) [OF opq(1)] by simp
  ultimately show ?case
    using Suc.prems(3,4) hit op reg opq opr below
    by (auto simp: window_def [symmetric] Let_def within_def split: if_splits)
qed simp

section \<open>Property\<close>

definition stack_ok :: "StackData \<Rightarrow> bool" where
  "stack_ok s \<longleftrightarrow> (\<forall>w \<in> set (sd_windows s). window_ok (sd_store s w))"

text \<open>
  C3: The recursive composition of a window stack is the painter's algorithm. Although
  \<^verbatim>\<open>update_region\<close> cuts the region at every opaque window and skips what is hidden, each pixel of
  the region receives exactly the windows that cover it, bottom to top, from the topmost one that hides
  everything below (or the background), each exactly once and with per-pixel blending exactly outside its
  opaque region; no pixel outside is touched, and all drawing calls get well-formed regions.
\<close>

theorem compose_is_painter:
  assumes "stack_ok s" and "region_ok r"
  shows "drawn_at s p (update_region s (length (sd_windows s)) r) =
      (if p \<in> region_pixels r then painted s (length (sd_windows s)) p else []) \<and>
    (\<forall>d \<in> set (update_region s (length (sd_windows s)) r). region_ok (draw_region d))"
  using update_region_drawn [of "length (sd_windows s)" s r p]
    update_region_regions_ok [of "length (sd_windows s)" s r] assms
  by (auto simp: stack_ok_def)

definition plain_window :: "DFBRectangle \<Rightarrow> int \<Rightarrow> u32 \<Rightarrow> DFBRegion \<Rightarrow> CoreWindow" where
  "plain_window bounds opacity options opaque =
     \<lparr> win_flags = 1, win_caps = 0,
       win_config = \<lparr> cfg_bounds = bounds, cfg_opacity = opacity, cfg_stacking = DWSC_MIDDLE, cfg_options = options,
         cfg_color_key = 0, cfg_opaque = opaque, cfg_key_selection = DWKS_ALL, cfg_keys = [], cfg_rotation = 0 \<rparr>,
       win_surface = None, win_priority = 0 \<rparr>"

definition plain_stack :: "(ptr \<times> CoreWindow) list \<Rightarrow> StackData" where
  "plain_stack ws =
     \<lparr> sd_width = 100, sd_height = 100, sd_rotation = 0, sd_hw_mode = False, sd_cursor_enabled = True, sd_cursor_x = 0, sd_cursor_y = 0,
       sd_store = (\<lambda>w. case map_of ws w of Some win \<Rightarrow> win
                          | None \<Rightarrow> plain_window \<lparr> rect_x = 0, rect_y = 0, rect_w = 1, rect_h = 1 \<rparr> 0 0
                              \<lparr> rgn_x1 = 0, rgn_y1 = 0, rgn_x2 = 0, rgn_y2 = 0 \<rparr>),
       sd_windows = map fst ws,
       sd_updates = \<lparr> upd_regions = [], upd_max = 8,
                      upd_bounding = \<lparr> rgn_x1 = 0, rgn_y1 = 0, rgn_x2 = 0, rgn_y2 = 0 \<rparr> \<rparr>,
       sd_buttons = 0, sd_modifiers = 0, sd_locks = 0, sd_wm_level = 0, sd_wm_cycle = 0,
       sd_pointer_window = None, sd_keyboard_window = None, sd_focused_window = None, sd_entered_window = None,
       sd_unselkeys_window = None, sd_grabbed_keys = [],
       sd_keys = replicate 16 \<lparr> ks_symbol = 0, ks_id = 0, ks_code = -1, ks_owner = None \<rparr>, sd_posted = [] \<rparr>"

text \<open>An opaque window, and above it one with an alpha channel and an opaque inner region.\<close>

definition two_windows :: StackData where
  "two_windows = plain_stack
     [(1, plain_window \<lparr> rect_x = 0, rect_y = 0, rect_w = 10, rect_h = 10 \<rparr> 255 0 \<lparr> rgn_x1 = 0, rgn_y1 = 0, rgn_x2 = 9, rgn_y2 = 9 \<rparr>),
      (2, plain_window \<lparr> rect_x = 5, rect_y = 5, rect_w = 10, rect_h = 10 \<rparr> 255 6 \<lparr> rgn_x1 = 2, rgn_y1 = 2, rgn_x2 = 4, rgn_y2 = 4 \<rparr>)]"

lemma two_windows_ok: "stack_ok two_windows"
  by (simp add: stack_ok_def two_windows_def plain_stack_def plain_window_def window_ok_def rect_ok_def region_ok_def)

theorem compose_is_painter_witness:
  "map (\<lambda>p. length (drawn_at two_windows p (update_region two_windows 2
       \<lparr> rgn_x1 = 0, rgn_y1 = 0, rgn_x2 = 20, rgn_y2 = 20 \<rparr>))) [(1, 1), (6, 6), (8, 8), (14, 14), (20, 20), (21, 21)]
   = [1, 2, 1, 2, 1, 0]"
  using compose_is_painter [OF two_windows_ok, of "\<lparr> rgn_x1 = 0, rgn_y1 = 0, rgn_x2 = 20, rgn_y2 = 20 \<rparr>"]
  by (simp add: two_windows_def plain_stack_def plain_window_def region_ok_def dfb_geo numeral_2_eq_2 covers_def hides_def
      in_opaque_def opaque_on_stack_def dfb_region_translate_def window_frame_def transform_window_to_stack_def
      VISIBLE_WINDOW_def window_flags del: update_region.simps)

end
