(* ===== verification/Window_Damage.thy ===== *)
theory Window_Damage
  imports Window_Compose
begin

text \<open>
  Damage of a window stack: \<^verbatim>\<open>wind_of_change\<close>, which skips what opaque windows above hide,
  \<^verbatim>\<open>update_window\<close>, and the choice of \<^verbatim>\<open>process_updates\<close> and \<^verbatim>\<open>repaint_stack\<close> of what to compose again
  (\<^verbatim>\<open>wm/default/default.c\<close>). The lemmas relate the damage to the painter's algorithm: a pixel that
  looks different afterwards is in the damage.
\<close>

section \<open>The code\<close>

text \<open>
  The condition of \<^verbatim>\<open>wind_of_change\<close>, with the region it leaves in \<^verbatim>\<open>opaque\<close> when it holds.
\<close>

definition skippable :: "CoreWindow \<Rightarrow> DFBRegion \<Rightarrow> DFBRegion option" where
  "skippable window update =
    (let options = win_options window;
         (hit, opaque) = intersect_frame update window
     in if win_opacity window = 0xff \<and> \<not> D_FLAGS_IS_SET options (DWOP_COLORKEYING OR DWOP_ALPHACHANNEL) \<and> hit
        then Some opaque
        else
          (let bounds = window_frame window;
               inner = cfg_opaque (win_config window);
               (hit, opaque) = dfb_region_intersect update
                  (rect_x bounds + rgn_x1 inner) (rect_y bounds + rgn_y1 inner)
                  (rect_x bounds + rgn_x2 inner) (rect_y bounds + rgn_y2 inner)
           in if D_FLAGS_IS_SET options DWOP_ALPHACHANNEL \<and> D_FLAGS_IS_SET options DWOP_OPAQUE_REGION \<and>
                 win_opacity window = 0xff \<and> \<not> D_FLAGS_IS_SET options DWOP_COLORKEYING \<and> hit
              then Some opaque else None))"

fun wind_of_change :: "StackData \<Rightarrow> nat \<Rightarrow> nat \<Rightarrow> DFBRegion \<Rightarrow> DFBUpdates \<Rightarrow> DFBUpdates" where
  "wind_of_change s changed 0 update u = dfb_updates_add u update"
| "wind_of_change s changed (Suc c) update u =
    (if Suc c > changed then
       (case skippable (sd_store s (sd_windows s ! Suc c)) update of
          Some opaque \<Rightarrow> foldl (\<lambda>u part. wind_of_change s changed c part u) u (around update opaque)
        | None \<Rightarrow> wind_of_change s changed c update u)
     else dfb_updates_add u update)"

definition repaint_stack_for_window :: "StackData \<Rightarrow> DFBRegion \<Rightarrow> int \<Rightarrow> StackData" where
  "repaint_stack_for_window s update window =
    (if sd_windows s \<noteq> [] \<and> window \<ge> 0
     then s\<lparr> sd_updates := wind_of_change s (nat window) (length (sd_windows s) - 1) update (sd_updates s) \<rparr>
     else s\<lparr> sd_updates := dfb_updates_add (sd_updates s) update \<rparr>)"

text \<open>
  The area of a scaled window that shows a region of its surface, along one axis; \<^term>\<open>None\<close> for
  a division by zero or an overflow of \<^verbatim>\<open>int\<close>.
\<close>

definition mul_div :: "int \<Rightarrow> int \<Rightarrow> int \<Rightarrow> int option" where
  "mul_div a w sw = do { m \<leftarrow> chk (a * w); c_div m sw }"

definition scale_axis :: "int \<Rightarrow> int \<Rightarrow> int \<Rightarrow> int \<Rightarrow> (int \<times> int) option" where
  "scale_axis a b w sw =
    (if w > sw then do { lo \<leftarrow> mul_div (a - 1) w sw; hi \<leftarrow> mul_div (b + 1) w sw; Some (lo, hi) }
     else do { lo \<leftarrow> mul_div a w sw; hi \<leftarrow> mul_div b w sw; Some (lo - 1, hi + 1) })"

definition window_area :: "CoreWindow \<Rightarrow> DFBRegion option \<Rightarrow> bool \<Rightarrow> DFBRegion option" where
  "window_area window region scale_region =
    (let bounds = win_bounds window
     in case region of
          Some region \<Rightarrow>
            if scale_region \<and> D_FLAGS_IS_SET (win_options window) DWOP_SCALE then do {
              surface \<leftarrow> win_surface window;
              (x1, x2) \<leftarrow> scale_axis (rgn_x1 region) (rgn_x2 region) (rect_w bounds) (dim_w surface);
              (y1, y2) \<leftarrow> scale_axis (rgn_y1 region) (rgn_y2 region) (rect_h bounds) (dim_h surface);
              Some (dfb_region_clip \<lparr> rgn_x1 = x1, rgn_y1 = y1, rgn_x2 = x2, rgn_y2 = y2 \<rparr>
                      0 0 (rect_w bounds - 1) (rect_h bounds - 1)) }
            else Some region
        | None \<Rightarrow> Some \<lparr> rgn_x1 = 0, rgn_y1 = 0, rgn_x2 = rect_w bounds - 1, rgn_y2 = rect_h bounds - 1 \<rparr>)"

definition update_window ::
    "StackData \<Rightarrow> ptr \<Rightarrow> DFBRegion option \<Rightarrow> bool \<Rightarrow> bool \<Rightarrow> bool \<Rightarrow> StackData option" where
  "update_window s w region force_complete force_invisible scale_region =
    (let window = sd_store s w; bounds = win_bounds window
     in if \<not> VISIBLE_WINDOW window \<and> \<not> force_invisible then Some s
        else if sd_hw_mode s then Some s
        else do {
          area \<leftarrow> window_area window region scale_region;
          let update = dfb_region_translate
                (dfb_region_from_rotated area \<lparr> dim_w = rect_w bounds, dim_h = rect_h bounds \<rparr>
                   (cfg_rotation (win_config window)))
                (rect_x bounds) (rect_y bounds);
          let (hit, update) = dfb_unsafe_region_intersect update 0 0 (sd_width s - 1) (sd_height s - 1);
          if \<not> hit then Some s
          else if force_complete then Some (s\<lparr> sd_updates := dfb_updates_add (sd_updates s) update \<rparr>)
          else Some (repaint_stack_for_window s update (get_index s w)) })"

section \<open>What is skipped\<close>

definition skips :: "CoreWindow \<Rightarrow> int \<times> int \<Rightarrow> bool" where
  "skips w p \<longleftrightarrow> win_opacity w = 0xff \<and> \<not> D_FLAGS_IS_SET (win_options w) DWOP_COLORKEYING \<and>
     (if D_FLAGS_IS_SET (win_options w) DWOP_ALPHACHANNEL
      then D_FLAGS_IS_SET (win_options w) DWOP_OPAQUE_REGION \<and> p \<in> region_pixels (opaque_on_stack w)
      else p \<in> rect_pixels (window_frame w))"

lemma region_intersect_as_region:
  "dfb_region_intersect r x1 y1 x2 y2 =
     dfb_region_region_intersect r \<lparr> rgn_x1 = x1, rgn_y1 = y1, rgn_x2 = x2, rgn_y2 = y2 \<rparr>"
  by (simp add: dfb_region_intersect_def dfb_region_region_intersect_def Let_def)

lemma frame_corner [simp]:
  "rect_x (window_frame w) = rect_x (win_bounds w)" "rect_y (window_frame w) = rect_y (win_bounds w)"
  by (simp_all add: window_frame_def transform_window_to_stack_def Let_def)

lemma opaque_on_stack_eq:
  "\<lparr> rgn_x1 = rect_x (win_bounds w) + rgn_x1 (cfg_opaque (win_config w)),
     rgn_y1 = rect_y (win_bounds w) + rgn_y1 (cfg_opaque (win_config w)),
     rgn_x2 = rect_x (win_bounds w) + rgn_x2 (cfg_opaque (win_config w)),
     rgn_y2 = rect_y (win_bounds w) + rgn_y2 (cfg_opaque (win_config w)) \<rparr> = opaque_on_stack w"
  by (simp add: opaque_on_stack_def dfb_region_translate_def)

lemma skippable_eq:
  "skippable w r =
    (if win_opacity w = 0xff \<and> \<not> D_FLAGS_IS_SET (win_options w) DWOP_COLORKEYING
     then let clip = (if D_FLAGS_IS_SET (win_options w) DWOP_ALPHACHANNEL then opaque_on_stack w
                      else dfb_region_from_rectangle (window_frame w));
              (hit, opaque) = dfb_region_region_intersect r clip
          in if hit \<and> (D_FLAGS_IS_SET (win_options w) DWOP_ALPHACHANNEL \<longrightarrow> D_FLAGS_IS_SET (win_options w) DWOP_OPAQUE_REGION)
             then Some opaque else None
     else None)"
  by (auto simp: skippable_def intersect_frame_eq region_intersect_as_region opaque_on_stack_eq flags_touch_or Let_def
      split: prod.splits)

lemma skippable_Some:
  assumes "window_ok w" and "region_ok r" and "skippable w r = Some c"
  shows "within c r" and "p \<in> region_pixels c \<longleftrightarrow> p \<in> region_pixels r \<and> skips w p"
proof -
  let ?clip = "if D_FLAGS_IS_SET (win_options w) DWOP_ALPHACHANNEL then opaque_on_stack w
               else dfb_region_from_rectangle (window_frame w)"
  have clip: "dfb_region_region_intersect r ?clip = (True, c)" "win_opacity w = 0xff"
      "\<not> D_FLAGS_IS_SET (win_options w) DWOP_COLORKEYING"
      "D_FLAGS_IS_SET (win_options w) DWOP_ALPHACHANNEL \<longrightarrow> D_FLAGS_IS_SET (win_options w) DWOP_OPAQUE_REGION"
    using assms(3) by (auto simp: skippable_eq Let_def split: if_splits prod.splits)
  have "region_ok ?clip" using frame_region [OF assms(1)] by simp
  note hit = region_intersect_within [OF clip(1) assms(2) this]
  show "within c r" by (rule hit)
  show "p \<in> region_pixels c \<longleftrightarrow> p \<in> region_pixels r \<and> skips w p"
    using hit(3) clip frame_region(2) [OF assms(1)] by (auto simp: skips_def)
qed

lemma skippable_None:
  assumes "window_ok w" and "region_ok r" and "skippable w r = None" and "p \<in> region_pixels r"
  shows "\<not> skips w p"
proof -
  have "region_pixels r \<inter> region_pixels (opaque_on_stack w) = {}"
    if "D_FLAGS_IS_SET (win_options w) DWOP_ALPHACHANNEL" "skips w p"
    using that assms frame_region [OF assms(1)] region_intersect_missed [of r "opaque_on_stack w"]
    by (auto simp: skippable_eq skips_def Let_def split: if_splits prod.splits)
  moreover have "region_pixels r \<inter> rect_pixels (window_frame w) = {}"
    if "\<not> D_FLAGS_IS_SET (win_options w) DWOP_ALPHACHANNEL" "skips w p"
    using that assms frame_region [OF assms(1)]
      region_intersect_missed [of r "dfb_region_from_rectangle (window_frame w)"]
    by (auto simp: skippable_eq skips_def Let_def split: if_splits prod.splits)
  ultimately show ?thesis using assms(4) by (auto simp: skips_def split: if_splits)
qed

text \<open>Everything that is not skipped by a window above is added to the damage.\<close>

definition upd_pixels :: "DFBUpdates \<Rightarrow> (int \<times> int) set" where
  "upd_pixels u = (\<Union>r \<in> set (upd_regions u). region_pixels r)"

definition upd_ok :: "DFBUpdates \<Rightarrow> bool" where
  "upd_ok u \<longleftrightarrow> updates_inv u (upd_regions u)"

lemma upd_ok_intro: "updates_inv u damaged \<Longrightarrow> upd_ok u"
  by (auto simp: upd_ok_def updates_inv_def)

lemma updates_add_ok:
  assumes "upd_ok u" and "region_ok r"
  shows "upd_ok (dfb_updates_add u r)" and "upd_pixels u \<union> region_pixels r \<subseteq> upd_pixels (dfb_updates_add u r)"
proof -
  have inv: "updates_inv (dfb_updates_add u r) (upd_regions u @ [r])"
    using updates_add_inv assms by (simp add: upd_ok_def)
  then show "upd_ok (dfb_updates_add u r)" by (rule upd_ok_intro)
  show "upd_pixels u \<union> region_pixels r \<subseteq> upd_pixels (dfb_updates_add u r)"
    using inv by (auto simp: updates_inv_def upd_pixels_def)
qed

text \<open>Adding a tiling of parts keeps what was there and adds what each part adds.\<close>

lemma foldl_grows:
  assumes "\<And>q u. q \<in> set qs \<Longrightarrow> upd_ok u \<Longrightarrow> upd_ok (f u q) \<and> upd_pixels u \<union> A q \<subseteq> upd_pixels (f u q)"
    and "upd_ok u"
  shows "upd_ok (foldl f u qs) \<and> upd_pixels u \<union> (\<Union>q \<in> set qs. A q) \<subseteq> upd_pixels (foldl f u qs)"
  using assms
proof (induction qs arbitrary: u)
  case (Cons q qs)
  have "upd_ok (f u q)" "upd_pixels u \<union> A q \<subseteq> upd_pixels (f u q)" using Cons.prems by auto
  moreover from this have "upd_ok (foldl f (f u q) qs) \<and>
      upd_pixels (f u q) \<union> (\<Union>q \<in> set qs. A q) \<subseteq> upd_pixels (foldl f (f u q) qs)"
    using Cons.prems(1) by (intro Cons.IH) auto
  ultimately show ?case by auto
qed simp

lemma around_pixels:
  assumes "within c r"
  shows "(\<Union>q \<in> set (around r c). region_pixels q) = region_pixels r - region_pixels c"
proof (intro set_eqI)
  fix p
  have "(\<exists>q \<in> set qs. p \<in> region_pixels q) \<longleftrightarrow> concat (map (\<lambda>q. if p \<in> region_pixels q then [()] else []) qs) \<noteq> []" for qs
    by (induction qs) auto
  from this [of "around r c"] show "p \<in> (\<Union>q \<in> set (around r c). region_pixels q) \<longleftrightarrow> p \<in> region_pixels r - region_pixels c"
    by (simp add: around_tiles [OF assms] split: if_splits)
qed

lemma wind_of_change_adds:
  assumes "\<And>w. w \<in> set (sd_windows s) \<Longrightarrow> window_ok (sd_store s w)" and "current < length (sd_windows s)"
    and "region_ok r" and "upd_ok u"
  shows "upd_ok (wind_of_change s changed current r u) \<and>
    upd_pixels u \<union> {p \<in> region_pixels r. \<forall>j. changed < j \<and> j \<le> current \<longrightarrow> \<not> skips (sd_store s (sd_windows s ! j)) p}
      \<subseteq> upd_pixels (wind_of_change s changed current r u)"
  using assms(2-)
proof (induction current arbitrary: r u)
  case 0
  then show ?case using updates_add_ok by auto
next
  case (Suc c)
  let ?w = "sd_store s (sd_windows s ! Suc c)"
  let ?add = "\<lambda>c r. {p \<in> region_pixels r. \<forall>j. changed < j \<and> j \<le> c \<longrightarrow> \<not> skips (sd_store s (sd_windows s ! j)) p}"
  have ok: "window_ok ?w" using assms(1) Suc.prems(1) by simp
  have IH: "upd_ok (wind_of_change s changed c q u) \<and> upd_pixels u \<union> ?add c q \<subseteq> upd_pixels (wind_of_change s changed c q u)"
    if "region_ok q" "upd_ok u" for q u
    by (rule Suc.IH) (use Suc.prems that in auto)
  show ?case
  proof (cases "Suc c > changed")
    case False
    then have "?add (Suc c) r = region_pixels r" by auto
    then show ?thesis using False updates_add_ok [OF Suc.prems(3,2)] by auto
  next
    case above: True
    show ?thesis
    proof (cases "skippable ?w r")
      case None
      have "?add (Suc c) r \<subseteq> ?add c r" by auto
      then show ?thesis using above None IH [OF Suc.prems(2,3)] by auto
    next
      case (Some q)
      note part = skippable_Some [OF ok Suc.prems(2) Some]
      have "upd_ok (foldl (\<lambda>u part. wind_of_change s changed c part u) u (around r q)) \<and>
          upd_pixels u \<union> (\<Union>a \<in> set (around r q). ?add c a)
            \<subseteq> upd_pixels (foldl (\<lambda>u part. wind_of_change s changed c part u) u (around r q))"
        by (rule foldl_grows) (use IH around_ok(1) [OF part(1)] Suc.prems(3) in auto)
      moreover have "?add (Suc c) r \<subseteq> (\<Union>a \<in> set (around r q). ?add c a)"
      proof
        fix p assume p: "p \<in> ?add (Suc c) r"
        then have "p \<in> region_pixels r - region_pixels q" using above part(2) by auto
        then have "p \<in> (\<Union>a \<in> set (around r q). region_pixels a)" using around_pixels [OF part(1)] by simp
        then show "p \<in> (\<Union>a \<in> set (around r q). ?add c a)" using p by auto
      qed
      ultimately show ?thesis using above Some by auto
    qed
  qed
qed

section \<open>What the picture depends on\<close>

text \<open>The painter as a walk down the stack, and the picture of the whole stack at a pixel.\<close>

fun walk :: "(ptr \<Rightarrow> CoreWindow) \<Rightarrow> ptr list \<Rightarrow> int \<times> int \<Rightarrow> Paint list" where
  "walk st [] p = [Paint_Background]"
| "walk st (w # ws) p =
    (if covers (st w) p
     then (if hides (st w) p then [] else walk st ws p) @ [Paint_Window w (appearance (st w)) (\<not> in_opaque (st w) p)]
     else walk st ws p)"

definition picture :: "StackData \<Rightarrow> int \<times> int \<Rightarrow> Paint list" where
  "picture s p = painted s (length (sd_windows s)) p"

lemma painted_walk: "n \<le> length (sd_windows s) \<Longrightarrow> painted s n p = walk (sd_store s) (rev (take n (sd_windows s))) p"
  by (induction n) (simp_all add: take_Suc_conv_app_nth Let_def)

lemma picture_walk: "picture s p = walk (sd_store s) (rev (sd_windows s)) p"
  by (simp add: picture_def painted_walk)

abbreviation covered_above :: "(ptr \<Rightarrow> CoreWindow) \<Rightarrow> ptr list \<Rightarrow> int \<times> int \<Rightarrow> bool" where
  "covered_above st ws p \<equiv> \<exists>w \<in> set ws. covers (st w) p \<and> hides (st w) p"

lemma walk_covered:
  assumes "covered_above st as p" and "\<forall>w \<in> set as. st w = st' w"
  shows "walk st (as @ bs) p = walk st' (as @ cs) p"
  using assms by (induction as) auto

lemma walk_uncovered:
  assumes "\<not> covers (st w) p"
  shows "walk st (as @ w # bs) p = walk st (as @ bs) p"
  using assms by (induction as) auto

lemma walk_cong: "\<forall>w \<in> set as. st w = st' w \<Longrightarrow> walk st as p = walk st' as p"
  by (induction as) auto

text \<open>
  A window that changes or moves matters only where it covers the pixel before or after and
  nothing above it hides it.
\<close>

lemma picture_changed:
  assumes "sd_windows s = bs @ w # as" and "w \<notin> set bs" and "w \<notin> set as"
    and "sd_windows s' = sd_windows s" and "\<forall>v. v \<noteq> w \<longrightarrow> sd_store s' v = sd_store s v"
    and "picture s' p \<noteq> picture s p"
  shows "\<not> covered_above (sd_store s) as p" and "covers (sd_store s w) p \<or> covers (sd_store s' w) p"
proof -
  have same: "\<forall>v \<in> set (rev as). sd_store s v = sd_store s' v" "\<forall>v \<in> set (rev as @ rev bs). sd_store s v = sd_store s' v"
    using assms(2,3,5) by auto
  show "\<not> covered_above (sd_store s) as p"
  proof
    assume "covered_above (sd_store s) as p"
    then have "walk (sd_store s) (rev as @ w # rev bs) p = walk (sd_store s') (rev as @ w # rev bs) p"
      by (intro walk_covered same) simp
    then show False using assms(1,4,6) by (simp add: picture_walk)
  qed
  show "covers (sd_store s w) p \<or> covers (sd_store s' w) p"
  proof (rule ccontr)
    assume "\<not> ?thesis"
    then have "walk (sd_store s) (rev as @ w # rev bs) p = walk (sd_store s') (rev as @ w # rev bs) p"
      using walk_cong [OF same(2)] by (simp add: walk_uncovered)
    then show False using assms(1,4,6) by (simp add: picture_walk)
  qed
qed

lemma picture_raised:
  assumes "sd_windows s = as @ w # bs @ cs" and "sd_windows s' = as @ bs @ w # cs"
    and "sd_store s' = sd_store s" and "picture s' p \<noteq> picture s p"
  shows "\<not> covered_above (sd_store s) cs p" and "covers (sd_store s w) p"
proof -
  show "\<not> covered_above (sd_store s) cs p"
  proof
    assume "covered_above (sd_store s) cs p"
    then have "walk (sd_store s) (rev cs @ rev bs @ w # rev as) p = walk (sd_store s) (rev cs @ w # rev bs @ rev as) p"
      by (intro walk_covered) auto
    then show False using assms by (simp add: picture_walk)
  qed
  show "covers (sd_store s w) p"
  proof (rule ccontr)
    assume out: "\<not> covers (sd_store s w) p"
    have "walk (sd_store s) (rev cs @ rev bs @ w # rev as) p = walk (sd_store s) (rev cs @ w # rev bs @ rev as) p"
      using walk_uncovered [of "sd_store s" w, OF out, of "rev cs @ rev bs" "rev as"]
        walk_uncovered [of "sd_store s" w, OF out, of "rev cs" "rev bs @ rev as"] by simp
    then show False using assms by (simp add: picture_walk)
  qed
qed

section \<open>The damage of a window\<close>

text \<open>
  A window is regular when its sizes are positive, its rotation is a legal one, its opaque region
  lies within it, and an opacity of 255 means that it is drawn at all.
\<close>

definition regular :: "CoreWindow \<Rightarrow> bool" where
  "regular w \<longleftrightarrow> window_ok w \<and> cfg_rotation (win_config w) \<in> {0, 90, 180, 270} \<and>
     region_pixels (opaque_on_stack w) \<subseteq> rect_pixels (window_frame w) \<and> (win_opacity w = 0xff \<longrightarrow> VISIBLE_WINDOW w)"

lemma skips_hides: "regular w \<Longrightarrow> skips w p \<Longrightarrow> covers w p \<and> hides w p"
  unfolding regular_def skips_def covers_def hides_def in_opaque_def
  by (auto dest: two_options_set split: if_splits)

text \<open>A point of the stack in the coordinates of the window.\<close>

definition to_window :: "CoreWindow \<Rightarrow> int \<times> int \<Rightarrow> int \<times> int" where
  "to_window w p = transform_point_in_window w (fst p - rect_x (win_bounds w)) (snd p - rect_y (win_bounds w))"

definition screen :: "StackData \<Rightarrow> (int \<times> int) set" where
  "screen s = {0..<sd_width s} \<times> {0..<sd_height s}"

definition on_stack :: "CoreWindow \<Rightarrow> DFBRegion \<Rightarrow> DFBRegion" where
  "on_stack w area = dfb_region_translate
     (dfb_region_from_rotated area \<lparr> dim_w = rect_w (win_bounds w), dim_h = rect_h (win_bounds w) \<rparr>
        (cfg_rotation (win_config w)))
     (rect_x (win_bounds w)) (rect_y (win_bounds w))"

lemma mem_on_stack:
  assumes "cfg_rotation (win_config w) \<in> {0, 90, 180, 270}"
  shows "p \<in> region_pixels (on_stack w area) \<longleftrightarrow> to_window w p \<in> region_pixels area"
  using assms
  by (cases p) (auto simp: on_stack_def to_window_def transform_point_in_window_def dfb_region_translate_def
      dfb_region_from_rotated_def dfb_geo)

lemma on_stack_ok:
  assumes "region_ok area"
  shows "region_ok (on_stack w area)"
  using assms by (auto simp: on_stack_def dfb_region_translate_def dfb_region_from_rotated_def region_ok_def)

lemma mem_frame:
  assumes "cfg_rotation (win_config w) \<in> {0, 90, 180, 270}"
  shows "p \<in> rect_pixels (window_frame w) \<longleftrightarrow> to_window w p \<in> {0..<rect_w (win_bounds w)} \<times> {0..<rect_h (win_bounds w)}"
  using assms
  by (cases p) (auto simp: to_window_def transform_point_in_window_def window_frame_def transform_window_to_stack_def
      Let_def dfb_geo)

lemma last_index_nth:
  assumes "distinct xs" and "xs = bs @ w # as"
  shows "last_index xs w = int (length bs)"
proof -
  have "takeWhile (\<lambda>y. y \<noteq> w) (rev as @ w # rev bs) = rev as"
    using assms by (subst takeWhile_tail) auto
  then show ?thesis using assms by (simp add: last_index_def)
qed

lemma unsafe_region_intersect_ok:
  assumes "region_ok r"
  shows "dfb_unsafe_region_intersect r x1 y1 x2 y2 = dfb_region_intersect r x1 y1 x2 y2"
  using assms by (simp add: dfb_unsafe_region_intersect_def region_validate_def region_ok_def Let_def)

text \<open>Only the damage changes, it grows, and it gets what is not skipped.\<close>

lemma update_window_adds:
  assumes "stack_ok s" and "distinct (sd_windows s)" and "sd_windows s = bs @ w # as"
    and "cfg_rotation (win_config (sd_store s w)) \<in> {0, 90, 180, 270}"
    and "\<not> sd_hw_mode s" and "0 < sd_width s" and "0 < sd_height s" and "upd_ok (sd_updates s)"
    and "window_area (sd_store s w) region sc = Some area" and "region_ok area"
  shows "\<exists>u. update_window s w region fc fi sc = Some (s\<lparr> sd_updates := u \<rparr>) \<and> upd_ok u \<and>
    upd_pixels (sd_updates s) \<subseteq> upd_pixels u \<and>
    (VISIBLE_WINDOW (sd_store s w) \<or> fi \<longrightarrow>
      {p \<in> screen s. to_window (sd_store s w) p \<in> region_pixels area \<and>
          (fc \<or> (\<forall>v \<in> set as. \<not> skips (sd_store s v) p))} \<subseteq> upd_pixels u)"
proof (cases "VISIBLE_WINDOW (sd_store s w) \<or> fi")
  case False
  then show ?thesis using assms(8) by (intro exI [of _ "sd_updates s"]) (simp add: update_window_def)
next
  case True
  let ?scr = "\<lparr> rgn_x1 = 0, rgn_y1 = 0, rgn_x2 = sd_width s - 1, rgn_y2 = sd_height s - 1 \<rparr>"
  have scr: "region_ok ?scr" "region_pixels ?scr = screen s"
    using assms(6,7) by (auto simp: region_ok_def screen_def region_pixels_def)
  have up: "region_ok (on_stack (sd_store s w) area)" by (rule on_stack_ok [OF assms(10)])
  obtain hit update where cut: "dfb_region_region_intersect (on_stack (sd_store s w) area) ?scr = (hit, update)"
    by force
  have idx: "get_index s w = int (length bs)"
    using last_index_nth [OF assms(2,3)] by (simp add: get_index_def)
  have eq: "update_window s w region fc fi sc =
      Some (if \<not> hit then s
            else if fc then s\<lparr> sd_updates := dfb_updates_add (sd_updates s) update \<rparr>
            else repaint_stack_for_window s update (int (length bs)))"
    using True assms(5,9) cut unsafe_region_intersect_ok [OF up] idx
    by (auto simp: update_window_def region_intersect_as_region on_stack_def [symmetric] Let_def)
  show ?thesis
  proof (cases hit)
    case False
    have "region_pixels (on_stack (sd_store s w) area) \<inter> screen s = {}"
      using region_intersect_missed [of "on_stack (sd_store s w) area" ?scr update] cut False up scr by simp
    then have "{p \<in> screen s. to_window (sd_store s w) p \<in> region_pixels area} = {}"
      using mem_on_stack [OF assms(4), of _ area] by blast
    then show ?thesis
      using False eq assms(8) by (intro exI [of _ "sd_updates s"]) auto
  next
    case hit: True
    have upd: "region_ok update" "region_pixels update = {p \<in> screen s. to_window (sd_store s w) p \<in> region_pixels area}"
      using region_intersect_within [of "on_stack (sd_store s w) area" ?scr update] cut hit up scr
        mem_on_stack [OF assms(4), of _ area] by (auto simp: within_def)
    show ?thesis
    proof (cases fc)
      case True
      then show ?thesis
        using hit eq updates_add_ok [OF assms(8) upd(1)] upd(2)
        by (intro exI [of _ "dfb_updates_add (sd_updates s) update"]) auto
    next
      case False
      let ?u = "wind_of_change s (length bs) (length (sd_windows s) - 1) update (sd_updates s)"
      have "sd_windows s ! j \<in> set as" if "length bs < j" "j \<le> length (sd_windows s) - 1" for j
        using that assms(3) by (auto simp: nth_append nth_Cons' intro!: nth_mem)
      moreover have "upd_ok ?u \<and> upd_pixels (sd_updates s) \<union> {p \<in> region_pixels update. \<forall>j. length bs < j \<and>
          j \<le> length (sd_windows s) - 1 \<longrightarrow> \<not> skips (sd_store s (sd_windows s ! j)) p} \<subseteq> upd_pixels ?u"
        using assms(1,3,8) upd(1) by (intro wind_of_change_adds) (auto simp: stack_ok_def)
      moreover have "repaint_stack_for_window s update (int (length bs)) = s\<lparr> sd_updates := ?u \<rparr>"
        using assms(3) by (simp add: repaint_stack_for_window_def)
      ultimately show ?thesis
        using hit eq False upd(2) by (intro exI [of _ ?u]) auto
    qed
  qed
qed

section \<open>Updates of scaled windows\<close>

lemma sdiv_pos: "0 \<le> a \<Longrightarrow> 0 < b \<Longrightarrow> a sdiv b = a div (b :: int)"
  by (cases "a = 0") (simp_all add: signed_divide_int_def)

lemma sdiv_neg: "a \<le> 0 \<Longrightarrow> 0 < b \<Longrightarrow> a sdiv b = - ((- a) div (b :: int))"
  by (cases "a = 0") (simp_all add: signed_divide_int_def)

lemma mul_div_Some:
  assumes "- 1 \<le> a" and "a \<le> sw" and "0 < w" and "0 < sw" and "sw * w < 2 ^ 31"
  shows "\<exists>q. mul_div a w sw = Some q \<and> - w \<le> q \<and> q \<le> w \<and> (0 \<le> a \<longrightarrow> q = (a * w) div sw) \<and> (a < 0 \<longrightarrow> q \<le> 0)"
proof (cases "0 \<le> a")
  case True
  have le: "a * w \<le> sw * w" using assms by (simp add: mult_right_mono)
  have "(a * w) div sw \<le> (sw * w) div sw" using le assms(4) by (rule zdiv_mono1)
  then have q: "0 \<le> (a * w) div sw" "(a * w) div sw \<le> w" using assms True by (auto simp: pos_imp_zdiv_nonneg_iff)
  have "1 * w \<le> sw * w" using assms by (intro mult_right_mono) auto
  then have "w < 2 ^ 31" using assms(5) by simp
  moreover have "0 \<le> a * w" using True assms(3) by simp
  moreover have "a * w < 2 ^ 31" using le assms(5) by linarith
  ultimately have "int32 (a * w)" "int32 ((a * w) div sw)"
    unfolding int32_def using q by linarith+
  then have "mul_div a w sw = Some ((a * w) div sw)"
    using assms True by (simp add: mul_div_def chk_def c_div_def sdiv_pos)
  then show ?thesis using q True assms by auto
next
  case False
  then have a: "a = - 1" using assms by simp
  have "1 * w \<le> sw * w" using assms by (intro mult_right_mono) auto
  then have w: "w < 2 ^ 31" using assms(5) by simp
  have "w div sw \<le> w div 1" using assms(3,4) by (intro zdiv_mono2) auto
  then have "w div sw \<le> w" by simp
  moreover have "0 \<le> w div sw" using assms by (simp add: pos_imp_zdiv_nonneg_iff)
  ultimately have "int32 (- w)" "int32 (- (w div sw))" using w assms by (auto simp: int32_def)
  then have "mul_div a w sw = Some (- (w div sw))"
    using assms a by (simp add: mul_div_def chk_def c_div_def sdiv_pos)
  then show ?thesis using a \<open>w div sw \<le> w\<close> \<open>0 \<le> w div sw\<close> by auto
qed

text \<open>A destination column shows the source column \<open>(d * sw) div w\<close>; all columns showing one of \<open>a..b\<close> are reached.\<close>

lemma scale_axis_covers:
  assumes "0 \<le> a" and "a \<le> b" and "b < sw" and "0 < w" and "sw * w < 2 ^ 31"
  shows "\<exists>lo hi. scale_axis a b w sw = Some (lo, hi) \<and> lo \<le> hi \<and> lo < w \<and> 0 \<le> hi \<and>
    (\<forall>d. 0 \<le> d \<and> d < w \<and> a \<le> (d * sw) div w \<and> (d * sw) div w \<le> b \<longrightarrow> lo \<le> d \<and> d \<le> hi)"
proof -
  have sw: "0 < sw" using assms by simp
  have lower: "a * w \<le> d * sw" if "a \<le> (d * sw) div w" for d
  proof -
    have "a * w \<le> ((d * sw) div w) * w" using that assms(4) by (simp add: mult_right_mono)
    also have "\<dots> \<le> d * sw" using assms(4) by (metis div_mult_mod_eq le_add_same_cancel1 pos_mod_sign)
    finally show ?thesis .
  qed
  have upper: "d * sw < (b + 1) * w" if "(d * sw) div w \<le> b" for d
  proof -
    have "d * sw < ((d * sw) div w + 1) * w"
      using assms(4) by (metis add.commute distrib_left div_mult_mod_eq add_strict_left_mono mult.commute mult.right_neutral pos_mod_bound)
    also have "\<dots> \<le> (b + 1) * w" using that assms(4) by (intro mult_right_mono) auto
    finally show ?thesis .
  qed
  have floor_le: "x div sw \<le> d" if "x \<le> d * sw" for x d
    using that sw by (metis zdiv_mono1 nonzero_mult_div_cancel_right less_irrefl)
  have le_floor: "d \<le> x div sw" if "d * sw \<le> x" for x d
    using that sw by (metis zdiv_mono1 nonzero_mult_div_cancel_right less_irrefl)
  have mono: "(a * w) div sw \<le> (b * w) div sw"
    using assms sw by (intro zdiv_mono1 mult_right_mono) auto
  show ?thesis
  proof (cases "w > sw")
    case True
    obtain lo where lo: "mul_div (a - 1) w sw = Some lo" "0 \<le> a - 1 \<longrightarrow> lo = ((a - 1) * w) div sw" "a - 1 < 0 \<longrightarrow> lo \<le> 0"
      using mul_div_Some [of "a - 1" sw w] assms sw by auto
    obtain hi where hi: "mul_div (b + 1) w sw = Some hi" "hi = ((b + 1) * w) div sw"
      using mul_div_Some [of "b + 1" sw w] assms sw by auto
    have lo_le: "lo \<le> (a * w) div sw"
    proof (cases "a = 0")
      case False
      then have "lo = ((a - 1) * w) div sw" using lo(2) assms(1) by simp
      also have "\<dots> \<le> (a * w) div sw" using assms sw by (intro zdiv_mono1 mult_right_mono) auto
      finally show ?thesis .
    qed (use lo(3) in simp)
    have "(a * w) div sw \<le> ((b + 1) * w) div sw" using assms sw by (intro zdiv_mono1 mult_right_mono) auto
    then have order: "lo \<le> hi" "0 \<le> hi" using lo_le hi(2) assms sw by (auto simp: pos_imp_zdiv_nonneg_iff)
    have "a * w < w * sw" using assms by (simp add: mult.commute mult_strict_right_mono)
    moreover have "(a * w) div sw * sw \<le> a * w" using sw by (metis div_mult_mod_eq le_add_same_cancel1 pos_mod_sign)
    ultimately have "(a * w) div sw * sw < w * sw" by linarith
    then have "(a * w) div sw < w" using sw by simp
    then have "lo < w" using lo_le by simp
    moreover have "lo \<le> d \<and> d \<le> hi" if "a \<le> (d * sw) div w" "(d * sw) div w \<le> b" for d
      using floor_le [OF lower [OF that(1)]] le_floor [of d "(b + 1) * w"] upper [OF that(2)] lo_le hi(2) by auto
    ultimately show ?thesis using True lo(1) hi(1) order by (auto simp: scale_axis_def)
  next
    case False
    obtain lo where lo: "mul_div a w sw = Some lo" "lo = (a * w) div sw"
      using mul_div_Some [of a sw w] assms sw by auto
    obtain hi where hi: "mul_div b w sw = Some hi" "hi = (b * w) div sw"
      using mul_div_Some [of b sw w] assms sw by auto
    have "a * w < w * sw" using assms by (simp add: mult.commute mult_strict_right_mono)
    then have "lo < w + 1" using sw lo(2) floor_le [of "a * w" w] by simp
    moreover have "0 \<le> hi" using hi(2) assms sw by (simp add: pos_imp_zdiv_nonneg_iff)
    moreover have "d \<le> hi + 1" if "(d * sw) div w \<le> b" for d
    proof -
      have "(b + 1) * w = b * w + w" by (simp add: distrib_right)
      then have "(d - 1) * sw \<le> b * w" using upper [OF that] False by (simp add: left_diff_distrib)
      from le_floor [OF this] show ?thesis using hi(2) by simp
    qed
    ultimately show ?thesis
      using False lo(1) hi(1) mono lo(2) hi(2) floor_le [OF lower] by (force simp: scale_axis_def)
  qed
qed

text \<open>The pixel of its surface that a window shows at a point of the stack.\<close>

definition texel :: "CoreWindow \<Rightarrow> int \<times> int \<Rightarrow> int \<times> int" where
  "texel w p =
    (let (x, y) = to_window w p
     in if D_FLAGS_IS_SET (win_options w) DWOP_SCALE
        then (case win_surface w of
                Some sz \<Rightarrow> ((x * dim_w sz) div rect_w (win_bounds w), (y * dim_h sz) div rect_h (win_bounds w))
              | None \<Rightarrow> (x, y))
        else (x, y))"

text \<open>A region of its surface, for a window whose products of sizes fit an \<^verbatim>\<open>int\<close>.\<close>

definition surface_region :: "CoreWindow \<Rightarrow> DFBRegion \<Rightarrow> bool" where
  "surface_region w r \<longleftrightarrow> region_ok r \<and> (\<exists>sz. win_surface w = Some sz \<and>
     0 \<le> rgn_x1 r \<and> rgn_x2 r < dim_w sz \<and> 0 \<le> rgn_y1 r \<and> rgn_y2 r < dim_h sz \<and>
     dim_w sz * rect_w (win_bounds w) < 2 ^ 31 \<and> dim_h sz * rect_h (win_bounds w) < 2 ^ 31)"

lemma window_area_covers:
  assumes "surface_region w r" and "window_ok w"
  shows "\<exists>area. window_area w (Some r) True = Some area \<and> region_ok area \<and>
    (\<forall>p. cfg_rotation (win_config w) \<in> {0, 90, 180, 270} \<and> p \<in> rect_pixels (window_frame w) \<and>
       texel w p \<in> region_pixels r \<longrightarrow> to_window w p \<in> region_pixels area)"
proof (cases "D_FLAGS_IS_SET (win_options w) DWOP_SCALE")
  case False
  then show ?thesis
    using assms(1) by (intro exI [of _ r]) (auto simp: window_area_def surface_region_def texel_def split: prod.splits)
next
  case True
  obtain sz where sz: "win_surface w = Some sz" "region_ok r"
      "0 \<le> rgn_x1 r" "rgn_x2 r < dim_w sz" "0 \<le> rgn_y1 r" "rgn_y2 r < dim_h sz"
      "dim_w sz * rect_w (win_bounds w) < 2 ^ 31" "dim_h sz * rect_h (win_bounds w) < 2 ^ 31"
    using assms(1) by (auto simp: surface_region_def)
  have pos: "0 < rect_w (win_bounds w)" "0 < rect_h (win_bounds w)"
    using assms(2) by (auto simp: window_ok_def rect_ok_def)
  obtain x1 x2 where x: "scale_axis (rgn_x1 r) (rgn_x2 r) (rect_w (win_bounds w)) (dim_w sz) = Some (x1, x2)"
      "x1 \<le> x2" "x1 < rect_w (win_bounds w)" "0 \<le> x2"
      "\<And>d. 0 \<le> d \<Longrightarrow> d < rect_w (win_bounds w) \<Longrightarrow> rgn_x1 r \<le> (d * dim_w sz) div rect_w (win_bounds w) \<Longrightarrow>
         (d * dim_w sz) div rect_w (win_bounds w) \<le> rgn_x2 r \<Longrightarrow> x1 \<le> d \<and> d \<le> x2"
    using scale_axis_covers [OF sz(3) _ sz(4) pos(1) sz(7)] sz(2) by (auto simp: region_ok_def)
  obtain y1 y2 where y: "scale_axis (rgn_y1 r) (rgn_y2 r) (rect_h (win_bounds w)) (dim_h sz) = Some (y1, y2)"
      "y1 \<le> y2" "y1 < rect_h (win_bounds w)" "0 \<le> y2"
      "\<And>d. 0 \<le> d \<Longrightarrow> d < rect_h (win_bounds w) \<Longrightarrow> rgn_y1 r \<le> (d * dim_h sz) div rect_h (win_bounds w) \<Longrightarrow>
         (d * dim_h sz) div rect_h (win_bounds w) \<le> rgn_y2 r \<Longrightarrow> y1 \<le> d \<and> d \<le> y2"
    using scale_axis_covers [OF sz(5) _ sz(6) pos(2) sz(8)] sz(2) by (auto simp: region_ok_def)
  let ?area = "dfb_region_clip \<lparr> rgn_x1 = x1, rgn_y1 = y1, rgn_x2 = x2, rgn_y2 = y2 \<rparr>
      0 0 (rect_w (win_bounds w) - 1) (rect_h (win_bounds w) - 1)"
  have "window_area w (Some r) True = Some ?area"
    using True sz(1) x(1) y(1) by (simp add: window_area_def Let_def)
  moreover have "region_ok ?area"
    using x(2-4) y(2-4) pos by (simp add: dfb_region_clip_def region_ok_def Let_def)
  moreover have "to_window w p \<in> region_pixels ?area"
    if "cfg_rotation (win_config w) \<in> {0, 90, 180, 270}" "p \<in> rect_pixels (window_frame w)" "texel w p \<in> region_pixels r" for p
  proof -
    obtain a b where ab: "to_window w p = (a, b)" by force
    have in_frame: "0 \<le> a" "a < rect_w (win_bounds w)" "0 \<le> b" "b < rect_h (win_bounds w)"
      using that(2) mem_frame [OF that(1)] ab by auto
    have "rgn_x1 r \<le> a * dim_w sz div rect_w (win_bounds w)" "a * dim_w sz div rect_w (win_bounds w) \<le> rgn_x2 r"
        "rgn_y1 r \<le> b * dim_h sz div rect_h (win_bounds w)" "b * dim_h sz div rect_h (win_bounds w) \<le> rgn_y2 r"
      using that(3) ab True sz(1) by (simp_all add: texel_def dfb_geo)
    then have "x1 \<le> a \<and> a \<le> x2" "y1 \<le> b \<and> b \<le> y2"
      using x(5) [OF in_frame(1,2)] y(5) [OF in_frame(3,4)] by simp_all
    then show ?thesis using in_frame ab by (simp add: dfb_region_clip_def dfb_geo Let_def)
  qed
  ultimately show ?thesis by blast
qed

lemma walk_shows:
  assumes "Paint_Window w a b \<in> set (walk st (as @ w # bs) p)" and "w \<notin> set as" and "w \<notin> set bs"
  shows "covers (st w) p" and "\<not> covered_above st as p"
proof -
  have absent: "Paint_Window w a b \<notin> set (walk st ws p)" if "w \<notin> set ws" for ws
    using that by (induction ws) auto
  show "covers (st w) p"
  proof (rule ccontr)
    assume "\<not> covers (st w) p"
    then show False using assms absent [of "as @ bs"] by (simp add: walk_uncovered)
  qed
  show "\<not> covered_above st as p"
    using assms(1,2) by (induction as) (auto split: if_splits)
qed

definition stack_regular :: "StackData \<Rightarrow> bool" where
  "stack_regular s \<longleftrightarrow> (\<forall>w \<in> set (sd_windows s). regular (sd_store s w)) \<and> distinct (sd_windows s) \<and>
     \<not> sd_hw_mode s \<and> 0 < sd_width s \<and> 0 < sd_height s \<and> upd_ok (sd_updates s)"

lemma stack_regular_ok: "stack_regular s \<Longrightarrow> stack_ok s"
  by (auto simp: stack_regular_def stack_ok_def regular_def)

lemma split_windows:
  assumes "stack_regular s" and "w \<in> set (sd_windows s)"
  obtains bs as where "sd_windows s = bs @ w # as" "w \<notin> set bs" "w \<notin> set as"
    "\<And>v p. v \<in> set as \<Longrightarrow> skips (sd_store s v) p \<Longrightarrow> covers (sd_store s v) p \<and> hides (sd_store s v) p"
proof -
  obtain bs as where split: "sd_windows s = bs @ w # as" using assms(2) by (meson split_list)
  have "regular (sd_store s v)" if "v \<in> set as" for v using that split assms(1) by (auto simp: stack_regular_def)
  then show thesis
    using that [OF split] split assms(1) skips_hides by (auto simp: stack_regular_def)
qed

text \<open>
  C4: New window content reaches the screen. On a regular stack (distinct windows of positive size, turned by multiples of
  90 degrees, each with its opaque region within its frame, and visible when its opacity is 255; no input-only window has
  opacity 255), when a visible window announces that a region of its surface changed, \<^verbatim>\<open>update_window\<close> returns and adds to the damage every pixel of the screen that
  shows a pixel of that region and is not hidden: through the scaling of stretched windows (where the bounds of
  the area are rounded), the rotation of the window, clipping to the screen, and the skipping of
  what opaque windows above hide. Earlier damage is kept.
\<close>

theorem update_reaches_screen:
  assumes "stack_regular s" and "w \<in> set (sd_windows s)" and "VISIBLE_WINDOW (sd_store s w)"
    and "surface_region (sd_store s w) r"
  shows "\<exists>u. update_window s w (Some r) False False True = Some (s\<lparr> sd_updates := u \<rparr>) \<and>
    upd_pixels (sd_updates s) \<subseteq> upd_pixels u \<and>
    {p \<in> screen s. texel (sd_store s w) p \<in> region_pixels r \<and>
        (\<exists>a b. Paint_Window w a b \<in> set (picture s p))} \<subseteq> upd_pixels u"
proof -
  obtain bs as where split: "sd_windows s = bs @ w # as" "w \<notin> set bs" "w \<notin> set as"
      and skip: "\<And>v p. v \<in> set as \<Longrightarrow> skips (sd_store s v) p \<Longrightarrow> covers (sd_store s v) p \<and> hides (sd_store s v) p"
    using split_windows [OF assms(1,2)] by metis
  have reg: "window_ok (sd_store s w)" "cfg_rotation (win_config (sd_store s w)) \<in> {0, 90, 180, 270}"
    using assms(1,2) unfolding stack_regular_def regular_def by auto
  obtain area where area: "window_area (sd_store s w) (Some r) True = Some area" "region_ok area"
      "\<And>p. p \<in> rect_pixels (window_frame (sd_store s w)) \<Longrightarrow> texel (sd_store s w) p \<in> region_pixels r \<Longrightarrow>
         to_window (sd_store s w) p \<in> region_pixels area"
    using window_area_covers [OF assms(4) reg(1)] reg(2) by blast
  obtain u where u: "update_window s w (Some r) False False True = Some (s\<lparr> sd_updates := u \<rparr>)"
      "upd_pixels (sd_updates s) \<subseteq> upd_pixels u"
      "{p \<in> screen s. to_window (sd_store s w) p \<in> region_pixels area \<and> (\<forall>v \<in> set as. \<not> skips (sd_store s v) p)}
         \<subseteq> upd_pixels u"
    using update_window_adds [OF stack_regular_ok [OF assms(1)] _ split(1) reg(2) _ _ _ _ area(1,2), of False False]
      assms(1,3) by (auto simp: stack_regular_def)
  have "p \<in> upd_pixels u"
    if "p \<in> screen s" "texel (sd_store s w) p \<in> region_pixels r" "Paint_Window w a b \<in> set (picture s p)" for p a b
  proof -
    have top: "covers (sd_store s w) p" "\<not> covered_above (sd_store s) (rev as) p"
      using walk_shows [of w a b "sd_store s" "rev as" "rev bs" p] that(3) split by (simp_all add: picture_walk)
    then have "to_window (sd_store s w) p \<in> region_pixels area" using area(3) that(2) top(1) by (simp add: covers_def)
    moreover have "\<forall>v \<in> set as. \<not> skips (sd_store s v) p" using top(2) skip [of _ p] by auto
    ultimately show ?thesis using u(3) that(1) by blast
  qed
  then show ?thesis using u(1,2) by blast
qed

text \<open>A stretched window below an opaque one: its surface column 3 is shown by columns 6 and 7.\<close>

definition scaled_below :: StackData where
  "scaled_below = plain_stack
     [(1, (plain_window \<lparr> rect_x = 0, rect_y = 0, rect_w = 20, rect_h = 20 \<rparr> 255 0x10000
            \<lparr> rgn_x1 = 0, rgn_y1 = 0, rgn_x2 = 0, rgn_y2 = 0 \<rparr>)\<lparr> win_surface := Some \<lparr> dim_w = 10, dim_h = 10 \<rparr> \<rparr>),
      (2, plain_window \<lparr> rect_x = 10, rect_y = 10, rect_w = 20, rect_h = 20 \<rparr> 255 0
            \<lparr> rgn_x1 = 0, rgn_y1 = 0, rgn_x2 = 0, rgn_y2 = 0 \<rparr>)]"

lemmas demo_simps = plain_stack_def plain_window_def window_ok_def rect_ok_def region_ok_def regular_def
  opaque_on_stack_def dfb_region_translate_def window_frame_def transform_window_to_stack_def VISIBLE_WINDOW_def
  window_flags covers_def hides_def in_opaque_def dfb_geo

lemma no_updates_ok: "upd_ok \<lparr> upd_regions = [], upd_max = 8, upd_bounding = r \<rparr>"
  by (simp add: upd_ok_def updates_inv_def)

lemma scaled_below_regular: "stack_regular scaled_below"
  by (auto simp: stack_regular_def scaled_below_def no_updates_ok demo_simps)

theorem update_reaches_screen_witness:
  "\<exists>u. update_window scaled_below 1 (Some \<lparr> rgn_x1 = 3, rgn_y1 = 0, rgn_x2 = 3, rgn_y2 = 9 \<rparr>) False False True
       = Some (scaled_below\<lparr> sd_updates := u \<rparr>) \<and> (7, 5) \<in> upd_pixels u"
proof -
  have "surface_region (sd_store scaled_below 1) \<lparr> rgn_x1 = 3, rgn_y1 = 0, rgn_x2 = 3, rgn_y2 = 9 \<rparr>"
    "1 \<in> set (sd_windows scaled_below)" "VISIBLE_WINDOW (sd_store scaled_below 1)"
    by (auto simp: scaled_below_def surface_region_def demo_simps)
  moreover have "(7, 5) \<in> screen scaled_below"
    "texel (sd_store scaled_below 1) (7, 5) \<in> region_pixels \<lparr> rgn_x1 = 3, rgn_y1 = 0, rgn_x2 = 3, rgn_y2 = 9 \<rparr>"
    "\<exists>a b. Paint_Window 1 a b \<in> set (picture scaled_below (7, 5))"
    by (auto simp: screen_def texel_def to_window_def transform_point_in_window_def picture_walk scaled_below_def demo_simps)
  ultimately show ?thesis
    using update_reaches_screen [OF scaled_below_regular, of 1 "\<lparr> rgn_x1 = 3, rgn_y1 = 0, rgn_x2 = 3, rgn_y2 = 9 \<rparr>"]
    by blast
qed

lemma around_self: "around r r = []"
  by (simp add: around_def)

lemma whole_area:
  "region_pixels (on_stack w (the (window_area w None sc))) \<subseteq> rect_pixels (window_frame w)"
  if "cfg_rotation (win_config w) \<in> {0, 90, 180, 270}"
proof
  fix p assume "p \<in> region_pixels (on_stack w (the (window_area w None sc)))"
  then have "to_window w p \<in> region_pixels
      \<lparr> rgn_x1 = 0, rgn_y1 = 0, rgn_x2 = rect_w (win_bounds w) - 1, rgn_y2 = rect_h (win_bounds w) - 1 \<rparr>"
    using mem_on_stack [OF that] by (simp add: window_area_def Let_def)
  then have "to_window w p \<in> {0..<rect_w (win_bounds w)} \<times> {0..<rect_h (win_bounds w)}"
    by (cases "to_window w p") (auto simp: dfb_geo)
  then show "p \<in> rect_pixels (window_frame w)" using mem_frame [OF that] by simp
qed

lemma intersect_contained:
  assumes "region_ok r" and "region_ok c" and "region_pixels r \<subseteq> region_pixels c"
  shows "dfb_region_region_intersect r c = (True, r)"
  using assms region_pixels_subset_iff [OF assms(1), of c]
  by (auto simp: region_region_intersect_eq region_ok_def intro!: DFBRegion.equality)

lemma skippable_whole:
  assumes "window_ok w" and "region_ok r" and "region_pixels r \<subseteq> rect_pixels (window_frame w)"
    and "win_opacity w = 0xff" and "\<not> D_FLAGS_IS_SET (win_options w) (DWOP_COLORKEYING OR DWOP_ALPHACHANNEL)"
  shows "skippable w r = Some r"
proof -
  have "dfb_region_region_intersect r (dfb_region_from_rectangle (window_frame w)) = (True, r)"
    using assms(2,3) frame_region [OF assms(1)] by (intro intersect_contained) auto
  then show ?thesis using assms(4,5) by (simp add: skippable_def intersect_frame_eq)
qed

text \<open>
  An input-only window freezes the picture below it. The skipping of \<^verbatim>\<open>wind_of_change\<close> looks only at
  opacity and blending options, while composition leaves out windows that are not visible: when an
  input-only window with opacity 255 and no blending option lies on top of a visible window and covers its frame, an update of
  that window adds nothing to the damage, although composition shows it at every pixel of its frame.
\<close>

theorem input_only_freezes:
  assumes "sd_windows s = bs @ [w, t]" and "distinct (sd_windows s)"
    and "window_ok (sd_store s w)" and "window_ok (sd_store s t)"
    and "cfg_rotation (win_config (sd_store s w)) \<in> {0, 90, 180, 270}" and "VISIBLE_WINDOW (sd_store s w)"
    and "D_FLAGS_IS_SET (win_caps (sd_store s t)) DWCAPS_INPUTONLY" and "win_opacity (sd_store s t) = 0xff"
    and "\<not> D_FLAGS_IS_SET (win_options (sd_store s t)) (DWOP_COLORKEYING OR DWOP_ALPHACHANNEL)"
    and "rect_pixels (window_frame (sd_store s w)) \<subseteq> rect_pixels (window_frame (sd_store s t))"
    and "0 < sd_width s" and "0 < sd_height s"
  shows "update_window s w None False False False = Some s \<and>
    (\<forall>p \<in> rect_pixels (window_frame (sd_store s w)). \<exists>a b. Paint_Window w a b \<in> set (picture s p))"
proof
  let ?scr = "\<lparr> rgn_x1 = 0, rgn_y1 = 0, rgn_x2 = sd_width s - 1, rgn_y2 = sd_height s - 1 \<rparr>"
  let ?w = "sd_store s w" and ?t = "sd_store s t"
  define area where "area = \<lparr> rgn_x1 = 0, rgn_y1 = 0, rgn_x2 = rect_w (win_bounds ?w) - 1, rgn_y2 = rect_h (win_bounds ?w) - 1 \<rparr>"
  have area: "window_area ?w None False = Some area" by (simp add: window_area_def area_def Let_def)
  have "region_ok area" using assms(3) by (auto simp: area_def region_ok_def window_ok_def rect_ok_def)
  then have up: "region_ok (on_stack ?w area)" by (rule on_stack_ok)
  have scr: "region_ok ?scr" using assms(11,12) by (simp add: region_ok_def)
  obtain hit update where cut: "dfb_region_region_intersect (on_stack ?w area) ?scr = (hit, update)" by force
  have "get_index s w = int (length bs)"
    using last_index_nth [OF assms(2), of bs w "[t]"] assms(1) by (simp add: get_index_def)
  then have eq: "update_window s w None False False False =
      Some (if sd_hw_mode s \<or> \<not> hit then s else repaint_stack_for_window s update (int (length bs)))"
    using assms(6) cut unsafe_region_intersect_ok [OF up] area
    by (auto simp: update_window_def region_intersect_as_region on_stack_def [symmetric] Let_def)
  have "repaint_stack_for_window s update (int (length bs)) = s" if hit
  proof -
    have inside: "region_ok update" "region_pixels update \<subseteq> rect_pixels (window_frame ?t)"
      using region_intersect_within [of "on_stack ?w area" ?scr update] cut that up scr
        whole_area [OF assms(5), of False] assms(10) area by (auto simp: within_def)
    have "sd_windows s ! Suc (length bs) = t" using assms(1) by (simp add: nth_append)
    moreover have "skippable ?t update = Some update"
      by (rule skippable_whole [OF assms(4) inside assms(8,9)])
    ultimately show ?thesis
      using assms(1) by (simp add: repaint_stack_for_window_def around_self)
  qed
  then show "update_window s w None False False False = Some s" using eq by simp
  have "\<not> covers ?t p" for p using assms(7) by (simp add: covers_def VISIBLE_WINDOW_def)
  then have "Paint_Window w (appearance ?w) (\<not> in_opaque ?w p) \<in> set (picture s p)"
    if "p \<in> rect_pixels (window_frame ?w)" for p
    using that assms(1,6) by (simp add: picture_walk covers_def [of ?w])
  then show "\<forall>p \<in> rect_pixels (window_frame ?w). \<exists>a b. Paint_Window w a b \<in> set (picture s p)"
    by blast
qed

definition input_only_above :: StackData where
  "input_only_above = plain_stack
     [(1, plain_window \<lparr> rect_x = 0, rect_y = 0, rect_w = 20, rect_h = 20 \<rparr> 255 0
            \<lparr> rgn_x1 = 0, rgn_y1 = 0, rgn_x2 = 0, rgn_y2 = 0 \<rparr>),
      (2, (plain_window \<lparr> rect_x = 0, rect_y = 0, rect_w = 50, rect_h = 50 \<rparr> 255 0
            \<lparr> rgn_x1 = 0, rgn_y1 = 0, rgn_x2 = 0, rgn_y2 = 0 \<rparr>)\<lparr> win_caps := 4 \<rparr>)]"

theorem input_only_freezes_witness:
  "update_window input_only_above 1 None False False False = Some input_only_above"
  by (rule conjunct1 [OF input_only_freezes [of input_only_above "[]" 1 2]])
    (auto simp: input_only_above_def demo_simps)

end
