(* ===== verification/Window_Repaint.thy ===== *)
theory Window_Repaint
  imports Window_Damage
begin

text \<open>
  From damage to drawing: \<^verbatim>\<open>process_updates\<close> decides which regions are composed again, and
  \<^verbatim>\<open>repaint_stack\<close> composes each of them, clipped to its place on the surface of the layer
  (\<^verbatim>\<open>wm/default/default.c\<close>). A frame is the destination region of one update with the drawing calls
  made under that clip. The cursor and the flipping of buffers come after the composition and are
  modelled as far as the list of regions to flip.
\<close>

section \<open>The code\<close>

definition transform_stack_to_dest :: "StackData \<Rightarrow> DFBRegion \<Rightarrow> DFBRegion" where
  "transform_stack_to_dest s region =
     dfb_region_from_rotated region \<lparr> dim_w = sd_width s, dim_h = sd_height s \<rparr> (sd_rotation s)"

definition compose_update :: "StackData \<Rightarrow> DFBDimension \<Rightarrow> DFBRegion \<Rightarrow> (DFBRegion \<times> Draw list) option" where
  "compose_update s surface update =
    (let (hit, dest) = dfb_region_intersect (transform_stack_to_dest s update) 0 0 (dim_w surface - 1) (dim_h surface - 1)
     in if hit then Some (dest, update_region s (length (sd_windows s)) update) else None)"

text \<open>\<open>surface\<close> is \<^term>\<open>None\<close> when the stack is inactive, has no surface or its region is disabled.\<close>

definition repaint_stack :: "StackData \<Rightarrow> DFBDimension option \<Rightarrow> DFBRegion list \<Rightarrow> (DFBRegion \<times> Draw list) list" where
  "repaint_stack s surface updates =
    (case surface of None \<Rightarrow> [] | Some surface \<Rightarrow> List.map_filter (compose_update s surface) updates)"

text \<open>
  The entries of the array \<^verbatim>\<open>flips\<close> that the flipping loops read: one for each update, although only the
  composed ones were written; \<^term>\<open>None\<close> is an entry never written.
\<close>

definition flips_read :: "StackData \<Rightarrow> DFBDimension \<Rightarrow> DFBRegion list \<Rightarrow> DFBRegion option list" where
  "flips_read s surface updates =
    (let flips = map fst (repaint_stack s (Some surface) updates)
     in map (\<lambda>i. if i < length flips then Some (flips ! i) else None) [0..<length updates])"

definition whole_stack :: "StackData \<Rightarrow> DFBRegion" where
  "whole_stack s = \<lparr> rgn_x1 = 0, rgn_y1 = 0, rgn_x2 = sd_width s - 1, rgn_y2 = sd_height s - 1 \<rparr>"

definition process_updates :: "bool \<Rightarrow> StackData \<Rightarrow> DFBRegion list \<times> StackData" where
  "process_updates wm_fullscreen_updates s =
    (let u = sd_updates s
     in if upd_regions u = [] then ([], s)
        else
          (let (total, bounding) = dfb_updates_stat u;
               n = int (upd_max u) - int (length (upd_regions u)) + 1;
               d = n + 1
           in (if wm_fullscreen_updates then [whole_stack s]
               else if total > (sd_width s * sd_height s * 9) sdiv 10 then [whole_stack s]
               else if length (upd_regions u) < 2 \<or> total < (bounding * n) sdiv d then upd_regions u
               else [upd_bounding u],
               s\<lparr> sd_updates := dfb_updates_reset u \<rparr>)))"

section \<open>Lemmas\<close>

lemma dest_ok: "region_ok r \<Longrightarrow> region_ok (transform_stack_to_dest s r)"
  by (auto simp: transform_stack_to_dest_def dfb_region_from_rotated_def region_ok_def)

abbreviation stack_size :: "StackData \<Rightarrow> DFBDimension" where
  "stack_size s \<equiv> \<lparr> dim_w = sd_width s, dim_h = sd_height s \<rparr>"

text \<open>Where a pixel of the stack goes on the surface of the layer.\<close>

definition dest_pixel :: "StackData \<Rightarrow> int \<times> int \<Rightarrow> int \<times> int" where
  "dest_pixel s p = rotate_pixel (stack_size s) (sd_rotation s) p"

lemma dest_pixel_in_dest:
  assumes "sd_rotation s \<in> {0, 90, 180, 270}" and "p \<in> region_pixels r"
  shows "dest_pixel s p \<in> region_pixels (transform_stack_to_dest s r)"
  using assms by (cases p) (auto simp: dest_pixel_def transform_stack_to_dest_def dfb_region_from_rotated_def rotate_pixel_def dfb_geo)

lemma dest_pixel_on_surface:
  assumes "sd_rotation s \<in> {0, 90, 180, 270}" and "p \<in> screen s"
  shows "dest_pixel s p \<in> region_pixels
    \<lparr> rgn_x1 = 0, rgn_y1 = 0, rgn_x2 = dim_w (rotated_size (stack_size s) (sd_rotation s)) - 1,
      rgn_y2 = dim_h (rotated_size (stack_size s) (sd_rotation s)) - 1 \<rparr>"
  using assms by (cases p) (auto simp: dest_pixel_def rotate_pixel_def rotated_size_def screen_def dfb_geo)

lemma compose_update_drawn:
  assumes "stack_ok s" and "region_ok r" and "sd_rotation s \<in> {0, 90, 180, 270}"
    and "0 < sd_width s" and "0 < sd_height s" and "p \<in> screen s"
  shows "case compose_update s (rotated_size (stack_size s) (sd_rotation s)) r of
      None \<Rightarrow> p \<notin> region_pixels r
    | Some (dest, draws) \<Rightarrow> drawn_at s p draws = (if p \<in> region_pixels r then picture s p else []) \<and>
        (p \<in> region_pixels r \<longrightarrow> dest_pixel s p \<in> region_pixels dest)"
proof -
  let ?sz = "rotated_size (stack_size s) (sd_rotation s)"
  let ?surf = "\<lparr> rgn_x1 = 0, rgn_y1 = 0, rgn_x2 = dim_w ?sz - 1, rgn_y2 = dim_h ?sz - 1 \<rparr>"
  have surf: "region_ok ?surf" using assms(4,5) by (auto simp: rotated_size_def region_ok_def)
  obtain hit dest where cut: "dfb_region_region_intersect (transform_stack_to_dest s r) ?surf = (hit, dest)" by force
  have eq: "compose_update s ?sz r = (if hit then Some (dest, update_region s (length (sd_windows s)) r) else None)"
    using cut by (simp add: compose_update_def region_intersect_as_region)
  have drawn: "drawn_at s p (update_region s (length (sd_windows s)) r) = (if p \<in> region_pixels r then picture s p else [])"
    unfolding picture_def by (rule update_region_drawn) (use assms(1,2) in \<open>auto simp: stack_ok_def\<close>)
  have there: "dest_pixel s p \<in> region_pixels (transform_stack_to_dest s r) \<inter> region_pixels ?surf" if "p \<in> region_pixels r"
    using dest_pixel_in_dest [OF assms(3) that] dest_pixel_on_surface [OF assms(3,6)] by blast
  show ?thesis
  proof (cases hit)
    case True
    then show ?thesis
      using eq drawn there region_intersect_within(3) [of "transform_stack_to_dest s r" ?surf dest] cut dest_ok [OF assms(2)] surf
      by simp
  next
    case False
    then show ?thesis
      using eq there region_intersect_missed [of "transform_stack_to_dest s r" ?surf dest] cut dest_ok [OF assms(2)] surf by auto
  qed
qed

lemma repaint_drawn:
  assumes "stack_ok s" and "\<forall>r \<in> set rs. region_ok r" and "sd_rotation s \<in> {0, 90, 180, 270}"
    and "0 < sd_width s" and "0 < sd_height s" and "p \<in> screen s"
  shows "drawn_at s p (concat (map snd (repaint_stack s (Some (rotated_size (stack_size s) (sd_rotation s))) rs))) =
      concat (replicate (length (filter (\<lambda>r. p \<in> region_pixels r) rs)) (picture s p))"
  using assms(2)
proof (induction rs)
  case (Cons r rs)
  then have ok: "region_ok r" by simp
  show ?case
    using Cons compose_update_drawn [OF assms(1) ok assms(3-6)]
    by (auto simp: repaint_stack_def List.map_filter_def split: option.splits prod.splits)
qed (simp add: repaint_stack_def List.map_filter_def)

lemma process_updates_covers:
  assumes "upd_ok (sd_updates s)" and "0 < sd_width s" and "0 < sd_height s"
  shows "(\<forall>r \<in> set (fst (process_updates fs s)). region_ok r) \<and>
    upd_pixels (sd_updates s) \<inter> screen s \<subseteq> (\<Union>r \<in> set (fst (process_updates fs s)). region_pixels r)"
proof -
  have ok: "\<forall>r \<in> set (upd_regions (sd_updates s)). region_ok r"
    using assms(1) by (auto simp: upd_ok_def updates_inv_def)
  have whole: "region_ok (whole_stack s)" "region_pixels (whole_stack s) = screen s"
    using assms(2,3) by (auto simp: whole_stack_def region_ok_def screen_def region_pixels_def)
  have bounding: "upd_pixels (sd_updates s) \<subseteq> region_pixels (upd_bounding (sd_updates s))"
      "region_ok (upd_bounding (sd_updates s))" if "upd_regions (sd_updates s) \<noteq> []"
  proof -
    have unite: "dfb_regions_unite (upd_regions (sd_updates s)) = Some (upd_bounding (sd_updates s))"
      using assms(1) that by (auto simp: upd_ok_def updates_inv_def)
    then show sub: "upd_pixels (sd_updates s) \<subseteq> region_pixels (upd_bounding (sd_updates s))"
      using contained_by_bounding [OF unite ok] by (simp add: upd_pixels_def)
    have "upd_pixels (sd_updates s) \<noteq> {}"
      using that ok region_pixels_nonempty by (cases "upd_regions (sd_updates s)") (auto simp: upd_pixels_def)
    then show "region_ok (upd_bounding (sd_updates s))" using sub region_pixels_nonempty by blast
  qed
  show ?thesis
    using ok whole bounding
    by (auto simp: process_updates_def Let_def upd_pixels_def split: prod.splits)
qed

section \<open>Properties\<close>

text \<open>
  C5: Damage is repainted with the current picture. Whichever of its strategies \<^verbatim>\<open>process_updates\<close>
  takes (the single regions, their bounding region, or the whole stack), when the layer has the
  size of the (rotated) stack, every damaged pixel of the screen is drawn, under a clip that contains its
  place on the surface, and what is drawn at any pixel of the screen is its picture as often as
  it lies in a repainted region. The damage is empty afterwards and nothing else changes.
\<close>

theorem damage_is_repainted:
  assumes "stack_ok s" and "upd_ok (sd_updates s)" and "sd_rotation s \<in> {0, 90, 180, 270}"
    and "0 < sd_width s" and "0 < sd_height s" and "process_updates fs s = (rs, s')"
    and "frames = repaint_stack s (Some (rotated_size (stack_size s) (sd_rotation s))) rs"
    and "p \<in> screen s"
  shows "\<exists>k. drawn_at s p (concat (map snd frames)) = concat (replicate k (picture s p)) \<and>
    (p \<in> upd_pixels (sd_updates s) \<longrightarrow> 0 < k \<and> (\<exists>(dest, draws) \<in> set frames. dest_pixel s p \<in> region_pixels dest \<and> draws \<noteq> [])) \<and>
    upd_regions (sd_updates s') = [] \<and> s' = s\<lparr> sd_updates := sd_updates s' \<rparr>"
proof -
  have cov: "\<forall>r \<in> set rs. region_ok r" "upd_pixels (sd_updates s) \<inter> screen s \<subseteq> (\<Union>r \<in> set rs. region_pixels r)"
    using process_updates_covers [OF assms(2,4,5), of fs] assms(6) by simp_all
  define k where "k = length (filter (\<lambda>r. p \<in> region_pixels r) rs)"
  have "drawn_at s p (concat (map snd frames)) = concat (replicate k (picture s p))"
    unfolding assms(7) k_def by (rule repaint_drawn [OF assms(1) cov(1) assms(3-5,8)])
  moreover have "0 < k \<and> (\<exists>(dest, draws) \<in> set frames. dest_pixel s p \<in> region_pixels dest \<and> draws \<noteq> [])"
    if damaged: "p \<in> upd_pixels (sd_updates s)"
  proof -
    obtain r where r: "r \<in> set rs" "p \<in> region_pixels r" using damaged cov(2) assms(8) by blast
    then have "r \<in> set (filter (\<lambda>r. p \<in> region_pixels r) rs)" by simp
    then have "0 < k" unfolding k_def by (metis length_pos_if_in_set)
    have "region_ok r" using r(1) cov(1) by simp
    then obtain dest draws where d: "compose_update s (rotated_size (stack_size s) (sd_rotation s)) r = Some (dest, draws)"
        "drawn_at s p draws = picture s p" "dest_pixel s p \<in> region_pixels dest"
      using compose_update_drawn [OF assms(1) _ assms(3-5,8), of r] r(2) by (auto split: option.splits)
    have "(dest, draws) \<in> set frames"
      using d(1) r(1) unfolding assms(7) repaint_stack_def by (force simp: List.map_filter_def)
    moreover have "picture s p \<noteq> []"
    proof -
      have "walk st ws p \<noteq> []" for st ws by (induction ws) auto
      then show ?thesis by (simp add: picture_walk)
    qed
    then have "draws \<noteq> []" using d(2) by auto
    ultimately show ?thesis using \<open>0 < k\<close> d(3) by blast
  qed
  moreover have "upd_regions (sd_updates s') = [] \<and> s' = s\<lparr> sd_updates := sd_updates s' \<rparr>"
    using assms(6) by (auto simp: process_updates_def dfb_updates_reset_def Let_def split: if_splits prod.splits)
  ultimately show ?thesis by blast
qed

definition damaged_windows :: StackData where
  "damaged_windows = two_windows\<lparr> sd_updates := \<lparr> upd_regions = [\<lparr> rgn_x1 = 6, rgn_y1 = 6, rgn_x2 = 8, rgn_y2 = 8 \<rparr>],
     upd_max = 8, upd_bounding = \<lparr> rgn_x1 = 6, rgn_y1 = 6, rgn_x2 = 8, rgn_y2 = 8 \<rparr> \<rparr> \<rparr>"

lemma damaged_windows_ok:
  "stack_ok damaged_windows" "upd_ok (sd_updates damaged_windows)" "sd_rotation damaged_windows \<in> {0, 90, 180, 270}"
  "0 < sd_width damaged_windows" "0 < sd_height damaged_windows" "(6, 6) \<in> screen damaged_windows"
  "(6, 6) \<in> upd_pixels (sd_updates damaged_windows)"
  using two_windows_ok
  by (auto simp: damaged_windows_def stack_ok_def upd_ok_def updates_inv_def dfb_regions_unite_def upd_pixels_def
      two_windows_def plain_stack_def screen_def region_ok_def dfb_geo)

theorem damage_is_repainted_witness:
  "\<exists>k > 0. drawn_at damaged_windows (6, 6) (concat (map snd
       (repaint_stack damaged_windows (Some \<lparr> dim_w = 100, dim_h = 100 \<rparr>) (fst (process_updates False damaged_windows))))) =
     concat (replicate k (picture damaged_windows (6, 6)))"
proof -
  have "rotated_size (stack_size damaged_windows) (sd_rotation damaged_windows) = \<lparr> dim_w = 100, dim_h = 100 \<rparr>"
    by (simp add: damaged_windows_def two_windows_def plain_stack_def rotated_size_def)
  then show ?thesis
    using damage_is_repainted [OF damaged_windows_ok(1-5) surjective_pairing refl damaged_windows_ok(6), of False]
      damaged_windows_ok(7) by auto
qed

text \<open>
  The flipping loops read one region for each update: all of them were written exactly when every update
  meets the surface.
\<close>

lemma flips_read_written:
  "None \<notin> set (flips_read s surface updates) \<longleftrightarrow> (\<forall>r \<in> set updates. compose_update s surface r \<noteq> None)"
proof -
  have len: "length (List.map_filter f xs) \<le> length xs \<and> (length (List.map_filter f xs) = length xs \<longleftrightarrow> (\<forall>x \<in> set xs. f x \<noteq> None))"
    for f :: "DFBRegion \<Rightarrow> (DFBRegion \<times> Draw list) option" and xs
  proof (induction xs)
    case (Cons x xs)
    then show ?case by (cases "f x") (auto simp: List.map_filter_simps)
  qed (simp add: List.map_filter_simps)
  have "None \<notin> set (flips_read s surface updates) \<longleftrightarrow>
      length updates \<le> length (List.map_filter (compose_update s surface) updates)"
  proof -
    have "None \<notin> set (map (\<lambda>i. if i < length xs then Some (xs ! i) else None) [0..<n]) \<longleftrightarrow> n \<le> length xs"
      for xs :: "DFBRegion list" and n
    proof
      assume "None \<notin> set (map (\<lambda>i. if i < length xs then Some (xs ! i) else None) [0..<n])"
      then have "\<forall>i < n. i < length xs" by (auto split: if_splits)
      then show "n \<le> length xs" by (meson less_irrefl not_le)
    qed auto
    from this [of "map fst (List.map_filter (compose_update s surface) updates)" "length updates"]
    show ?thesis by (simp only: flips_read_def repaint_stack_def Let_def length_map option.case)
  qed
  then show ?thesis using len [of "compose_update s surface" updates] by (metis le_antisym order_refl)
qed

section \<open>What a drawing call blits\<close>

text \<open>
  A \<^const>\<open>Draw_Window\<close> stands for a call of \<^verbatim>\<open>draw_window\<close>. The call itself, with the caps of the window's surface and
  whether the destination has an alpha channel: nothing for a window with \<open>DWCAPS_COLOR\<close>, else one blit
  with its flags, the colour's alpha, colour key and blend function where they are set, and its source and destination.
  \<^term>\<open>None\<close> is the use of a surface the window has not.
\<close>

definition DSCAPS_INTERLACED :: u32 where "DSCAPS_INTERLACED = 0x40"
definition DSCAPS_PREMULTIPLIED :: u32 where "DSCAPS_PREMULTIPLIED = 0x1000"

definition DSBLIT_BLEND_ALPHACHANNEL :: u32 where "DSBLIT_BLEND_ALPHACHANNEL = 0x1"
definition DSBLIT_BLEND_COLORALPHA :: u32 where "DSBLIT_BLEND_COLORALPHA = 0x2"
definition DSBLIT_SRC_COLORKEY :: u32 where "DSBLIT_SRC_COLORKEY = 0x8"
definition DSBLIT_SRC_PREMULTIPLY :: u32 where "DSBLIT_SRC_PREMULTIPLY = 0x20"
definition DSBLIT_DEINTERLACE :: u32 where "DSBLIT_DEINTERLACE = 0x100"
definition DSBLIT_SRC_PREMULTCOLOR :: u32 where "DSBLIT_SRC_PREMULTCOLOR = 0x200"

datatype SrcBlend = DSBF_ONE | DSBF_SRCALPHA

record BlitSetup =
  bs_flags :: u32
  bs_color_alpha :: "int option"
  bs_src_colorkey :: "u32 option"
  bs_src_blend :: "SrcBlend option"

datatype WindowBlit = Blit BlitSetup DFBRectangle "int \<times> int" | StretchBlit BlitSetup DFBRectangle DFBRectangle DFBRegion

definition rotation_flag :: "int \<Rightarrow> u32" where
  "rotation_flag rotation =
    (if rotation = 90 then 0x2000 else if rotation = 180 then 0x1000 else if rotation = 270 then 0x4000 else 0)"

definition blit_setup :: "bool \<Rightarrow> u32 \<Rightarrow> CoreWindow \<Rightarrow> int \<Rightarrow> bool \<Rightarrow> BlitSetup" where
  "blit_setup dst_alpha caps window rotation alpha_channel =
    (let flags = (if alpha_channel \<and> D_FLAGS_IS_SET (win_options window) DWOP_ALPHACHANNEL then DSBLIT_BLEND_ALPHACHANNEL else 0);
         flags = (if win_opacity window \<noteq> 0xff then flags OR DSBLIT_BLEND_COLORALPHA else flags);
         keyed = D_FLAGS_IS_SET (win_options window) DWOP_COLORKEYING;
         flags = (if keyed then flags OR DSBLIT_SRC_COLORKEY else flags);
         flags = (if D_FLAGS_IS_SET caps DSCAPS_INTERLACED then flags OR DSBLIT_DEINTERLACE else flags);
         premultiplied = D_FLAGS_IS_SET caps DSCAPS_PREMULTIPLIED;
         coloralpha = D_FLAGS_IS_SET flags DSBLIT_BLEND_COLORALPHA;
         (flags, blend) =
           (if D_FLAGS_IS_SET flags (DSBLIT_BLEND_ALPHACHANNEL OR DSBLIT_BLEND_COLORALPHA) then
              if dst_alpha then
                (if \<not> premultiplied then flags OR DSBLIT_SRC_PREMULTIPLY
                 else if coloralpha then flags OR DSBLIT_SRC_PREMULTCOLOR else flags, Some DSBF_ONE)
              else if premultiplied then (if coloralpha then flags OR DSBLIT_SRC_PREMULTCOLOR else flags, Some DSBF_ONE)
              else (flags, Some DSBF_SRCALPHA)
            else (flags, None))
     in \<lparr> bs_flags = flags OR rotation_flag rotation,
          bs_color_alpha = (if win_opacity window \<noteq> 0xff then Some (win_opacity window) else None),
          bs_src_colorkey = (if keyed then Some (cfg_color_key (win_config window)) else None),
          bs_src_blend = blend \<rparr>)"

definition draw_window :: "bool \<Rightarrow> u32 \<Rightarrow> StackData \<Rightarrow> ptr \<Rightarrow> DFBRegion \<Rightarrow> bool \<Rightarrow> WindowBlit list option" where
  "draw_window dst_alpha caps s w region alpha_channel =
    (let window = sd_store s w; config = win_config window
     in if D_FLAGS_IS_SET (win_caps window) DWCAPS_COLOR then Some []
        else do {
          surface \<leftarrow> win_surface window;
          let dest = transform_stack_to_dest s region;
          let setup = blit_setup dst_alpha caps window ((cfg_rotation config + sd_rotation s) mod 360) alpha_channel;
          if D_FLAGS_IS_SET (win_options window) DWOP_SCALE
          then Some [StretchBlit setup \<lparr> rect_x = 0, rect_y = 0, rect_w = dim_w surface, rect_h = dim_h surface \<rparr>
                 (dfb_rectangle_from_rotated (transform_window_to_stack window (win_bounds window))
                    \<lparr> dim_w = sd_width s, dim_h = sd_height s \<rparr> (sd_rotation s)) dest]
          else (let size = (if cfg_rotation config = 90 \<or> cfg_rotation config = 270
                    then \<lparr> dim_w = rect_h (win_bounds window), dim_h = rect_w (win_bounds window) \<rparr>
                    else \<lparr> dim_w = rect_w (win_bounds window), dim_h = rect_h (win_bounds window) \<rparr>);
                    rect = dfb_rectangle_translate (dfb_rectangle_from_region region)
                      (- rect_x (win_bounds window)) (- rect_y (win_bounds window))
                in Some [Blit setup (dfb_rectangle_from_rotated rect size ((360 - cfg_rotation config) mod 360)) (rgn_x1 dest, rgn_y1 dest)])
        })"

text \<open>
  The blit of a window that is not stretched puts each pixel of the region's part of its surface where the stack shows
  it: the source rectangle holds the texels of the region's pixels, and the blit, which rotates by the sum of the two
  rotations, takes every texel to the place of its pixel on the surface of the layer.
\<close>

lemma draw_window_exact:
  assumes "cfg_rotation (win_config (sd_store s w)) \<in> {0, 90, 180, 270}" and "sd_rotation s \<in> {0, 90, 180, 270}"
    and "win_surface (sd_store s w) = Some surface" and "\<not> D_FLAGS_IS_SET (win_caps (sd_store s w)) DWCAPS_COLOR"
    and "\<not> D_FLAGS_IS_SET (win_options (sd_store s w)) DWOP_SCALE" and "p \<in> region_pixels r"
  shows "\<exists>setup src x y. draw_window dst_alpha caps s w r a = Some [Blit setup src (x, y)] \<and>
    texel (sd_store s w) p \<in> rect_pixels src \<and>
    (let t = texel (sd_store s w) p;
         q = rotate_pixel \<lparr> dim_w = rect_w src, dim_h = rect_h src \<rparr>
               ((cfg_rotation (win_config (sd_store s w)) + sd_rotation s) mod 360) (fst t - rect_x src, snd t - rect_y src)
     in dest_pixel s p = (x + fst q, y + snd q))"
proof -
  obtain px py where p: "p = (px, py)" by force
  define wr sr where "wr = cfg_rotation (win_config (sd_store s w))" and "sr = sd_rotation s"
  define b where "b = win_bounds (sd_store s w)"
  define src where "src = dfb_rectangle_from_rotated
    (dfb_rectangle_translate (dfb_rectangle_from_region r) (- rect_x b) (- rect_y b))
    (if wr = 90 \<or> wr = 270 then \<lparr> dim_w = rect_h b, dim_h = rect_w b \<rparr> else \<lparr> dim_w = rect_w b, dim_h = rect_h b \<rparr>)
    ((360 - wr) mod 360)"
  define dest where "dest = dfb_region_from_rotated r (stack_size s) sr"
  define t where "t = texel (sd_store s w) p"
  have call: "draw_window dst_alpha caps s w r a =
      Some [Blit (blit_setup dst_alpha caps (sd_store s w) ((wr + sr) mod 360) a) src (rgn_x1 dest, rgn_y1 dest)]"
    using assms(3-5) by (simp add: draw_window_def transform_stack_to_dest_def src_def dest_def b_def wr_def sr_def Let_def)
  have rot: "wr \<in> {0, 90, 180, 270}" "sr \<in> {0, 90, 180, 270}" using assms(1,2) by (simp_all add: wr_def sr_def)
  have t: "t = (if wr = 90 then (rect_w b - (py - rect_y b) - 1, px - rect_x b)
      else if wr = 180 then (rect_w b - (px - rect_x b) - 1, rect_h b - (py - rect_y b) - 1)
      else if wr = 270 then (py - rect_y b, rect_h b - (px - rect_x b) - 1) else (px - rect_x b, py - rect_y b))"
    using assms(5) by (simp add: t_def texel_def to_window_def transform_point_in_window_def p Let_def b_def wr_def)
  have in_region: "rgn_x1 r \<le> px" "px \<le> rgn_x2 r" "rgn_y1 r \<le> py" "py \<le> rgn_y2 r" using assms(6) by (simp_all add: p dfb_geo)
  have src: "src = (if wr = 90 then \<lparr> rect_x = rect_w b - (rgn_y2 r - rect_y b) - 1, rect_y = rgn_x1 r - rect_x b,
        rect_w = rgn_y2 r - rgn_y1 r + 1, rect_h = rgn_x2 r - rgn_x1 r + 1 \<rparr>
      else if wr = 180 then \<lparr> rect_x = rect_w b - (rgn_x2 r - rect_x b) - 1, rect_y = rect_h b - (rgn_y2 r - rect_y b) - 1,
        rect_w = rgn_x2 r - rgn_x1 r + 1, rect_h = rgn_y2 r - rgn_y1 r + 1 \<rparr>
      else if wr = 270 then \<lparr> rect_x = rgn_y1 r - rect_y b, rect_y = rect_h b - (rgn_x2 r - rect_x b) - 1,
        rect_w = rgn_y2 r - rgn_y1 r + 1, rect_h = rgn_x2 r - rgn_x1 r + 1 \<rparr>
      else \<lparr> rect_x = rgn_x1 r - rect_x b, rect_y = rgn_y1 r - rect_y b,
        rect_w = rgn_x2 r - rgn_x1 r + 1, rect_h = rgn_y2 r - rgn_y1 r + 1 \<rparr>)"
    using rot(1) unfolding src_def dfb_rectangle_from_rotated_def dfb_rectangle_translate_def dfb_rectangle_from_region_def
    by (elim insertE emptyE; simp)
  have "t \<in> rect_pixels src" using rot(1) in_region unfolding t src by (elim insertE emptyE; simp add: dfb_geo)
  moreover have "dest_pixel s p = (rgn_x1 dest + fst q, rgn_y1 dest + snd q)"
    if "q = rotate_pixel \<lparr> dim_w = rect_w src, dim_h = rect_h src \<rparr> ((wr + sr) mod 360) (fst t - rect_x src, snd t - rect_y src)" for q
    using rot unfolding that t src dest_def dest_pixel_def p sr_def [symmetric] dfb_region_from_rotated_def
    by (elim insertE emptyE; simp add: rotate_pixel_def)
  ultimately show ?thesis unfolding wr_def [symmetric] sr_def [symmetric] t_def [symmetric] Let_def using call by blast
qed

end
