(* ===== verification/Window_Stacking.thy ===== *)
theory Window_Stacking
  imports Window_Damage "HOL-Library.Multiset"
begin

text \<open>
  The stacking order: \<^verbatim>\<open>insert_window\<close>, the removal from the vector of windows and \<^verbatim>\<open>restack_window\<close> of
  \<^verbatim>\<open>wm/default/default.c\<close>. The vector operations are the list operations of the refinement of
  \<^verbatim>\<open>FusionVector\<close>; the outcome of an allocation is an argument.
\<close>

section \<open>The code\<close>

fun insert_scan :: "(ptr \<Rightarrow> CoreWindow) \<Rightarrow> int \<Rightarrow> ptr list \<Rightarrow> nat" where
  "insert_scan st priority [] = 0"
| "insert_scan st priority (w # ws) =
    (if win_priority (st w) > priority then 0 else Suc (insert_scan st priority ws))"

text \<open>The result of \<^verbatim>\<open>fusion_vector_insert\<close> is ignored: the flag is set even when it failed.\<close>

definition insert_window :: "bool \<Rightarrow> StackData \<Rightarrow> ptr \<Rightarrow> StackData" where
  "insert_window avail s w =
    (let index = insert_scan (sd_store s) (win_priority (sd_store s w)) (sd_windows s);
         s = (if avail then s\<lparr> sd_windows := insert_at index w (sd_windows s) \<rparr> else s)
     in set_window w (\<lambda>win. win\<lparr> win_flags := win_flags win OR CWF_INSERTED \<rparr>) s)"

definition vector_drop :: "StackData \<Rightarrow> ptr \<Rightarrow> StackData" where
  "vector_drop s w = set_window w (\<lambda>win. win\<lparr> win_flags := win_flags win AND NOT CWF_INSERTED \<rparr>)
     (s\<lparr> sd_windows := remove_at (nat (get_index s w)) (sd_windows s) \<rparr>)"

text \<open>The two correcting loops of \<^verbatim>\<open>restack_window\<close>; \<open>old\<close> is the index the window has now.\<close>

fun sink :: "(ptr \<Rightarrow> CoreWindow) \<Rightarrow> ptr list \<Rightarrow> nat \<Rightarrow> int \<Rightarrow> nat \<Rightarrow> nat" where
  "sink st ws old priority 0 = 0"
| "sink st ws old priority (Suc i) =
    (let below = (if old < Suc i then Suc i else i)
     in if priority < win_priority (st (ws ! below)) then sink st ws old priority i else Suc i)"

function rise :: "(ptr \<Rightarrow> CoreWindow) \<Rightarrow> ptr list \<Rightarrow> nat \<Rightarrow> int \<Rightarrow> nat \<Rightarrow> nat" where
  "rise st ws old priority i =
    (if i < length ws - 1 then
       (let above = (if old > i then i else i + 1)
        in if priority > win_priority (st (ws ! above)) then rise st ws old priority (i + 1) else i)
     else i)"
  by pat_completeness auto
termination by (relation "measure (\<lambda>(st, ws, old, priority, i). length ws - i)") auto

declare rise.simps [simp del]

definition desired_index :: "StackData \<Rightarrow> ptr \<Rightarrow> ptr option \<Rightarrow> int \<Rightarrow> int" where
  "desired_index s window relative relation =
    (let size = int (length (sd_windows s));
         old = get_index s window
     in case relative of
          Some relative \<Rightarrow>
            (let index = get_index s relative;
                 index = (if relation > 0 then (if old < index then index - 1 else index)
                          else if relation < 0 then (if old > index then index + 1 else index)
                          else index);
                 index = index + relation
             in if index < 0 then 0 else if index > size - 1 then size - 1 else index)
        | None \<Rightarrow> if relation \<noteq> 0 then size - 1 else 0)"

definition set_stacking :: "StackData \<Rightarrow> ptr \<Rightarrow> DFBWindowStackingClass \<Rightarrow> StackData" where
  "set_stacking s window stacking =
    (if stacking \<noteq> cfg_stacking (win_config (sd_store s window)) then
       set_window window (\<lambda>win. win\<lparr> win_priority := get_priority win \<rparr>)
         (set_config window (\<lambda>c. c\<lparr> cfg_stacking := stacking \<rparr>) s)
     else s)"

definition restack_window ::
    "StackData \<Rightarrow> ptr \<Rightarrow> ptr option \<Rightarrow> int \<Rightarrow> DFBWindowStackingClass \<Rightarrow> StackData option" where
  "restack_window s window relative relation stacking =
    (let s = set_stacking s window stacking;
         priority = win_priority (sd_store s window);
         old = nat (get_index s window);
         index = nat (desired_index s window relative relation);
         index = sink (sd_store s) (sd_windows s) old priority index;
         index = rise (sd_store s) (sd_windows s) old priority index
     in if index = old then Some s
        else
          update_window (s\<lparr> sd_windows := insert_at index (sd_windows s ! old) (remove_at old (sd_windows s)) \<rparr>)
            window None (index < old) False False)"

section \<open>Order\<close>

abbreviation prio :: "StackData \<Rightarrow> ptr \<Rightarrow> int" where
  "prio s w \<equiv> win_priority (sd_store s w)"

text \<open>The windows are sorted by priority, which is that of their stacking class; none occurs twice.\<close>

definition stack_sorted :: "StackData \<Rightarrow> bool" where
  "stack_sorted s \<longleftrightarrow> sorted (map (prio s) (sd_windows s)) \<and> distinct (sd_windows s) \<and>
     (\<forall>w \<in> set (sd_windows s). prio s w = get_priority (sd_store s w))"

text \<open>The places where a window of a priority may stand among the others.\<close>

definition lowest :: "StackData \<Rightarrow> int \<Rightarrow> ptr list \<Rightarrow> nat" where
  "lowest s pr ws = length (filter (\<lambda>w. prio s w < pr) ws)"

definition highest :: "StackData \<Rightarrow> int \<Rightarrow> ptr list \<Rightarrow> nat" where
  "highest s pr ws = length (filter (\<lambda>w. prio s w \<le> pr) ws)"

lemma sorted_insert_iff:
  "sorted (map f (xs @ ys)) \<Longrightarrow> sorted (map f (xs @ w # ys)) \<longleftrightarrow>
     (\<forall>x \<in> set xs. f x \<le> f w) \<and> (\<forall>x \<in> set ys. f w \<le> f x)" for f :: "ptr \<Rightarrow> int"
  by (auto simp: sorted_append)

lemma sorted_nth_le_iff:
  assumes "sorted (map f xs)" and "i < length xs"
  shows "f (xs ! i) \<le> (c :: int) \<longleftrightarrow> i < length (filter (\<lambda>x. f x \<le> c) xs)"
  using assms
proof (induction xs arbitrary: i)
  case (Cons x xs)
  show ?case
  proof (cases "f x \<le> c")
    case True
    then show ?thesis using Cons by (cases i) auto
  next
    case False
    then have "filter (\<lambda>x. f x \<le> c) (x # xs) = []" using Cons.prems(1) by (auto simp: filter_empty_conv)
    moreover have "f x \<le> f ((x # xs) ! i)" using Cons.prems by (cases i) auto
    ultimately show ?thesis using False by simp
  qed
qed simp

lemma sorted_nth_less_iff:
  assumes "sorted (map f xs)" and "i < length xs"
  shows "f (xs ! i) < (c :: int) \<longleftrightarrow> i < length (filter (\<lambda>x. f x < c) xs)"
  using sorted_nth_le_iff [OF assms, of "c - 1"] by simp

lemma filter_take_drop:
  "length (filter P xs) = length (filter P (take i xs)) + length (filter P (drop i xs))"
  by (metis append_take_drop_id filter_append length_append)

lemma lowest_le_highest: "lowest s pr ws \<le> highest s pr ws"
  by (induction ws) (auto simp: lowest_def highest_def)

text \<open>Inserting between the two bounds, and only there, keeps the order.\<close>

lemma insert_sorted_iff:
  assumes "sorted (map (prio s) ws)" and "i \<le> length ws"
  shows "sorted (map (prio s) (insert_at i w ws)) \<longleftrightarrow> lowest s (prio s w) ws \<le> i \<and> i \<le> highest s (prio s w) ws"
proof -
  have "sorted (map (prio s) (insert_at i w ws)) \<longleftrightarrow>
      (\<forall>x \<in> set (take i ws). prio s x \<le> prio s w) \<and> (\<forall>x \<in> set (drop i ws). prio s w \<le> prio s x)"
    unfolding insert_at_def by (rule sorted_insert_iff) (simp only: append_take_drop_id assms(1))
  moreover have "(\<forall>x \<in> set (take i ws). prio s x \<le> prio s w) \<longleftrightarrow> i \<le> highest s (prio s w) ws"
  proof
    assume "\<forall>x \<in> set (take i ws). prio s x \<le> prio s w"
    then have "filter (\<lambda>x. prio s x \<le> prio s w) (take i ws) = take i ws" by simp
    then show "i \<le> highest s (prio s w) ws"
      using assms(2) filter_take_drop [of "\<lambda>x. prio s x \<le> prio s w" ws i] by (simp add: highest_def)
  next
    assume "i \<le> highest s (prio s w) ws"
    then show "\<forall>x \<in> set (take i ws). prio s x \<le> prio s w"
      using sorted_nth_le_iff [OF assms(1)] by (auto simp: highest_def in_set_conv_nth)
  qed
  moreover have "(\<forall>x \<in> set (drop i ws). prio s w \<le> prio s x) \<longleftrightarrow> lowest s (prio s w) ws \<le> i"
  proof
    assume "\<forall>x \<in> set (drop i ws). prio s w \<le> prio s x"
    then have "filter (\<lambda>x. prio s x < prio s w) (drop i ws) = []" by (auto simp: filter_empty_conv)
    moreover have "length (filter (\<lambda>x. prio s x < prio s w) (take i ws)) \<le> i"
      by (rule le_trans [OF length_filter_le]) simp
    ultimately show "lowest s (prio s w) ws \<le> i"
      using filter_take_drop [of "\<lambda>x. prio s x < prio s w" ws i] by (simp add: lowest_def)
  next
    assume le: "lowest s (prio s w) ws \<le> i"
    have "\<not> prio s (ws ! (i + k)) < prio s w" if "i + k < length ws" for k
      using sorted_nth_less_iff [OF assms(1) that, of "prio s w"] le by (simp add: lowest_def)
    then show "\<forall>x \<in> set (drop i ws). prio s w \<le> prio s x"
      by (auto simp: in_set_conv_nth not_less [symmetric])
  qed
  ultimately show ?thesis by blast
qed

lemma length_remove_at: "i < length xs \<Longrightarrow> length (remove_at i xs) = length xs - 1"
  by (simp add: remove_at_def)

lemma nth_remove_at:
  "i < length xs \<Longrightarrow> k < length xs - 1 \<Longrightarrow> remove_at i xs ! k = xs ! (if k < i then k else Suc k)"
  by (auto simp: remove_at_def nth_append)

lemma sorted_remove_at: "sorted (map f xs) \<Longrightarrow> sorted (map (f :: ptr \<Rightarrow> int) (remove_at i xs))"
proof -
  assume "sorted (map f xs)"
  moreover have "map f xs = map f (take i xs) @ map f (drop i xs)" by (simp flip: map_append)
  ultimately have "sorted (map f (take i xs) @ map f (drop i xs))" by simp
  moreover have "set (drop (Suc i) xs) \<subseteq> set (drop i xs)" by (simp add: set_drop_subset_set_drop)
  moreover have "sorted (map f (drop (Suc i) xs))" using \<open>sorted (map f xs)\<close> by (simp add: drop_map [symmetric] sorted_wrt_drop)
  ultimately show ?thesis by (auto simp: remove_at_def sorted_append)
qed

text \<open>The loops stop at the nearest legal place.\<close>

lemma sink_stops:
  assumes "sorted (map (prio s) (remove_at old ws))" and "old < length ws" and "i \<le> length ws - 1"
  shows "sink (sd_store s) ws old pr i = min i (highest s pr (remove_at old ws))"
  using assms(3)
proof (induction i)
  case (Suc i)
  have "ws ! (if old < Suc i then Suc i else i) = remove_at old ws ! i"
    using Suc.prems assms(2) by (auto simp: nth_remove_at)
  moreover have "prio s (remove_at old ws ! i) \<le> pr \<longleftrightarrow> i < highest s pr (remove_at old ws)"
    unfolding highest_def by (rule sorted_nth_le_iff [OF assms(1)]) (use Suc.prems assms(2) in \<open>simp add: length_remove_at\<close>)
  ultimately show ?case using Suc by (auto simp: Let_def)
qed simp

lemma rise_stops:
  assumes "sorted (map (prio s) (remove_at old ws))" and "old < length ws" and "i \<le> length ws - 1"
  shows "rise (sd_store s) ws old pr i = max i (lowest s pr (remove_at old ws))"
  using assms(3)
proof (induction "length ws - i" arbitrary: i rule: less_induct)
  case less
  have len: "length (remove_at old ws) = length ws - 1" using assms(2) by (simp add: length_remove_at)
  have low: "lowest s pr (remove_at old ws) \<le> length ws - 1"
    unfolding lowest_def len [symmetric] by (rule length_filter_le)
  show ?case
  proof (cases "i < length ws - 1")
    case True
    have "ws ! (if old > i then i else i + 1) = remove_at old ws ! i"
      using True assms(2) by (auto simp: nth_remove_at)
    moreover have "prio s (remove_at old ws ! i) < pr \<longleftrightarrow> i < lowest s pr (remove_at old ws)"
      unfolding lowest_def by (rule sorted_nth_less_iff [OF assms(1)]) (use True len in simp)
    moreover have "rise (sd_store s) ws old pr (i + 1) = max (i + 1) (lowest s pr (remove_at old ws))"
      using True by (intro less) auto
    ultimately show ?thesis using True by (subst rise.simps) (auto simp: Let_def)
  next
    case False
    then show ?thesis using less.prems low by (subst rise.simps) simp
  qed
qed

lemma desired_index_bounds:
  assumes "sd_windows s \<noteq> []"
  shows "0 \<le> desired_index s w relative relation \<and> desired_index s w relative relation < int (length (sd_windows s))"
  using assms by (cases relative) (auto simp: desired_index_def Let_def)

section \<open>What a change of class leaves alone\<close>

definition visual :: "CoreWindow \<Rightarrow> (DFBRectangle \<times> int \<times> int \<times> u32 \<times> u32) \<times> bool \<times> DFBRegion" where
  "visual w = (appearance w, VISIBLE_WINDOW w, cfg_opaque (win_config w))"

lemma visual_cong:
  assumes "visual w = visual w'"
  shows "covers w p = covers w' p" "hides w p = hides w' p" "in_opaque w p = in_opaque w' p" "appearance w = appearance w'"
    "regular w = regular w'" "skips w p = skips w' p"
proof -
  have same: "win_bounds w = win_bounds w'" "cfg_rotation (win_config w) = cfg_rotation (win_config w')"
      "win_opacity w = win_opacity w'" "win_options w = win_options w'" "VISIBLE_WINDOW w = VISIBLE_WINDOW w'"
      "cfg_opaque (win_config w) = cfg_opaque (win_config w')"
    using assms by (simp_all add: visual_def appearance_def)
  have frame: "window_frame w = window_frame w'" by (simp add: window_frame_def transform_window_to_stack_def same)
  have inner: "opaque_on_stack w = opaque_on_stack w'" by (simp add: opaque_on_stack_def same)
  show "covers w p = covers w' p" by (simp add: covers_def same frame)
  show op: "in_opaque w p = in_opaque w' p" by (simp add: in_opaque_def same inner)
  show "hides w p = hides w' p" by (simp add: hides_def same op)
  show "appearance w = appearance w'" using assms by (simp add: visual_def)
  show "regular w = regular w'" by (simp add: regular_def window_ok_def same frame inner)
  show "skips w p = skips w' p" by (simp add: skips_def same frame inner)
qed

lemma picture_visual:
  assumes "sd_windows s' = sd_windows s" and "\<And>w. w \<in> set (sd_windows s) \<Longrightarrow> visual (sd_store s' w) = visual (sd_store s w)"
  shows "picture s' p = picture s p"
proof -
  have "walk st' ws p = walk st ws p" if "\<And>w. w \<in> set ws \<Longrightarrow> visual (st' w) = visual (st w)" for st st' ws
    using that
  proof (induction ws)
    case (Cons w ws)
    have "visual (st' w) = visual (st w)" by (rule Cons.prems) simp
    note same = visual_cong(1-4) [OF this]
    have "walk st' ws p = walk st ws p" by (rule Cons.IH) (rule Cons.prems, simp)
    then show ?case by (simp only: walk.simps same)
  qed simp
  then show ?thesis unfolding picture_walk assms(1) by (rule) (rule assms(2) [symmetric], simp)
qed

lemma set_stacking_fields [simp]:
  "sd_windows (set_stacking s w st) = sd_windows s" "sd_updates (set_stacking s w st) = sd_updates s"
  "sd_width (set_stacking s w st) = sd_width s" "sd_height (set_stacking s w st) = sd_height s"
  "sd_hw_mode (set_stacking s w st) = sd_hw_mode s"
  by (simp_all add: set_stacking_def set_config_def)

lemma set_stacking_store:
  "sd_store (set_stacking s w st) v =
     (if v = w \<and> st \<noteq> cfg_stacking (win_config (sd_store s w))
      then let win = (sd_store s w)\<lparr> win_config := (win_config (sd_store s w))\<lparr> cfg_stacking := st \<rparr> \<rparr>
           in win\<lparr> win_priority := get_priority win \<rparr>
      else sd_store s v)"
  by (simp add: set_stacking_def set_config_def Let_def)

lemma set_stacking_visual [simp]: "visual (sd_store (set_stacking s w st) v) = visual (sd_store s v)"
  by (simp add: set_stacking_store visual_def appearance_def VISIBLE_WINDOW_def Let_def)

lemma set_stacking_index [simp]:
  "get_index (set_stacking s w st) v = get_index s v"
  "screen (set_stacking s w st) = screen s"
  by (simp_all add: get_index_def screen_def)

lemma set_stacking_desired [simp]: "desired_index (set_stacking s w st) v r n = desired_index s v r n"
  by (cases r) (simp_all add: desired_index_def)

lemma set_stacking_regular: "stack_regular s \<Longrightarrow> stack_regular (set_stacking s w st)"
  by (simp add: stack_regular_def visual_cong(5) [OF set_stacking_visual])

lemma set_stacking_prio:
  "prio s w = get_priority (sd_store s w) \<Longrightarrow>
     prio (set_stacking s w st) w = get_priority (sd_store (set_stacking s w st) w)"
  by (simp add: set_stacking_store Let_def get_priority_def)

section \<open>Restacking\<close>

definition place :: "StackData \<Rightarrow> ptr \<Rightarrow> ptr list \<Rightarrow> int \<Rightarrow> nat" where
  "place s w others wish = max (lowest s (prio s w) others) (min (highest s (prio s w) others) (nat wish))"

lemma restack_index:
  assumes "sorted (map (prio s) (bs @ as))" and "sd_windows s = bs @ w # as"
  shows "rise (sd_store s) (sd_windows s) (length bs) (prio s w)
      (sink (sd_store s) (sd_windows s) (length bs) (prio s w) (nat (desired_index s w relative relation)))
    = place s w (bs @ as) (desired_index s w relative relation)"
proof -
  have others: "remove_at (length bs) (sd_windows s) = bs @ as" using assms(2) by (simp add: remove_at_def)
  have "nat (desired_index s w relative relation) \<le> length (sd_windows s) - 1"
    using desired_index_bounds [of s w relative relation] assms(2) by auto
  moreover have "length bs < length (sd_windows s)" using assms(2) by simp
  ultimately show ?thesis
    using sink_stops [of s "length bs" "sd_windows s"] rise_stops [of s "length bs" "sd_windows s"] assms(1)
    by (simp add: others place_def min.coboundedI1 max.commute min.commute)
qed

lemma place_bounds:
  "place s w ws wish \<le> length ws"
proof -
  have "lowest s (prio s w) ws \<le> length ws" "highest s (prio s w) ws \<le> length ws"
    by (simp_all add: lowest_def highest_def)
  then show ?thesis by (simp add: place_def)
qed

lemma place_sorted:
  assumes "sorted (map (prio s) ws)"
  shows "sorted (map (prio s) (insert_at (place s w ws wish) w ws))"
  using insert_sorted_iff [OF assms place_bounds] lowest_le_highest [of s "prio s w" ws]
  by (simp add: place_def)

lemma place_nearest:
  assumes "sorted (map (prio s) ws)" and "i \<le> length ws" and "sorted (map (prio s) (insert_at i w ws))" and "0 \<le> wish"
  shows "\<bar>int (place s w ws wish) - wish\<bar> \<le> \<bar>int i - wish\<bar>"
  using insert_sorted_iff [OF assms(1,2)] assms(3,4) lowest_le_highest [of s "prio s w" ws]
  by (auto simp: place_def max_def min_def)

lemma split_remove_at: "remove_at (length bs) (bs @ w # as) = bs @ as"
  by (simp add: remove_at_def)

text \<open>
  The outcome of a call on a regular, sorted stack: only damage and order change besides the class,
  the window goes to the nearest legal place, and the damage tells what looks different.
\<close>

lemma restack_window_outcome:
  fixes s :: StackData and w :: ptr and relative :: "ptr option" and relation :: int
    and stacking :: DFBWindowStackingClass and bs as :: "ptr list"
  assumes reg: "stack_regular s" and srt: "stack_sorted s" and split: "sd_windows s = bs @ w # as"
  defines "s1 \<equiv> set_stacking s w stacking"
  defines "k \<equiv> place s1 w (bs @ as) (desired_index s w relative relation)"
  shows "\<exists>u. restack_window s w relative relation stacking =
      Some (s1\<lparr> sd_windows := insert_at k w (bs @ as), sd_updates := u \<rparr>) \<and> upd_ok u \<and>
    upd_pixels (sd_updates s) \<subseteq> upd_pixels u \<and>
    (\<forall>p \<in> screen s. picture (s1\<lparr> sd_windows := insert_at k w (bs @ as), sd_updates := u \<rparr>) p \<noteq> picture s p
       \<longrightarrow> p \<in> upd_pixels u)"
proof -
  have dist: "w \<notin> set bs" "w \<notin> set as" "distinct (bs @ as)" using srt split by (auto simp: stack_sorted_def)
  have others: "map (prio s1) (bs @ as) = map (prio s) (bs @ as)"
    using dist by (auto simp: s1_def set_stacking_store)
  have "sorted (map (prio s) (bs @ as))"
    using srt split by (auto simp: stack_sorted_def sorted_append)
  then have sorted: "sorted (map (prio s1) (bs @ as))" unfolding others .
  have reg1: "stack_regular s1" unfolding s1_def by (rule set_stacking_regular [OF reg])
  have wins: "sd_windows s1 = bs @ w # as" by (simp add: s1_def split)
  have idx: "nat (get_index s1 w) = length bs"
    using last_index_nth [of "sd_windows s1" bs w as] wins srt split by (simp add: get_index_def stack_sorted_def)
  have k: "rise (sd_store s1) (sd_windows s1) (length bs) (prio s1 w)
      (sink (sd_store s1) (sd_windows s1) (length bs) (prio s1 w) (nat (desired_index s1 w relative relation))) = k"
    using restack_index [OF sorted wins] by (simp add: k_def s1_def)
  have kle: "k \<le> length (bs @ as)" unfolding k_def by (rule place_bounds)
  have pic: "picture s1 p = picture s p" for p
    by (rule picture_visual) (simp_all add: s1_def)
  define s2 where "s2 = s1\<lparr> sd_windows := insert_at k w (bs @ as) \<rparr>"
  have eq: "restack_window s w relative relation stacking =
      (if k = length bs then Some s1 else update_window s2 w None (k < length bs) False False)"
    unfolding restack_window_def s1_def [symmetric] Let_def idx k s2_def
    by (simp add: wins split_remove_at)
  show ?thesis
  proof (cases "k = length bs")
    case True
    then have "insert_at k w (bs @ as) = bs @ w # as" by (simp add: insert_at_def)
    then have same: "s1\<lparr> sd_windows := insert_at k w (bs @ as), sd_updates := sd_updates s \<rparr> = s1"
      using wins by (simp add: s1_def)
    show ?thesis
      by (rule exI [of _ "sd_updates s"]) (use True eq same pic reg in \<open>simp add: stack_regular_def\<close>)
  next
    case False
    define bs' as' where "bs' = take k (bs @ as)" and "as' = drop k (bs @ as)"
    have wins2: "sd_windows s2 = bs' @ w # as'" by (simp add: s2_def insert_at_def bs'_def as'_def)
    have all: "set bs' \<union> set as' = set bs \<union> set as" "distinct (bs' @ as')"
    proof -
      have join: "bs' @ as' = bs @ as" by (simp only: bs'_def as'_def append_take_drop_id)
      show "set bs' \<union> set as' = set bs \<union> set as" using join by (metis set_append)
      show "distinct (bs' @ as')" unfolding join by (rule dist(3))
    qed
    have dist2: "distinct (sd_windows s2)" using all dist by (auto simp: wins2)
    have reg2: "stack_regular s2"
    proof -
      have "set (sd_windows s2) = set (sd_windows s1)" using all(1) by (auto simp: wins2 wins)
      moreover have "sd_store s2 = sd_store s1" "sd_updates s2 = sd_updates s1" "sd_hw_mode s2 = sd_hw_mode s1"
          "sd_width s2 = sd_width s1" "sd_height s2 = sd_height s1" by (simp_all add: s2_def)
      ultimately show ?thesis using reg1 dist2 by (simp add: stack_regular_def)
    qed
    have rot: "regular (sd_store s2 w)" using reg2 by (simp add: stack_regular_def wins2)
    have area: "window_area (sd_store s2 w) None False = Some
        \<lparr> rgn_x1 = 0, rgn_y1 = 0, rgn_x2 = rect_w (win_bounds (sd_store s2 w)) - 1,
          rgn_y2 = rect_h (win_bounds (sd_store s2 w)) - 1 \<rparr>" (is "_ = Some ?area")
      by (simp add: window_area_def Let_def)
    have "region_ok ?area" using rot by (auto simp: regular_def window_ok_def rect_ok_def region_ok_def)
    then obtain u where u: "update_window s2 w None (k < length bs) False False = Some (s2\<lparr> sd_updates := u \<rparr>)" "upd_ok u"
        "upd_pixels (sd_updates s2) \<subseteq> upd_pixels u"
        "VISIBLE_WINDOW (sd_store s2 w) \<longrightarrow> {p \<in> screen s2. to_window (sd_store s2 w) p \<in> region_pixels ?area \<and>
           (k < length bs \<or> (\<forall>v \<in> set as'. \<not> skips (sd_store s2 v) p))} \<subseteq> upd_pixels u"
      using update_window_adds [OF stack_regular_ok [OF reg2] dist2 wins2 _ _ _ _ _ area, of "k < length bs" False] reg2 rot
      by (auto simp: stack_regular_def regular_def)
    have "p \<in> upd_pixels u" if p: "p \<in> screen s" "picture (s2\<lparr> sd_updates := u \<rparr>) p \<noteq> picture s p" for p
    proof -
      have diff: "picture s2 p \<noteq> picture s1 p" using p(2) pic by (simp add: picture_walk)
      have cover: "covers (sd_store s2 w) p \<and> (k < length bs \<or> \<not> covered_above (sd_store s2) as' p)"
      proof (cases "k < length bs")
        case True
        have bs: "bs = bs' @ drop k bs" and as': "as' = drop k bs @ as" using True by (simp_all add: bs'_def as'_def)
        have "sd_windows s2 = bs' @ w # drop k bs @ as" using wins2 as' by simp
        moreover have "sd_windows s1 = bs' @ drop k bs @ w # as" using wins bs by (metis append.assoc)
        ultimately show ?thesis
          using picture_raised(2) [of s2 bs' w "drop k bs" as s1 p] diff True by (auto simp: s2_def)
      next
        case low: False
        define ms where "ms = take (k - length bs) as"
        have bs': "bs' = bs @ ms" and as: "as = ms @ as'" using low False kle by (auto simp: bs'_def as'_def ms_def)
        have "sd_windows s1 = bs @ w # ms @ as'" using wins as by simp
        moreover have "sd_windows s2 = bs @ ms @ w # as'" using wins2 bs' by simp
        ultimately show ?thesis
          using picture_raised [of s1 bs w ms as' s2 p] diff by (auto simp: s2_def)
      qed
      have "to_window (sd_store s2 w) p \<in> {0..<rect_w (win_bounds (sd_store s2 w))} \<times> {0..<rect_h (win_bounds (sd_store s2 w))}"
        using cover mem_frame [of "sd_store s2 w" p] rot unfolding covers_def regular_def by blast
      then have "to_window (sd_store s2 w) p \<in> region_pixels ?area"
        by (cases "to_window (sd_store s2 w) p") (auto simp: dfb_geo)
      moreover have "k < length bs \<or> (\<forall>v \<in> set as'. \<not> skips (sd_store s2 v) p)"
      proof -
        have "covers (sd_store s2 v) p \<and> hides (sd_store s2 v) p" if "v \<in> set as'" "skips (sd_store s2 v) p" for v
          using reg2 that skips_hides [of "sd_store s2 v" p] by (simp add: stack_regular_def wins2)
        then show ?thesis using cover by blast
      qed
      moreover have "p \<in> screen s2" using p(1) by (simp add: s2_def s1_def screen_def)
      ultimately show ?thesis using u(4) cover unfolding covers_def by blast
    qed
    moreover have "sd_updates s2 = sd_updates s" by (simp add: s2_def s1_def)
    ultimately show ?thesis
      using u False eq by (intro exI [of _ u]) (simp add: s2_def)
  qed
qed

lemma remove1_split: "w \<notin> set bs \<Longrightarrow> remove1 w (bs @ w # as) = bs @ as"
  by (simp add: remove1_append)

lemma set_insert_at: "set (insert_at k w xs) = insert w (set xs)"
proof -
  have "set xs = set (take k xs) \<union> set (drop k xs)" by (metis append_take_drop_id set_append)
  then show ?thesis by (simp add: insert_at_def)
qed

lemma distinct_insert_at: "distinct (insert_at k w xs) \<longleftrightarrow> w \<notin> set xs \<and> distinct xs"
proof -
  have "mset (insert_at k w xs) = mset (w # xs)"
    by (simp add: insert_at_def) (metis append_take_drop_id mset_append)
  then show ?thesis by (metis distinct.simps(2) mset_eq_imp_distinct_iff)
qed

lemma stack_sorted_insert:
  assumes "sorted (map (prio s) (insert_at k w ws))" and "w \<notin> set ws" and "distinct ws"
    and "\<forall>v \<in> insert w (set ws). prio s v = get_priority (sd_store s v)"
  shows "stack_sorted (s\<lparr> sd_windows := insert_at k w ws, sd_updates := u \<rparr>)"
  using assms by (simp add: stack_sorted_def set_insert_at distinct_insert_at)

text \<open>A new window goes on top of its class.\<close>

lemma insert_scan_highest:
  assumes "sorted (map (prio s) ws)"
  shows "insert_scan (sd_store s) pr ws = highest s pr ws"
  using assms
proof (induction ws)
  case (Cons w ws)
  then show ?case
    by (cases "prio s w > pr") (auto simp: highest_def filter_empty_conv)
qed (simp add: highest_def)

lemma insert_window_sorted:
  assumes "stack_sorted s" and "w \<notin> set (sd_windows s)" and "prio s w = get_priority (sd_store s w)"
  shows "stack_sorted (insert_window avail s w)"
proof -
  let ?k = "highest s (prio s w) (sd_windows s)"
  have le: "?k \<le> length (sd_windows s)" by (simp add: highest_def)
  have "sorted (map (prio s) (insert_at ?k w (sd_windows s)))"
    using insert_sorted_iff [OF _ le, of s w] lowest_le_highest assms(1) by (simp add: stack_sorted_def)
  then have srt: "stack_sorted (s\<lparr> sd_windows := insert_at ?k w (sd_windows s), sd_updates := sd_updates s \<rparr>)"
    using assms by (intro stack_sorted_insert) (auto simp: stack_sorted_def)
  have flags: "stack_sorted (set_window w (\<lambda>win. win\<lparr> win_flags := f win \<rparr>) t) = stack_sorted t" for f t
  proof -
    have "prio (set_window w (\<lambda>win. win\<lparr> win_flags := f win \<rparr>) t) = prio t" by (rule ext) simp
    moreover have "prio (set_window w (\<lambda>win. win\<lparr> win_flags := f win \<rparr>) t) v = prio t v" for v by simp
    moreover have "get_priority (sd_store (set_window w (\<lambda>win. win\<lparr> win_flags := f win \<rparr>) t) v) = get_priority (sd_store t v)" for v
      by (simp add: get_priority_def)
    ultimately show ?thesis by (simp only: stack_sorted_def set_window_fields(1))
  qed
  have scan: "insert_scan (sd_store s) (prio s w) (sd_windows s) = ?k"
    using assms(1) by (simp add: insert_scan_highest stack_sorted_def)
  have "stack_sorted (if avail then s\<lparr> sd_windows := insert_at ?k w (sd_windows s) \<rparr> else s)"
    using srt assms(1) by simp
  then show ?thesis unfolding insert_window_def Let_def scan flags .
qed

lemma restacked_sorted:
  fixes s :: StackData and w :: ptr and stacking :: DFBWindowStackingClass and bs as :: "ptr list"
  assumes "stack_sorted s" and split: "sd_windows s = bs @ w # as"
  defines "s1 \<equiv> set_stacking s w stacking"
  shows "sorted (map (prio s1) (bs @ as))"
    and "stack_sorted (s1\<lparr> sd_windows := insert_at (place s1 w (bs @ as) wish) w (bs @ as), sd_updates := u \<rparr>)"
proof -
  have dist: "w \<notin> set bs" "w \<notin> set as" "distinct (bs @ as)" using assms(1) split by (auto simp: stack_sorted_def)
  have same: "map (prio s1) (bs @ as) = map (prio s) (bs @ as)"
    using dist by (auto simp: s1_def set_stacking_store)
  show srt: "sorted (map (prio s1) (bs @ as))"
    unfolding same using assms(1) split by (auto simp: stack_sorted_def sorted_append)
  have "\<forall>v \<in> insert w (set (bs @ as)). prio s1 v = get_priority (sd_store s1 v)"
    using assms(1) split dist set_stacking_prio [of s w stacking]
    by (auto simp: stack_sorted_def s1_def set_stacking_store split: if_splits)
  then show "stack_sorted (s1\<lparr> sd_windows := insert_at (place s1 w (bs @ as) wish) w (bs @ as), sd_updates := u \<rparr>)"
    using dist place_sorted [OF srt] by (intro stack_sorted_insert) auto
qed

text \<open>
  C6: Restacking puts a window at the nearest place its class allows. On a regular stack sorted by
  stacking class, \<^verbatim>\<open>restack_window\<close> returns, the other windows keep their order, the window stands
  among them at a place that keeps the classes in order, and no other such place is closer to the
  desired index, whatever relative, relation and new class are asked for. The stack stays sorted and without
  duplicates.
\<close>

theorem restack_exact:
  assumes "stack_regular s" and "stack_sorted s" and "w \<in> set (sd_windows s)"
  shows "\<exists>s' k. restack_window s w relative relation stacking = Some s' \<and>
    sd_windows s' = insert_at k w (remove1 w (sd_windows s)) \<and> stack_sorted s' \<and>
    k < length (sd_windows s) \<and>
    (\<forall>i < length (sd_windows s). sorted (map (prio s') (insert_at i w (remove1 w (sd_windows s)))) \<longrightarrow>
       \<bar>int k - desired_index s w relative relation\<bar> \<le> \<bar>int i - desired_index s w relative relation\<bar>)"
proof -
  obtain bs as where split: "sd_windows s = bs @ w # as" using assms(3) by (meson split_list)
  define s1 where "s1 = set_stacking s w stacking"
  define k where "k = place s1 w (bs @ as) (desired_index s w relative relation)"
  have dist: "w \<notin> set bs" "w \<notin> set as" "distinct (bs @ as)" using assms(2) split by (auto simp: stack_sorted_def)
  have others: "remove1 w (sd_windows s) = bs @ as" using dist split by (simp add: remove1_split)
  obtain u where u: "restack_window s w relative relation stacking =
      Some (s1\<lparr> sd_windows := insert_at k w (bs @ as), sd_updates := u \<rparr>)"
    using restack_window_outcome [OF assms(1,2) split] unfolding s1_def k_def by blast
  have srt: "sorted (map (prio s1) (bs @ as))" and
      "stack_sorted (s1\<lparr> sd_windows := insert_at k w (bs @ as), sd_updates := u \<rparr>)"
    unfolding s1_def k_def by (rule restacked_sorted [OF assms(2) split])+
  moreover
  have "0 \<le> desired_index s w relative relation"
    using desired_index_bounds [of s w relative relation] split by simp
  then have "\<bar>int k - desired_index s w relative relation\<bar> \<le> \<bar>int i - desired_index s w relative relation\<bar>"
    if "i < length (sd_windows s)" "sorted (map (prio s1) (insert_at i w (bs @ as)))" for i
    unfolding k_def using that split by (intro place_nearest [OF srt]) auto
  moreover have "k < length (sd_windows s)" using place_bounds [of s1 w "bs @ as"] split by (simp add: k_def le_imp_less_Suc)
  ultimately show ?thesis using u others by (intro exI [of _ "s1\<lparr> sd_windows := insert_at k w (bs @ as), sd_updates := u \<rparr>"] exI [of _ k]) simp
qed

text \<open>Raising the lower of two equal windows by one.\<close>

theorem restack_exact_witness:
  "\<exists>s' k. restack_window scaled_below 1 (Some 2) 1 DWSC_MIDDLE = Some s' \<and>
     sd_windows s' = insert_at k 1 [2] \<and> k < 2 \<and> stack_sorted s'"
proof -
  have "stack_sorted scaled_below"
    by (simp add: stack_sorted_def scaled_below_def plain_stack_def plain_window_def get_priority_def)
  moreover have "sd_windows scaled_below = [1, 2]" by (simp add: scaled_below_def plain_stack_def)
  ultimately show ?thesis
    using restack_exact [OF scaled_below_regular, of 1 "Some 2" 1 DWSC_MIDDLE] by (auto simp: numeral_2_eq_2)
qed

end
