(* ===== verification/Window_Focus.thy ===== *)
theory Window_Focus
  imports Window_Stacking
begin

text \<open>
  Focus, grabs and key routing of the default window manager (\<^verbatim>\<open>wm/default/default.c\<close>): which window is
  under the pointer, the windows the stack remembers (focused, entered, grabbing), explicit and
  implicit key grabs, and the withdrawal of a window from all of them. Reading a pixel of a surface
  for the shape test is a parameter: the format and the first bytes of the pixel as a little-endian
  word, and the alpha values of the palette.
\<close>

section \<open>The window under the pointer\<close>

datatype DFBSurfacePixelFormat = DSPF_AiRGB | DSPF_ARGB | DSPF_ABGR | DSPF_AYUV | DSPF_AVYU | DSPF_ARGB8565
  | DSPF_RGBA5551 | DSPF_ARGB1555 | DSPF_ARGB2554 | DSPF_ARGB4444 | DSPF_RGBA4444 | DSPF_RGBAF88871
  | DSPF_ALUT44 | DSPF_LUT1 | DSPF_LUT2 | DSPF_LUT8 | DSPF_RGB32 | DSPF_RGB24 | DSPF_RGB16 | DSPF_RGB444
  | DSPF_RGB555 | DSPF_BGR555 | DSPF_RGB332 | DSPF_other

record PixelRead =
  pr_format :: DFBSurfacePixelFormat
  pr_buf :: u32
  pr_palette :: "int list option"

definition pixel_alpha :: "PixelRead \<Rightarrow> int" where
  "pixel_alpha r =
    (let buf = pr_buf r; f = pr_format r
     in if f = DSPF_AiRGB then 0xff - uint (drop_bit 24 buf)
        else if f \<in> {DSPF_ARGB, DSPF_ABGR, DSPF_AYUV, DSPF_AVYU} then uint (drop_bit 24 buf)
        else if f = DSPF_ARGB8565 then uint (drop_bit 16 buf AND 0xff)
        else if f = DSPF_RGBA5551 then if buf AND 0x1 \<noteq> 0 then 0xff else 0
        else if f \<in> {DSPF_ARGB1555, DSPF_ARGB2554, DSPF_ARGB4444} then if buf AND 0x8000 \<noteq> 0 then 0xff else 0
        else if f = DSPF_RGBA4444 then if buf AND 0x8 \<noteq> 0 then 0xff else 0
        else if f = DSPF_RGBAF88871 then (let a = buf AND 0xfe in uint (a OR drop_bit 7 a))
        else if f = DSPF_ALUT44 then (let a = buf AND 0xf0 in uint (a OR drop_bit 4 a))
        else if f \<in> {DSPF_LUT1, DSPF_LUT2, DSPF_LUT8} then
          (case pr_palette r of
             Some alphas \<Rightarrow> if unat (buf AND 0xff) < length alphas then alphas ! unat (buf AND 0xff) else -1
           | None \<Rightarrow> -1)
        else -1)"

definition pixel_key :: "PixelRead \<Rightarrow> u32" where
  "pixel_key r =
    (let buf = pr_buf r; f = pr_format r
     in if f \<in> {DSPF_ARGB, DSPF_ABGR, DSPF_AiRGB, DSPF_RGB32, DSPF_RGB24} then buf AND 0x00ffffff
        else if f = DSPF_RGBAF88871 then buf AND 0xffffff00
        else if f \<in> {DSPF_RGB16, DSPF_ARGB8565} then buf AND 0xffff
        else if f \<in> {DSPF_ARGB4444, DSPF_RGB444} then buf AND 0x0fff
        else if f = DSPF_RGBA4444 then buf AND 0xfff0
        else if f \<in> {DSPF_ARGB1555, DSPF_RGB555, DSPF_BGR555} then buf AND 0x7fff
        else if f = DSPF_RGBA5551 then buf AND 0xfffe
        else if f \<in> {DSPF_RGB332, DSPF_LUT8} then buf AND 0xff
        else if f = DSPF_ALUT44 then buf AND 0x0f
        else 0)"

definition hit_by :: "(ptr \<Rightarrow> int \<Rightarrow> int \<Rightarrow> PixelRead option) \<Rightarrow> StackData \<Rightarrow> int \<Rightarrow> int \<Rightarrow> ptr \<Rightarrow> bool" where
  "hit_by read s x y w =
    (let window = sd_store s w; config = win_config window; options = cfg_options config;
         bounds = window_frame window; wx = x - rect_x bounds; wy = y - rect_y bounds; inner = cfg_opaque config
     in \<not> D_FLAGS_IS_SET options DWOP_GHOST \<and> cfg_opacity config \<noteq> 0 \<and>
        x \<ge> rect_x bounds \<and> x < rect_x bounds + rect_w bounds \<and> y \<ge> rect_y bounds \<and> y < rect_y bounds + rect_h bounds \<and>
        (\<not> D_FLAGS_IS_SET options DWOP_SHAPED \<or> \<not> D_FLAGS_IS_SET options (DWOP_ALPHACHANNEL OR DWOP_COLORKEYING) \<or>
         win_surface window = None \<or>
         D_FLAGS_IS_SET options DWOP_OPAQUE_REGION \<and>
           wx \<ge> rgn_x1 inner \<and> wx \<le> rgn_x2 inner \<and> wy \<ge> rgn_y1 inner \<and> wy \<le> rgn_y2 inner \<or>
         (case read w wx wy of
            None \<Rightarrow> False
          | Some pixel \<Rightarrow>
              D_FLAGS_IS_SET options DWOP_ALPHACHANNEL \<and> pixel_alpha pixel \<noteq> 0 \<or>
              D_FLAGS_IS_SET options DWOP_COLORKEYING \<and> pixel_key pixel \<noteq> cfg_color_key config)))"

definition window_at_pointer :: "(ptr \<Rightarrow> int \<Rightarrow> int \<Rightarrow> PixelRead option) \<Rightarrow> StackData \<Rightarrow> int \<Rightarrow> int \<Rightarrow> ptr option" where
  "window_at_pointer read s x y =
    (if \<not> sd_cursor_enabled s then
       find (\<lambda>w. win_opacity (sd_store s w) \<noteq> 0 \<and> \<not> D_FLAGS_IS_SET (win_options (sd_store s w)) DWOP_GHOST) (rev (sd_windows s))
     else
       (let x = (if x < 0 then sd_cursor_x s else x); y = (if y < 0 then sd_cursor_y s else y)
        in find (hit_by read s x y) (rev (sd_windows s))))"

section \<open>Focus\<close>

text \<open>\<^verbatim>\<open>NULL\<close> is \<^term>\<open>None\<close>. The palette a focused window gives to the layer is left out.\<close>

definition switch_focus :: "StackData \<Rightarrow> ptr option \<Rightarrow> StackData" where
  "switch_focus s to =
    (let from = sd_focused_window s
     in if from = to then s
        else if (case to of None \<Rightarrow> False | Some w \<Rightarrow> D_FLAGS_IS_SET (win_caps (sd_store s w)) DWCAPS_NOFOCUS) then s
        else
          (let s = (case from of None \<Rightarrow> s | Some w \<Rightarrow> post_event w DWET_LOSTFOCUS s);
               s = (case to of None \<Rightarrow> s | Some w \<Rightarrow> post_event w DWET_GOTFOCUS s)
           in s\<lparr> sd_focused_window := to \<rparr>))"

definition pointer_in_window :: "StackData \<Rightarrow> ptr \<Rightarrow> int \<times> int" where
  "pointer_in_window s w = transform_point_in_window (sd_store s w)
     (sd_cursor_x s - rect_x (win_bounds (sd_store s w))) (sd_cursor_y s - rect_y (win_bounds (sd_store s w)))"

definition update_focus :: "(ptr \<Rightarrow> int \<Rightarrow> int \<Rightarrow> PixelRead option) \<Rightarrow> StackData \<Rightarrow> StackData \<times> bool" where
  "update_focus read s =
    (if sd_pointer_window s = None then
       (let before = sd_entered_window s;
            after = window_at_pointer read s (-1) (-1)
        in if before \<noteq> after then
             (let s = (case before of None \<Rightarrow> s
                       | Some w \<Rightarrow> (let (x, y) = pointer_in_window s w in post_event w (DWET_LEAVE x y) s));
                  s = switch_focus s after;
                  s = (case after of None \<Rightarrow> s
                       | Some w \<Rightarrow> (let (x, y) = pointer_in_window s w in post_event w (DWET_ENTER x y) s))
              in (s\<lparr> sd_entered_window := after \<rparr>, True))
           else (s, False))
     else (s, False))"

definition ensure_focus :: "StackData \<Rightarrow> StackData" where
  "ensure_focus s =
    (if sd_focused_window s \<noteq> None then s
     else
       (case find (\<lambda>w. win_opacity (sd_store s w) \<noteq> 0 \<and> \<not> D_FLAGS_IS_SET (win_options (sd_store s w)) DWOP_GHOST)
                (rev (sd_windows s)) of
          None \<Rightarrow> s
        | Some w \<Rightarrow> switch_focus s (Some w)))"

definition request_focus :: "StackData \<Rightarrow> ptr \<Rightarrow> StackData \<times> DirectResult" where
  "request_focus s window =
    (let s = switch_focus s (Some window)
     in case sd_entered_window s of
          Some entered \<Rightarrow>
            if entered \<noteq> window
            then (let (x, y) = pointer_in_window s entered
                  in ((post_event entered (DWET_LEAVE x y) s)\<lparr> sd_entered_window := None \<rparr>, DR_OK))
            else (s, DR_OK)
        | None \<Rightarrow> (s, DR_OK))"

section \<open>Grabs\<close>

definition grab_keyboard :: "StackData \<Rightarrow> ptr \<Rightarrow> StackData \<times> DirectResult" where
  "grab_keyboard s window =
    (if sd_keyboard_window s \<noteq> None then (s, DR_LOCKED)
     else (s\<lparr> sd_keyboard_window := Some window \<rparr>, DR_OK))"

definition ungrab_keyboard :: "StackData \<Rightarrow> ptr \<Rightarrow> StackData \<times> DirectResult" where
  "ungrab_keyboard s window =
    (if sd_keyboard_window s = Some window then (s\<lparr> sd_keyboard_window := None \<rparr>, DR_OK) else (s, DR_OK))"

definition grab_pointer :: "StackData \<Rightarrow> ptr \<Rightarrow> StackData \<times> DirectResult" where
  "grab_pointer s window =
    (if sd_pointer_window s \<noteq> None then (s, DR_LOCKED)
     else (s\<lparr> sd_pointer_window := Some window \<rparr>, DR_OK))"

definition ungrab_pointer ::
    "(ptr \<Rightarrow> int \<Rightarrow> int \<Rightarrow> PixelRead option) \<Rightarrow> StackData \<Rightarrow> ptr \<Rightarrow> StackData \<times> DirectResult" where
  "ungrab_pointer read s window =
    (if sd_pointer_window s = Some window
     then (fst (update_focus read (s\<lparr> sd_pointer_window := None \<rparr>)), DR_OK) else (s, DR_OK))"

definition grab_unselected :: "StackData \<Rightarrow> ptr \<Rightarrow> StackData \<times> DirectResult" where
  "grab_unselected s window =
    (if sd_unselkeys_window s \<noteq> None then (s, DR_LOCKED)
     else (s\<lparr> sd_unselkeys_window := Some window \<rparr>, DR_OK))"

definition ungrab_unselected :: "StackData \<Rightarrow> ptr \<Rightarrow> StackData \<times> DirectResult" where
  "ungrab_unselected s window =
    (if sd_unselkeys_window s = Some window then (s\<lparr> sd_unselkeys_window := None \<rparr>, DR_OK) else (s, DR_OK))"

definition grab_key :: "StackData \<Rightarrow> ptr \<Rightarrow> int \<Rightarrow> u32 \<Rightarrow> StackData \<times> DirectResult" where
  "grab_key s window symbol modifiers =
    (if \<exists>grab \<in> set (sd_grabbed_keys s). gk_symbol grab = symbol \<and> gk_modifiers grab = modifiers then (s, DR_LOCKED)
     else
       (s\<lparr> sd_grabbed_keys := sd_grabbed_keys s @ [\<lparr> gk_symbol = symbol, gk_modifiers = modifiers, gk_owner = window \<rparr>],
           sd_keys := map (\<lambda>k. if ks_code k \<noteq> -1 \<and> ks_symbol k = symbol then k\<lparr> ks_code := -1 \<rparr> else k) (sd_keys s) \<rparr>,
        DR_OK))"

text \<open>The first matching grab of the window is taken out of the list.\<close>

definition is_grab :: "ptr \<Rightarrow> int \<Rightarrow> u32 \<Rightarrow> GrabbedKey \<Rightarrow> bool" where
  "is_grab window symbol modifiers k \<longleftrightarrow> gk_symbol k = symbol \<and> gk_modifiers k = modifiers \<and> gk_owner k = window"

definition ungrab_key :: "StackData \<Rightarrow> ptr \<Rightarrow> int \<Rightarrow> u32 \<Rightarrow> StackData \<times> DirectResult" where
  "ungrab_key s window symbol modifiers =
    (case find (is_grab window symbol modifiers) (sd_grabbed_keys s) of
       Some key \<Rightarrow> (s\<lparr> sd_grabbed_keys := remove1 key (sd_grabbed_keys s) \<rparr>, DR_OK)
     | None \<Rightarrow> (s, DR_IDNOTFOUND))"

section \<open>Keys\<close>

record KeyEvent =
  ke_press :: bool
  ke_repeat :: bool
  ke_code :: int
  ke_id :: int
  ke_symbol :: int

definition send_key_event :: "ptr \<Rightarrow> KeyEvent \<Rightarrow> StackData \<Rightarrow> StackData" where
  "send_key_event window event s =
     post_event window ((if ke_press event then DWET_KEYDOWN else DWET_KEYUP)
       (ke_code event) (ke_id event) (ke_symbol event) (ke_repeat event)) s"

fun slot_with :: "int \<Rightarrow> KeySlot list \<Rightarrow> nat option" where
  "slot_with code [] = None"
| "slot_with code (k # ks) = (if ks_code k = code then Some 0 else map_option Suc (slot_with code ks))"

text \<open>\<^verbatim>\<open>bsearch\<close> in the sorted list of selected keys finds a symbol exactly when it is in the list.\<close>

definition get_keyboard_window :: "StackData \<Rightarrow> KeyEvent \<Rightarrow> ptr option \<times> StackData" where
  "get_keyboard_window s event =
    (case find (\<lambda>k. gk_symbol k = ke_symbol event \<and> gk_modifiers k = sd_modifiers s) (sd_grabbed_keys s) of
       Some key \<Rightarrow> (Some (gk_owner key), s)
     | None \<Rightarrow>
         (let receiver = (if sd_keyboard_window s \<noteq> None then sd_keyboard_window s else sd_focused_window s)
          in if ke_code event = -1 then (receiver, s)
             else if ke_press event then
               (case slot_with (ke_code event) (sd_keys s) of
                  Some i \<Rightarrow> (ks_owner (sd_keys s ! i), s)
                | None \<Rightarrow>
                    (case receiver of
                       None \<Rightarrow> (None, s)
                     | Some window \<Rightarrow>
                         (let config = win_config (sd_store s window); selection = cfg_key_selection config
                          in if selection = DWKS_ALL \<or> selection = DWKS_LIST \<and> ke_symbol event \<in> set (cfg_keys config) then
                               (case slot_with (-1) (sd_keys s) of
                                  None \<Rightarrow> (None, s)
                                | Some free \<Rightarrow>
                                    (Some window,
                                     s\<lparr> sd_keys := (sd_keys s)[free := \<lparr> ks_symbol = ke_symbol event, ks_id = ke_id event,
                                          ks_code = ke_code event, ks_owner = Some window \<rparr>] \<rparr>))
                             else (sd_unselkeys_window s, s))))
             else
               (case slot_with (ke_code event) (sd_keys s) of
                  Some i \<Rightarrow> (ks_owner (sd_keys s ! i),
                             s\<lparr> sd_keys := (sd_keys s)[i := (sd_keys s ! i)\<lparr> ks_code := -1 \<rparr>] \<rparr>)
                | None \<Rightarrow> (None, s))))"

text \<open>The end of \<^verbatim>\<open>handle_key_press\<close> and \<^verbatim>\<open>handle_key_release\<close>, reached by every key that is not a command to the manager.\<close>

definition deliver_key :: "StackData \<Rightarrow> KeyEvent \<Rightarrow> StackData" where
  "deliver_key s event =
    (let (window, s) = get_keyboard_window s event
     in case window of None \<Rightarrow> s | Some w \<Rightarrow> send_key_event w event s)"

definition flush_slot :: "KeySlot \<Rightarrow> StackData \<Rightarrow> StackData option" where
  "flush_slot k s = (if ks_code k = -1 then Some s
     else do { w \<leftarrow> ks_owner k; Some (post_event w (DWET_KEYUP (ks_code k) (ks_id k) (ks_symbol k) False) s) })"

fun flush_slots :: "KeySlot list \<Rightarrow> StackData \<Rightarrow> StackData option" where
  "flush_slots [] s = Some s"
| "flush_slots (k # ks) s = do { s \<leftarrow> flush_slot k s; flush_slots ks s }"

text \<open>\<^term>\<open>None\<close>: an event would be posted to the window \<^verbatim>\<open>NULL\<close>.\<close>

definition wm_flush_keys :: "StackData \<Rightarrow> StackData option" where
  "wm_flush_keys s = do {
     s \<leftarrow> flush_slots (sd_keys s) s;
     Some (s\<lparr> sd_keys := map (\<lambda>k. k\<lparr> ks_code := -1 \<rparr>) (sd_keys s) \<rparr>) }"

section \<open>Withdrawal\<close>

definition forget :: "ptr \<Rightarrow> ptr option \<Rightarrow> ptr option" where
  "forget window remembered = (if remembered = Some window then None else remembered)"

definition held_by :: "ptr \<Rightarrow> KeySlot \<Rightarrow> bool" where
  "held_by window k \<longleftrightarrow> ks_code k \<noteq> -1 \<and> ks_owner k = Some window"

definition release_keys :: "ptr \<Rightarrow> StackData \<Rightarrow> StackData" where
  "release_keys window s =
    (let s' = (if D_FLAGS_IS_SET (win_flags (sd_store s window)) CWF_DESTROYED then s
               else fold (\<lambda>k. post_event window (DWET_KEYUP (ks_code k) (ks_id k) (ks_symbol k) False))
                      (filter (held_by window) (sd_keys s)) s)
     in s'\<lparr> sd_keys := map (\<lambda>k. if held_by window k then k\<lparr> ks_code := -1, ks_owner := None \<rparr> else k) (sd_keys s) \<rparr>)"

definition withdraw_window :: "StackData \<Rightarrow> ptr \<Rightarrow> StackData" where
  "withdraw_window s window =
    (let s = s\<lparr> sd_entered_window := forget window (sd_entered_window s),
                sd_focused_window := forget window (sd_focused_window s),
                sd_keyboard_window := forget window (sd_keyboard_window s),
                sd_pointer_window := forget window (sd_pointer_window s) \<rparr>;
         s = release_keys window s
     in s\<lparr> sd_unselkeys_window := forget window (sd_unselkeys_window s) \<rparr>)"

definition remove_window :: "StackData \<Rightarrow> ptr \<Rightarrow> StackData" where
  "remove_window s window =
    (let s = withdraw_window s window;
         s = s\<lparr> sd_grabbed_keys := filter (\<lambda>k. gk_owner k \<noteq> window) (sd_grabbed_keys s) \<rparr>
     in vector_drop s window)"

section \<open>What the stack remembers\<close>

definition refs :: "StackData \<Rightarrow> ptr set" where
  "refs s = set_option (sd_pointer_window s) \<union> set_option (sd_keyboard_window s) \<union> set_option (sd_focused_window s) \<union>
     set_option (sd_entered_window s) \<union> set_option (sd_unselkeys_window s) \<union> gk_owner ` set (sd_grabbed_keys s) \<union>
     {w. \<exists>k \<in> set (sd_keys s). held_by w k}"

definition codes :: "KeySlot list \<Rightarrow> int list" where
  "codes ks = filter (\<lambda>c. c \<noteq> -1) (map ks_code ks)"

text \<open>Held keys have an owner, and no key code is held twice.\<close>

definition keys_ok :: "KeySlot list \<Rightarrow> bool" where
  "keys_ok ks \<longleftrightarrow> (\<forall>k \<in> set ks. ks_code k \<noteq> -1 \<longrightarrow> ks_owner k \<noteq> None) \<and> distinct (codes ks)"

definition focus_inv :: "StackData \<Rightarrow> bool" where
  "focus_inv s \<longleftrightarrow> refs s \<subseteq> set (sd_windows s) \<and> keys_ok (sd_keys s) \<and> distinct (sd_windows s)"

text \<open>Posting an event, and everything below that only posts and remembers, leaves the rest alone.\<close>

lemma post_event_refs [simp]:
  "refs (post_event w e s) = refs s" "sd_keys (post_event w e s) = sd_keys s"
  "sd_pointer_window (post_event w e s) = sd_pointer_window s" "sd_keyboard_window (post_event w e s) = sd_keyboard_window s"
  "sd_focused_window (post_event w e s) = sd_focused_window s" "sd_entered_window (post_event w e s) = sd_entered_window s"
  "sd_unselkeys_window (post_event w e s) = sd_unselkeys_window s" "sd_grabbed_keys (post_event w e s) = sd_grabbed_keys s"
  "sd_modifiers (post_event w e s) = sd_modifiers s"
  by (simp_all add: refs_def post_event_def)

lemma find_rev_member: "find P (rev xs) = Some w \<Longrightarrow> w \<in> set xs"
  by (metis find_Some_iff length_rev nth_mem set_rev)

lemma window_at_pointer_member:
  assumes "window_at_pointer read s x y = Some w"
  shows "w \<in> set (sd_windows s)"
proof -
  obtain P where "find P (rev (sd_windows s)) = Some w"
    using assms unfolding window_at_pointer_def Let_def by (metis (lifting))
  then show ?thesis by (rule find_rev_member)
qed

lemma switch_focus_fields [simp]:
  "sd_windows (switch_focus s t) = sd_windows s" "sd_keys (switch_focus s t) = sd_keys s"
  "sd_store (switch_focus s t) = sd_store s" "sd_updates (switch_focus s t) = sd_updates s"
  "sd_width (switch_focus s t) = sd_width s" "sd_height (switch_focus s t) = sd_height s"
  "sd_rotation (switch_focus s t) = sd_rotation s" "sd_hw_mode (switch_focus s t) = sd_hw_mode s"
  "sd_entered_window (switch_focus s t) = sd_entered_window s"
  by (simp_all add: switch_focus_def Let_def split: option.split)

lemma switch_focus_refs: "refs (switch_focus s t) \<subseteq> refs s \<union> set_option t"
proof -
  define u where "u = (case sd_focused_window s of None \<Rightarrow> s | Some w \<Rightarrow> post_event w DWET_LOSTFOCUS s)"
  define v where "v = (case t of None \<Rightarrow> u | Some w \<Rightarrow> post_event w DWET_GOTFOCUS u)"
  have "refs v = refs s" by (simp add: v_def u_def split: option.split)
  moreover have "refs (v\<lparr> sd_focused_window := t \<rparr>) \<subseteq> refs v \<union> set_option t" by (auto simp: refs_def)
  moreover have "switch_focus s t = s \<or> switch_focus s t = v\<lparr> sd_focused_window := t \<rparr>"
    by (simp add: switch_focus_def Let_def u_def [symmetric] v_def [symmetric])
  ultimately show ?thesis by auto
qed

lemma update_focus_fields [simp]:
  "sd_windows (fst (update_focus read s)) = sd_windows s" "sd_keys (fst (update_focus read s)) = sd_keys s"
  "sd_store (fst (update_focus read s)) = sd_store s" "sd_updates (fst (update_focus read s)) = sd_updates s"
  "sd_width (fst (update_focus read s)) = sd_width s" "sd_height (fst (update_focus read s)) = sd_height s"
  "sd_rotation (fst (update_focus read s)) = sd_rotation s" "sd_hw_mode (fst (update_focus read s)) = sd_hw_mode s"
  by (simp_all add: update_focus_def Let_def split: option.split prod.split)

lemma update_focus_refs: "refs (fst (update_focus read s)) \<subseteq> refs s \<union> set (sd_windows s)"
proof -
  have entered: "refs (u\<lparr> sd_entered_window := t \<rparr>) \<subseteq> refs u \<union> set_option t" for u t by (auto simp: refs_def)
  define t where "t = window_at_pointer read s (-1) (-1)"
  have sub: "set_option t \<subseteq> set (sd_windows s)" using window_at_pointer_member by (auto simp: t_def)
  define s1 where "s1 = (case sd_entered_window s of None \<Rightarrow> s
      | Some w \<Rightarrow> (let (x, y) = pointer_in_window s w in post_event w (DWET_LEAVE x y) s))"
  define s2 where "s2 = (case t of None \<Rightarrow> switch_focus s1 t
      | Some w \<Rightarrow> (let (x, y) = pointer_in_window (switch_focus s1 t) w in post_event w (DWET_ENTER x y) (switch_focus s1 t)))"
  have "refs s1 = refs s" by (simp add: s1_def Let_def split: option.split prod.split)
  then have "refs s2 \<subseteq> refs s \<union> set_option t"
    using switch_focus_refs [of s1 t] by (cases t) (auto simp: s2_def Let_def split: prod.split)
  then have "refs (s2\<lparr> sd_entered_window := t \<rparr>) \<subseteq> refs s \<union> set_option t" using entered [of t s2] by blast
  moreover have "fst (update_focus read s) = (if sd_pointer_window s = None \<and> sd_entered_window s \<noteq> t
      then s2\<lparr> sd_entered_window := t \<rparr> else s)"
    by (simp add: update_focus_def Let_def t_def [symmetric] s1_def [symmetric] s2_def [symmetric])
  ultimately show ?thesis using sub by auto
qed

lemma ensure_focus_fields [simp]:
  "sd_windows (ensure_focus s) = sd_windows s" "sd_keys (ensure_focus s) = sd_keys s"
  "sd_store (ensure_focus s) = sd_store s" "sd_updates (ensure_focus s) = sd_updates s"
  "sd_width (ensure_focus s) = sd_width s" "sd_height (ensure_focus s) = sd_height s"
  "sd_rotation (ensure_focus s) = sd_rotation s" "sd_hw_mode (ensure_focus s) = sd_hw_mode s"
  by (simp_all add: ensure_focus_def split: option.split)

lemma ensure_focus_refs: "refs (ensure_focus s) \<subseteq> refs s \<union> set (sd_windows s)"
proof (cases "find (\<lambda>w. win_opacity (sd_store s w) \<noteq> 0 \<and>
    \<not> D_FLAGS_IS_SET (win_options (sd_store s w)) DWOP_GHOST) (rev (sd_windows s))")
  case (Some w)
  then show ?thesis
    using switch_focus_refs [of s "Some w"] find_rev_member [OF Some] by (auto simp: ensure_focus_def)
qed (simp add: ensure_focus_def)

lemma focus_inv_refs:
  assumes "focus_inv s" and "refs s' \<subseteq> refs s \<union> set (sd_windows s)" and "sd_windows s' = sd_windows s"
    and "keys_ok (sd_keys s')"
  shows "focus_inv s'"
  using assms unfolding focus_inv_def by auto

text \<open>Implicit grabs.\<close>

lemma keys_ok_release:
  assumes "keys_ok ks"
  shows "keys_ok (map (\<lambda>k. if P k then k\<lparr> ks_code := -1 \<rparr> else k) ks)"
proof -
  have "distinct (codes (map (\<lambda>k. if P k then k\<lparr> ks_code := -1 \<rparr> else k) ks)) \<and>
      set (codes (map (\<lambda>k. if P k then k\<lparr> ks_code := -1 \<rparr> else k) ks)) \<subseteq> set (codes ks)" if "distinct (codes ks)" for ks
    using that
  proof (induction ks)
    case (Cons k ks)
    then show ?case by (auto simp: codes_def split: if_splits)
  qed (simp add: codes_def)
  then show ?thesis using assms by (auto simp: keys_ok_def)
qed

lemma slot_with_Some:
  "slot_with c ks = Some i \<Longrightarrow> i < length ks \<and> ks_code (ks ! i) = c"
  by (induction ks arbitrary: i) (auto split: if_splits)

lemma slot_with_None: "slot_with c ks = None \<longleftrightarrow> (\<forall>k \<in> set ks. ks_code k \<noteq> c)"
  by (induction ks) auto

lemma codes_update:
  assumes "i < length ks" and "ks_code (ks ! i) = -1" and "ks_code k \<noteq> -1"
  shows "mset (codes (ks[i := k])) = add_mset (ks_code k) (mset (codes ks))"
  using assms
proof (induction ks arbitrary: i)
  case (Cons x xs)
  then show ?case by (cases i) (auto simp: codes_def)
qed simp

lemma codes_erase:
  assumes "i < length ks" and "ks_code (ks ! i) \<noteq> -1"
  shows "mset (codes ks) = add_mset (ks_code (ks ! i)) (mset (codes (ks[i := (ks ! i)\<lparr> ks_code := -1 \<rparr>])))"
  using assms
proof (induction ks arbitrary: i)
  case (Cons x xs)
  then show ?case by (cases i) (auto simp: codes_def)
qed simp

lemma mem_codes: "c \<in> set (codes ks) \<longleftrightarrow> c \<noteq> -1 \<and> (\<exists>k \<in> set ks. ks_code k = c)"
  by (auto simp: codes_def)

lemma keys_ok_press:
  assumes "keys_ok ks" and "slot_with (-1) ks = Some i" and "slot_with c ks = None" and "c \<noteq> -1"
  shows "keys_ok (ks[i := \<lparr> ks_symbol = sy, ks_id = n, ks_code = c, ks_owner = Some w \<rparr>])"
proof -
  let ?k = "\<lparr> ks_symbol = sy, ks_id = n, ks_code = c, ks_owner = Some w \<rparr>"
  have "mset (codes (ks[i := ?k])) = add_mset c (mset (codes ks))"
    using codes_update [of i ks ?k] slot_with_Some [OF assms(2)] assms(4) by simp
  moreover have "c \<notin> set (codes ks)" using assms(3) by (auto simp: mem_codes slot_with_None)
  ultimately have "distinct (codes (ks[i := ?k]))"
    using assms(1) mset_eq_imp_distinct_iff [of "codes (ks[i := ?k])" "c # codes ks"] by (simp add: keys_ok_def)
  then show ?thesis
    using assms(1) by (auto simp: keys_ok_def dest: set_update_subset_insert [THEN subsetD])
qed

lemma keys_ok_erase:
  assumes "keys_ok ks" and "i < length ks"
  shows "keys_ok (ks[i := (ks ! i)\<lparr> ks_code := -1 \<rparr>])"
proof (cases "ks_code (ks ! i) = -1")
  case True
  then show ?thesis using assms by (metis KeySlot.surjective KeySlot.update_convs(3) list_update_id)
next
  case False
  then have "distinct (codes (ks[i := (ks ! i)\<lparr> ks_code := -1 \<rparr>]))"
    using codes_erase [OF assms(2) False] assms(1)
      mset_eq_imp_distinct_iff [of "codes ks" "ks_code (ks ! i) # codes (ks[i := (ks ! i)\<lparr> ks_code := -1 \<rparr>])"]
    by (simp add: keys_ok_def)
  then show ?thesis
    using assms by (auto simp: keys_ok_def dest!: set_update_subset_insert [THEN subsetD])
qed

lemma get_keyboard_window_fields:
  assumes "get_keyboard_window s e = (r, s')"
  shows "s' = s\<lparr> sd_keys := sd_keys s' \<rparr>"
  using assms by (auto simp: get_keyboard_window_def Let_def split: option.splits if_splits)

lemma deliver_key_grabs: "sd_grabbed_keys (deliver_key s e) = sd_grabbed_keys s"
proof -
  obtain r s' where res: "get_keyboard_window s e = (r, s')" by force
  have "sd_grabbed_keys s' = sd_grabbed_keys s"
    using arg_cong [OF get_keyboard_window_fields [OF res], of sd_grabbed_keys] by simp
  then show ?thesis using res by (simp add: deliver_key_def send_key_event_def split: option.split)
qed

lemma get_keyboard_window_keys:
  assumes "get_keyboard_window s e = (r, s')"
  shows "sd_keys s' = sd_keys s \<or>
    ke_press e \<and> (\<exists>free. slot_with (-1) (sd_keys s) = Some free \<and> slot_with (ke_code e) (sd_keys s) = None \<and>
       ke_code e \<noteq> -1 \<and> r \<noteq> None \<and> (r = sd_keyboard_window s \<or> r = sd_focused_window s) \<and>
       sd_keys s' = (sd_keys s)[free := \<lparr> ks_symbol = ke_symbol e, ks_id = ke_id e, ks_code = ke_code e, ks_owner = r \<rparr>]) \<or>
    \<not> ke_press e \<and> (\<exists>i. slot_with (ke_code e) (sd_keys s) = Some i \<and> ke_code e \<noteq> -1 \<and>
       sd_keys s' = (sd_keys s)[i := (sd_keys s ! i)\<lparr> ks_code := -1 \<rparr>])"
  using assms
  by (auto simp: get_keyboard_window_def Let_def split: option.splits if_splits
      dest!: sym [of "Some w" for w])

lemma refs_keys_update: "refs (s\<lparr> sd_keys := ks \<rparr>) \<subseteq> refs s \<union> {w. \<exists>k \<in> set ks. held_by w k}"
  by (auto simp: refs_def)

lemma deliver_key_inv:
  assumes "focus_inv s"
  shows "focus_inv (deliver_key s e)"
proof -
  obtain r s' where res: "get_keyboard_window s e = (r, s')" by force
  have eq: "s' = s\<lparr> sd_keys := sd_keys s' \<rparr>" by (rule get_keyboard_window_fields [OF res])
  have ok: "keys_ok (sd_keys s)" using assms by (simp add: focus_inv_def)
  have held: "w \<in> refs s" if "k \<in> set (sd_keys s)" "held_by w k" for w k using that by (auto simp: refs_def)
  have "keys_ok (sd_keys s') \<and> (\<forall>w. (\<exists>k \<in> set (sd_keys s'). held_by w k) \<longrightarrow> w \<in> refs s)"
  proof -
    consider (same) "sd_keys s' = sd_keys s"
      | (press) w free where "slot_with (-1) (sd_keys s) = Some free" "slot_with (ke_code e) (sd_keys s) = None"
          "ke_code e \<noteq> -1" "sd_keyboard_window s = Some w \<or> sd_focused_window s = Some w"
          "sd_keys s' = (sd_keys s)[free := \<lparr> ks_symbol = ke_symbol e, ks_id = ke_id e, ks_code = ke_code e, ks_owner = Some w \<rparr>]"
      | (release) i where "slot_with (ke_code e) (sd_keys s) = Some i"
          "sd_keys s' = (sd_keys s)[i := (sd_keys s ! i)\<lparr> ks_code := -1 \<rparr>]"
    proof -
      consider "sd_keys s' = sd_keys s"
        | free where "slot_with (-1) (sd_keys s) = Some free" "slot_with (ke_code e) (sd_keys s) = None" "ke_code e \<noteq> -1"
            "r \<noteq> None" "r = sd_keyboard_window s \<or> r = sd_focused_window s"
            "sd_keys s' = (sd_keys s)[free := \<lparr> ks_symbol = ke_symbol e, ks_id = ke_id e, ks_code = ke_code e, ks_owner = r \<rparr>]"
        | i where "slot_with (ke_code e) (sd_keys s) = Some i" "sd_keys s' = (sd_keys s)[i := (sd_keys s ! i)\<lparr> ks_code := -1 \<rparr>]"
        using get_keyboard_window_keys [OF res] by blast
      then show thesis
      proof cases
        case 2
        then obtain w where "r = Some w" by blast
        then show thesis using 2 by (intro press [of free w]) auto
      qed (use same release in blast)+
    qed
    then show ?thesis
    proof cases
      case same
      then show ?thesis using ok held by auto
    next
      case press
      have "w \<in> refs s" using press(4) by (auto simp: refs_def)
      then show ?thesis
        using keys_ok_press [OF ok press(1,2,3)] held unfolding press(5)
        by (auto simp: held_by_def dest!: set_update_subset_insert [THEN subsetD])
    next
      case release
      then show ?thesis
        using keys_ok_erase [OF ok, of i] slot_with_Some [OF release(1)] held
        by (auto simp: held_by_def dest!: set_update_subset_insert [THEN subsetD])
    qed
  qed
  then have "refs s' \<subseteq> refs s" "keys_ok (sd_keys s')"
    using refs_keys_update [of "sd_keys s'" s] eq by auto
  then have "focus_inv s'" using assms arg_cong [OF eq, of sd_windows] by (intro focus_inv_refs [OF assms]) auto
  moreover have "focus_inv (send_key_event w e s') = focus_inv s'" for w by (simp add: focus_inv_def send_key_event_def)
  ultimately show ?thesis using res by (simp add: deliver_key_def split: option.split)
qed

lemma fold_post_fields:
  "sd_keys (fold (\<lambda>k. post_event w (f k)) ks s) = sd_keys s"
  "refs (fold (\<lambda>k. post_event w (f k)) ks s) = refs s"
  "sd_windows (fold (\<lambda>k. post_event w (f k)) ks s) = sd_windows s"
  "sd_store (fold (\<lambda>k. post_event w (f k)) ks s) = sd_store s"
  "sd_updates (fold (\<lambda>k. post_event w (f k)) ks s) = sd_updates s"
  "sd_width (fold (\<lambda>k. post_event w (f k)) ks s) = sd_width s"
  "sd_height (fold (\<lambda>k. post_event w (f k)) ks s) = sd_height s"
  "sd_rotation (fold (\<lambda>k. post_event w (f k)) ks s) = sd_rotation s"
  "sd_hw_mode (fold (\<lambda>k. post_event w (f k)) ks s) = sd_hw_mode s"
  "sd_pointer_window (fold (\<lambda>k. post_event w (f k)) ks s) = sd_pointer_window s"
  "sd_keyboard_window (fold (\<lambda>k. post_event w (f k)) ks s) = sd_keyboard_window s"
  "sd_focused_window (fold (\<lambda>k. post_event w (f k)) ks s) = sd_focused_window s"
  "sd_entered_window (fold (\<lambda>k. post_event w (f k)) ks s) = sd_entered_window s"
  "sd_unselkeys_window (fold (\<lambda>k. post_event w (f k)) ks s) = sd_unselkeys_window s"
  "sd_grabbed_keys (fold (\<lambda>k. post_event w (f k)) ks s) = sd_grabbed_keys s"
  by (induction ks arbitrary: s) simp_all

lemma withdraw_fields [simp]:
  "sd_windows (withdraw_window s w) = sd_windows s" "sd_store (withdraw_window s w) = sd_store s"
  "sd_updates (withdraw_window s w) = sd_updates s" "sd_width (withdraw_window s w) = sd_width s"
  "sd_height (withdraw_window s w) = sd_height s" "sd_rotation (withdraw_window s w) = sd_rotation s"
  "sd_hw_mode (withdraw_window s w) = sd_hw_mode s" "sd_grabbed_keys (withdraw_window s w) = sd_grabbed_keys s"
  "sd_pointer_window (withdraw_window s w) = forget w (sd_pointer_window s)"
  "sd_keyboard_window (withdraw_window s w) = forget w (sd_keyboard_window s)"
  "sd_focused_window (withdraw_window s w) = forget w (sd_focused_window s)"
  "sd_entered_window (withdraw_window s w) = forget w (sd_entered_window s)"
  "sd_unselkeys_window (withdraw_window s w) = forget w (sd_unselkeys_window s)"
  "sd_keys (withdraw_window s w) = map (\<lambda>k. if held_by w k then k\<lparr> ks_code := -1, ks_owner := None \<rparr> else k) (sd_keys s)"
  by (simp_all add: withdraw_window_def release_keys_def Let_def fold_post_fields)

lemma forget_iff: "forget w r = Some v \<longleftrightarrow> r = Some v \<and> v \<noteq> w"
  by (auto simp: forget_def)

lemma withdraw_refs:
  "refs (withdraw_window s w) \<subseteq> refs s" "w \<in> refs (withdraw_window s w) \<Longrightarrow> w \<in> gk_owner ` set (sd_grabbed_keys s)"
  by (auto simp: refs_def forget_iff held_by_def split: if_splits)

lemma withdraw_inv: "focus_inv s \<Longrightarrow> focus_inv (withdraw_window s w)"
proof -
  assume inv: "focus_inv s"
  have "keys_ok (map (\<lambda>k. if held_by w k then k\<lparr> ks_code := -1, ks_owner := None \<rparr> else k) ks)" if "keys_ok ks" for ks
  proof -
    have "codes (map (\<lambda>k. if held_by w k then k\<lparr> ks_code := -1, ks_owner := None \<rparr> else k) ks)
        = codes (map (\<lambda>k. if held_by w k then k\<lparr> ks_code := -1 \<rparr> else k) ks)"
      by (simp add: codes_def) (rule arg_cong [of _ _ "filter _"], simp)
    then show ?thesis
      using keys_ok_release [OF that, of "held_by w"] that by (auto simp: keys_ok_def)
  qed
  then show ?thesis using inv withdraw_refs(1) [of s w] by (intro focus_inv_refs [OF inv]) (auto simp: focus_inv_def)
qed

section \<open>Calls\<close>

datatype focus_call = Insert bool ptr | Remove ptr | Withdraw ptr | Pointer_Moved | Ensure_Focus | Request_Focus ptr
  | Grab_Keyboard ptr | Ungrab_Keyboard ptr | Grab_Pointer ptr | Ungrab_Pointer ptr | Grab_Unselected ptr
  | Ungrab_Unselected ptr | Grab_Key ptr int u32 | Ungrab_Key ptr int u32 | Key KeyEvent | Flush_Keys

type_synonym pixel_reader = "ptr \<Rightarrow> int \<Rightarrow> int \<Rightarrow> PixelRead option"

fun focus_step :: "pixel_reader \<Rightarrow> StackData \<Rightarrow> focus_call \<Rightarrow> StackData option" where
  "focus_step read s (Insert avail w) = Some (fst (update_focus read (insert_window avail s w)))"
| "focus_step read s (Remove w) = Some (remove_window s w)"
| "focus_step read s (Withdraw w) = Some (withdraw_window s w)"
| "focus_step read s Pointer_Moved = Some (fst (update_focus read s))"
| "focus_step read s Ensure_Focus = Some (ensure_focus s)"
| "focus_step read s (Request_Focus w) = Some (fst (request_focus s w))"
| "focus_step read s (Grab_Keyboard w) = Some (fst (grab_keyboard s w))"
| "focus_step read s (Ungrab_Keyboard w) = Some (fst (ungrab_keyboard s w))"
| "focus_step read s (Grab_Pointer w) = Some (fst (grab_pointer s w))"
| "focus_step read s (Ungrab_Pointer w) = Some (fst (ungrab_pointer read s w))"
| "focus_step read s (Grab_Unselected w) = Some (fst (grab_unselected s w))"
| "focus_step read s (Ungrab_Unselected w) = Some (fst (ungrab_unselected s w))"
| "focus_step read s (Grab_Key w symbol modifiers) = Some (fst (grab_key s w symbol modifiers))"
| "focus_step read s (Ungrab_Key w symbol modifiers) = Some (fst (ungrab_key s w symbol modifiers))"
| "focus_step read s (Key e) = Some (deliver_key s e)"
| "focus_step read s Flush_Keys = wm_flush_keys s"

text \<open>The callers hand over windows of the stack, and a new one once.\<close>

fun call_ok :: "StackData \<Rightarrow> focus_call \<Rightarrow> bool" where
  "call_ok s (Insert avail w) \<longleftrightarrow> w \<notin> set (sd_windows s)"
| "call_ok s (Remove w) \<longleftrightarrow> w \<in> set (sd_windows s)"
| "call_ok s (Withdraw w) \<longleftrightarrow> w \<in> set (sd_windows s)"
| "call_ok s (Request_Focus w) \<longleftrightarrow> w \<in> set (sd_windows s)"
| "call_ok s (Grab_Keyboard w) \<longleftrightarrow> w \<in> set (sd_windows s)"
| "call_ok s (Grab_Pointer w) \<longleftrightarrow> w \<in> set (sd_windows s)"
| "call_ok s (Grab_Unselected w) \<longleftrightarrow> w \<in> set (sd_windows s)"
| "call_ok s (Grab_Key w symbol modifiers) \<longleftrightarrow> w \<in> set (sd_windows s)"
| "call_ok s c \<longleftrightarrow> True"

text \<open>The stacks that calls reach from a stack without windows.\<close>

inductive focus_reach :: "pixel_reader \<Rightarrow> StackData \<Rightarrow> bool" for read where
  start: "sd_windows s = [] \<Longrightarrow> refs s = {} \<Longrightarrow> sd_keys s = replicate 16 \<lparr> ks_symbol = a, ks_id = b, ks_code = -1, ks_owner = None \<rparr>
    \<Longrightarrow> focus_reach read s"
| step: "focus_reach read s \<Longrightarrow> call_ok s c \<Longrightarrow> focus_step read s c = Some s' \<Longrightarrow> focus_reach read s'"

lemma update_focus_inv: "focus_inv s \<Longrightarrow> focus_inv (fst (update_focus read s))"
  by (rule focus_inv_refs) (use update_focus_refs [of read s] in \<open>auto simp: focus_inv_def\<close>)

lemma insert_window_inv:
  assumes "focus_inv s" and "w \<notin> set (sd_windows s)"
  shows "focus_inv (insert_window avail s w)"
proof -
  have "refs (insert_window avail s w) = refs s" "sd_keys (insert_window avail s w) = sd_keys s"
    by (simp_all add: insert_window_def set_window_def refs_def Let_def)
  moreover have "sd_windows (insert_window avail s w) = (if avail
      then insert_at (insert_scan (sd_store s) (prio s w) (sd_windows s)) w (sd_windows s) else sd_windows s)"
    by (simp add: insert_window_def Let_def)
  ultimately show ?thesis
    using assms by (auto simp: focus_inv_def set_insert_at distinct_insert_at)
qed

lemma remove_window_inv:
  assumes "focus_inv s" and "w \<in> set (sd_windows s)"
  shows "focus_inv (remove_window s w)" and "w \<notin> refs (remove_window s w)" and "w \<notin> set (sd_windows (remove_window s w))"
proof -
  obtain bs as where split: "sd_windows s = bs @ w # as" using assms(2) by (meson split_list)
  have dist: "distinct (sd_windows s)" using assms(1) by (simp add: focus_inv_def)
  have idx: "nat (get_index s w) = length bs" using last_index_nth [OF dist split] by (simp add: get_index_def)
  let ?t = "(withdraw_window s w)\<lparr> sd_grabbed_keys := filter (\<lambda>k. gk_owner k \<noteq> w) (sd_grabbed_keys s) \<rparr>"
  have eq: "refs (remove_window s w) = refs ?t" "sd_keys (remove_window s w) = sd_keys ?t"
    by (simp_all add: remove_window_def vector_drop_def set_window_def refs_def Let_def)
  have wins: "sd_windows (remove_window s w) = bs @ as"
    using idx split by (simp add: remove_window_def vector_drop_def Let_def get_index_def remove_at_def)
  have sub: "refs ?t \<subseteq> refs (withdraw_window s w)" by (auto simp: refs_def)
  show gone: "w \<notin> refs (remove_window s w)"
    unfolding eq by (auto simp: refs_def forget_iff held_by_def split: if_splits)
  show "w \<notin> set (sd_windows (remove_window s w))" using wins dist split by simp
  have "refs (remove_window s w) \<subseteq> refs s" using sub withdraw_refs(1) [of s w] eq by blast
  then have "refs (remove_window s w) \<subseteq> set bs \<union> set as"
    using gone assms(1) split by (auto simp: focus_inv_def)
  moreover have "keys_ok (sd_keys ?t)" using withdraw_inv [OF assms(1), of w] by (simp add: focus_inv_def)
  ultimately show "focus_inv (remove_window s w)"
    using wins eq dist split by (simp add: focus_inv_def)
qed

lemma request_focus_refs:
  "refs (fst (request_focus s w)) \<subseteq> refs s \<union> {w}" "sd_windows (fst (request_focus s w)) = sd_windows s"
  "sd_keys (fst (request_focus s w)) = sd_keys s"
proof -
  define t where "t = switch_focus s (Some w)"
  have leaf: "refs ((post_event e v t)\<lparr> sd_entered_window := None \<rparr>) \<subseteq> refs t" for e v
    by (auto simp: refs_def)
  have "fst (request_focus s w) = t \<or> (\<exists>e v. fst (request_focus s w) = (post_event e v t)\<lparr> sd_entered_window := None \<rparr>)"
    by (auto simp: request_focus_def Let_def t_def split: option.split prod.split)
  moreover have "refs t \<subseteq> refs s \<union> {w}" using switch_focus_refs [of s "Some w"] by (simp add: t_def)
  ultimately show "refs (fst (request_focus s w)) \<subseteq> refs s \<union> {w}" using leaf by fastforce
qed (simp_all add: request_focus_def Let_def split: option.split prod.split)

lemma grabs_refs:
  "refs (fst (grab_keyboard s w)) \<subseteq> refs s \<union> {w}" "refs (fst (ungrab_keyboard s w)) \<subseteq> refs s"
  "refs (fst (grab_pointer s w)) \<subseteq> refs s \<union> {w}" "refs (s\<lparr> sd_pointer_window := None \<rparr>) \<subseteq> refs s"
  "refs (fst (grab_unselected s w)) \<subseteq> refs s \<union> {w}" "refs (fst (ungrab_unselected s w)) \<subseteq> refs s"
  "refs (fst (grab_key s w symbol modifiers)) \<subseteq> refs s \<union> {w}" "refs (fst (ungrab_key s w symbol modifiers)) \<subseteq> refs s"
  by (auto simp: refs_def grab_keyboard_def ungrab_keyboard_def grab_pointer_def grab_unselected_def
      ungrab_unselected_def grab_key_def ungrab_key_def held_by_def
      split: if_splits option.splits dest: set_remove1_subset [THEN subsetD])

lemma flush_slots_total:
  "keys_ok ks \<Longrightarrow> \<exists>s'. flush_slots ks s = Some s' \<and> refs s' = refs s \<and> sd_windows s' = sd_windows s \<and> sd_keys s' = sd_keys s"
proof (induction ks arbitrary: s)
  case (Cons k ks)
  have ks: "keys_ok ks" using Cons.prems by (auto simp: keys_ok_def codes_def split: if_splits)
  have "\<exists>s1. flush_slot k s = Some s1 \<and> refs s1 = refs s \<and> sd_windows s1 = sd_windows s \<and> sd_keys s1 = sd_keys s"
    using Cons.prems by (cases "ks_owner k") (auto simp: flush_slot_def keys_ok_def)
  then obtain s1 where "flush_slot k s = Some s1" "refs s1 = refs s" "sd_windows s1 = sd_windows s" "sd_keys s1 = sd_keys s"
    by blast
  then show ?case using Cons.IH [OF ks, of s1] by auto
qed simp

lemma flush_keys_inv:
  assumes "focus_inv s"
  shows "\<exists>s'. wm_flush_keys s = Some s' \<and> focus_inv s'"
proof -
  obtain t where t: "flush_slots (sd_keys s) s = Some t" "refs t = refs s" "sd_windows t = sd_windows s" "sd_keys t = sd_keys s"
    using flush_slots_total assms unfolding focus_inv_def by blast
  let ?ks = "map (\<lambda>k. k\<lparr> ks_code := -1 \<rparr>) (sd_keys s)"
  have "keys_ok ?ks" by (auto simp: keys_ok_def codes_def filter_map comp_def)
  moreover have "refs (t\<lparr> sd_keys := ?ks \<rparr>) \<subseteq> refs s"
    using t(2) refs_keys_update [of ?ks t] by (auto simp: held_by_def)
  ultimately have "focus_inv (t\<lparr> sd_keys := ?ks \<rparr>)" using t assms by (auto simp: focus_inv_def)
  then show ?thesis using t by (simp add: wm_flush_keys_def)
qed

lemma focus_step_inv:
  assumes "focus_inv s" and "call_ok s c" and "focus_step read s c = Some s'"
  shows "focus_inv s'"
proof (cases c)
  case (Insert avail w)
  then show ?thesis using assms insert_window_inv update_focus_inv by auto
next
  case (Remove w)
  then show ?thesis using assms remove_window_inv(1) by auto
next
  case (Withdraw w)
  then show ?thesis using assms withdraw_inv by auto
next
  case Pointer_Moved
  then show ?thesis using assms update_focus_inv by auto
next
  case Ensure_Focus
  then show ?thesis
    using assms ensure_focus_refs [of s] by (intro focus_inv_refs [OF assms(1)]) (auto simp: focus_inv_def)
next
  case (Request_Focus w)
  then show ?thesis
    using assms request_focus_refs [of s w] by (intro focus_inv_refs [OF assms(1)]) (auto simp: focus_inv_def)
next
  case (Grab_Keyboard w)
  then show ?thesis
    using assms grabs_refs(1) [of s w]
    by (intro focus_inv_refs [OF assms(1)]) (auto simp: focus_inv_def grab_keyboard_def split: if_splits)
next
  case (Ungrab_Keyboard w)
  then show ?thesis
    using assms grabs_refs(2) [of s w]
    by (intro focus_inv_refs [OF assms(1)]) (auto simp: focus_inv_def ungrab_keyboard_def split: if_splits)
next
  case (Grab_Pointer w)
  then show ?thesis
    using assms grabs_refs(3) [of s w]
    by (intro focus_inv_refs [OF assms(1)]) (auto simp: focus_inv_def grab_pointer_def split: if_splits)
next
  case (Ungrab_Pointer w)
  have "focus_inv (s\<lparr> sd_pointer_window := None \<rparr>)"
    using assms(1) grabs_refs(4) [of s] by (intro focus_inv_refs [OF assms(1)]) (auto simp: focus_inv_def)
  then show ?thesis using Ungrab_Pointer assms update_focus_inv by (auto simp: ungrab_pointer_def)
next
  case (Grab_Unselected w)
  then show ?thesis
    using assms grabs_refs(5) [of s w]
    by (intro focus_inv_refs [OF assms(1)]) (auto simp: focus_inv_def grab_unselected_def split: if_splits)
next
  case (Ungrab_Unselected w)
  then show ?thesis
    using assms grabs_refs(6) [of s w]
    by (intro focus_inv_refs [OF assms(1)]) (auto simp: focus_inv_def ungrab_unselected_def split: if_splits)
next
  case (Grab_Key w symbol modifiers)
  then show ?thesis
    using assms grabs_refs(7) [of s w symbol modifiers]
      keys_ok_release [of "sd_keys s" "\<lambda>k. ks_code k \<noteq> -1 \<and> ks_symbol k = symbol"]
    by (intro focus_inv_refs [OF assms(1)]) (auto simp: focus_inv_def grab_key_def split: if_splits)
next
  case (Ungrab_Key w symbol modifiers)
  then show ?thesis
    using assms grabs_refs(8) [of s w symbol modifiers]
    by (intro focus_inv_refs [OF assms(1)]) (auto simp: focus_inv_def ungrab_key_def split: option.splits)
next
  case (Key e)
  then show ?thesis using assms deliver_key_inv by auto
next
  case Flush_Keys
  then show ?thesis using assms flush_keys_inv by fastforce
qed

lemma focus_reach_inv: "focus_reach read s \<Longrightarrow> focus_inv s"
proof (induction rule: focus_reach.induct)
  case (start s a b)
  then show ?case by (auto simp: focus_inv_def keys_ok_def codes_def filter_replicate)
next
  case (step s c s')
  then show ?case by (blast intro: focus_step_inv)
qed

lemma refs_I:
  "sd_keyboard_window s = Some w \<Longrightarrow> w \<in> refs s" "sd_focused_window s = Some w \<Longrightarrow> w \<in> refs s"
  "sd_unselkeys_window s = Some w \<Longrightarrow> w \<in> refs s"
  by (simp_all add: refs_def)

lemma refs_grab: "find P (sd_grabbed_keys s) = Some k \<Longrightarrow> gk_owner k \<in> refs s"
  by (auto simp: refs_def find_Some_iff)

lemma refs_slot:
  assumes "slot_with c (sd_keys s) = Some i" and "c \<noteq> -1" and "ks_owner (sd_keys s ! i) = Some w"
  shows "w \<in> refs s"
proof -
  have "sd_keys s ! i \<in> set (sd_keys s)" "held_by w (sd_keys s ! i)"
    using slot_with_Some [OF assms(1)] assms(2,3) by (auto simp: held_by_def)
  then show ?thesis by (auto simp: refs_def)
qed

lemma receiver_remembered:
  assumes "get_keyboard_window s e = (Some w, s')"
  shows "w \<in> refs s"
  using assms
  by (auto simp: get_keyboard_window_def Let_def split: option.splits if_splits
      intro: refs_I refs_grab refs_slot dest!: sym [of "Some v" for v])

text \<open>
  C12: The stack never remembers a window that is gone. After any sequence of insertions, removals,
  withdrawals, focus changes, grabs, key events and pointer movements, with windows of the stack as arguments,
  everything the stack remembers (focus, entered window, pointer, keyboard and unselected-key grabs,
  explicit key grabs, owners of held keys) is a window of the stack; no key code is held twice; every
  key event goes to a window of the stack; and flushing the keys never posts to \<^verbatim>\<open>NULL\<close>.
\<close>

theorem no_dangling_window:
  assumes "focus_reach read s"
  shows "refs s \<subseteq> set (sd_windows s) \<and> distinct (codes (sd_keys s)) \<and>
    (\<forall>e w s'. get_keyboard_window s e = (Some w, s') \<longrightarrow> w \<in> set (sd_windows s)) \<and>
    (\<exists>s'. wm_flush_keys s = Some s' \<and> sd_windows s' = sd_windows s)"
proof -
  have inv: "focus_inv s" by (rule focus_reach_inv [OF assms])
  then obtain t where "flush_slots (sd_keys s) s = Some t" "sd_windows t = sd_windows s"
    using flush_slots_total [of "sd_keys s" s] by (auto simp: focus_inv_def)
  then have "\<exists>s'. wm_flush_keys s = Some s' \<and> sd_windows s' = sd_windows s" by (simp add: wm_flush_keys_def)
  then show ?thesis using inv receiver_remembered unfolding focus_inv_def keys_ok_def by blast
qed

definition no_reader :: pixel_reader where
  "no_reader w x y = None"

definition one_window :: StackData where
  "one_window = fst (request_focus (fst (update_focus no_reader (insert_window True (plain_stack []) 1))) 1)"

lemma one_window_reachable: "focus_reach no_reader one_window"
proof -
  have "focus_reach no_reader (plain_stack [])"
    by (rule focus_reach.start) (simp_all add: plain_stack_def refs_def held_by_def)
  then have "focus_reach no_reader (fst (update_focus no_reader (insert_window True (plain_stack []) 1)))"
    by (rule focus_reach.step [where c = "Insert True 1"]) (simp_all add: plain_stack_def)
  then show ?thesis
    unfolding one_window_def
    by (rule focus_reach.step [where c = "Request_Focus 1"]) (simp_all add: insert_window_def plain_stack_def Let_def insert_at_def)
qed

lemma one_window_fields:
  "sd_windows one_window = [1]" "sd_keys one_window = replicate 16 \<lparr> ks_symbol = 0, ks_id = 0, ks_code = -1, ks_owner = None \<rparr>"
  by (simp_all add: one_window_def request_focus_refs insert_window_def plain_stack_def Let_def insert_at_def set_window_def)

theorem no_dangling_window_witness: "refs one_window \<subseteq> {1}"
  using no_dangling_window [OF one_window_reachable] one_window_fields by simp

section \<open>Held keys\<close>

fun focus_run :: "pixel_reader \<Rightarrow> StackData \<Rightarrow> focus_call list \<Rightarrow> StackData option" where
  "focus_run read s [] = Some s"
| "focus_run read s (c # cs) = (if call_ok s c then do { s \<leftarrow> focus_step read s c; focus_run read s cs } else None)"

text \<open>Calls that neither take the key from its owner nor are about the key.\<close>

fun leaves_key :: "int \<Rightarrow> int \<Rightarrow> ptr \<Rightarrow> focus_call \<Rightarrow> bool" where
  "leaves_key code symbol w (Remove v) \<longleftrightarrow> v \<noteq> w"
| "leaves_key code symbol w (Withdraw v) \<longleftrightarrow> v \<noteq> w"
| "leaves_key code symbol w (Grab_Key v sy modifiers) \<longleftrightarrow> sy \<noteq> symbol"
| "leaves_key code symbol w (Key e) \<longleftrightarrow> ke_press e \<or> ke_code e \<noteq> code"
| "leaves_key code symbol w Flush_Keys \<longleftrightarrow> False"
| "leaves_key code symbol w c \<longleftrightarrow> True"

definition key_held :: "int \<Rightarrow> int \<Rightarrow> ptr \<Rightarrow> KeySlot list \<Rightarrow> bool" where
  "key_held code symbol w ks \<longleftrightarrow> (\<exists>k \<in> set ks. ks_code k = code \<and> ks_symbol k = symbol \<and> ks_owner k = Some w)"

lemma key_held_update:
  assumes "key_held code symbol w ks" and "i < length ks" and "ks_code (ks ! i) \<noteq> code"
  shows "key_held code symbol w (ks[i := k])"
proof -
  obtain j where j: "j < length ks" "ks_code (ks ! j) = code" "ks_symbol (ks ! j) = symbol" "ks_owner (ks ! j) = Some w"
    using assms(1) by (auto simp: key_held_def in_set_conv_nth)
  then have "ks[i := k] ! j = ks ! j" using assms(3) by (metis nth_list_update_neq)
  then show ?thesis using j unfolding key_held_def by (metis length_list_update nth_mem)
qed

lemma key_held_slot:
  assumes "key_held code symbol w ks" and "distinct (codes ks)" and "code \<noteq> -1"
  shows "\<exists>i. slot_with code ks = Some i \<and> ks_owner (ks ! i) = Some w"
  using assms(1,2)
proof (induction ks)
  case (Cons k ks)
  show ?case
  proof (cases "ks_code k = code")
    case True
    then have "code \<notin> set (codes ks)" using Cons.prems(2) assms(3) by (simp add: codes_def)
    then have "\<forall>x \<in> set ks. ks_code x \<noteq> code" using assms(3) by (auto simp: mem_codes)
    then show ?thesis using True Cons.prems(1) by (auto simp: key_held_def)
  next
    case False
    then have "key_held code symbol w ks" "distinct (codes ks)"
      using Cons.prems by (auto simp: key_held_def codes_def split: if_splits)
    then show ?thesis using Cons.IH False by auto
  qed
qed (simp add: key_held_def)

lemma focus_step_keeps_key:
  assumes "focus_step read s c = Some s'" and "leaves_key code symbol w c" and "key_held code symbol w (sd_keys s)" and "code \<noteq> -1"
  shows "key_held code symbol w (sd_keys s')"
proof -
  have mapped: "key_held code symbol w (map f (sd_keys s))"
    if "\<And>k. ks_code k = code \<Longrightarrow> ks_symbol k = symbol \<Longrightarrow> ks_owner k = Some w \<Longrightarrow> f k = k" for f
    using assms(3) that unfolding key_held_def by force
  show ?thesis
  proof (cases c)
    case (Insert avail v)
    then have "sd_keys s' = sd_keys s" using assms(1) by (auto simp: insert_window_def set_window_def Let_def)
    then show ?thesis using assms(3) by simp
  next
    case (Remove v)
    have "sd_keys (remove_window s v) = sd_keys (withdraw_window s v)"
      by (simp add: remove_window_def vector_drop_def set_window_def Let_def)
    then show ?thesis
      using Remove assms(1,2) by (auto intro!: mapped simp: held_by_def)
  next
    case (Withdraw v)
    then show ?thesis using assms(1,2) by (auto intro!: mapped simp: held_by_def)
  next
    case (Grab_Key v sy modifiers)
    then show ?thesis using assms by (auto simp: grab_key_def intro!: mapped)
  next
    case (Key e)
    obtain r t where res: "get_keyboard_window s e = (r, t)" by force
    consider "sd_keys t = sd_keys s"
      | k free where "slot_with (-1) (sd_keys s) = Some free" "sd_keys t = (sd_keys s)[free := k]"
      | k i where "\<not> ke_press e" "slot_with (ke_code e) (sd_keys s) = Some i" "sd_keys t = (sd_keys s)[i := k]"
      using get_keyboard_window_keys [OF res] by blast
    then have "key_held code symbol w (sd_keys t)"
    proof cases
      case 1
      then show ?thesis using assms(3) by simp
    next
      case 2
      then show ?thesis using slot_with_Some [OF 2(1)] assms(4) key_held_update [OF assms(3)] by simp
    next
      case 3
      then show ?thesis using slot_with_Some [OF 3(2)] assms(2) Key key_held_update [OF assms(3)] by simp
    qed
    then show ?thesis using Key assms(1) res by (auto simp: deliver_key_def send_key_event_def split: option.split)
  next
    case (Request_Focus v)
    then show ?thesis using assms by (auto simp: request_focus_refs)
  qed (use assms in \<open>auto simp: grab_keyboard_def ungrab_keyboard_def grab_pointer_def ungrab_pointer_def
        grab_unselected_def ungrab_unselected_def ungrab_key_def split: if_splits option.splits\<close>)
qed

lemma focus_run_keeps_key:
  assumes "focus_run read s cs = Some s'" and "focus_inv s" and "\<forall>c \<in> set cs. leaves_key code symbol w c"
    and "key_held code symbol w (sd_keys s)" and "code \<noteq> -1"
  shows "focus_inv s' \<and> key_held code symbol w (sd_keys s')"
  using assms(1-4)
proof (induction cs arbitrary: s)
  case (Cons c cs)
  obtain t where t: "call_ok s c" "focus_step read s c = Some t" "focus_run read t cs = Some s'"
    using Cons.prems(1) by (auto split: if_splits bind_splits)
  show ?case
    by (rule Cons.IH [OF t(3)])
      (use Cons.prems focus_step_inv [OF Cons.prems(2) t(1,2)] focus_step_keeps_key [OF t(2)] assms(5) in auto)
qed simp

text \<open>
  C14: A key is released where it was pressed. When a press of a fresh key code is delivered to a window that selects it, so
  that the window grabs it implicitly, then whatever sequence of changes of focus, keyboard and pointer grabs, other keys, explicit
  grabs of other symbols, and windows coming and going lies in between, the release of that
  code is posted to the same window, provided that no explicit grab of its symbol was made in between or matches the release, that
  the window was not withdrawn and that the keys were not flushed. (A press the window does not select is outside: its
  release can get lost.)
\<close>

theorem release_follows_press:
  assumes "focus_reach read s" and "ke_press e" and "ke_code e \<noteq> -1" and "slot_with (ke_code e) (sd_keys s) = None"
    and "get_keyboard_window s e = (Some w, s1)" and "slot_with (ke_code e) (sd_keys s1) \<noteq> None"
    and "focus_run read (deliver_key s e) cs = Some s2" and "\<forall>c \<in> set cs. leaves_key (ke_code e) (ke_symbol e) w c"
    and "\<not> ke_press r" and "ke_code r = ke_code e"
    and "\<forall>k \<in> set (sd_grabbed_keys s2). gk_symbol k \<noteq> ke_symbol r \<or> gk_modifiers k \<noteq> sd_modifiers s2"
  shows "\<exists>down up. sd_posted (deliver_key s e) = sd_posted s @ [down] \<and> ev_window down = w \<and>
      ev_event down = DWET_KEYDOWN (ke_code e) (ke_id e) (ke_symbol e) (ke_repeat e) \<and>
    sd_posted (deliver_key s2 r) = sd_posted s2 @ [up] \<and> ev_window up = w \<and>
      ev_event up = DWET_KEYUP (ke_code r) (ke_id r) (ke_symbol r) (ke_repeat r)"
proof -
  have inv: "focus_inv s" by (rule focus_reach_inv [OF assms(1)])
  have posted: "\<exists>ev. sd_posted (deliver_key t v) = sd_posted t @ [ev] \<and> ev_window ev = w \<and>
      ev_event ev = (if ke_press v then DWET_KEYDOWN else DWET_KEYUP) (ke_code v) (ke_id v) (ke_symbol v) (ke_repeat v)"
    if "get_keyboard_window t v = (Some w, t')" for t v t'
  proof -
    have "sd_posted t' = sd_posted t" using arg_cong [OF get_keyboard_window_fields [OF that], of sd_posted] by simp
    then show ?thesis using that by (simp add: deliver_key_def send_key_event_def post_event_def)
  qed
  have "sd_keys s1 \<noteq> sd_keys s" using assms(4,6) by auto
  then obtain free where free: "slot_with (-1) (sd_keys s) = Some free"
      "sd_keys s1 = (sd_keys s)[free := \<lparr> ks_symbol = ke_symbol e, ks_id = ke_id e, ks_code = ke_code e, ks_owner = Some w \<rparr>]"
    using get_keyboard_window_keys [OF assms(5)] assms(2) by auto
  have "\<lparr> ks_symbol = ke_symbol e, ks_id = ke_id e, ks_code = ke_code e, ks_owner = Some w \<rparr> \<in> set (sd_keys s1)"
    unfolding free(2) using slot_with_Some [OF free(1)] by (simp add: set_update_memI)
  then have "key_held (ke_code e) (ke_symbol e) w (sd_keys s1)" unfolding key_held_def by force
  then have held: "key_held (ke_code e) (ke_symbol e) w (sd_keys (deliver_key s e))"
    using assms(5) by (simp add: deliver_key_def send_key_event_def)
  have "focus_inv s2 \<and> key_held (ke_code e) (ke_symbol e) w (sd_keys s2)"
    by (rule focus_run_keeps_key [OF assms(7) deliver_key_inv [OF inv] assms(8) held assms(3)])
  then obtain i where i: "slot_with (ke_code r) (sd_keys s2) = Some i" "ks_owner (sd_keys s2 ! i) = Some w"
    using key_held_slot assms(3,10) unfolding focus_inv_def keys_ok_def by metis
  have "find (\<lambda>k. gk_symbol k = ke_symbol r \<and> gk_modifiers k = sd_modifiers s2) (sd_grabbed_keys s2) = None"
    using assms(11) by (auto simp: find_None_iff)
  then have "\<exists>s3. get_keyboard_window s2 r = (Some w, s3)"
    using i assms(3,9,10) by (simp add: get_keyboard_window_def)
  then obtain s3 where up: "get_keyboard_window s2 r = (Some w, s3)" by blast
  show ?thesis using posted [OF assms(5)] posted [OF up] assms(2,9) by auto
qed

text \<open>Key 30 goes down on window 1 and up again after a pointer motion and another key.\<close>

definition press :: "int \<Rightarrow> bool \<Rightarrow> KeyEvent" where
  "press code down = \<lparr> ke_press = down, ke_repeat = False, ke_code = code, ke_id = 0, ke_symbol = code + 100 \<rparr>"

lemma one_window_state:
  "sd_keyboard_window one_window = None" "sd_focused_window one_window = Some 1" "sd_grabbed_keys one_window = []"
  "sd_modifiers one_window = 0" "sd_pointer_window one_window = None" "cfg_key_selection (win_config (sd_store one_window 1)) = DWKS_ALL"
  by (simp_all add: one_window_def request_focus_def switch_focus_def update_focus_def insert_window_def plain_stack_def
      plain_window_def Let_def set_window_def window_at_pointer_def hit_by_def post_event_def insert_at_def
      window_flags split: option.split)

lemma one_window_press:
  "get_keyboard_window one_window (press 30 True) = (Some 1, one_window\<lparr> sd_keys :=
     (sd_keys one_window)[0 := \<lparr> ks_symbol = 130, ks_id = 0, ks_code = 30, ks_owner = Some 1 \<rparr>] \<rparr>)"
  by (simp add: get_keyboard_window_def press_def one_window_state one_window_fields numeral_nat)

theorem release_follows_press_witness:
  "\<exists>s2 down up. focus_run no_reader (deliver_key one_window (press 30 True)) [Grab_Keyboard 1, Key (press 31 True)] = Some s2 \<and>
     sd_posted (deliver_key one_window (press 30 True)) = sd_posted one_window @ [down] \<and> ev_window down = 1 \<and> ev_window up = 1 \<and>
     ev_event up = DWET_KEYUP 30 0 130 False \<and> sd_posted (deliver_key s2 (press 30 False)) = sd_posted s2 @ [up]"
proof -
  let ?s = "deliver_key one_window (press 30 True)"
  have s: "sd_windows ?s = [1]" "sd_keyboard_window ?s = None" "sd_grabbed_keys ?s = []"
    by (simp_all add: deliver_key_def one_window_press send_key_event_def one_window_fields one_window_state)
  define s2 where "s2 = deliver_key (?s\<lparr> sd_keyboard_window := Some 1 \<rparr>) (press 31 True)"
  have run: "focus_run no_reader ?s [Grab_Keyboard 1, Key (press 31 True)] = Some s2"
    by (simp add: s s2_def grab_keyboard_def)
  have "sd_grabbed_keys s2 = []"
    using s by (simp add: s2_def deliver_key_grabs)
  then have grabs: "\<forall>k \<in> set (sd_grabbed_keys s2). gk_symbol k \<noteq> ke_symbol (press 30 False) \<or> gk_modifiers k \<noteq> sd_modifiers s2"
    by simp
  have calls: "\<forall>c \<in> set [Grab_Keyboard 1, Key (press 31 True)]. leaves_key (ke_code (press 30 True)) (ke_symbol (press 30 True)) 1 c"
    by (simp add: press_def)
  have free: "slot_with (ke_code (press 30 True)) (sd_keys one_window) = None"
    by (simp add: one_window_fields press_def slot_with_None)
  have held: "slot_with (ke_code (press 30 True)) (sd_keys (one_window\<lparr> sd_keys :=
      (sd_keys one_window)[0 := \<lparr> ks_symbol = 130, ks_id = 0, ks_code = 30, ks_owner = Some 1 \<rparr>] \<rparr>)) \<noteq> None"
    by (simp add: one_window_fields press_def numeral_nat)
  have keys: "ke_press (press 30 True)" "ke_code (press 30 True) \<noteq> -1" "\<not> ke_press (press 30 False)"
      "ke_code (press 30 False) = ke_code (press 30 True)" "ke_code (press 30 False) = 30" "ke_id (press 30 False) = 0"
      "ke_symbol (press 30 False) = 130" "ke_repeat (press 30 False) = False"
    by (simp_all add: press_def)
  obtain down up where "sd_posted (deliver_key one_window (press 30 True)) = sd_posted one_window @ [down]" "ev_window down = 1" "sd_posted (deliver_key s2 (press 30 False)) = sd_posted s2 @ [up]" "ev_window up = 1"
      "ev_event up = DWET_KEYUP (ke_code (press 30 False)) (ke_id (press 30 False)) (ke_symbol (press 30 False)) (ke_repeat (press 30 False))"
    using release_follows_press [OF one_window_reachable keys(1,2) free one_window_press held run calls keys(3,4) grabs] by blast
  then show ?thesis using run unfolding keys(5-8) by blast
qed

text \<open>
  A press that the receiver has not selected goes to the window that grabbed the unselected keys and is
  not held; its release therefore goes to nobody.
\<close>

lemma unselected_release_lost:
  assumes "sd_grabbed_keys s = []" and "sd_focused_window s = Some f" and "sd_keyboard_window s = None"
    and "cfg_key_selection (win_config (sd_store s f)) = DWKS_NONE" and "sd_unselkeys_window s = Some u"
    and "ke_press e" and "ke_code e \<noteq> -1" and "slot_with (ke_code e) (sd_keys s) = None"
    and "\<not> ke_press r" and "ke_code r = ke_code e"
  shows "\<exists>down. sd_posted (deliver_key s e) = sd_posted s @ [down] \<and> ev_window down = u"
    and "deliver_key (deliver_key s e) r = deliver_key s e"
  using assms by (simp_all add: deliver_key_def get_keyboard_window_def send_key_event_def post_event_def)

end
