(* ===== verification/Window_Manager.thy ===== *)
theory Window_Manager
  imports Window_Focus Window_Repaint
begin

text \<open>
  The operations of the default window manager on a window (\<^verbatim>\<open>wm/default/default.c\<close>): moving, resizing,
  setting bounds and opacity, the whole of \<^verbatim>\<open>wm_set_window_config\<close>, and the calls that add, remove,
  restack and update windows and end in \<^verbatim>\<open>process_updates\<close>. An operation may fail to return (\<^term>\<open>None\<close>,
  undefined arithmetic in the scaling of a region). What the layers, surfaces and allocators answer is
  an environment. The private layer configuration of windows with a region of their own and the
  event mask are left out, and so are notifications to window watchers.
\<close>

section \<open>Environment\<close>

text \<open>
  \<open>env_own_region\<close>: the window has a region of its own and the layer's buffer mode is \<^verbatim>\<open>DLBM_WINDOWS\<close>;
  \<open>env_region\<close>: what setting up this region returns; \<open>env_reconfig\<close>, \<open>env_buffers\<close>: the first error of
  \<^verbatim>\<open>dfb_surface_reconfig\<close> before it changes the surface (a preallocated surface, a destroyed lock, a refused update), and
  what the creation of the new buffers returns;
  \<open>env_target\<close>: the size of the surface of the stack, \<^term>\<open>None\<close> when nothing can be painted.
\<close>

record WMEnv =
  env_own_region :: bool
  env_region :: DirectResult
  env_reconfig :: DirectResult
  env_buffers :: DirectResult
  env_key_memory :: bool
  env_vector_memory :: bool
  env_translucent_windows :: bool
  env_fullscreen_updates :: bool
  env_target :: "DFBDimension option"
  env_read :: pixel_reader

definition CWCF_POSITION :: u32 where "CWCF_POSITION = 0x1"
definition CWCF_SIZE :: u32 where "CWCF_SIZE = 0x2"
definition CWCF_OPACITY :: u32 where "CWCF_OPACITY = 0x4"
definition CWCF_STACKING :: u32 where "CWCF_STACKING = 0x8"
definition CWCF_OPTIONS :: u32 where "CWCF_OPTIONS = 0x10"
definition CWCF_COLOR_KEY :: u32 where "CWCF_COLOR_KEY = 0x100"
definition CWCF_OPAQUE :: u32 where "CWCF_OPAQUE = 0x200"
definition CWCF_COLOR :: u32 where "CWCF_COLOR = 0x400"
definition CWCF_KEY_SELECTION :: u32 where "CWCF_KEY_SELECTION = 0x1000"
definition CWCF_ROTATION :: u32 where "CWCF_ROTATION = 0x40000"

lemmas config_flags = CWCF_POSITION_def CWCF_SIZE_def CWCF_OPACITY_def CWCF_STACKING_def CWCF_OPTIONS_def
  CWCF_COLOR_KEY_def CWCF_OPAQUE_def CWCF_COLOR_def CWCF_KEY_SELECTION_def CWCF_ROTATION_def

section \<open>Geometry of one window\<close>

definition move_window :: "WMEnv \<Rightarrow> StackData \<Rightarrow> ptr \<Rightarrow> int \<Rightarrow> int \<Rightarrow> (StackData \<times> DirectResult) option" where
  "move_window env s w dx dy =
    (let shift = set_bounds w (\<lambda>b. b\<lparr> rect_x := rect_x b + dx, rect_y := rect_y b + dy \<rparr>);
         announce = (\<lambda>s. post_event w (DWET_POSITION (rect_x (win_bounds (sd_store s w))) (rect_y (win_bounds (sd_store s w)))) s)
     in if env_own_region env then
          (if env_region env \<noteq> DR_OK then Some (s, env_region env) else Some (announce (shift s), DR_OK))
        else do {
          s \<leftarrow> update_window s w None False False False;
          s \<leftarrow> update_window (shift s) w None False False False;
          Some (announce s, DR_OK) })"

definition reconfig_surface :: "ptr \<Rightarrow> int \<Rightarrow> int \<Rightarrow> StackData \<Rightarrow> StackData" where
  "reconfig_surface w width height =
     set_window w (\<lambda>win. win\<lparr> win_surface := Some \<lparr> dim_w = width, dim_h = height \<rparr> \<rparr>)"

text \<open>
  The new configuration is in place when the creation of the buffers fails (\<^verbatim>\<open>src/core/surface.c\<close>; its error path undoes
  nothing). Of the surface only the size is modelled.
\<close>

definition dfb_surface_reconfig :: "WMEnv \<Rightarrow> ptr \<Rightarrow> int \<Rightarrow> int \<Rightarrow> StackData \<Rightarrow> StackData \<times> DirectResult" where
  "dfb_surface_reconfig env w width height s =
    (if env_reconfig env \<noteq> DR_OK then (s, env_reconfig env)
     else (reconfig_surface w width height s, env_buffers env))"

text \<open>What a smaller window uncovers, in window coordinates.\<close>

definition exposed_by_resize :: "int \<Rightarrow> int \<Rightarrow> int \<Rightarrow> int \<Rightarrow> DFBRegion list" where
  "exposed_by_resize ow oh width height =
    (if ow > width then [\<lparr> rgn_x1 = width, rgn_y1 = 0, rgn_x2 = ow - 1, rgn_y2 = min height oh - 1 \<rparr>] else []) @
    (if oh > height then [\<lparr> rgn_x1 = 0, rgn_y1 = height, rgn_x2 = max width ow - 1, rgn_y2 = oh - 1 \<rparr>] else [])"

fun update_regions :: "StackData \<Rightarrow> ptr \<Rightarrow> DFBRegion list \<Rightarrow> StackData option" where
  "update_regions s w [] = Some s"
| "update_regions s w (r # rs) = do { s \<leftarrow> update_window s w (Some r) False False False; update_regions s w rs }"

definition resize_window :: "WMEnv \<Rightarrow> StackData \<Rightarrow> ptr \<Rightarrow> int \<Rightarrow> int \<Rightarrow> (StackData \<times> DirectResult) option" where
  "resize_window env s w width height =
    (let ow = rect_w (win_bounds (sd_store s w)); oh = rect_h (win_bounds (sd_store s w));
         reconfig = win_surface (sd_store s w) \<noteq> None \<and> \<not> D_FLAGS_IS_SET (win_options (sd_store s w)) DWOP_SCALE;
         (resized, ret) = (if reconfig then dfb_surface_reconfig env w width height s else (s, DR_OK));
         finish = (\<lambda>s. (fst (update_focus (env_read env) (post_event w (DWET_SIZE width height)
                     (set_bounds w (\<lambda>b. b\<lparr> rect_w := width, rect_h := height \<rparr>) s))), DR_OK))
     in if width > 4096 \<or> height > 4096 then Some (s, DR_LIMITEXCEEDED)
        else if ret \<noteq> DR_OK then Some (resized, ret)
        else if env_own_region env then
          (if env_region env \<noteq> DR_OK then Some (resized, env_region env) else Some (finish resized))
        else do {
          let s = set_config w (\<lambda>c. c\<lparr> cfg_opaque := snd (dfb_region_intersect (cfg_opaque c) 0 0 (width - 1) (height - 1)) \<rparr>) resized;
          s \<leftarrow> (if VISIBLE_WINDOW (sd_store s w) then update_regions s w (exposed_by_resize ow oh width height) else Some s);
          Some (finish s) })"

text \<open>What new bounds uncover of the old ones, in coordinates of the window at its new place.\<close>

definition exposed_by_bounds :: "DFBRegion \<Rightarrow> DFBRegion \<Rightarrow> DFBRegion list" where
  "exposed_by_bounds old new =
    (let (hit, new) = dfb_region_region_intersect new old
     in if hit then
          (if rgn_x1 new > rgn_x1 old then
             [\<lparr> rgn_x1 = rgn_x1 old, rgn_y1 = rgn_y1 old, rgn_x2 = rgn_x1 new - 1, rgn_y2 = rgn_y2 new \<rparr>] else []) @
          (if rgn_y1 new > rgn_y1 old then
             [\<lparr> rgn_x1 = rgn_x1 old, rgn_y1 = rgn_y1 old, rgn_x2 = rgn_x2 old, rgn_y2 = rgn_y1 new - 1 \<rparr>] else []) @
          (if rgn_x2 new < rgn_x2 old then
             [\<lparr> rgn_x1 = rgn_x2 new + 1, rgn_y1 = rgn_y1 new, rgn_x2 = rgn_x2 old, rgn_y2 = rgn_y2 new \<rparr>] else []) @
          (if rgn_y2 new < rgn_y2 old then
             [\<lparr> rgn_x1 = rgn_x1 old, rgn_y1 = rgn_y2 new + 1, rgn_x2 = rgn_x2 old, rgn_y2 = rgn_y2 old \<rparr>] else [])
        else [old])"

definition set_window_bounds ::
    "WMEnv \<Rightarrow> StackData \<Rightarrow> ptr \<Rightarrow> DFBRectangle \<Rightarrow> (StackData \<times> DirectResult) option" where
  "set_window_bounds env s w rect =
    (let x = rect_x rect; y = rect_y rect; width = rect_w rect; height = rect_h rect;
         reconfig = win_surface (sd_store s w) \<noteq> None \<and> \<not> D_FLAGS_IS_SET (win_options (sd_store s w)) DWOP_SCALE;
         (resized, ret) = (if reconfig then dfb_surface_reconfig env w width height s else (s, DR_OK))
     in if width > 4096 \<or> height > 4096 then Some (s, DR_LIMITEXCEEDED)
        else if ret \<noteq> DR_OK then Some (resized, ret)
        else do {
          let bounds = win_bounds (sd_store s w);
          let s = resized;
          let old = \<lparr> rgn_x1 = rect_x bounds - x, rgn_y1 = rect_y bounds - y,
                      rgn_x2 = rect_x bounds - x + rect_w bounds - 1, rgn_y2 = rect_y bounds - y + rect_h bounds - 1 \<rparr>;
          let new = \<lparr> rgn_x1 = 0, rgn_y1 = 0, rgn_x2 = width - 1, rgn_y2 = height - 1 \<rparr>;
          let s = set_bounds w (\<lambda>b. rect) s;
          let s = set_config w (\<lambda>c. c\<lparr> cfg_opaque :=
                     (let (hit, opaque) = dfb_region_region_intersect (cfg_opaque c) new in if hit then opaque else new) \<rparr>) s;
          s \<leftarrow> (if VISIBLE_WINDOW (sd_store s w) then update_regions s w (exposed_by_bounds old new) else Some s);
          Some (fst (update_focus (env_read env) (post_event w (DWET_POSITION_SIZE x y width height) s)), DR_OK) })"

section \<open>Opacity\<close>

text \<open>The new opacity and the old one are \<^verbatim>\<open>u8\<close>: the \<^verbatim>\<open>int\<close> of the configuration is cut to its lowest byte.\<close>

definition set_opacity :: "WMEnv \<Rightarrow> StackData \<Rightarrow> ptr \<Rightarrow> int \<Rightarrow> StackData option" where
  "set_opacity env s w opacity =
    (let old = take_bit 8 (win_opacity (sd_store s w));
         opacity = take_bit 8 opacity;
         opacity = (if \<not> sd_hw_mode s \<and> \<not> env_translucent_windows env \<and> opacity \<noteq> 0 then 0xff else opacity);
         visible = old = 0 \<and> opacity \<noteq> 0; hide = old \<noteq> 0 \<and> opacity = 0
     in if old = opacity then Some s
        else do {
          let s = set_config w (\<lambda>c. c\<lparr> cfg_opacity := opacity \<rparr>) s;
          s \<leftarrow> (if env_own_region env then Some s else update_window s w None False True False);
          let s = (if visible \<or> hide then fst (update_focus (env_read env) s) else s);
          Some (if hide then ensure_focus (withdraw_window s w) else s) })"

section \<open>Configuration\<close>

text \<open>One part of the configuration after the other; the first that fails ends the call.\<close>

definition and_then ::
    "(StackData \<times> DirectResult) option \<Rightarrow> (StackData \<Rightarrow> (StackData \<times> DirectResult) option) \<Rightarrow> (StackData \<times> DirectResult) option" where
  "and_then m f = do { (s, ret) \<leftarrow> m; if ret \<noteq> DR_OK then Some (s, ret) else f s }"

definition done_ok :: "StackData \<Rightarrow> (StackData \<times> DirectResult) option" where
  "done_ok s = Some (s, DR_OK)"

definition configure_options ::
    "WMEnv \<Rightarrow> ptr \<Rightarrow> CoreWindowConfig \<Rightarrow> u32 \<Rightarrow> StackData \<Rightarrow> (StackData \<times> DirectResult) option" where
  "configure_options env w config flags s =
    (if D_FLAGS_IS_SET flags CWCF_OPTIONS then
       (let window = sd_store s w; bounds = win_bounds window;
            unscale = D_FLAGS_IS_SET (win_options window) DWOP_SCALE \<and> \<not> D_FLAGS_IS_SET (cfg_options config) DWOP_SCALE \<and>
              (case win_surface window of None \<Rightarrow> False | Some dim \<Rightarrow> rect_w bounds \<noteq> dim_w dim \<or> rect_h bounds \<noteq> dim_h dim);
            (s, ret) = (if unscale then dfb_surface_reconfig env w (rect_w bounds) (rect_h bounds) s else (s, DR_OK))
        in if ret \<noteq> DR_OK then Some (s, ret)
           else done_ok (set_config w (\<lambda>c. c\<lparr> cfg_options := cfg_options config \<rparr>) s))
     else done_ok s)"

definition configure_colors ::
    "ptr \<Rightarrow> CoreWindowConfig \<Rightarrow> u32 \<Rightarrow> StackData \<Rightarrow> (StackData \<times> DirectResult) option" where
  "configure_colors w config flags s =
    (if D_FLAGS_IS_SET flags CWCF_COLOR then Some (s, DR_UNSUPPORTED)
     else
       (let s = (if D_FLAGS_IS_SET flags CWCF_COLOR_KEY
                 then set_config w (\<lambda>c. c\<lparr> cfg_color_key := cfg_color_key config \<rparr>) s else s);
            s = (if D_FLAGS_IS_SET flags CWCF_OPAQUE
                 then set_config w (\<lambda>c. c\<lparr> cfg_opaque := cfg_opaque config \<rparr>) s else s)
        in done_ok s))"

definition configure_opacity ::
    "WMEnv \<Rightarrow> ptr \<Rightarrow> CoreWindowConfig \<Rightarrow> bool \<Rightarrow> StackData \<Rightarrow> (StackData \<times> DirectResult) option" where
  "configure_opacity env w config now s =
    (if now then do { s \<leftarrow> set_opacity env s w (cfg_opacity config); done_ok s } else done_ok s)"

definition configure_bounds ::
    "WMEnv \<Rightarrow> ptr \<Rightarrow> CoreWindowConfig \<Rightarrow> u32 \<Rightarrow> StackData \<Rightarrow> (StackData \<times> DirectResult) option" where
  "configure_bounds env w config flags s =
    (let bounds = cfg_bounds config
     in if flags = CWCF_POSITION OR CWCF_SIZE then set_window_bounds env s w bounds
        else
          and_then
            (if D_FLAGS_IS_SET flags CWCF_POSITION
             then move_window env s w (rect_x bounds - rect_x (win_bounds (sd_store s w)))
                    (rect_y bounds - rect_y (win_bounds (sd_store s w)))
             else done_ok s)
            (\<lambda>s. if D_FLAGS_IS_SET flags CWCF_SIZE then resize_window env s w (rect_w bounds) (rect_h bounds) else done_ok s))"

definition configure_rotation ::
    "ptr \<Rightarrow> CoreWindowConfig \<Rightarrow> u32 \<Rightarrow> StackData \<Rightarrow> (StackData \<times> DirectResult) option" where
  "configure_rotation w config flags s =
    (if D_FLAGS_IS_SET flags CWCF_ROTATION then do {
       s \<leftarrow> update_window s w None False False False;
       s \<leftarrow> update_window (set_config w (\<lambda>c. c\<lparr> cfg_rotation := cfg_rotation config \<rparr>) s) w None False False False;
       done_ok s }
     else done_ok s)"

definition configure_stacking ::
    "ptr \<Rightarrow> CoreWindowConfig \<Rightarrow> u32 \<Rightarrow> StackData \<Rightarrow> (StackData \<times> DirectResult) option" where
  "configure_stacking w config flags s =
    (if D_FLAGS_IS_SET flags CWCF_STACKING
     then do { s \<leftarrow> restack_window s w (Some w) 0 (cfg_stacking config); done_ok s } else done_ok s)"

definition configure_keys ::
    "WMEnv \<Rightarrow> ptr \<Rightarrow> CoreWindowConfig \<Rightarrow> u32 \<Rightarrow> StackData \<Rightarrow> (StackData \<times> DirectResult) option" where
  "configure_keys env w config flags s =
    (if D_FLAGS_IS_SET flags CWCF_KEY_SELECTION then
       if cfg_key_selection config = DWKS_LIST then
         if \<not> env_key_memory env then Some (s, DR_NOSHAREDMEMORY)
         else done_ok (set_config w (\<lambda>c. c\<lparr> cfg_keys := sort (cfg_keys config), cfg_key_selection := DWKS_LIST \<rparr>) s)
       else done_ok (set_config w (\<lambda>c. c\<lparr> cfg_keys := [], cfg_key_selection := cfg_key_selection config \<rparr>) s)
     else done_ok s)"

definition configure ::
    "WMEnv \<Rightarrow> ptr \<Rightarrow> CoreWindowConfig \<Rightarrow> u32 \<Rightarrow> StackData \<Rightarrow> (StackData \<times> DirectResult) option" where
  "configure env w config flags s =
    (let opacity = D_FLAGS_IS_SET flags CWCF_OPACITY
     in foldl and_then (done_ok s)
          [configure_options env w config flags, configure_colors w config flags,
           configure_opacity env w config (opacity \<and> cfg_opacity config = 0), configure_bounds env w config flags,
           configure_rotation w config flags, configure_stacking w config flags,
           configure_opacity env w config (opacity \<and> cfg_opacity config \<noteq> 0), configure_keys env w config flags])"

section \<open>Calls of the core\<close>

type_synonym Frames = "(DFBRegion \<times> Draw list) list"

definition paint_updates :: "WMEnv \<Rightarrow> StackData \<Rightarrow> StackData \<times> Frames" where
  "paint_updates env s =
    (let (updates, s') = process_updates (env_fullscreen_updates env) s in (s', repaint_stack s (env_target env) updates))"

definition wm_set_window_config ::
    "WMEnv \<Rightarrow> StackData \<Rightarrow> ptr \<Rightarrow> CoreWindowConfig \<Rightarrow> u32 \<Rightarrow> ((StackData \<times> Frames) \<times> DirectResult) option" where
  "wm_set_window_config env s w config flags = do {
     (s, ret) \<leftarrow> configure env w config flags s;
     if ret \<noteq> DR_OK then Some ((s, []), ret) else Some (paint_updates env s, DR_OK) }"

definition wm_add_window :: "WMEnv \<Rightarrow> StackData \<Rightarrow> ptr \<Rightarrow> StackData \<times> Frames" where
  "wm_add_window env s w =
    (let s = set_window w (\<lambda>win. win\<lparr> win_priority := get_priority win \<rparr>) s;
         s = insert_window (env_vector_memory env) s w
     in paint_updates env (fst (update_focus (env_read env) s)))"

definition wm_remove_window :: "StackData \<Rightarrow> ptr \<Rightarrow> StackData" where
  "wm_remove_window s w = set_config w (\<lambda>c. c\<lparr> cfg_keys := [] \<rparr>) (remove_window s w)"

definition wm_restack_window ::
    "WMEnv \<Rightarrow> StackData \<Rightarrow> ptr \<Rightarrow> ptr option \<Rightarrow> int \<Rightarrow> (StackData \<times> Frames) option" where
  "wm_restack_window env s w relative relation = do {
     s \<leftarrow> restack_window s w relative relation (cfg_stacking (win_config (sd_store s w)));
     Some (paint_updates env (fst (update_focus (env_read env) s))) }"

definition wm_update_stack :: "WMEnv \<Rightarrow> StackData \<Rightarrow> DFBRegion \<Rightarrow> StackData \<times> Frames" where
  "wm_update_stack env s region = paint_updates env (s\<lparr> sd_updates := dfb_updates_add (sd_updates s) region \<rparr>)"

definition send_update_event :: "ptr \<Rightarrow> DFBRegion \<Rightarrow> StackData \<Rightarrow> StackData" where
  "send_update_event w update = post_event w (DWET_UPDATE (rgn_x1 update) (rgn_y1 update)
     (rgn_x2 update - rgn_x1 update + 1) (rgn_y2 update - rgn_y1 update + 1))"

definition wm_update_window :: "WMEnv \<Rightarrow> StackData \<Rightarrow> ptr \<Rightarrow> DFBRegion \<Rightarrow> (StackData \<times> Frames) option" where
  "wm_update_window env s w region = do {
     s \<leftarrow> update_window (send_update_event w region s) w (Some region) False False True;
     Some (paint_updates env s) }"

section \<open>Sound steps\<close>

text \<open>
  A step is sound when it keeps the stack regular and sorted, keeps earlier damage, and damages every pixel of
  the screen whose picture it changes.
\<close>

definition sound :: "StackData \<Rightarrow> StackData \<Rightarrow> bool" where
  "sound s s' \<longleftrightarrow> stack_regular s' \<and> stack_sorted s' \<and>
     sd_width s' = sd_width s \<and> sd_height s' = sd_height s \<and> sd_rotation s' = sd_rotation s \<and>
     upd_pixels (sd_updates s) \<subseteq> upd_pixels (sd_updates s') \<and>
     (\<forall>p \<in> screen s. picture s' p \<noteq> picture s p \<longrightarrow> p \<in> upd_pixels (sd_updates s'))"

lemma sound_trans [trans]:
  assumes "sound s t" and "sound t u"
  shows "sound s u"
proof -
  have "screen t = screen s" using assms(1) by (simp add: sound_def screen_def)
  then show ?thesis using assms unfolding sound_def by (metis (no_types, lifting) subsetD subset_trans)
qed

lemma sound_refl: "stack_regular s \<Longrightarrow> stack_sorted s \<Longrightarrow> sound s s"
  by (simp add: sound_def)

text \<open>Events, focus and grabs are no part of the picture.\<close>

definition same_scene :: "StackData \<Rightarrow> StackData \<Rightarrow> bool" where
  "same_scene s s' \<longleftrightarrow> sd_windows s' = sd_windows s \<and> sd_store s' = sd_store s \<and> sd_updates s' = sd_updates s \<and>
     sd_width s' = sd_width s \<and> sd_height s' = sd_height s \<and> sd_rotation s' = sd_rotation s \<and> sd_hw_mode s' = sd_hw_mode s"

lemma same_scene_picture: "same_scene s s' \<Longrightarrow> picture s' p = picture s p"
  by (simp add: same_scene_def picture_walk)

lemma same_scene_regular: "same_scene s s' \<Longrightarrow> stack_regular s' = stack_regular s"
  by (simp add: same_scene_def stack_regular_def)

lemma same_scene_sorted: "same_scene s s' \<Longrightarrow> stack_sorted s' = stack_sorted s"
  by (simp add: same_scene_def stack_sorted_def)

lemma same_scene_sound:
  assumes "same_scene s s'" and "stack_regular s" and "stack_sorted s"
  shows "sound s s'"
  using assms same_scene_picture [OF assms(1)] same_scene_regular [OF assms(1)] same_scene_sorted [OF assms(1)]
  by (simp add: sound_def same_scene_def)

lemma scene_simps [simp]:
  "same_scene s (post_event w e s)" "same_scene s (fst (update_focus read s))" "same_scene s (ensure_focus s)"
  "same_scene s (withdraw_window s w)" "same_scene s s"
  by (simp_all add: same_scene_def post_event_def)

lemma same_scene_trans: "same_scene s t \<Longrightarrow> same_scene t u \<Longrightarrow> same_scene s u"
  by (simp add: same_scene_def)

text \<open>One window looks different; it was damaged where it showed, and is where it shows now.\<close>

lemma one_window_sound:
  assumes reg: "stack_regular s" and srt: "stack_sorted s" and w: "w \<in> set (sd_windows s)"
    and reg': "regular (sd_store s' w)" and prio: "prio s' w = prio s w" "get_priority (sd_store s' w) = get_priority (sd_store s w)"
    and same: "sd_windows s' = sd_windows s" "\<And>v. v \<noteq> w \<Longrightarrow> sd_store s' v = sd_store s v"
      "sd_width s' = sd_width s" "sd_height s' = sd_height s" "sd_rotation s' = sd_rotation s" "sd_hw_mode s' = sd_hw_mode s"
    and upd: "upd_ok (sd_updates s')" "upd_pixels (sd_updates s) \<subseteq> upd_pixels (sd_updates s')"
    and damage: "\<And>bs as p. sd_windows s = bs @ w # as \<Longrightarrow> p \<in> screen s \<Longrightarrow>
      covers (sd_store s w) p \<or> covers (sd_store s' w) p \<Longrightarrow> \<forall>v \<in> set as. \<not> skips (sd_store s v) p \<Longrightarrow>
      picture s' p \<noteq> picture s p \<Longrightarrow> p \<in> upd_pixels (sd_updates s')"
  shows "sound s s'"
proof -
  obtain bs as where split: "sd_windows s = bs @ w # as" "w \<notin> set bs" "w \<notin> set as"
      and skip: "\<And>v p. v \<in> set as \<Longrightarrow> skips (sd_store s v) p \<Longrightarrow> covers (sd_store s v) p \<and> hides (sd_store s v) p"
    using split_windows [OF reg w] by metis
  have "p \<in> upd_pixels (sd_updates s')" if "p \<in> screen s" "picture s' p \<noteq> picture s p" for p
  proof -
    have "\<not> covered_above (sd_store s) as p" "covers (sd_store s w) p \<or> covers (sd_store s' w) p"
      using picture_changed [OF split(1-3) same(1) _ that(2)] same(2) by blast+
    then show ?thesis using damage [OF split(1) that(1)] that(2) skip by blast
  qed
  moreover have same_prio: "prio s' v = prio s v" "get_priority (sd_store s' v) = get_priority (sd_store s v)" for v
    using prio same(2) [of v] by (cases "v = w"; simp)+
  have "stack_sorted s'" using srt by (simp add: stack_sorted_def same(1) same_prio)
  moreover have "regular (sd_store s' v)" if "v \<in> set (sd_windows s)" for v
    using that reg reg' same(2) [of v] by (cases "v = w") (auto simp: stack_regular_def)
  then have "stack_regular s'" using reg upd(1) by (simp add: stack_regular_def same(1,3,4,6))
  ultimately show ?thesis using upd(2) by (simp add: sound_def same(3-5))
qed

section \<open>Operations are sound\<close>

lemma update_whole:
  assumes "stack_regular s" and "w \<in> set (sd_windows s)"
  shows "\<exists>u. update_window s w None False fi False = Some (s\<lparr> sd_updates := u \<rparr>) \<and> upd_ok u \<and>
    upd_pixels (sd_updates s) \<subseteq> upd_pixels u \<and>
    (\<forall>bs as p. sd_windows s = bs @ w # as \<longrightarrow> p \<in> screen s \<longrightarrow> p \<in> rect_pixels (window_frame (sd_store s w)) \<longrightarrow>
       VISIBLE_WINDOW (sd_store s w) \<or> fi \<longrightarrow> (\<forall>v \<in> set as. \<not> skips (sd_store s v) p) \<longrightarrow> p \<in> upd_pixels u)"
proof -
  obtain bs as where split: "sd_windows s = bs @ w # as" using assms(2) by (meson split_list)
  have reg: "window_ok (sd_store s w)" "cfg_rotation (win_config (sd_store s w)) \<in> {0, 90, 180, 270}"
    using assms unfolding stack_regular_def regular_def by auto
  have dist: "distinct (sd_windows s)" using assms(1) by (simp add: stack_regular_def)
  let ?b = "win_bounds (sd_store s w)"
  let ?area = "\<lparr> rgn_x1 = 0, rgn_y1 = 0, rgn_x2 = rect_w ?b - 1, rgn_y2 = rect_h ?b - 1 \<rparr>"
  have area: "window_area (sd_store s w) None False = Some ?area" by (simp add: window_area_def Let_def)
  have ok: "region_ok ?area" using reg(1) by (simp add: window_ok_def rect_ok_def region_ok_def)
  have inside: "to_window (sd_store s w) p \<in> region_pixels ?area" if "p \<in> rect_pixels (window_frame (sd_store s w))" for p
    using that unfolding mem_frame [OF reg(2)] by (cases "to_window (sd_store s w) p") (auto simp: dfb_geo)
  have hw: "\<not> sd_hw_mode s" "0 < sd_width s" "0 < sd_height s" "upd_ok (sd_updates s)"
    using assms(1) by (simp_all add: stack_regular_def)
  obtain u where u: "update_window s w None False fi False = Some (s\<lparr> sd_updates := u \<rparr>)" "upd_ok u"
      "upd_pixels (sd_updates s) \<subseteq> upd_pixels u"
      "VISIBLE_WINDOW (sd_store s w) \<or> fi \<longrightarrow> {p \<in> screen s. to_window (sd_store s w) p \<in> region_pixels ?area \<and>
         (False \<or> (\<forall>v \<in> set as. \<not> skips (sd_store s v) p))} \<subseteq> upd_pixels u"
    using update_window_adds [OF stack_regular_ok [OF assms(1)] dist split reg(2) hw(1-3) hw(4) area ok, of False fi] by blast
  have "w \<notin> set bs" "w \<notin> set as" using dist split by simp_all
  then have "as' = as" if "sd_windows s = bs' @ w # as'" for bs' as'
    using that split append_Cons_eq_iff [of w bs as bs' as'] by simp
  then show ?thesis using u inside by blast
qed

text \<open>Damage before and after a change of the window, as in a move or a rotation.\<close>

definition change_between :: "StackData \<Rightarrow> ptr \<Rightarrow> (CoreWindow \<Rightarrow> CoreWindow) \<Rightarrow> StackData option" where
  "change_between s w f = do {
     s \<leftarrow> update_window s w None False False False;
     update_window (set_window w f s) w None False False False }"

lemma set_window_updates: "(set_window w f s)\<lparr> sd_updates := u \<rparr> = set_window w f (s\<lparr> sd_updates := u \<rparr>)"
  by (simp add: set_window_def)

lemma set_window_regular:
  assumes "stack_regular s" and "regular (f (sd_store s w))" and "upd_ok u"
  shows "stack_regular (set_window w f (s\<lparr> sd_updates := u \<rparr>))"
  using assms by (simp add: stack_regular_def)

lemma change_between_sound:
  assumes "stack_regular s" and "stack_sorted s" and "w \<in> set (sd_windows s)"
    and "regular (f (sd_store s w))" and "win_priority (f (sd_store s w)) = prio s w"
    and "get_priority (f (sd_store s w)) = get_priority (sd_store s w)"
  shows "\<exists>u. change_between s w f = Some (set_window w f (s\<lparr> sd_updates := u \<rparr>)) \<and>
    sound s (set_window w f (s\<lparr> sd_updates := u \<rparr>))"
proof -
  obtain u where u: "update_window s w None False False False = Some (s\<lparr> sd_updates := u \<rparr>)" "upd_ok u"
      "upd_pixels (sd_updates s) \<subseteq> upd_pixels u"
      "\<And>bs as p. sd_windows s = bs @ w # as \<Longrightarrow> p \<in> screen s \<Longrightarrow> p \<in> rect_pixels (window_frame (sd_store s w)) \<Longrightarrow>
         VISIBLE_WINDOW (sd_store s w) \<Longrightarrow> \<forall>v \<in> set as. \<not> skips (sd_store s v) p \<Longrightarrow> p \<in> upd_pixels u"
    using update_whole [OF assms(1,3), of False] by blast
  let ?t = "set_window w f (s\<lparr> sd_updates := u \<rparr>)"
  have t: "stack_regular ?t" by (rule set_window_regular [of s f w u]) (use assms u(2) in auto)
  have scr: "screen ?t = screen s" by (simp add: screen_def)
  obtain v where v: "update_window ?t w None False False False = Some (?t\<lparr> sd_updates := v \<rparr>)" "upd_ok v"
      "upd_pixels u \<subseteq> upd_pixels v"
      "\<And>bs as p. sd_windows s = bs @ w # as \<Longrightarrow> p \<in> screen s \<Longrightarrow> p \<in> rect_pixels (window_frame (f (sd_store s w))) \<Longrightarrow>
         VISIBLE_WINDOW (f (sd_store s w)) \<Longrightarrow> \<forall>v \<in> set as. \<not> skips (sd_store ?t v) p \<Longrightarrow> p \<in> upd_pixels v"
    using update_whole [OF t, of w False] assms(3) unfolding scr by auto
  have "sound s (?t\<lparr> sd_updates := v \<rparr>)"
  proof (rule one_window_sound [OF assms(1-3)])
    fix bs as p
    assume split: "sd_windows s = bs @ w # as" and p: "p \<in> screen s"
      and cov: "covers (sd_store s w) p \<or> covers (sd_store (?t\<lparr> sd_updates := v \<rparr>) w) p"
      and skip: "\<forall>v \<in> set as. \<not> skips (sd_store s v) p"
    have "w \<notin> set as" using assms(1) split by (simp add: stack_regular_def)
    then have "\<forall>v \<in> set as. \<not> skips (sd_store ?t v) p" using skip by auto
    then show "p \<in> upd_pixels (sd_updates (?t\<lparr> sd_updates := v \<rparr>))"
      using cov u(4) [OF split p _ _ skip] v(3) v(4) [OF split p] by (auto simp: covers_def)
  qed (use assms u v in auto)
  moreover have "change_between s w f = Some (?t\<lparr> sd_updates := v \<rparr>)" using u(1) v(1) by (simp add: change_between_def)
  ultimately show ?thesis by (auto simp: set_window_updates)
qed

lemma sound_scene: "sound s t \<Longrightarrow> same_scene t t' \<Longrightarrow> sound s t'"
  using same_scene_sound [of t t'] sound_trans [of s t t'] by (auto simp: sound_def)

lemma shift_regular:
  assumes "regular win"
  shows "regular (win\<lparr> win_config := (win_config win)\<lparr> cfg_bounds :=
    (win_bounds win)\<lparr> rect_x := rect_x (win_bounds win) + dx, rect_y := rect_y (win_bounds win) + dy \<rparr> \<rparr> \<rparr>)" (is "regular ?win")
proof -
  have "(x, y) \<in> rect_pixels (window_frame ?win)" if "(x, y) \<in> region_pixels (opaque_on_stack ?win)" for x y
  proof -
    have "(x - dx, y - dy) \<in> region_pixels (opaque_on_stack win)"
      using that by (auto simp: opaque_on_stack_def dfb_region_translate_def dfb_geo)
    then have "(x - dx, y - dy) \<in> rect_pixels (window_frame win)" using assms by (auto simp: regular_def)
    then show ?thesis by (auto simp: window_frame_def transform_window_to_stack_def dfb_geo Let_def split: if_splits)
  qed
  then show ?thesis using assms
    by (auto simp: regular_def window_ok_def rect_ok_def VISIBLE_WINDOW_def)
qed

lemma move_window_sound:
  assumes "stack_regular s" and "stack_sorted s" and "w \<in> set (sd_windows s)" and "\<not> env_own_region env"
  shows "\<exists>s'. move_window env s w dx dy = Some (s', DR_OK) \<and> sound s s' \<and> sd_windows s' = sd_windows s \<and>
    sd_store s' = sd_store (set_bounds w (\<lambda>b. b\<lparr> rect_x := rect_x b + dx, rect_y := rect_y b + dy \<rparr>) s)"
proof -
  let ?f = "\<lambda>win. win\<lparr> win_config := (win_config win)\<lparr> cfg_bounds :=
    (win_bounds win)\<lparr> rect_x := rect_x (win_bounds win) + dx, rect_y := rect_y (win_bounds win) + dy \<rparr> \<rparr> \<rparr>"
  have "regular (?f (sd_store s w))" using assms(1,3) by (intro shift_regular) (simp add: stack_regular_def)
  then obtain u where u: "change_between s w ?f = Some (set_window w ?f (s\<lparr> sd_updates := u \<rparr>))"
      "sound s (set_window w ?f (s\<lparr> sd_updates := u \<rparr>))"
    using change_between_sound [OF assms(1-3), of ?f] by (auto simp: get_priority_def)
  let ?t = "set_window w ?f (s\<lparr> sd_updates := u \<rparr>)"
  let ?e = "DWET_POSITION (rect_x (win_bounds (sd_store ?t w))) (rect_y (win_bounds (sd_store ?t w)))"
  have "move_window env s w dx dy = do { t \<leftarrow> change_between s w ?f;
      Some (post_event w (DWET_POSITION (rect_x (win_bounds (sd_store t w))) (rect_y (win_bounds (sd_store t w)))) t, DR_OK) }"
    using assms(4) by (simp add: move_window_def change_between_def set_bounds_def set_config_def Let_def)
  then have "move_window env s w dx dy = Some (post_event w ?e ?t, DR_OK)" using u(1) by simp
  moreover have "sound s (post_event w ?e ?t)" by (rule sound_scene [OF u(2)]) simp
  ultimately show ?thesis by (auto simp: set_bounds_def set_config_def post_event_def)
qed

lemma rotation_sound:
  assumes "stack_regular s" and "stack_sorted s" and "w \<in> set (sd_windows s)"
    and "regular ((sd_store s w)\<lparr> win_config := (win_config (sd_store s w))\<lparr> cfg_rotation := cfg_rotation config \<rparr> \<rparr>)
      \<or> \<not> D_FLAGS_IS_SET flags CWCF_ROTATION"
  shows "\<exists>s'. configure_rotation w config flags s = Some (s', DR_OK) \<and> sound s s' \<and> sd_windows s' = sd_windows s \<and>
    sd_store s' w = (if D_FLAGS_IS_SET flags CWCF_ROTATION
      then (sd_store s w)\<lparr> win_config := (win_config (sd_store s w))\<lparr> cfg_rotation := cfg_rotation config \<rparr> \<rparr> else sd_store s w)"
proof (cases "D_FLAGS_IS_SET flags CWCF_ROTATION")
  case True
  let ?f = "\<lambda>win. win\<lparr> win_config := (win_config win)\<lparr> cfg_rotation := cfg_rotation config \<rparr> \<rparr>"
  obtain u where u: "change_between s w ?f = Some (set_window w ?f (s\<lparr> sd_updates := u \<rparr>))"
      "sound s (set_window w ?f (s\<lparr> sd_updates := u \<rparr>))"
    using change_between_sound [OF assms(1-3), of ?f] assms(4) True by (auto simp: get_priority_def)
  have "configure_rotation w config flags s = do { t \<leftarrow> change_between s w ?f; Some (t, DR_OK) }"
    using True by (simp add: configure_rotation_def change_between_def set_config_def done_ok_def [abs_def])
  then show ?thesis using u True by auto
qed (use assms in \<open>auto simp: configure_rotation_def done_ok_def sound_refl\<close>)

text \<open>A window that can be shown: neither input-only nor destroyed.\<close>

definition showable :: "CoreWindow \<Rightarrow> bool" where
  "showable win \<longleftrightarrow> \<not> D_FLAGS_IS_SET (win_caps win) DWCAPS_INPUTONLY \<and> \<not> D_FLAGS_IS_SET (win_flags win) CWF_DESTROYED"

lemma opacity_regular:
  assumes "regular win" and "showable win" and "0 \<le> opacity"
  shows "regular (win\<lparr> win_config := (win_config win)\<lparr> cfg_opacity := opacity \<rparr> \<rparr>)"
  using assms by (auto simp: regular_def window_ok_def showable_def VISIBLE_WINDOW_def opaque_on_stack_def window_frame_def
      transform_window_to_stack_def Let_def)

lemma set_opacity_sound:
  assumes "stack_regular s" and "stack_sorted s" and "w \<in> set (sd_windows s)" and "\<not> env_own_region env"
    and "showable (sd_store s w)"
  shows "\<exists>s' op. set_opacity env s w opacity = Some s' \<and> sound s s' \<and> sd_windows s' = sd_windows s \<and> (s' = s \<or> 0 \<le> op \<and>
    sd_store s' w = (sd_store s w)\<lparr> win_config := (win_config (sd_store s w))\<lparr> cfg_opacity := op \<rparr> \<rparr>)"
proof -
  define op where "op = (if \<not> sd_hw_mode s \<and> \<not> env_translucent_windows env \<and> take_bit 8 opacity \<noteq> 0 then 0xff else take_bit 8 opacity)"
  define old where "old = take_bit 8 (win_opacity (sd_store s w))"
  have op: "0 \<le> op" by (simp add: op_def)
  let ?f = "\<lambda>win. win\<lparr> win_config := (win_config win)\<lparr> cfg_opacity := op \<rparr> \<rparr>"
  have reg: "regular (?f (sd_store s w))"
    using assms(1,3,5) op by (intro opacity_regular) (auto simp: stack_regular_def)
  have frame: "window_frame (?f win) = window_frame win" for win
    by (simp add: window_frame_def transform_window_to_stack_def)
  let ?t = "set_window w ?f s"
  have t: "stack_regular ?t" using set_window_regular [of s ?f w "sd_updates s"] assms(1) reg by (simp add: stack_regular_def)
  obtain u where u: "update_window ?t w None False True False = Some (?t\<lparr> sd_updates := u \<rparr>)" "upd_ok u"
      "upd_pixels (sd_updates s) \<subseteq> upd_pixels u"
      "\<And>bs as p. sd_windows s = bs @ w # as \<Longrightarrow> p \<in> screen s \<Longrightarrow> p \<in> rect_pixels (window_frame (sd_store s w)) \<Longrightarrow>
         \<forall>v \<in> set as. \<not> skips (sd_store ?t v) p \<Longrightarrow> p \<in> upd_pixels u"
    using update_whole [OF t, of w True] assms(3) by (auto simp: frame screen_def)
  have snd: "sound s (?t\<lparr> sd_updates := u \<rparr>)"
  proof (rule one_window_sound [OF assms(1-3)])
    fix bs as p
    assume split: "sd_windows s = bs @ w # as" and p: "p \<in> screen s"
      and cov: "covers (sd_store s w) p \<or> covers (sd_store (?t\<lparr> sd_updates := u \<rparr>) w) p"
      and skip: "\<forall>v \<in> set as. \<not> skips (sd_store s v) p"
    have "w \<notin> set as" using assms(1) split by (simp add: stack_regular_def)
    then have "\<forall>v \<in> set as. \<not> skips (sd_store ?t v) p" using skip by auto
    then show "p \<in> upd_pixels (sd_updates (?t\<lparr> sd_updates := u \<rparr>))"
      using u(4) [OF split p] cov by (auto simp: covers_def frame)
  qed (use assms u reg in \<open>auto simp: get_priority_def\<close>)
  let ?u = "?t\<lparr> sd_updates := u \<rparr>"
  define v where "v = (if old = 0 \<and> op \<noteq> 0 \<or> old \<noteq> 0 \<and> op = 0
      then fst (update_focus (env_read env) ?u) else ?u)"
  define x where "x = (if old \<noteq> 0 \<and> op = 0 then ensure_focus (withdraw_window v w) else v)"
  have "set_opacity env s w opacity = (if old = op then Some s else Some x)"
    using assms(4) u(1) by (simp add: set_opacity_def op_def [symmetric] old_def [symmetric] Let_def set_config_def x_def v_def)
  moreover have v: "same_scene ?u v" by (simp add: v_def)
  have "same_scene v (ensure_focus (withdraw_window v w))" by (rule same_scene_trans [of _ "withdraw_window v w"]) simp_all
  then have "same_scene ?u x" unfolding x_def using v same_scene_trans [OF v] by (simp only: simp_thms split: if_split)
  then have "sound s x" "sd_windows x = sd_windows s" "sd_store x w = ?f (sd_store s w)"
    using sound_scene [OF snd] by (auto simp: same_scene_def)
  ultimately show ?thesis using sound_refl [OF assms(1,2)] op by (cases "old = op") auto
qed

lemma restack_sound:
  assumes "stack_regular s" and "stack_sorted s" and "w \<in> set (sd_windows s)"
  shows "\<exists>s'. restack_window s w relative relation stacking = Some s' \<and> sound s s' \<and>
    set (sd_windows s') = set (sd_windows s) \<and> sd_store s' = sd_store (set_stacking s w stacking)"
proof -
  obtain bs as where split: "sd_windows s = bs @ w # as" using assms(3) by (meson split_list)
  define s1 where "s1 = set_stacking s w stacking"
  define k where "k = place s1 w (bs @ as) (desired_index s w relative relation)"
  obtain u where u: "restack_window s w relative relation stacking =
      Some (s1\<lparr> sd_windows := insert_at k w (bs @ as), sd_updates := u \<rparr>)" "upd_ok u" "upd_pixels (sd_updates s) \<subseteq> upd_pixels u"
      "\<forall>p \<in> screen s. picture (s1\<lparr> sd_windows := insert_at k w (bs @ as), sd_updates := u \<rparr>) p \<noteq> picture s p \<longrightarrow> p \<in> upd_pixels u"
    using restack_window_outcome [OF assms(1,2) split] unfolding s1_def k_def by blast
  let ?t = "s1\<lparr> sd_windows := insert_at k w (bs @ as), sd_updates := u \<rparr>"
  have srt: "stack_sorted ?t" unfolding s1_def k_def by (rule restacked_sorted(2) [OF assms(2) split])
  have wins: "set (insert_at k w (bs @ as)) = set (sd_windows s)" using split by (auto simp: set_insert_at)
  have "stack_regular s1" unfolding s1_def by (rule set_stacking_regular [OF assms(1)])
  then have "stack_regular ?t" using u(2) wins srt by (auto simp: stack_regular_def stack_sorted_def s1_def)
  moreover have "sd_rotation s1 = sd_rotation s" by (simp add: s1_def set_stacking_def set_config_def)
  ultimately have "sound s ?t" using u(3,4) srt by (simp add: sound_def s1_def)
  then show ?thesis using u(1) wins by (auto simp: s1_def)
qed

section \<open>Configuration is sound\<close>

abbreviation with_rotation :: "int \<Rightarrow> CoreWindow \<Rightarrow> CoreWindow" where
  "with_rotation r win \<equiv> win\<lparr> win_config := (win_config win)\<lparr> cfg_rotation := r \<rparr> \<rparr>"

text \<open>A window that stays regular in a rotation.\<close>

definition turnable :: "CoreWindow \<Rightarrow> int \<Rightarrow> bool" where
  "turnable win r \<longleftrightarrow> regular (with_rotation r win)"

definition ready :: "CoreWindowConfig \<Rightarrow> u32 \<Rightarrow> ptr \<Rightarrow> StackData \<Rightarrow> bool" where
  "ready config flags w s \<longleftrightarrow> stack_regular s \<and> stack_sorted s \<and> w \<in> set (sd_windows s) \<and> showable (sd_store s w) \<and>
     (D_FLAGS_IS_SET flags CWCF_ROTATION \<longrightarrow> turnable (sd_store s w) (cfg_rotation config))"

definition part_sound ::
    "CoreWindowConfig \<Rightarrow> u32 \<Rightarrow> ptr \<Rightarrow> (StackData \<Rightarrow> (StackData \<times> DirectResult) option) \<Rightarrow> bool" where
  "part_sound config flags w f \<longleftrightarrow>
     (\<forall>s. ready config flags w s \<longrightarrow> (\<exists>s' r. f s = Some (s', r) \<and> sound s s' \<and> ready config flags w s'))"

lemma and_then_sound:
  assumes "\<exists>s' r. m = Some (s', r) \<and> sound s s' \<and> ready config flags w s'" and "part_sound config flags w f"
  shows "\<exists>s' r. and_then m f = Some (s', r) \<and> sound s s' \<and> ready config flags w s'"
proof -
  obtain t r where t: "m = Some (t, r)" "sound s t" "ready config flags w t" using assms(1) by blast
  obtain s' r' where "f t = Some (s', r')" "sound t s'" "ready config flags w s'"
    using assms(2) t(3) unfolding part_sound_def by blast
  then show ?thesis using t sound_trans [OF t(2)] by (cases "r = DR_OK") (auto simp: and_then_def)
qed

lemma foldl_and_then_sound:
  assumes "\<exists>s' r. m = Some (s', r) \<and> sound s s' \<and> ready config flags w s'" and "\<forall>f \<in> set fs. part_sound config flags w f"
  shows "\<exists>s' r. foldl and_then m fs = Some (s', r) \<and> sound s s' \<and> ready config flags w s'"
  using assms
proof (induction fs arbitrary: m)
  case (Cons f fs)
  show ?case unfolding foldl_Cons
    by (rule Cons.IH) (use and_then_sound [OF Cons.prems(1)] Cons.prems(2) in auto)
qed simp

lemma ready_sound: "ready config flags w s \<Longrightarrow> sound s s"
  by (simp add: ready_def sound_refl)

lemma done_sound: "part_sound config flags w done_ok"
  by (auto simp: part_sound_def done_ok_def ready_sound)

lemma rotation_last:
  "c\<lparr> cfg_rotation := r, cfg_opacity := op \<rparr> = c\<lparr> cfg_opacity := op, cfg_rotation := r \<rparr>"
  "c\<lparr> cfg_rotation := r, cfg_bounds := b \<rparr> = c\<lparr> cfg_bounds := b, cfg_rotation := r \<rparr>"
  by (rule CoreWindowConfig.equality; simp)+

lemma opacity_part:
  assumes "\<not> env_own_region env"
  shows "part_sound config flags w (configure_opacity env w config now)"
  unfolding part_sound_def
proof (intro allI impI)
  fix s assume ready: "ready config flags w s"
  obtain s' op where s': "set_opacity env s w (cfg_opacity config) = Some s'" "sound s s'" "sd_windows s' = sd_windows s"
      "s' = s \<or> 0 \<le> op \<and> sd_store s' w = (sd_store s w)\<lparr> win_config := (win_config (sd_store s w))\<lparr> cfg_opacity := op \<rparr> \<rparr>"
    using set_opacity_sound [of s w env "cfg_opacity config"] ready assms unfolding ready_def by blast
  have "ready config flags w s'" using s'(4)
  proof
    assume op: "0 \<le> op \<and> sd_store s' w = (sd_store s w)\<lparr> win_config := (win_config (sd_store s w))\<lparr> cfg_opacity := op \<rparr> \<rparr>"
    have "turnable (sd_store s' w) r" if "turnable (sd_store s w) r" for r
      using opacity_regular [of "with_rotation r (sd_store s w)" op] that ready op
      by (simp add: turnable_def ready_def showable_def rotation_last)
    then show ?thesis using ready s'(2,3) op by (simp add: ready_def sound_def showable_def)
  qed (use ready in simp)
  then show "\<exists>s' r. configure_opacity env w config now s = Some (s', r) \<and> sound s s' \<and> ready config flags w s'"
    using s'(1,2) ready ready_sound [OF ready] by (simp add: configure_opacity_def done_ok_def)
qed

lemma bounds_part:
  assumes "\<not> env_own_region env" and "\<not> D_FLAGS_IS_SET flags CWCF_SIZE"
  shows "part_sound config flags w (configure_bounds env w config flags)"
  unfolding part_sound_def
proof (intro allI impI)
  fix s assume ready: "ready config flags w s"
  have flags: "flags \<noteq> CWCF_POSITION OR CWCF_SIZE" using assms(2) by (auto simp: config_flags D_FLAGS_IS_SET_def)
  define dx dy where "dx = rect_x (cfg_bounds config) - rect_x (win_bounds (sd_store s w))"
    and "dy = rect_y (cfg_bounds config) - rect_y (win_bounds (sd_store s w))"
  let ?shift = "set_bounds w (\<lambda>b. b\<lparr> rect_x := rect_x b + dx, rect_y := rect_y b + dy \<rparr>)"
  obtain s' where s': "move_window env s w dx dy = Some (s', DR_OK)" "sound s s'" "sd_windows s' = sd_windows s"
      "sd_store s' = sd_store (?shift s)"
    using move_window_sound [of s w env dx dy] ready assms(1) unfolding ready_def by blast
  have "turnable (sd_store s' w) r" if "turnable (sd_store s w) r" for r
    using shift_regular [of "with_rotation r (sd_store s w)" dy dx] that
    by (simp add: turnable_def s'(4) set_bounds_def set_config_def rotation_last)
  then have ready': "ready config flags w s'" using ready s'(2-4)
    by (simp add: ready_def sound_def showable_def set_bounds_def set_config_def)
  show "\<exists>s' r. configure_bounds env w config flags s = Some (s', r) \<and> sound s s' \<and> ready config flags w s'"
  proof (cases "D_FLAGS_IS_SET flags CWCF_POSITION")
    case True
    then have "configure_bounds env w config flags s = Some (s', DR_OK)"
      using s'(1) flags assms(2) by (simp add: configure_bounds_def and_then_def done_ok_def dx_def dy_def Let_def)
    then show ?thesis using s'(2) ready' by blast
  next
    case False
    then have "configure_bounds env w config flags s = Some (s, DR_OK)"
      using flags assms(2) by (simp add: configure_bounds_def and_then_def done_ok_def Let_def)
    then show ?thesis using ready ready_sound [OF ready] by blast
  qed
qed

lemma rotation_part: "part_sound config flags w (configure_rotation w config flags)"
  unfolding part_sound_def
proof (intro allI impI)
  fix s assume ready: "ready config flags w s"
  then have fits: "regular (with_rotation (cfg_rotation config) (sd_store s w)) \<or> \<not> D_FLAGS_IS_SET flags CWCF_ROTATION"
    by (auto simp: ready_def turnable_def)
  obtain s' where s': "configure_rotation w config flags s = Some (s', DR_OK)" "sound s s'" "sd_windows s' = sd_windows s"
      "sd_store s' w = (if D_FLAGS_IS_SET flags CWCF_ROTATION then with_rotation (cfg_rotation config) (sd_store s w) else sd_store s w)"
    using rotation_sound [OF _ _ _ fits] ready unfolding ready_def by blast
  then have "ready config flags w s'" using ready by (auto simp: ready_def sound_def showable_def turnable_def)
  then show "\<exists>s' r. configure_rotation w config flags s = Some (s', r) \<and> sound s s' \<and> ready config flags w s'"
    using s' by blast
qed

lemma stacking_part: "part_sound config flags w (configure_stacking w config flags)"
  unfolding part_sound_def
proof (intro allI impI)
  fix s assume ready: "ready config flags w s"
  obtain s' where s': "restack_window s w (Some w) 0 (cfg_stacking config) = Some s'" "sound s s'"
      "set (sd_windows s') = set (sd_windows s)" "sd_store s' = sd_store (set_stacking s w (cfg_stacking config))"
    using restack_sound [of s w "Some w" 0 "cfg_stacking config"] ready unfolding ready_def by blast
  have same: "win_caps (sd_store s' w) = win_caps (sd_store s w)" "win_flags (sd_store s' w) = win_flags (sd_store s w)"
    by (simp_all add: s'(4) set_stacking_store Let_def)
  have "visual (with_rotation r (sd_store s' w)) = visual (with_rotation r (sd_store s w))" for r
    by (simp add: s'(4) set_stacking_store Let_def visual_def appearance_def VISIBLE_WINDOW_def)
  then have "turnable (sd_store s' w) r = turnable (sd_store s w) r" for r
    unfolding turnable_def by (rule visual_cong(5))
  then have "ready config flags w s'" using ready s'(2,3) same by (simp add: ready_def sound_def showable_def)
  then show "\<exists>s' r. configure_stacking w config flags s = Some (s', r) \<and> sound s s' \<and> ready config flags w s'"
    using s'(1,2) ready ready_sound [OF ready] by (simp add: configure_stacking_def done_ok_def)
qed

text \<open>Changes that no picture shows.\<close>

lemma unseen_sound:
  assumes "stack_regular s" and "stack_sorted s" and "sd_windows s' = sd_windows s" and "sd_updates s' = sd_updates s"
    and "\<And>v. visual (sd_store s' v) = visual (sd_store s v)" and "\<And>v. prio s' v = prio s v"
    and "\<And>v. get_priority (sd_store s' v) = get_priority (sd_store s v)"
    and "sd_width s' = sd_width s" and "sd_height s' = sd_height s" and "sd_rotation s' = sd_rotation s" and "sd_hw_mode s' = sd_hw_mode s"
  shows "sound s s'"
proof -
  have "picture s' p = picture s p" for p by (rule picture_visual) (simp_all add: assms(3,5))
  moreover have "stack_regular s'" using assms(1) by (simp add: stack_regular_def assms(3,4,8,9,11) visual_cong(5) [OF assms(5)])
  moreover have "stack_sorted s'" using assms(2) by (simp add: stack_sorted_def assms(3,6,7))
  ultimately show ?thesis by (simp add: sound_def assms(4,8-10))
qed

lemma keys_part: "part_sound config flags w (configure_keys env w config flags)"
  unfolding part_sound_def
proof (intro allI impI)
  fix s assume ready: "ready config flags w s"
  let ?t = "\<lambda>ks sel. set_config w (\<lambda>c. c\<lparr> cfg_keys := ks, cfg_key_selection := sel \<rparr>) s"
  have fields: "sd_windows (?t ks sel) = sd_windows s" for ks sel by (simp add: set_config_def)
  have sd: "sound s (?t ks sel)" for ks sel
    by (rule unseen_sound)
      (use ready in \<open>auto simp: ready_def set_config_def visual_def appearance_def VISIBLE_WINDOW_def get_priority_def\<close>)
  have "visual (with_rotation r (sd_store (?t ks sel) w)) = visual (with_rotation r (sd_store s w))" for r ks sel
    by (simp add: set_config_def visual_def appearance_def VISIBLE_WINDOW_def)
  then have turn: "turnable (sd_store (?t ks sel) w) r = turnable (sd_store s w) r" for r ks sel
    unfolding turnable_def by (rule visual_cong(5))
  have "showable (sd_store (?t ks sel) w) = showable (sd_store s w)" for ks sel
    by (simp add: set_config_def showable_def)
  then have r: "ready config flags w (?t ks sel)" for ks sel
    using ready sd [where ks = ks and sel = sel] turn by (simp add: ready_def sound_def fields)
  have "\<exists>s' ret. configure_keys env w config flags s = Some (s', ret) \<and> (s' = s \<or> (\<exists>ks sel. s' = ?t ks sel))"
    by (auto simp: configure_keys_def done_ok_def)
  then show "\<exists>s' ret. configure_keys env w config flags s = Some (s', ret) \<and> sound s s' \<and> ready config flags w s'"
    using r sd ready ready_sound [OF ready] by blast
qed

text \<open>Flags for what the manager itself repaints: position, opacity, stacking, rotation, and key selection.\<close>

definition painted_flags :: "u32 \<Rightarrow> bool" where
  "painted_flags flags \<longleftrightarrow> \<not> D_FLAGS_IS_SET flags CWCF_SIZE \<and> \<not> D_FLAGS_IS_SET flags CWCF_OPTIONS \<and>
     \<not> D_FLAGS_IS_SET flags CWCF_COLOR \<and> \<not> D_FLAGS_IS_SET flags CWCF_COLOR_KEY \<and> \<not> D_FLAGS_IS_SET flags CWCF_OPAQUE"

lemma configure_sound:
  assumes "ready config flags w s" and "painted_flags flags" and "\<not> env_own_region env"
  shows "\<exists>s' r. configure env w config flags s = Some (s', r) \<and> sound s s'"
proof -
  have unused: "configure_options env w config flags = done_ok" "configure_colors w config flags = done_ok"
    using assms(2) by (auto simp: painted_flags_def configure_options_def configure_colors_def Let_def)
  have start: "\<exists>s' r. done_ok s = Some (s', r) \<and> sound s s' \<and> ready config flags w s'"
    using assms(1) ready_sound by (auto simp: done_ok_def)
  have bounds: "part_sound config flags w (configure_bounds env w config flags)"
    by (rule bounds_part) (use assms(2,3) in \<open>simp_all add: painted_flags_def\<close>)
  have "\<exists>s' r. configure env w config flags s = Some (s', r) \<and> sound s s' \<and> ready config flags w s'"
    unfolding configure_def Let_def unused
    by (rule foldl_and_then_sound [OF start])
      (simp add: done_sound bounds rotation_part stacking_part keys_part opacity_part [OF assms(3)])
  then show ?thesis by blast
qed

section \<open>Uncovered areas\<close>













definition plain_env :: WMEnv where
  "plain_env = \<lparr> env_own_region = False, env_region = DR_OK, env_reconfig = DR_OK, env_buffers = DR_OK, env_key_memory = True,
     env_vector_memory = True, env_translucent_windows = True, env_fullscreen_updates = False,
     env_target = Some \<lparr> dim_w = 100, dim_h = 100 \<rparr>, env_read = no_reader \<rparr>"



text \<open>
  A window turned by a quarter that is made narrower exposes the lower part of its frame, but the upper
  part is damaged.
\<close>

definition turned :: StackData where
  "turned = (plain_stack
     [(1, with_rotation 90 (plain_window \<lparr> rect_x = 0, rect_y = 0, rect_w = 20, rect_h = 10 \<rparr> 255 0
            \<lparr> rgn_x1 = 0, rgn_y1 = 0, rgn_x2 = 9, rgn_y2 = 9 \<rparr>))])\<lparr> sd_pointer_window := Some 1 \<rparr>"

lemma resize_rotated_misses:
  "\<exists>s'. resize_window plain_env turned 1 10 10 = Some (s', DR_OK) \<and>
     upd_regions (sd_updates s') = [\<lparr> rgn_x1 = 0, rgn_y1 = 0, rgn_x2 = 9, rgn_y2 = 9 \<rparr>] \<and>
     picture turned (5, 15) \<noteq> [Paint_Background] \<and> picture s' (5, 15) = [Paint_Background]"
  by (simp add: resize_window_def turned_def plain_env_def demo_simps exposed_by_resize_def update_window_def
      window_area_def Let_def dfb_region_from_rotated_def dfb_unsafe_region_intersect_def region_validate_def
      dfb_region_intersect_def get_index_def last_index_def repaint_stack_for_window_def dfb_updates_add_def
      set_config_def set_bounds_def set_window_def update_focus_def picture_walk post_event_def)

end
