(* ===== verification/Window_Display.thy ===== *)
theory Window_Display
  imports Window_Manager
begin

text \<open>
  What the calls of the window manager leave on the screen. The display is a function from pixels of the stack
  to what was last painted there; a frame replaces what its drawing calls reach under its clip. Starting
  with an empty stack that shows its background, any sequence of additions, removals,
  restackings, content updates and changes of position, opacity, rotation, class and keys keeps the
  display equal to the painter's picture of the windows, except where damage is pending.
\<close>

section \<open>Calls\<close>

datatype wm_call = Add_Window ptr | Remove_Window ptr | Restack_Window ptr "ptr option" int
  | Set_Config ptr CoreWindowConfig u32 | Update_Stack DFBRegion | Update_Window ptr DFBRegion

fun wm_step :: "WMEnv \<Rightarrow> StackData \<Rightarrow> wm_call \<Rightarrow> (StackData \<times> Frames) option" where
  "wm_step env s (Add_Window w) = Some (wm_add_window env s w)"
| "wm_step env s (Remove_Window w) = Some (wm_remove_window s w, [])"
| "wm_step env s (Restack_Window w relative relation) = wm_restack_window env s w relative relation"
| "wm_step env s (Set_Config w config flags) = map_option fst (wm_set_window_config env s w config flags)"
| "wm_step env s (Update_Stack region) = Some (wm_update_stack env s region)"
| "wm_step env s (Update_Window w region) = wm_update_window env s w region"

text \<open>
  The callers add windows that are not shown yet, remove hidden ones, and hand over well-formed
  configurations; the stack is active, and its windows are composed (no layer regions of their own).
\<close>

fun wm_ok :: "StackData \<Rightarrow> wm_call \<Rightarrow> bool" where
  "wm_ok s (Add_Window w) \<longleftrightarrow> w \<notin> set (sd_windows s) \<and> regular (sd_store s w) \<and> win_opacity (sd_store s w) = 0"
| "wm_ok s (Remove_Window w) \<longleftrightarrow> w \<in> set (sd_windows s) \<and> win_opacity (sd_store s w) = 0"
| "wm_ok s (Restack_Window w relative relation) \<longleftrightarrow> w \<in> set (sd_windows s)"
| "wm_ok s (Set_Config w config flags) \<longleftrightarrow> w \<in> set (sd_windows s) \<and> showable (sd_store s w) \<and>
     painted_flags flags \<and>
     (D_FLAGS_IS_SET flags CWCF_ROTATION \<longrightarrow> turnable (sd_store s w) (cfg_rotation config))"
| "wm_ok s (Update_Stack region) \<longleftrightarrow> region_ok region"
| "wm_ok s (Update_Window w region) \<longleftrightarrow> w \<in> set (sd_windows s) \<and> surface_region (sd_store s w) region"

definition env_ok :: "WMEnv \<Rightarrow> StackData \<Rightarrow> bool" where
  "env_ok env s \<longleftrightarrow> \<not> env_own_region env \<and> env_target env = Some (rotated_size (stack_size s) (sd_rotation s))"

section \<open>The display\<close>

type_synonym Display = "int \<times> int \<Rightarrow> Paint list"

definition present :: "StackData \<Rightarrow> Display \<Rightarrow> DFBRegion \<times> Draw list \<Rightarrow> Display" where
  "present s d frame = (\<lambda>p. if dest_pixel s p \<in> region_pixels (fst frame) \<and> drawn_at s p (snd frame) \<noteq> []
     then drawn_at s p (snd frame) else d p)"

inductive displayed :: "StackData \<Rightarrow> Display \<Rightarrow> bool" where
  start: "stack_regular s \<Longrightarrow> sd_windows s = [] \<Longrightarrow> sd_rotation s \<in> {0, 90, 180, 270} \<Longrightarrow>
    displayed s (\<lambda>p. [Paint_Background])"
| step: "displayed s d \<Longrightarrow> wm_ok s c \<Longrightarrow> env_ok env s \<Longrightarrow> wm_step env s c = Some (s', frames) \<Longrightarrow>
    displayed s' (foldl (present s') d frames)"

lemma drawn_at_updates [simp]: "drawn_at (s\<lparr> sd_updates := u \<rparr>) p ds = drawn_at s p ds"
proof (induction ds)
  case (Cons d ds)
  then show ?case by (cases d) simp_all
qed simp

lemma picture_nonempty: "picture s p \<noteq> []"
proof -
  have "walk st ws p \<noteq> []" for st ws by (induction ws) simp_all
  then show ?thesis by (simp add: picture_walk)
qed

text \<open>Painting a list of regions brings exactly their pixels up to date.\<close>

lemma present_repaint:
  assumes "stack_ok s" and "\<forall>r \<in> set rs. region_ok r" and "sd_rotation s \<in> {0, 90, 180, 270}"
    and "0 < sd_width s" and "0 < sd_height s" and "p \<in> screen s"
  shows "foldl (present s) d (repaint_stack s (Some (rotated_size (stack_size s) (sd_rotation s))) rs) p =
    (if \<exists>r \<in> set rs. p \<in> region_pixels r then picture s p else d p)"
  using assms(2)
proof (induction rs arbitrary: d)
  case (Cons r rs)
  let ?sz = "rotated_size (stack_size s) (sd_rotation s)"
  have ok: "region_ok r" and oks: "\<forall>r \<in> set rs. region_ok r" using Cons.prems by simp_all
  note frame = compose_update_drawn [OF assms(1) ok assms(3-6)]
  show ?case
  proof (cases "compose_update s ?sz r")
    case None
    then have "p \<notin> region_pixels r" using frame by simp
    then show ?thesis using None Cons.IH [OF oks] by (simp add: repaint_stack_def List.map_filter_simps)
  next
    case (Some f)
    obtain dest draws where f: "f = (dest, draws)" by force
    have "drawn_at s p draws = (if p \<in> region_pixels r then picture s p else [])"
        "p \<in> region_pixels r \<longrightarrow> dest_pixel s p \<in> region_pixels dest"
      using frame Some f by simp_all
    then have "present s d f p = (if p \<in> region_pixels r then picture s p else d p)"
      using f picture_nonempty [of s p] by (simp add: present_def)
    then show ?thesis using Some Cons.IH [OF oks, of "present s d f"]
      by (simp add: repaint_stack_def List.map_filter_simps)
  qed
qed (simp add: repaint_stack_def List.map_filter_simps)

text \<open>The damage that is pending covers what the display does not show.\<close>

definition pending :: "StackData \<Rightarrow> Display \<Rightarrow> bool" where
  "pending s d \<longleftrightarrow> (\<forall>p \<in> screen s. d p \<noteq> picture s p \<longrightarrow> p \<in> upd_pixels (sd_updates s))"

lemma pending_sound:
  assumes "pending s d" and "sound s s'"
  shows "pending s' d"
  unfolding pending_def
proof (intro ballI impI)
  fix p assume p: "p \<in> screen s'" "d p \<noteq> picture s' p"
  have scr: "p \<in> screen s" using p(1) assms(2) by (simp add: sound_def screen_def)
  show "p \<in> upd_pixels (sd_updates s')"
    using assms p(2) scr unfolding pending_def sound_def by (cases "picture s' p = picture s p") auto
qed

lemma paint_updates_current:
  assumes "pending s d" and "stack_regular s" and "sd_rotation s \<in> {0, 90, 180, 270}"
    and "env_target env = Some (rotated_size (stack_size s) (sd_rotation s))" and "paint_updates env s = (s', frames)"
  shows "\<forall>p \<in> screen s'. foldl (present s') d frames p = picture s' p" and "upd_regions (sd_updates s') = []" and "upd_ok (sd_updates s')"
    and "s' = s\<lparr> sd_updates := sd_updates s' \<rparr>"
proof -
  obtain rs where rs: "process_updates (env_fullscreen_updates env) s = (rs, s')" "frames = repaint_stack s (env_target env) rs"
    using assms(5) by (auto simp: paint_updates_def split: prod.splits)
  have pos: "stack_ok s" "0 < sd_width s" "0 < sd_height s" "upd_ok (sd_updates s)"
    using assms(2) stack_regular_ok [OF assms(2)] by (simp_all add: stack_regular_def)
  have s': "s' = s\<lparr> sd_updates := sd_updates s' \<rparr> \<and> upd_regions (sd_updates s') = [] \<and> upd_ok (sd_updates s')"
    using rs(1) pos(4)
    by (auto simp: process_updates_def Let_def dfb_updates_reset_def upd_ok_def updates_inv_def split: if_splits prod.splits)
  then show "s' = s\<lparr> sd_updates := sd_updates s' \<rparr>" "upd_regions (sd_updates s') = []" "upd_ok (sd_updates s')" by blast+
  have same: "screen s' = screen s" "picture s' = picture s" "present s' = present s"
  proof -
    obtain u where "s' = s\<lparr> sd_updates := u \<rparr>" using s' by blast
    then show "screen s' = screen s" "picture s' = picture s" "present s' = present s"
      by (auto simp: screen_def picture_walk fun_eq_iff present_def dest_pixel_def drawn_at_updates)
  qed
  have cover: "\<forall>r \<in> set rs. region_ok r" "upd_pixels (sd_updates s) \<inter> screen s \<subseteq> (\<Union>r \<in> set rs. region_pixels r)"
    using process_updates_covers [OF pos(4,2,3), of "env_fullscreen_updates env"] rs(1) by simp_all
  show "\<forall>p \<in> screen s'. foldl (present s') d frames p = picture s' p"
  proof
    fix p assume p: "p \<in> screen s'"
    have "foldl (present s) d frames p = (if \<exists>r \<in> set rs. p \<in> region_pixels r then picture s p else d p)"
      unfolding rs(2) assms(4) by (rule present_repaint) (use pos cover p same(1) assms(3) in auto)
    moreover have "d p = picture s p" if "\<not> (\<exists>r \<in> set rs. p \<in> region_pixels r)"
      using assms(1) cover(2) p same(1) that unfolding pending_def by blast
    ultimately show "foldl (present s') d frames p = picture s' p" unfolding same by auto
  qed
qed

section \<open>Every call is sound\<close>

lemma remove_window_windows:
  assumes "distinct (sd_windows s)" and "sd_windows s = bs @ w # as"
  shows "sd_windows (remove_window s w) = bs @ as"
proof -
  have "nat (get_index s w) = length bs" using last_index_nth [OF assms] by (simp add: get_index_def)
  then show ?thesis using assms(2) by (simp add: remove_window_def vector_drop_def Let_def get_index_def remove_at_def)
qed

text \<open>A window that is not visible leaves no trace in the picture, wherever it stands.\<close>

lemma picture_without:
  assumes "sd_windows s = bs @ w # as" and "sd_windows t = bs @ as" and "\<And>v. v \<in> set (bs @ as) \<Longrightarrow> sd_store s v = sd_store t v"
    and "\<not> VISIBLE_WINDOW (sd_store s w)"
  shows "picture s p = picture t p"
proof -
  have "walk (sd_store s) (rev as @ w # rev bs) p = walk (sd_store s) (rev as @ rev bs) p"
    by (rule walk_uncovered) (simp add: covers_def assms(4))
  also have "\<dots> = walk (sd_store t) (rev as @ rev bs) p" by (rule walk_cong) (use assms(3) in auto)
  finally show ?thesis by (simp add: picture_walk assms(1,2))
qed

lemma hidden_regular: "regular win \<Longrightarrow> win_opacity win = 0 \<Longrightarrow> regular (win\<lparr> win_flags := f, win_priority := pr \<rparr>)"
  by (simp add: regular_def window_ok_def opaque_on_stack_def window_frame_def transform_window_to_stack_def Let_def)

lemma remove_sound:
  assumes "stack_regular s" and "stack_sorted s" and "w \<in> set (sd_windows s)" and "win_opacity (sd_store s w) = 0"
  shows "sound s (wm_remove_window s w)"
proof -
  let ?t = "wm_remove_window s w"
  obtain bs as where split: "sd_windows s = bs @ w # as" using assms(3) by (meson split_list)
  have dist: "distinct (sd_windows s)" using assms(1) by (simp add: stack_regular_def)
  have wins: "sd_windows ?t = bs @ as"
    using remove_window_windows [OF dist split] by (simp add: wm_remove_window_def set_config_def)
  have store: "sd_store ?t v = sd_store s v" if "v \<in> set (bs @ as)" for v
    using that dist split by (auto simp: wm_remove_window_def set_config_def remove_window_def vector_drop_def Let_def)
  have rest: "sd_updates ?t = sd_updates s" "sd_width ?t = sd_width s" "sd_height ?t = sd_height s"
      "sd_rotation ?t = sd_rotation s" "sd_hw_mode ?t = sd_hw_mode s"
    by (simp_all add: wm_remove_window_def set_config_def remove_window_def vector_drop_def Let_def)
  have "\<not> VISIBLE_WINDOW (sd_store s w)" using assms(4) by (simp add: VISIBLE_WINDOW_def)
  then have "picture ?t p = picture s p" for p
    using picture_without [OF split wins, of p] store by simp
  moreover have "stack_regular ?t"
    using assms(1) dist split store unfolding stack_regular_def wins rest by auto
  moreover have "stack_sorted ?t"
  proof -
    have same: "map (prio ?t) (bs @ as) = map (prio s) (bs @ as)" by (rule map_cong) (use store in auto)
    have "sorted (map (prio ?t) (bs @ as))"
      unfolding same using assms(2) split by (auto simp: stack_sorted_def sorted_append)
    then show ?thesis
      using assms(2) split store unfolding stack_sorted_def wins by auto
  qed
  ultimately show ?thesis by (simp add: sound_def rest)
qed

lemma stack_sorted_store:
  assumes "stack_sorted s" and "sd_windows t = sd_windows s" and "\<And>v. v \<in> set (sd_windows s) \<Longrightarrow> sd_store t v = sd_store s v"
  shows "stack_sorted t"
proof -
  have same: "map (prio t) (sd_windows s) = map (prio s) (sd_windows s)" by (rule map_cong) (use assms(3) in auto)
  show ?thesis using assms(1,3) unfolding stack_sorted_def assms(2) same by simp
qed

lemma add_sound:
  assumes "stack_regular s" and "stack_sorted s" and "w \<notin> set (sd_windows s)" and "regular (sd_store s w)"
    and "win_opacity (sd_store s w) = 0"
  shows "sound s (fst (update_focus read (insert_window avail
    (set_window w (\<lambda>win. win\<lparr> win_priority := get_priority win \<rparr>) s) w)))" (is "sound s (fst (update_focus read ?t))")
proof -
  let ?s1 = "set_window w (\<lambda>win. win\<lparr> win_priority := get_priority win \<rparr>) s"
  have store: "sd_store ?t v = (if v = w then (sd_store s w)\<lparr> win_flags := win_flags (sd_store s w) OR CWF_INSERTED,
      win_priority := get_priority (sd_store s w) \<rparr> else sd_store s v)" for v
    by (simp add: insert_window_def Let_def)
  have rest: "sd_updates ?t = sd_updates s" "sd_width ?t = sd_width s" "sd_height ?t = sd_height s"
      "sd_rotation ?t = sd_rotation s" "sd_hw_mode ?t = sd_hw_mode s"
    by (simp_all add: insert_window_def Let_def)
  define k where "k = insert_scan (sd_store ?s1) (prio ?s1 w) (sd_windows ?s1)"
  have wins: "sd_windows ?t = (if avail then insert_at k w (sd_windows s) else sd_windows s)"
    by (simp add: insert_window_def Let_def k_def)
  have other: "sd_store ?t v = sd_store s v" if "v \<in> set (sd_windows s)" for v using that assms(3) store by auto
  have "stack_sorted ?s1" by (rule stack_sorted_store [OF assms(2)]) (use assms(3) in auto)
  then have srt: "stack_sorted ?t" by (rule insert_window_sorted) (use assms(3) in \<open>auto simp: get_priority_def\<close>)
  have "regular (sd_store ?t v)" if "v \<in> set (sd_windows ?t)" for v
  proof (cases "v = w")
    case True
    then show ?thesis using hidden_regular [OF assms(4,5)] store by simp
  next
    case False
    then have "v \<in> set (sd_windows s)" using that wins by (auto simp: set_insert_at split: if_splits)
    then show ?thesis using other assms(1) by (simp add: stack_regular_def)
  qed
  then have reg: "stack_regular ?t" using assms(1) srt unfolding stack_regular_def rest by (simp add: stack_sorted_def)
  have "picture ?t p = picture s p" for p
  proof (cases avail)
    case True
    then have "sd_windows ?t = take k (sd_windows s) @ w # drop k (sd_windows s)" using wins by (simp add: insert_at_def)
    moreover have "\<not> VISIBLE_WINDOW (sd_store ?t w)" using assms(5) store by (simp add: VISIBLE_WINDOW_def)
    ultimately show ?thesis using picture_without [of ?t "take k (sd_windows s)" w "drop k (sd_windows s)" s p] other by simp
  next
    case False
    then show ?thesis using wins other by (simp add: picture_walk) (rule walk_cong, simp)
  qed
  then have "sound s ?t" using reg srt by (simp add: sound_def rest)
  then show ?thesis by (rule sound_scene) simp
qed

lemma update_stack_sound:
  assumes "stack_regular s" and "stack_sorted s" and "region_ok r"
  shows "sound s (s\<lparr> sd_updates := dfb_updates_add (sd_updates s) r \<rparr>)"
proof -
  have "upd_ok (dfb_updates_add (sd_updates s) r)" "upd_pixels (sd_updates s) \<subseteq> upd_pixels (dfb_updates_add (sd_updates s) r)"
    using updates_add_ok [of "sd_updates s" r] assms(1,3) by (auto simp: stack_regular_def)
  then show ?thesis using assms by (simp add: sound_def stack_regular_def stack_sorted_def picture_walk)
qed

lemma content_sound:
  assumes "stack_regular s" and "stack_sorted s" and "w \<in> set (sd_windows s)" and "surface_region (sd_store s w) r"
  shows "\<exists>s'. update_window s w (Some r) False False True = Some s' \<and> sound s s'"
proof -
  obtain bs as where split: "sd_windows s = bs @ w # as" using assms(3) by (meson split_list)
  have reg: "window_ok (sd_store s w)" "cfg_rotation (win_config (sd_store s w)) \<in> {0, 90, 180, 270}"
    using assms(1,3) unfolding stack_regular_def regular_def by auto
  obtain area where area: "window_area (sd_store s w) (Some r) True = Some area" "region_ok area"
    using window_area_covers [OF assms(4) reg(1)] by blast
  obtain u where u: "update_window s w (Some r) False False True = Some (s\<lparr> sd_updates := u \<rparr>)" "upd_ok u"
      "upd_pixels (sd_updates s) \<subseteq> upd_pixels u"
    using update_window_adds [OF stack_regular_ok [OF assms(1)] _ split reg(2) _ _ _ _ area, of False False] assms(1)
    by (auto simp: stack_regular_def)
  then have "sound s (s\<lparr> sd_updates := u \<rparr>)"
    using assms(1,2) by (simp add: sound_def stack_regular_def stack_sorted_def picture_walk)
  then show ?thesis using u(1) by blast
qed

section \<open>The display follows the windows\<close>

text \<open>Calls that end before anything is painted.\<close>

definition unpainted :: "WMEnv \<Rightarrow> StackData \<Rightarrow> wm_call \<Rightarrow> bool" where
  "unpainted env s c \<longleftrightarrow> (case c of Remove_Window w \<Rightarrow> True
     | Set_Config w config flags \<Rightarrow>
         (case wm_set_window_config env s w config flags of Some (t, ret) \<Rightarrow> ret \<noteq> DR_OK | None \<Rightarrow> False)
     | _ \<Rightarrow> False)"

lemma wm_step_sound:
  assumes "stack_regular s" and "stack_sorted s" and "wm_ok s c" and "env_ok env s"
  shows "\<exists>t. sound s t \<and> (wm_step env s c = Some (paint_updates env t) \<or> wm_step env s c = Some (t, []) \<and> unpainted env s c)"
proof (cases c)
  case (Add_Window w)
  let ?t = "fst (update_focus (env_read env) (insert_window (env_vector_memory env)
    (set_window w (\<lambda>win. win\<lparr> win_priority := get_priority win \<rparr>) s) w))"
  have "sound s ?t" by (rule add_sound [OF assms(1,2)]) (use Add_Window assms(3) in auto)
  then show ?thesis using Add_Window by (intro exI [of _ ?t]) (simp add: wm_add_window_def Let_def)
next
  case (Remove_Window w)
  then have "sound s (wm_remove_window s w)" using remove_sound [OF assms(1,2)] assms(3) by simp
  then show ?thesis using Remove_Window by (intro exI [of _ "wm_remove_window s w"]) (simp add: unpainted_def)
next
  case (Restack_Window w relative relation)
  then obtain t where t: "restack_window s w relative relation (cfg_stacking (win_config (sd_store s w))) = Some t" "sound s t"
    using restack_sound [OF assms(1,2)] assms(3) by (metis wm_ok.simps(3))
  have "sound s (fst (update_focus (env_read env) t))" by (rule sound_scene [OF t(2)]) simp
  then show ?thesis using Restack_Window t(1)
    by (intro exI [of _ "fst (update_focus (env_read env) t)"]) (simp add: wm_restack_window_def)
next
  case (Set_Config w config flags)
  have "ready config flags w s" "painted_flags flags" "\<not> env_own_region env"
    using Set_Config assms by (simp_all add: ready_def env_ok_def)
  then obtain t r where t: "configure env w config flags s = Some (t, r)" "sound s t"
    using configure_sound by blast
  then have "wm_set_window_config env s w config flags =
      (if r \<noteq> DR_OK then Some ((t, []), r) else Some (paint_updates env t, DR_OK))"
    by (simp add: wm_set_window_config_def)
  then show ?thesis using Set_Config t(2)
    by (intro exI [of _ t], cases "paint_updates env t") (auto simp: unpainted_def)
next
  case (Update_Stack r)
  then have "sound s (s\<lparr> sd_updates := dfb_updates_add (sd_updates s) r \<rparr>)" using update_stack_sound assms by simp
  then show ?thesis using Update_Stack
    by (intro exI [of _ "s\<lparr> sd_updates := dfb_updates_add (sd_updates s) r \<rparr>"]) (simp add: wm_update_stack_def)
next
  case (Update_Window w r)
  let ?s = "send_update_event w r s"
  have same: "same_scene s ?s" by (simp add: send_update_event_def)
  have s: "stack_regular ?s" "stack_sorted ?s" "sd_windows ?s = sd_windows s" "sd_store ?s = sd_store s"
    using same_scene_regular [OF same] same_scene_sorted [OF same] assms(1,2) same by (simp_all add: same_scene_def)
  then obtain t where t: "update_window ?s w (Some r) False False True = Some t" "sound ?s t"
    using content_sound [OF s(1,2), of w r] assms(3) Update_Window by auto
  have "sound s t" using sound_trans [OF same_scene_sound [OF same assms(1,2)] t(2)] .
  then show ?thesis using Update_Window t(1) by (intro exI [of _ t]) (simp add: wm_update_window_def)
qed

definition display_inv :: "StackData \<Rightarrow> Display \<Rightarrow> bool" where
  "display_inv s d \<longleftrightarrow> stack_regular s \<and> stack_sorted s \<and> sd_rotation s \<in> {0, 90, 180, 270} \<and> pending s d"

lemma painted_step:
  assumes "display_inv s d" and "wm_ok s c" and "env_ok env s"
  shows "\<exists>s' frames. wm_step env s c = Some (s', frames) \<and> display_inv s' (foldl (present s') d frames) \<and>
    (\<not> unpainted env s c \<longrightarrow> (\<forall>p \<in> screen s'. foldl (present s') d frames p = picture s' p))"
proof -
  have inv: "stack_regular s" "stack_sorted s" "sd_rotation s \<in> {0, 90, 180, 270}" "pending s d"
    using assms(1) by (simp_all add: display_inv_def)
  obtain t where t: "sound s t" "wm_step env s c = Some (paint_updates env t) \<or> wm_step env s c = Some (t, []) \<and> unpainted env s c"
    using wm_step_sound [OF inv(1,2) assms(2,3)] by blast
  have reg: "stack_regular t" "stack_sorted t" "sd_rotation t = sd_rotation s" "stack_size t = stack_size s"
    using t(1) by (simp_all add: sound_def)
  have pend: "pending t d" by (rule pending_sound [OF inv(4) t(1)])
  show ?thesis
  proof (cases "wm_step env s c = Some (paint_updates env t)")
    case True
    obtain s' frames where paint: "paint_updates env t = (s', frames)" by force
    have "env_target env = Some (rotated_size (stack_size t) (sd_rotation t))"
      using assms(3) by (simp add: env_ok_def reg)
    note cur = paint_updates_current [OF pend reg(1) _ this paint]
    have cur': "\<forall>p \<in> screen s'. foldl (present s') d frames p = picture s' p" "s' = t\<lparr> sd_updates := sd_updates s' \<rparr>" "upd_ok (sd_updates s')"
      using cur inv(3) by (simp_all add: reg)
    obtain u where s': "s' = t\<lparr> sd_updates := u \<rparr>" "upd_ok u" using cur'(2,3) by metis
    have "stack_regular s'" using reg(1) s' by (simp add: stack_regular_def)
    moreover have "stack_sorted s'" by (rule stack_sorted_store [OF reg(2)]) (simp_all add: s')
    moreover have "pending s' (foldl (present s') d frames)" using cur'(1) by (simp add: pending_def)
    ultimately have "display_inv s' (foldl (present s') d frames)" using inv(3) reg(3) s' by (simp add: display_inv_def)
    then show ?thesis using True paint cur'(1) by auto
  next
    case False
    then have "wm_step env s c = Some (t, [])" "unpainted env s c" using t(2) by auto
    then show ?thesis using reg pend inv(3) by (auto simp: display_inv_def)
  qed
qed

lemma displayed_inv: "displayed s d \<Longrightarrow> display_inv s d"
proof (induction rule: displayed.induct)
  case (start s)
  then show ?case by (simp add: display_inv_def pending_def stack_sorted_def picture_walk)
next
  case (step s d c env s' frames)
  then show ?case using painted_step [OF step.IH step.hyps(2,3)] step.hyps(4) by auto
qed

text \<open>
  C1: The screen shows the windows. Starting with an empty active stack, after any sequence of the six kinds of calls that
  add, remove, restack and update windows, configure one of them or update the stack, every pixel of the screen that has no
  pending damage was last drawn with exactly the windows there, as the painter's algorithm stacks them (\<^const>\<open>picture\<close>, in
  calls of \<^verbatim>\<open>draw_window\<close>). Every further call returns, and when it paints (all calls do but
  the removal of a hidden window and a failed configuration) the whole screen is up to date, however few
  regions were damaged, skipped or united on the way.

  The calls are legal (\<^const>\<open>wm_ok\<close>): windows are hidden when they are added and removed; they are regular, that is, of
  positive size, turned by a multiple of 90 degrees, with an opaque region within their frame, and visible when their
  opacity is 255; a configured window takes input and output and is not destroyed, and is regular in its new
  rotation; update regions are well-formed. A configuration changes position, opacity, rotation, stacking class and key selection. It
  does not change size, options, colour, colour key or opaque region, which the manager does not repaint itself. No window has a
  layer region of its own (\<^const>\<open>env_ok\<close>).
\<close>

theorem screen_shows_windows:
  assumes "displayed s d"
  shows "(\<forall>p \<in> screen s. p \<notin> upd_pixels (sd_updates s) \<longrightarrow> d p = picture s p) \<and>
    (\<forall>env c. wm_ok s c \<longrightarrow> env_ok env s \<longrightarrow>
      (\<exists>s' frames. wm_step env s c = Some (s', frames) \<and>
        (unpainted env s c \<or> (\<forall>p \<in> screen s'. foldl (present s') d frames p = picture s' p))))"
  using painted_step [OF displayed_inv [OF assms]] displayed_inv [OF assms]
  unfolding display_inv_def pending_def by blast

text \<open>A window is added to an empty stack and then shown.\<close>

definition added :: StackData where
  "added = fst (wm_add_window plain_env (plain_stack []) 1)"

lemma plain_stack_displayed: "displayed (plain_stack []) (\<lambda>p. [Paint_Background])"
  by (rule displayed.start) (auto simp: stack_regular_def plain_stack_def no_updates_ok)

lemma added_displayed: "\<exists>d. displayed added d"
proof -
  have "wm_ok (plain_stack []) (Add_Window 1)" by (auto simp: demo_simps)
  moreover have "env_ok plain_env (plain_stack [])"
    by (simp add: env_ok_def plain_env_def plain_stack_def rotated_size_def)
  moreover have "wm_step plain_env (plain_stack []) (Add_Window 1) = Some (added, snd (wm_add_window plain_env (plain_stack []) 1))"
    by (simp add: added_def)
  ultimately show ?thesis using displayed.step [OF plain_stack_displayed] by blast
qed

lemma added_fields:
  "sd_windows added = [1]" "sd_width added = 100" "sd_height added = 100" "sd_rotation added = 0"
  "sd_store added 1 = (sd_store (plain_stack []) 1)\<lparr> win_flags := 0x11 \<rparr>"
  by (simp_all add: added_def wm_add_window_def Let_def paint_updates_def process_updates_def insert_window_def plain_env_def
      plain_stack_def plain_window_def insert_at_def CWF_INSERTED_def get_priority_def split: prod.split)

theorem screen_shows_windows_witness:
  "\<exists>d s' frames. wm_step plain_env added (Restack_Window 1 None 1) = Some (s', frames) \<and>
     (\<forall>p \<in> {0..<100} \<times> {0..<100}. p \<in> screen s' \<longrightarrow> foldl (present s') d frames p = picture s' p)"
proof -
  obtain d where "displayed added d" using added_displayed by blast
  moreover have "wm_ok added (Restack_Window 1 None 1)" "env_ok plain_env added"
    by (simp_all add: added_fields env_ok_def plain_env_def rotated_size_def)
  moreover have "\<not> unpainted plain_env added (Restack_Window 1 None 1)" by (simp add: unpainted_def)
  ultimately show ?thesis using screen_shows_windows [of added d] by blast
qed

end
