(* ===== verification/Direct_List.thy ===== *)
theory Direct_List
  imports Simulation Fusion_Vector
begin

text \<open>
  The doubly linked lists of \<^verbatim>\<open>lib/direct/list.h\<close>, on a store of links addressed by pointers; \<^verbatim>\<open>NULL\<close> is
  \<^term>\<open>None\<close>. The \<^verbatim>\<open>prev\<close> pointer of the first link points to the last one. Following \<^verbatim>\<open>NULL\<close> is
  undefined and yields \<^term>\<open>None\<close>, as does a traversal that does not end. The magic number that
  debug builds check is left out.
\<close>

section \<open>Links\<close>

record DirectLink =
  ln_next :: "ptr option"
  ln_prev :: "ptr option"

type_synonym links = "ptr \<Rightarrow> DirectLink"

definition set_next :: "ptr \<Rightarrow> ptr option \<Rightarrow> links \<Rightarrow> links" where
  "set_next p v h = h(p := (h p)\<lparr> ln_next := v \<rparr>)"

definition set_prev :: "ptr \<Rightarrow> ptr option \<Rightarrow> links \<Rightarrow> links" where
  "set_prev p v h = h(p := (h p)\<lparr> ln_prev := v \<rparr>)"

section \<open>Operations\<close>

text \<open>The store and the variable that holds the list.\<close>

type_synonym dlist_state = "links \<times> ptr option"

definition direct_list_prepend :: "dlist_state \<Rightarrow> ptr \<Rightarrow> dlist_state" where
  "direct_list_prepend st link =
    (let (h, list) = st;
         h = set_next link list h;
         h = (case list of
                Some first \<Rightarrow> (let h = set_prev link (ln_prev (h first)) h in set_prev first (Some link) h)
              | None \<Rightarrow> set_prev link (Some link) h)
     in (h, Some link))"

definition direct_list_append :: "dlist_state \<Rightarrow> ptr \<Rightarrow> dlist_state option" where
  "direct_list_append st link =
    (let (h, list) = st;
         h = set_next link None h
     in case list of
          Some first \<Rightarrow> do {
            last \<leftarrow> ln_prev (h first);
            let h = set_prev link (Some last) h;
            let h = set_prev first (Some link) h;
            let h = set_next last (Some link) h;
            Some (h, list) }
        | None \<Rightarrow> Some (set_prev link (Some link) h, Some link))"

definition direct_list_insert :: "dlist_state \<Rightarrow> ptr \<Rightarrow> ptr option \<Rightarrow> dlist_state option" where
  "direct_list_insert st link before =
    (let (h, list) = st
     in if list = before then Some (direct_list_prepend st link)
        else case (list, before) of
          (Some first, Some before) \<Rightarrow> do {
            prev \<leftarrow> ln_prev (h before);
            let h = set_next prev (Some link) h;
            let h = set_prev link (Some prev) h;
            let h = set_next link (Some before) h;
            let h = set_prev before (Some link) h;
            Some (h, list) }
        | _ \<Rightarrow> direct_list_append st link)"

definition direct_list_remove :: "dlist_state \<Rightarrow> ptr \<Rightarrow> dlist_state option" where
  "direct_list_remove st link =
    (let (h, list) = st; nxt = ln_next (h link); prev = ln_prev (h link)
     in do {
       h \<leftarrow> (case nxt of
              Some n \<Rightarrow> Some (set_prev n prev h)
            | None \<Rightarrow> do { first \<leftarrow> list; Some (set_prev first prev h) });
       (h, list) \<leftarrow> (if Some link = list then Some (h, nxt)
                     else do { p \<leftarrow> prev; Some (set_next p nxt h, list) });
       Some (set_prev link None (set_next link None h), list) })"

definition direct_list_move_to_front :: "dlist_state \<Rightarrow> ptr \<Rightarrow> dlist_state option" where
  "direct_list_move_to_front st link =
    (let (h, list) = st
     in do {
       first \<leftarrow> list;
       if first = link then Some st
       else do {
         let nxt = ln_next (h link);
         prev \<leftarrow> ln_prev (h link);
         let h = (case nxt of
                    Some n \<Rightarrow> (let h = set_prev n (Some prev) h in set_prev link (ln_prev (h first)) h)
                  | None \<Rightarrow> set_prev link (Some prev) h);
         let h = set_next prev nxt h;
         let h = set_next link (Some first) h;
         let h = set_prev first (Some link) h;
         Some (h, Some link) } })"

definition direct_list_get_last :: "dlist_state \<Rightarrow> ptr option" where
  "direct_list_get_last st = (case st of (h, Some first) \<Rightarrow> ln_prev (h first) | (h, None) \<Rightarrow> None)"

partial_function (option) direct_list_contains_element_EXPENSIVE :: "links \<Rightarrow> ptr option \<Rightarrow> ptr \<Rightarrow> bool option" where
  "direct_list_contains_element_EXPENSIVE h list link =
    (case list of None \<Rightarrow> Some False
     | Some p \<Rightarrow> if p = link then Some True else direct_list_contains_element_EXPENSIVE h (ln_next (h p)) link)"

partial_function (option) direct_list_count_elements :: "links \<Rightarrow> ptr option \<Rightarrow> int \<Rightarrow> int option" where
  "direct_list_count_elements h list count =
    (case list of None \<Rightarrow> Some count | Some p \<Rightarrow> direct_list_count_elements h (ln_next (h p)) (count + 1))"

section \<open>Traversals\<close>

text \<open>A body works on the list and on a state of its own.\<close>

partial_function (option) direct_list_foreach ::
    "(ptr \<Rightarrow> dlist_state \<times> 's \<Rightarrow> (dlist_state \<times> 's) option) \<Rightarrow> ptr option \<Rightarrow> dlist_state \<times> 's \<Rightarrow> (dlist_state \<times> 's) option" where
  "direct_list_foreach body elem st =
    (case elem of None \<Rightarrow> Some st
     | Some e \<Rightarrow> do { st \<leftarrow> body e st; direct_list_foreach body (ln_next (fst (fst st) e)) st })"

definition successor :: "dlist_state \<times> 's \<Rightarrow> ptr option \<Rightarrow> ptr option" where
  "successor st elem = (case elem of Some e \<Rightarrow> ln_next (fst (fst st) e) | None \<Rightarrow> None)"

partial_function (option) foreach_safe ::
    "(ptr \<Rightarrow> dlist_state \<times> 's \<Rightarrow> (dlist_state \<times> 's) option) \<Rightarrow> ptr option \<Rightarrow> ptr option \<Rightarrow> dlist_state \<times> 's \<Rightarrow>
      (dlist_state \<times> 's) option" where
  "foreach_safe body elem temp st =
    (case elem of None \<Rightarrow> Some st
     | Some e \<Rightarrow> do { st \<leftarrow> body e st; foreach_safe body temp (successor st temp) st })"

definition direct_list_foreach_safe ::
    "(ptr \<Rightarrow> dlist_state \<times> 's \<Rightarrow> (dlist_state \<times> 's) option) \<Rightarrow> dlist_state \<times> 's \<Rightarrow> (dlist_state \<times> 's) option" where
  "direct_list_foreach_safe body st = foreach_safe body (snd (fst st)) (successor st (snd (fst st))) st"

text \<open>Backwards: the links visited; \<^verbatim>\<open>elem->prev->next\<close> is \<^verbatim>\<open>NULL\<close> just at the first link.\<close>

partial_function (option) foreach_reverse :: "links \<Rightarrow> ptr option \<Rightarrow> ptr list \<Rightarrow> ptr list option" where
  "foreach_reverse h elem seen =
    (case elem of None \<Rightarrow> Some seen
     | Some e \<Rightarrow> do {
         p \<leftarrow> ln_prev (h e);
         foreach_reverse h (if ln_next (h p) \<noteq> None then Some p else None) (seen @ [e]) })"

definition direct_list_foreach_reverse :: "dlist_state \<Rightarrow> ptr list option" where
  "direct_list_foreach_reverse st =
    (case st of (h, Some first) \<Rightarrow> foreach_reverse h (ln_prev (h first)) [] | (h, None) \<Rightarrow> Some [])"

partial_function (option) direct_list_foreach_remove :: "dlist_state \<Rightarrow> ptr list \<Rightarrow> (dlist_state \<times> ptr list) option" where
  "direct_list_foreach_remove st seen =
    (case snd st of None \<Rightarrow> Some (st, seen)
     | Some e \<Rightarrow> do { st \<leftarrow> direct_list_remove st e; direct_list_foreach_remove st (seen @ [e]) })"

section \<open>Well-formed lists\<close>

definition first_of :: "ptr list \<Rightarrow> ptr option \<Rightarrow> ptr option" where
  "first_of xs n = (case xs of [] \<Rightarrow> n | x # _ \<Rightarrow> Some x)"

definition last_of :: "ptr list \<Rightarrow> ptr option \<Rightarrow> ptr option" where
  "last_of xs p = (if xs = [] then p else Some (last xs))"

lemma ends_simps [simp]:
  "first_of [] n = n" "first_of (x # xs) n = Some x" "last_of [] p = p" "last_of (x # xs) p = last_of xs (Some x)"
  "first_of (xs @ ys) n = first_of xs (first_of ys n)" "last_of (xs @ ys) p = last_of ys (last_of xs p)"
  by (simp_all add: first_of_def last_of_def split: list.split)

text \<open>A stretch of links between a predecessor and a successor.\<close>

fun segment :: "links \<Rightarrow> ptr option \<Rightarrow> ptr list \<Rightarrow> ptr option \<Rightarrow> bool" where
  "segment h p [] n \<longleftrightarrow> True"
| "segment h p (x # xs) n \<longleftrightarrow> ln_prev (h x) = p \<and> ln_next (h x) = first_of xs n \<and> segment h (Some x) xs n"

definition dlist :: "dlist_state \<Rightarrow> ptr list \<Rightarrow> bool" where
  "dlist st xs \<longleftrightarrow> snd st = first_of xs None \<and> segment (fst st) (last_of xs None) xs None \<and> distinct xs"

lemma segment_append [simp]:
  "segment h p (xs @ ys) n \<longleftrightarrow> segment h p xs (first_of ys n) \<and> segment h (last_of xs p) ys n"
  by (induction xs arbitrary: p) auto

lemma segment_frame:
  "(\<And>x. x \<in> set xs \<Longrightarrow> h' x = h x) \<Longrightarrow> segment h' p xs n = segment h p xs n"
  by (induction xs arbitrary: p) auto

lemma set_link_simps [simp]:
  "set_next p v h q = (if q = p then (h p)\<lparr> ln_next := v \<rparr> else h q)"
  "set_prev p v h q = (if q = p then (h p)\<lparr> ln_prev := v \<rparr> else h q)"
  by (simp_all add: set_next_def set_prev_def)

lemma segment_set_link [simp]:
  "q \<notin> set xs \<Longrightarrow> segment (set_next q v h) p xs n = segment h p xs n"
  "q \<notin> set xs \<Longrightarrow> segment (set_prev q v h) p xs n = segment h p xs n"
  by (rule segment_frame; auto)+

lemma dlist_Nil [simp]: "dlist (h, l) [] \<longleftrightarrow> l = None"
  by (simp add: dlist_def)

text \<open>Links outside a set keep their values.\<close>

definition untouched :: "links \<Rightarrow> dlist_state \<Rightarrow> ptr set \<Rightarrow> bool" where
  "untouched h st A \<longleftrightarrow> (\<forall>p. p \<notin> A \<longrightarrow> fst st p = h p)"

lemma prepend_dlist:
  assumes "dlist (h, l) xs" and "x \<notin> set xs"
  shows "dlist (direct_list_prepend (h, l) x) (x # xs) \<and> untouched h (direct_list_prepend (h, l) x) (insert x (set xs))"
  using assms by (cases xs) (auto simp: direct_list_prepend_def dlist_def Let_def untouched_def)

lemma append_dlist:
  assumes "dlist (h, l) xs" and "x \<notin> set xs"
  shows "\<exists>st'. direct_list_append (h, l) x = Some st' \<and> dlist st' (xs @ [x]) \<and> untouched h st' (insert x (set xs))"
proof (cases xs)
  case Nil
  then show ?thesis using assms by (simp add: direct_list_append_def dlist_def untouched_def)
next
  case (Cons f ys)
  then show ?thesis using assms
    by (cases ys rule: rev_cases) (auto simp: direct_list_append_def dlist_def Let_def untouched_def)
qed

lemma insert_dlist:
  assumes "dlist (h, l) (as @ b # bs)" and "x \<notin> set (as @ b # bs)"
  shows "\<exists>st'. direct_list_insert (h, l) x (Some b) = Some st' \<and> dlist st' (as @ x # b # bs) \<and> untouched h st' (insert x (set (as @ b # bs)))"
proof (cases as rule: rev_cases)
  case Nil
  then have "direct_list_insert (h, l) x (Some b) = Some (direct_list_prepend (h, l) x)"
    using assms(1) by (simp add: direct_list_insert_def dlist_def)
  then show ?thesis using prepend_dlist [OF assms] Nil by auto
next
  case (snoc cs p)
  then have "l \<noteq> Some b" using assms(1) by (cases cs) (auto simp: dlist_def)
  then show ?thesis using assms snoc
    by (cases cs) (auto simp: direct_list_insert_def dlist_def Let_def untouched_def)
qed

lemma insert_last_dlist:
  assumes "dlist (h, l) xs" and "x \<notin> set xs"
  shows "\<exists>st'. direct_list_insert (h, l) x None = Some st' \<and> dlist st' (xs @ [x]) \<and> untouched h st' (insert x (set xs))"
proof (cases xs)
  case Nil
  then show ?thesis using assms by (auto simp: direct_list_insert_def direct_list_prepend_def dlist_def Let_def untouched_def)
next
  case (Cons f ys)
  then show ?thesis using append_dlist [OF assms] assms(1) by (simp add: direct_list_insert_def dlist_def)
qed

lemma remove_dlist:
  assumes "dlist (h, l) (as @ x # bs)"
  shows "\<exists>st'. direct_list_remove (h, l) x = Some st' \<and> dlist st' (as @ bs) \<and> untouched h st' (set (as @ x # bs))"
proof (cases as rule: rev_cases)
  case Nil
  then show ?thesis using assms
    by (cases bs) (auto simp: direct_list_remove_def dlist_def Let_def untouched_def)
next
  case (snoc cs p)
  then show ?thesis using assms
    by (cases cs; cases bs) (auto simp: direct_list_remove_def dlist_def Let_def untouched_def)
qed

lemma move_to_front_dlist:
  assumes "dlist (h, l) (as @ x # bs)"
  shows "\<exists>st'. direct_list_move_to_front (h, l) x = Some st' \<and> dlist st' (x # as @ bs) \<and> untouched h st' (set (as @ x # bs))"
proof (cases as rule: rev_cases)
  case Nil
  then show ?thesis using assms by (auto simp: direct_list_move_to_front_def dlist_def Let_def untouched_def)
next
  case (snoc cs p)
  then show ?thesis using assms
    by (cases cs; cases bs) (auto simp: direct_list_move_to_front_def dlist_def Let_def untouched_def)
qed

section \<open>Refinement of lists\<close>

datatype list_call = Prepend ptr | Append ptr | Insert ptr "ptr option" | Remove ptr | Move_To_Front ptr
  | Contains ptr | Count | Get_Last

datatype list_answer = Done | Found bool | Counted int | Link "ptr option"

fun do_list_call :: "dlist_state \<Rightarrow> list_call \<Rightarrow> (dlist_state \<times> list_answer) option" where
  "do_list_call st (Prepend x) = Some (direct_list_prepend st x, Done)"
| "do_list_call st (Append x) = map_option (\<lambda>st. (st, Done)) (direct_list_append st x)"
| "do_list_call st (Insert x before) = map_option (\<lambda>st. (st, Done)) (direct_list_insert st x before)"
| "do_list_call st (Remove x) = map_option (\<lambda>st. (st, Done)) (direct_list_remove st x)"
| "do_list_call st (Move_To_Front x) = map_option (\<lambda>st. (st, Done)) (direct_list_move_to_front st x)"
| "do_list_call st (Contains x) = map_option (\<lambda>b. (st, Found b)) (direct_list_contains_element_EXPENSIVE (fst st) (snd st) x)"
| "do_list_call st Count = map_option (\<lambda>n. (st, Counted n)) (direct_list_count_elements (fst st) (snd st) 0)"
| "do_list_call st Get_Last = Some (st, Link (direct_list_get_last st))"

text \<open>The specification on sequences; \<^term>\<open>None\<close> is a call the code does not allow.\<close>

fun list_spec :: "ptr list \<Rightarrow> list_call \<Rightarrow> (ptr list \<times> list_answer) option" where
  "list_spec xs (Prepend x) = (if x \<in> set xs then None else Some (x # xs, Done))"
| "list_spec xs (Append x) = (if x \<in> set xs then None else Some (xs @ [x], Done))"
| "list_spec xs (Insert x None) = (if x \<in> set xs then None else Some (xs @ [x], Done))"
| "list_spec xs (Insert x (Some b)) = (if x \<in> set xs \<or> b \<notin> set xs then None
     else Some (takeWhile (\<lambda>y. y \<noteq> b) xs @ x # dropWhile (\<lambda>y. y \<noteq> b) xs, Done))"
| "list_spec xs (Remove x) = (if x \<in> set xs then Some (remove1 x xs, Done) else None)"
| "list_spec xs (Move_To_Front x) = (if x \<in> set xs then Some (x # remove1 x xs, Done) else None)"
| "list_spec xs (Contains x) = Some (xs, Found (x \<in> set xs))"
| "list_spec xs Count = Some (xs, Counted (int (length xs)))"
| "list_spec xs Get_Last = Some (xs, Link (last_of xs None))"

fun operand :: "list_call \<Rightarrow> ptr set" where
  "operand (Prepend x) = {x}" | "operand (Append x) = {x}" | "operand (Insert x before) = {x}"
| "operand (Remove x) = {x}" | "operand (Move_To_Front x) = {x}" | "operand c = {}"

lemma contains_segment:
  "segment h p xs None \<Longrightarrow> direct_list_contains_element_EXPENSIVE h (first_of xs None) x = Some (x \<in> set xs)"
proof (induction xs arbitrary: p)
  case (Cons y ys)
  then show ?case by (subst direct_list_contains_element_EXPENSIVE.simps) auto
qed (simp add: direct_list_contains_element_EXPENSIVE.simps)

lemma count_segment:
  "segment h p xs None \<Longrightarrow> direct_list_count_elements h (first_of xs None) n = Some (n + int (length xs))"
proof (induction xs arbitrary: p n)
  case (Cons y ys)
  then show ?case by (subst direct_list_count_elements.simps) auto
qed (simp add: direct_list_count_elements.simps)

lemma get_last_dlist: "dlist st xs \<Longrightarrow> direct_list_get_last st = last_of xs None"
  by (cases xs) (auto simp: direct_list_get_last_def dlist_def split: prod.split)

lemma untouched_refl [simp]: "untouched (fst st) st A"
  by (simp add: untouched_def)

lemma split_once:
  assumes "x \<in> set xs" and "distinct xs"
  obtains as bs where "xs = as @ x # bs" "x \<notin> set as" "x \<notin> set bs"
  using assms by (metis distinct.simps(2) distinct_append not_distinct_conv_prefix split_list disjoint_iff list.set_intros(1))

lemma list_call_refines:
  assumes "dlist st xs" and "list_spec xs c = Some (ys, a)"
  shows "\<exists>st'. do_list_call st c = Some (st', a) \<and> dlist st' ys \<and> untouched (fst st) st' (set xs \<union> operand c)"
proof -
  obtain h l where st: "st = (h, l)" by force
  have dist: "distinct xs" and seg: "segment h (last_of xs None) xs None" "l = first_of xs None"
    using assms(1) by (simp_all add: dlist_def st)
  show ?thesis
  proof (cases c)
    case (Prepend x)
    then show ?thesis using assms prepend_dlist [of h l xs x] st by (auto split: if_splits)
  next
    case (Append x)
    then show ?thesis using assms append_dlist [of h l xs x] st by (auto split: if_splits)
  next
    case (Insert x before)
    show ?thesis
    proof (cases before)
      case None
      then show ?thesis using Insert assms insert_last_dlist [of h l xs x] st by (auto split: if_splits)
    next
      case (Some b)
      then have "b \<in> set xs" using Insert assms(2) by (auto split: if_splits)
      then obtain as bs where split: "xs = as @ b # bs" "b \<notin> set as" using split_once dist by metis
      then have "takeWhile (\<lambda>y. y \<noteq> b) xs = as" "dropWhile (\<lambda>y. y \<noteq> b) xs = b # bs" by (auto simp: takeWhile_tail dropWhile_append)
      then show ?thesis using Some Insert assms insert_dlist [of h l as b bs x] st split by (auto split: if_splits)
    qed
  next
    case (Remove x)
    then have x: "x \<in> set xs" using assms(2) by (auto split: if_splits)
    then obtain as bs where split: "xs = as @ x # bs" "x \<notin> set as" using split_once dist by metis
    then show ?thesis using Remove assms remove_dlist [of h l as x bs] st by (auto simp: remove1_append split: if_splits)
  next
    case (Move_To_Front x)
    then have x: "x \<in> set xs" using assms(2) by (auto split: if_splits)
    then obtain as bs where split: "xs = as @ x # bs" "x \<notin> set as" using split_once dist by metis
    then show ?thesis using Move_To_Front assms move_to_front_dlist [of h l as x bs] st by (auto simp: remove1_append split: if_splits)
  next
    case (Contains x)
    then show ?thesis using assms st seg contains_segment [OF seg(1), of x] by (auto simp: untouched_def)
  next
    case Count
    then show ?thesis using assms st seg count_segment [OF seg(1), of 0] by (auto simp: untouched_def)
  next
    case Get_Last
    then show ?thesis using assms get_last_dlist [OF assms(1)] by (auto simp: untouched_def)
  qed
qed

fun list_spec_run :: "ptr list \<Rightarrow> list_call list \<Rightarrow> (ptr list \<times> list_answer list) option" where
  "list_spec_run xs [] = Some (xs, [])"
| "list_spec_run xs (c # cs) = do {
     (xs, a) \<leftarrow> list_spec xs c;
     (xs, as) \<leftarrow> list_spec_run xs cs;
     Some (xs, a # as) }"

lemma list_spec_set:
  assumes "list_spec xs c = Some (ys, a)"
  shows "set ys \<subseteq> set xs \<union> operand c"
proof (cases c)
  case (Insert x before)
  then show ?thesis using assms
    by (cases before) (auto split: if_splits dest: set_takeWhileD set_dropWhileD)
next
  case (Remove x)
  then show ?thesis using assms set_remove1_subset [of x xs] by (auto split: if_splits)
next
  case (Move_To_Front x)
  then show ?thesis using assms set_remove1_subset [of x xs] by (auto split: if_splits)
qed (use assms in \<open>auto split: if_splits\<close>)

text \<open>
  C17: The lists are sequences. As long as only links outside the list are added and
  links of the list removed or moved, every sequence of calls returns, answers as the sequence operations do,
  leaves a well-formed list (all pointers of all links, the shortcut to the last one included) of the resulting sequence,
  and changes no link but those of the list and of the calls.
\<close>

theorem list_refines_sequence:
  assumes "dlist st xs" and "list_spec_run xs cs = Some (ys, as)"
  shows "\<exists>st'. run_calls do_list_call st cs = Some (st', as) \<and> dlist st' ys \<and>
    (\<forall>p. p \<notin> set xs \<longrightarrow> (\<forall>c \<in> set cs. p \<notin> operand c) \<longrightarrow> fst st' p = fst st p)"
  using assms
proof (induction cs arbitrary: st xs as)
  case (Cons c cs)
  obtain zs a bs where spec: "list_spec xs c = Some (zs, a)" "list_spec_run zs cs = Some (ys, bs)" "as = a # bs"
    using Cons.prems(2) by (auto split: bind_splits prod.splits)
  obtain st1 where st1: "do_list_call st c = Some (st1, a)" "dlist st1 zs" "untouched (fst st) st1 (set xs \<union> operand c)"
    using list_call_refines [OF Cons.prems(1) spec(1)] by blast
  obtain st' where "run_calls do_list_call st1 cs = Some (st', bs)" "dlist st' ys"
      "\<forall>p. p \<notin> set zs \<longrightarrow> (\<forall>c \<in> set cs. p \<notin> operand c) \<longrightarrow> fst st' p = fst st1 p"
    using Cons.IH [OF st1(2) spec(2)] by blast
  then show ?case using st1 spec(3) list_spec_set [OF spec(1)] by (auto simp: untouched_def)
qed simp

theorem list_refines_sequence_witness:
  "\<exists>st'. run_calls do_list_call ((\<lambda>p. \<lparr> ln_next = None, ln_prev = None \<rparr>), None)
      [Append 1, Prepend 2, Insert 3 (Some 1), Move_To_Front 1, Remove 2, Count, Get_Last] =
        Some (st', [Done, Done, Done, Done, Done, Counted 2, Link (Some 3)]) \<and> dlist st' [1, 3]"
proof -
  have start: "dlist ((\<lambda>p. \<lparr> ln_next = None, ln_prev = None \<rparr>), None) []" by simp
  have spec: "list_spec_run [] [Append 1, Prepend 2, Insert 3 (Some 1), Move_To_Front 1, Remove 2, Count, Get_Last] =
      Some ([1, 3], [Done, Done, Done, Done, Done, Counted 2, Link (Some 3)])"
    by (simp add: last_of_def)
  show ?thesis using list_refines_sequence [OF start spec] by blast
qed

section \<open>Traversals visit every link\<close>

text \<open>The body of a loop that records each element and takes some of them out.\<close>

definition sieve_body :: "(ptr \<Rightarrow> bool) \<Rightarrow> ptr \<Rightarrow> dlist_state \<times> ptr list \<Rightarrow> (dlist_state \<times> ptr list) option" where
  "sieve_body P e st = (if P e then do { l \<leftarrow> direct_list_remove (fst st) e; Some (l, snd st @ [e]) }
     else Some (fst st, snd st @ [e]))"

lemma dlist_next: "dlist st (as @ x # bs) \<Longrightarrow> ln_next (fst st x) = first_of bs None"
  by (simp add: dlist_def)

lemma foreach_safe_sieve:
  assumes "dlist st (kept @ rest)"
  shows "\<exists>st'. foreach_safe (sieve_body P) (first_of rest None) (successor (st, seen) (first_of rest None)) (st, seen) = Some (st', seen @ rest) \<and>
    dlist st' (kept @ filter (\<lambda>x. \<not> P x) rest)"
  using assms
proof (induction rest arbitrary: st kept seen)
  case Nil
  then show ?case by (simp add: foreach_safe.simps)
next
  case (Cons x rest)
  have nxt: "successor (st, seen) (Some x) = first_of rest None" using dlist_next [OF Cons.prems] by (simp add: successor_def)
  show ?case
  proof (cases "P x")
    case True
    obtain st1 where st1: "direct_list_remove st x = Some st1" "dlist st1 (kept @ rest)"
      using remove_dlist [of "fst st" "snd st" kept x rest] Cons.prems by auto
    have "sieve_body P x (st, seen) = Some (st1, seen @ [x])" using True st1(1) by (simp add: sieve_body_def)
    then show ?thesis
      using Cons.IH [OF st1(2), of "seen @ [x]"] nxt True by (subst foreach_safe.simps) simp
  next
    case False
    have "dlist st ((kept @ [x]) @ rest)" using Cons.prems by simp
    moreover have "sieve_body P x (st, seen) = Some (st, seen @ [x])" using False by (simp add: sieve_body_def)
    ultimately show ?thesis
      using Cons.IH [of st "kept @ [x]" "seen @ [x]"] nxt False by (subst foreach_safe.simps) (simp add: successor_def)
  qed
qed

lemma foreach_keep:
  assumes "dlist st (before @ rest)"
  shows "direct_list_foreach (sieve_body (\<lambda>_. False)) (first_of rest None) (st, seen) = Some (st, seen @ rest)"
  using assms
proof (induction rest arbitrary: before seen)
  case Nil
  then show ?case by (simp add: direct_list_foreach.simps)
next
  case (Cons x rest)
  have "dlist st ((before @ [x]) @ rest)" using Cons.prems by simp
  moreover have "sieve_body (\<lambda>_. False) x (st, seen) = Some (st, seen @ [x])" by (simp add: sieve_body_def)
  ultimately show ?case
    using Cons.IH [of "before @ [x]" "seen @ [x]"] dlist_next [OF Cons.prems] by (subst direct_list_foreach.simps) simp
qed

lemma foreach_reverse_visits:
  assumes "segment h (last_of (xs @ ys) None) (xs @ ys) None" and "xs \<noteq> []" and "distinct (xs @ ys)"
  shows "foreach_reverse h (Some (last xs)) seen = Some (seen @ rev xs)"
  using assms
proof (induction xs arbitrary: ys seen rule: rev_induct)
  case (snoc x xs)
  show ?case
  proof (cases xs rule: rev_cases)
    case Nil
    have "ln_next (h (last (x # ys))) = None"
      using snoc.prems(1) Nil by (cases ys rule: rev_cases) auto
    then show ?thesis using snoc.prems Nil
      by (subst foreach_reverse.simps) (simp add: last_of_def foreach_reverse.simps)
  next
    case (snoc cs p)
    have "ln_prev (h x) = Some p" "ln_next (h p) = Some x" using snoc.prems(1) snoc by auto
    then show ?thesis using snoc.IH [of "x # ys" "seen @ [x]"] snoc.prems snoc
      by (subst foreach_reverse.simps) simp
  qed
qed simp

lemma foreach_remove_empties:
  "dlist st xs \<Longrightarrow> \<exists>st'. direct_list_foreach_remove st seen = Some (st', seen @ xs) \<and> dlist st' []"
proof (induction xs arbitrary: st seen)
  case Nil
  then show ?case by (cases st) (simp add: direct_list_foreach_remove.simps)
next
  case (Cons x xs)
  obtain st1 where st1: "direct_list_remove st x = Some st1" "dlist st1 xs"
    using remove_dlist [of "fst st" "snd st" "[]" x xs] Cons.prems by auto
  have "snd st = Some x" using Cons.prems by (simp add: dlist_def)
  then show ?case using Cons.IH [OF st1(2), of "seen @ [x]"] st1(1)
    by (subst direct_list_foreach_remove.simps) simp
qed

text \<open>
  C27: The loops over a list visit each link exactly once and end. On a well-formed list the plain loop visits
  the links in order, the reverse one in reverse order, the one that saves its successor visits them in order
  even if its body takes some of them out, which leaves just the others, and the removing one
  empties the list.
\<close>

theorem list_loops_visit_all:
  assumes "dlist st xs"
  shows "direct_list_foreach (sieve_body (\<lambda>_. False)) (snd st) (st, []) = Some (st, xs) \<and>
    direct_list_foreach_reverse st = Some (rev xs) \<and>
    (\<exists>st'. direct_list_foreach_safe (sieve_body P) (st, []) = Some (st', xs) \<and> dlist st' (filter (\<lambda>x. \<not> P x) xs)) \<and>
    (\<exists>st'. direct_list_foreach_remove st [] = Some (st', xs) \<and> dlist st' [])"
proof (intro conjI)
  have first: "snd st = first_of xs None" using assms by (simp add: dlist_def)
  show "direct_list_foreach (sieve_body (\<lambda>_. False)) (snd st) (st, []) = Some (st, xs)"
    unfolding first using foreach_keep [of st "[]" xs "[]"] assms by simp
  show "\<exists>st'. direct_list_foreach_safe (sieve_body P) (st, []) = Some (st', xs) \<and> dlist st' (filter (\<lambda>x. \<not> P x) xs)"
    using foreach_safe_sieve [of st "[]" xs P "[]"] assms first by (simp add: direct_list_foreach_safe_def)
  show "\<exists>st'. direct_list_foreach_remove st [] = Some (st', xs) \<and> dlist st' []"
    using foreach_remove_empties [OF assms, of "[]"] by simp
  show "direct_list_foreach_reverse st = Some (rev xs)"
  proof (cases xs)
    case Nil
    then show ?thesis using assms by (cases st) (simp add: direct_list_foreach_reverse_def)
  next
    case (Cons f ys)
    then have "ln_prev (fst st f) = Some (last xs)" "snd st = Some f" using assms by (auto simp: dlist_def last_of_def)
    then show ?thesis using foreach_reverse_visits [of "fst st" xs "[]" "[]"] assms Cons
      by (cases st) (simp add: direct_list_foreach_reverse_def dlist_def)
  qed
qed

text \<open>Three links, of which the middle one is taken out.\<close>

definition three_links :: dlist_state where
  "three_links = ((\<lambda>p. if p = 1 then \<lparr> ln_next = Some 2, ln_prev = Some 3 \<rparr>
     else if p = 2 then \<lparr> ln_next = Some 3, ln_prev = Some 1 \<rparr> else \<lparr> ln_next = None, ln_prev = Some 2 \<rparr>), Some 1)"

theorem list_loops_visit_all_witness:
  "direct_list_foreach_reverse three_links = Some [3, 2, 1] \<and>
   (\<exists>st'. direct_list_foreach_safe (sieve_body (\<lambda>x. x = 2)) (three_links, []) = Some (st', [1, 2, 3]) \<and> dlist st' [1, 3])"
proof -
  have "dlist three_links [1, 2, 3]" by (simp add: dlist_def three_links_def last_of_def)
  then show ?thesis using list_loops_visit_all [of three_links "[1, 2, 3]" "\<lambda>x. x = 2"] by simp
qed

end
