(* ===== verification/Fusion_Hash.thy ===== *)
theory Fusion_Hash
  imports Simulation Fusion_Vector
begin

text \<open>
  The chained hash table of \<^verbatim>\<open>lib/fusion/hash.c\<close>, for pointer, integer and string keys. A bucket is the
  sequence of its nodes, a node a pair of key and value. The memory that string keys point to is a parameter: the characters
  (\<^verbatim>\<open>signed char\<close>) up to the terminating zero. Whether an allocation succeeds is an argument; keys
  and values given back by the automatic freeing are logged.
\<close>

section \<open>Keys\<close>

datatype FusionHashType = HASH_PTR | HASH_STRING | HASH_INT

type_synonym FusionHashNode = "ptr \<times> ptr"

record FusionHash =
  fh_local :: bool
  fh_key_type :: FusionHashType
  fh_value_type :: FusionHashType
  fh_size :: int
  fh_nnodes :: int
  fh_nodes :: "FusionHashNode list list"
  fh_free_keys :: bool
  fh_free_values :: bool
  fh_freed :: "ptr list"

definition FUSION_HASH_MIN_SIZE :: int where "FUSION_HASH_MIN_SIZE = 11"
definition FUSION_HASH_MAX_SIZE :: int where "FUSION_HASH_MAX_SIZE = 13845163"

definition fusion_primes :: "int list" where
  "fusion_primes = [11, 19, 37, 73, 109, 163, 251, 367, 557, 823, 1237, 1861, 2777, 4177, 6247, 9371, 14057, 21089, 31627,
     47431, 71143, 106721, 160073, 240101, 360163, 540217, 810343, 1215497, 1823231, 2734867, 4102283, 6153409, 9230113,
     13845163]"

definition fusion_spaced_primes_closest :: "int \<Rightarrow> int" where
  "fusion_spaced_primes_closest num = (case find (\<lambda>p. p > num) fusion_primes of Some p \<Rightarrow> p | None \<Rightarrow> last fusion_primes)"

type_synonym strings = "ptr \<Rightarrow> int list"

definition HASH_STR :: "int list \<Rightarrow> u32" where
  "HASH_STR s = (case s of [] \<Rightarrow> 0 | c # cs \<Rightarrow> foldl (\<lambda>h c. push_bit 5 h - h + word_of_int c) (word_of_int c) cs)"

definition hash_val :: "strings \<Rightarrow> FusionHashType \<Rightarrow> int \<Rightarrow> ptr \<Rightarrow> nat" where
  "hash_val str key_type sz key =
     nat (if key_type = HASH_STRING then uint (HASH_STR (str key)) mod sz else uint key mod sz)"

definition same_key :: "strings \<Rightarrow> FusionHashType \<Rightarrow> ptr \<Rightarrow> ptr \<Rightarrow> bool" where
  "same_key str key_type a b \<longleftrightarrow> (if key_type = HASH_STRING then str a = str b else a = b)"

section \<open>Operations\<close>

text \<open>The bucket of a key, and the place of the node in it, which is the end when there is none.\<close>

fun chain_index :: "(ptr \<Rightarrow> bool) \<Rightarrow> FusionHashNode list \<Rightarrow> nat" where
  "chain_index found [] = 0"
| "chain_index found (n # ns) = (if found (fst n) then 0 else Suc (chain_index found ns))"

definition fusion_hash_lookup_node :: "strings \<Rightarrow> FusionHash \<Rightarrow> ptr \<Rightarrow> nat \<times> nat" where
  "fusion_hash_lookup_node str hash key =
    (let b = hash_val str (fh_key_type hash) (fh_size hash) key
     in (b, chain_index (\<lambda>k. same_key str (fh_key_type hash) k key) (fh_nodes hash ! b)))"

definition out_of_memory :: "FusionHash \<Rightarrow> DirectResult" where
  "out_of_memory hash = (if fh_local hash then DR_NOLOCALMEMORY else DR_NOSHAREDMEMORY)"

text \<open>
  The arguments after \<open>local\<close>: whether a pool and a place for the result are given, and whether the two allocations succeed.
\<close>

definition fusion_hash_create_internal ::
    "bool \<Rightarrow> bool \<Rightarrow> bool \<Rightarrow> bool \<Rightarrow> bool \<Rightarrow> FusionHashType \<Rightarrow> FusionHashType \<Rightarrow> int \<Rightarrow> DirectResult + FusionHash" where
  "fusion_hash_create_internal local pool ret_hash avail avail' key_type value_type sz =
    (if \<not> ret_hash then Inl DR_BUG
     else if \<not> local \<and> \<not> pool then Inl DR_BUG
     else if \<not> avail \<or> \<not> avail' then Inl (if local then DR_NOLOCALMEMORY else DR_NOSHAREDMEMORY)
     else let sz = (if sz < FUSION_HASH_MIN_SIZE then FUSION_HASH_MIN_SIZE else sz)
          in Inr \<lparr> fh_local = local, fh_key_type = key_type, fh_value_type = value_type, fh_size = sz, fh_nnodes = 0,
               fh_nodes = replicate (nat sz) [], fh_free_keys = False, fh_free_values = False, fh_freed = [] \<rparr>)"

definition fusion_hash_create_local where
  "fusion_hash_create_local = fusion_hash_create_internal True False"

definition fusion_hash_create where
  "fusion_hash_create pool = fusion_hash_create_internal False pool"

definition fusion_hash_set_autofree :: "FusionHash \<Rightarrow> bool \<Rightarrow> bool \<Rightarrow> FusionHash" where
  "fusion_hash_set_autofree hash free_keys free_values =
     hash\<lparr> fh_free_keys := free_keys, fh_free_values := free_values \<rparr>"

definition fusion_hash_lookup :: "strings \<Rightarrow> FusionHash \<Rightarrow> ptr \<Rightarrow> ptr" where
  "fusion_hash_lookup str hash key =
    (let (b, i) = fusion_hash_lookup_node str hash key; chain = fh_nodes hash ! b
     in if i < length chain then snd (chain ! i) else 0)"

definition fusion_hash_should_resize :: "FusionHash \<Rightarrow> bool option" where
  "fusion_hash_should_resize hash = do {
     n3 \<leftarrow> chk (3 * fh_nnodes hash);
     if fh_size hash \<ge> n3 \<and> fh_size hash > FUSION_HASH_MIN_SIZE then Some True
     else do {
       s3 \<leftarrow> chk (3 * fh_size hash);
       Some (s3 \<le> fh_nnodes hash \<and> fh_size hash < FUSION_HASH_MAX_SIZE) } }"

definition rehash_node :: "strings \<Rightarrow> FusionHashType \<Rightarrow> int \<Rightarrow> FusionHashNode list list \<Rightarrow> FusionHashNode \<Rightarrow> FusionHashNode list list" where
  "rehash_node str key_type sz nodes node =
    (let b = hash_val str key_type sz (fst node) in nodes[b := node # nodes ! b])"

definition new_size :: "FusionHash \<Rightarrow> int" where
  "new_size hash = max FUSION_HASH_MIN_SIZE (min FUSION_HASH_MAX_SIZE (fusion_spaced_primes_closest (fh_nnodes hash)))"

text \<open>The function is declared to return a result code, but ends with \<^verbatim>\<open>return true\<close>, which is none of them.\<close>

definition fusion_hash_resize :: "strings \<Rightarrow> bool \<Rightarrow> FusionHash \<Rightarrow> FusionHash \<times> (DirectResult + bool)" where
  "fusion_hash_resize str avail hash =
    (if \<not> avail then (hash, Inl (out_of_memory hash))
     else
       (hash\<lparr> fh_nodes := foldl (rehash_node str (fh_key_type hash) (new_size hash)) (replicate (nat (new_size hash)) [])
                            (concat (fh_nodes hash)),
              fh_size := new_size hash \<rparr>,
        Inr True))"

definition fusion_hash_insert ::
    "strings \<Rightarrow> bool \<Rightarrow> bool \<Rightarrow> FusionHash \<Rightarrow> ptr \<Rightarrow> ptr \<Rightarrow> (FusionHash \<times> DirectResult) option" where
  "fusion_hash_insert str avail avail' hash key val =
    (let (b, i) = fusion_hash_lookup_node str hash key; chain = fh_nodes hash ! b
     in if i < length chain then Some (hash, DR_BUG)
        else if \<not> avail then Some (hash, out_of_memory hash)
        else do {
          n \<leftarrow> chk (fh_nnodes hash + 1);
          let hash = hash\<lparr> fh_nodes := (fh_nodes hash)[b := chain @ [(key, val)]], fh_nnodes := n \<rparr>;
          resize \<leftarrow> fusion_hash_should_resize hash;
          Some (if resize then fst (fusion_hash_resize str avail' hash) else hash, DR_OK) })"

text \<open>What is given back when the caller does not ask for it.\<close>

definition give_back :: "FusionHashType \<Rightarrow> bool \<Rightarrow> bool \<Rightarrow> ptr \<Rightarrow> ptr list" where
  "give_back type free wanted p = (if wanted \<or> type = HASH_INT \<or> \<not> free then [] else [p])"

definition drop_entry :: "FusionHash \<Rightarrow> bool \<Rightarrow> bool \<Rightarrow> FusionHashNode \<Rightarrow> FusionHash" where
  "drop_entry hash want_key want_value node =
     hash\<lparr> fh_freed := fh_freed hash @ give_back (fh_key_type hash) (fh_free_keys hash) want_key (fst node) @
             give_back (fh_value_type hash) (fh_free_values hash) want_value (snd node) \<rparr>"

definition fusion_hash_replace ::
    "strings \<Rightarrow> bool \<Rightarrow> FusionHash \<Rightarrow> ptr \<Rightarrow> ptr \<Rightarrow> bool \<Rightarrow> bool \<Rightarrow> (FusionHash \<times> DirectResult \<times> FusionHashNode option) option" where
  "fusion_hash_replace str avail hash key val want_key want_value =
    (let (b, i) = fusion_hash_lookup_node str hash key; chain = fh_nodes hash ! b
     in if i < length chain then
          Some ((drop_entry hash want_key want_value (chain ! i))\<lparr> fh_nodes := (fh_nodes hash)[b := chain[i := (key, val)]] \<rparr>,
                DR_OK, Some (chain ! i))
        else if \<not> avail then Some (hash, out_of_memory hash, None)
        else do {
          n \<leftarrow> chk (fh_nnodes hash + 1);
          Some (hash\<lparr> fh_nodes := (fh_nodes hash)[b := chain @ [(key, val)]], fh_nnodes := n \<rparr>, DR_OK, None) })"

definition fusion_hash_remove ::
    "strings \<Rightarrow> FusionHash \<Rightarrow> ptr \<Rightarrow> bool \<Rightarrow> bool \<Rightarrow> FusionHash \<times> DirectResult \<times> FusionHashNode option" where
  "fusion_hash_remove str hash key want_key want_value =
    (let (b, i) = fusion_hash_lookup_node str hash key; chain = fh_nodes hash ! b
     in if i < length chain then
          ((drop_entry hash want_key want_value (chain ! i))\<lparr>
             fh_nodes := (fh_nodes hash)[b := take i chain @ drop (Suc i) chain], fh_nnodes := fh_nnodes hash - 1 \<rparr>,
           DR_OK, Some (chain ! i))
        else (hash, DR_OK, None))"

definition fusion_hash_size :: "FusionHash \<Rightarrow> int" where
  "fusion_hash_size hash = fh_nnodes hash"

section \<open>Iteration\<close>

text \<open>The callback works on a state of its own and ends the iteration by returning true.\<close>

fun iterate_nodes :: "(ptr \<Rightarrow> ptr \<Rightarrow> 's \<Rightarrow> bool \<times> 's) \<Rightarrow> FusionHashNode list \<Rightarrow> 's \<Rightarrow> 's" where
  "iterate_nodes func [] ctx = ctx"
| "iterate_nodes func (n # ns) ctx =
    (let (stop, ctx) = func (fst n) (snd n) ctx in if stop then ctx else iterate_nodes func ns ctx)"

definition fusion_hash_iterate :: "FusionHash \<Rightarrow> (ptr \<Rightarrow> ptr \<Rightarrow> 's \<Rightarrow> bool \<times> 's) \<Rightarrow> 's \<Rightarrow> 's" where
  "fusion_hash_iterate hash func ctx = iterate_nodes func (concat (fh_nodes hash)) ctx"

definition fusion_hash_destroy :: "FusionHash \<Rightarrow> ptr list" where
  "fusion_hash_destroy hash = fh_freed (foldl (\<lambda>h n. drop_entry h False False n) hash (concat (fh_nodes hash)))"

text \<open>The iterator: its bucket and the rest of the chain. A null pointer is returned at the end.\<close>

record FusionHashIterator =
  it_index :: int
  it_next :: "FusionHashNode list"

function next_bucket :: "FusionHash \<Rightarrow> int \<Rightarrow> ptr \<times> FusionHashIterator" where
  "next_bucket hash i =
    (if i < fh_size hash then
       (case fh_nodes hash ! nat i of
          [] \<Rightarrow> next_bucket hash (i + 1)
        | n # ns \<Rightarrow> (snd n, \<lparr> it_index = i, it_next = ns \<rparr>))
     else (0, \<lparr> it_index = i, it_next = [] \<rparr>))"
  by pat_completeness auto
termination by (relation "measure (\<lambda>(hash, i). nat (fh_size hash - i))") auto

declare next_bucket.simps [simp del]

definition fusion_hash_iterator_next :: "FusionHash \<Rightarrow> FusionHashIterator \<Rightarrow> ptr \<times> FusionHashIterator" where
  "fusion_hash_iterator_next hash it =
    (case it_next it of
       n # ns \<Rightarrow> (snd n, it\<lparr> it_next := ns \<rparr>)
     | [] \<Rightarrow> next_bucket hash (it_index it + 1))"

definition fusion_hash_iterator_init :: "FusionHash \<Rightarrow> ptr \<times> FusionHashIterator" where
  "fusion_hash_iterator_init hash = fusion_hash_iterator_next hash \<lparr> it_index = - 1, it_next = [] \<rparr>"

text \<open>The loop of \<^verbatim>\<open>fusion_hash_foreach\<close>, with the values its body sees.\<close>

partial_function (option) foreach_hash_from :: "FusionHash \<Rightarrow> ptr \<Rightarrow> FusionHashIterator \<Rightarrow> ptr list option" where
  "foreach_hash_from hash elem it =
    (if elem = 0 then Some []
     else do {
       seen \<leftarrow> foreach_hash_from hash (fst (fusion_hash_iterator_next hash it)) (snd (fusion_hash_iterator_next hash it));
       Some (elem # seen) })"

definition fusion_hash_foreach :: "FusionHash \<Rightarrow> ptr list option" where
  "fusion_hash_foreach hash = (let (elem, it) = fusion_hash_iterator_init hash in foreach_hash_from hash elem it)"

section \<open>Chains as maps\<close>

text \<open>Keys as the table compares them: by the text they point to, or by the pointer.\<close>

datatype hash_key = Text "int list" | Address ptr

definition canon :: "strings \<Rightarrow> FusionHashType \<Rightarrow> ptr \<Rightarrow> hash_key" where
  "canon str key_type key = (if key_type = HASH_STRING then Text (str key) else Address key)"

fun home_bucket :: "int \<Rightarrow> hash_key \<Rightarrow> nat" where
  "home_bucket sz (Text s) = nat (uint (HASH_STR s) mod sz)"
| "home_bucket sz (Address p) = nat (uint p mod sz)"

lemma hash_val_home: "hash_val str t sz key = home_bucket sz (canon str t key)"
  by (simp add: hash_val_def canon_def)

lemma same_key_canon: "same_key str t a b \<longleftrightarrow> canon str t a = canon str t b"
  by (simp add: same_key_def canon_def)

lemma home_bucket_less: "0 < sz \<Longrightarrow> home_bucket sz c < nat sz"
  by (cases c) auto

abbreviation node_key :: "strings \<Rightarrow> FusionHashType \<Rightarrow> FusionHashNode \<Rightarrow> hash_key" where
  "node_key str t n \<equiv> canon str t (fst n)"

definition chain_map :: "('n \<Rightarrow> 'k) \<Rightarrow> 'n list \<Rightarrow> 'k \<Rightarrow> 'n option" where
  "chain_map ck ns c = find (\<lambda>n. ck n = c) ns"

lemma chain_map_Nil [simp]: "chain_map ck [] = Map.empty"
  by (auto simp: chain_map_def)

lemma chain_map_Cons [simp]: "chain_map ck (n # ns) = (chain_map ck ns)(ck n \<mapsto> n)"
  by (auto simp: chain_map_def fun_eq_iff)

lemma chain_map_None_iff: "chain_map ck ns c = None \<longleftrightarrow> c \<notin> ck ` set ns"
  by (auto simp: chain_map_def find_None_iff)

lemma chain_map_dom: "dom (chain_map ck ns) = ck ` set ns"
  by (rule set_eqI) (metis chain_map_None_iff domIff)

lemma chain_map_append: "chain_map ck (xs @ ys) = chain_map ck ys ++ chain_map ck xs"
  by (induction xs) (auto simp: fun_eq_iff map_add_def split: option.splits)

lemma chain_map_Some: "distinct (map ck ns) \<Longrightarrow> chain_map ck ns c = Some n \<longleftrightarrow> n \<in> set ns \<and> ck n = c"
  by (induction ns) (auto simp: image_iff)

lemma chain_map_ran: "distinct (map ck ns) \<Longrightarrow> ran (chain_map ck ns) = set ns"
  by (auto simp: ran_def chain_map_Some)

lemma chain_map_cong:
  fixes ck :: "'n \<Rightarrow> 'k"
  assumes "distinct (map ck xs)" "distinct (map ck ys)" "\<And>n. ck n = c \<Longrightarrow> n \<in> set xs \<longleftrightarrow> n \<in> set ys"
  shows "chain_map ck xs c = chain_map ck ys c"
proof (cases "chain_map ck ys c")
  case None
  then have "c \<notin> ck ` set xs" using assms(3) unfolding chain_map_None_iff by blast
  then show ?thesis using None chain_map_None_iff [of ck xs c] by simp
next
  case (Some n)
  then have "n \<in> set ys" "ck n = c" using chain_map_Some [OF assms(2)] by auto
  then show ?thesis using Some assms(3) chain_map_Some [OF assms(1)] by simp
qed

text \<open>What the search of a chain finds, and what storing and unlinking at its end do.\<close>

lemma chain_index_cases:
  obtains (absent) "chain_index P ns = length ns" "\<forall>n \<in> set ns. \<not> P (fst n)"
  | (present) "chain_index P ns < length ns" "P (fst (ns ! chain_index P ns))"
      "\<forall>n \<in> set (take (chain_index P ns) ns). \<not> P (fst n)"
proof (atomize_elim, induction ns)
  case (Cons n ns)
  then show ?case by auto
qed simp

lemma split_at: "i < length xs \<Longrightarrow> xs = take i xs @ xs ! i # drop (Suc i) xs"
  by (rule id_take_nth_drop)

lemma chain_replace:
  assumes i: "i < length ns" and "distinct (map ck ns)" and key: "ck n = ck (ns ! i)"
  shows "chain_map ck (ns[i := n]) = (chain_map ck ns)(ck n \<mapsto> n) \<and> map ck (ns[i := n]) = map ck ns"
proof
  show "map ck (ns[i := n]) = map ck ns" using key by (metis i list_update_id map_update nth_map)
  define a b where "a = take i ns" and "b = drop (Suc i) ns"
  have ns: "ns = a @ ns ! i # b" unfolding a_def b_def by (rule split_at [OF i])
  have "ck n \<notin> ck ` set a" using assms(2) key ns by (metis (no_types, lifting) distinct_map disjoint_iff distinct_append
      image_eqI list.set_intros(1) map_append list.simps(9) image_set set_map)
  then have "chain_map ck a (ck n) = None" by (simp add: chain_map_None_iff)
  moreover have "ns[i := n] = a @ n # b" unfolding a_def b_def using i by (rule upd_conv_take_nth_drop)
  moreover have "chain_map ck ns = (chain_map ck b)(ck n \<mapsto> ns ! i) ++ chain_map ck a"
    by (subst ns) (simp add: chain_map_append key)
  ultimately have "chain_map ck (ns[i := n]) c = ((chain_map ck ns)(ck n \<mapsto> n)) c" for c
    by (cases "chain_map ck a c") (auto simp: chain_map_append map_add_def)
  then show "chain_map ck (ns[i := n]) = (chain_map ck ns)(ck n \<mapsto> n)" by (rule ext)
qed

lemma chain_unlink:
  assumes i: "i < length ns" and "distinct (map ck ns)"
  shows "chain_map ck (take i ns @ drop (Suc i) ns) = (chain_map ck ns)(ck (ns ! i) := None) \<and>
    distinct (map ck (take i ns @ drop (Suc i) ns)) \<and> set (take i ns @ drop (Suc i) ns) \<subseteq> set ns"
proof -
  define a b where "a = take i ns" and "b = drop (Suc i) ns"
  have ns: "ns = a @ ns ! i # b" unfolding a_def b_def by (rule split_at [OF i])
  have "distinct (map ck (a @ ns ! i # b))" using assms(2) ns by metis
  then have d: "distinct (map ck (a @ b))" "ck (ns ! i) \<notin> ck ` set a" "ck (ns ! i) \<notin> ck ` set b" by auto
  have "chain_map ck ns = (chain_map ck b)(ck (ns ! i) \<mapsto> ns ! i) ++ chain_map ck a"
    by (subst ns) (simp add: chain_map_append)
  moreover have none: "chain_map ck a (ck (ns ! i)) = None" "chain_map ck b (ck (ns ! i)) = None"
    using d by (simp_all add: chain_map_None_iff)
  ultimately have "(chain_map ck b ++ chain_map ck a) c = ((chain_map ck ns)(ck (ns ! i) := None)) c" for c
    by (cases "chain_map ck a c") (auto simp: map_add_def)
  then have "chain_map ck (a @ b) = (chain_map ck ns)(ck (ns ! i) := None)"
    unfolding chain_map_append by (rule ext)
  moreover have "set (a @ b) \<subseteq> set ns" by (metis a_def b_def set_append set_drop_subset set_take_subset Un_least)
  ultimately show ?thesis unfolding a_def [symmetric] b_def [symmetric] using d(1) by blast
qed

section \<open>The invariant\<close>

text \<open>
  Every node is in the bucket of its key, no key is twice in a bucket, and the count is that of the
  nodes. Then the table is one finite map, whichever way the nodes are spread.
\<close>

abbreviation hash_ck :: "strings \<Rightarrow> FusionHash \<Rightarrow> FusionHashNode \<Rightarrow> hash_key" where
  "hash_ck str hash \<equiv> node_key str (fh_key_type hash)"

definition buckets_ok :: "(FusionHashNode \<Rightarrow> hash_key) \<Rightarrow> int \<Rightarrow> FusionHashNode list list \<Rightarrow> bool" where
  "buckets_ok ck sz nodes \<longleftrightarrow> 0 < sz \<and> length nodes = nat sz \<and>
     (\<forall>b < length nodes. distinct (map ck (nodes ! b)) \<and> (\<forall>n \<in> set (nodes ! b). home_bucket sz (ck n) = b))"

definition hash_ok :: "strings \<Rightarrow> FusionHash \<Rightarrow> bool" where
  "hash_ok str hash \<longleftrightarrow> buckets_ok (hash_ck str hash) (fh_size hash) (fh_nodes hash) \<and> 11 \<le> fh_size hash \<and>
     3 * fh_size hash < 2 ^ 31 \<and> fh_nnodes hash = int (length (concat (fh_nodes hash)))"

definition buckets_map :: "(FusionHashNode \<Rightarrow> hash_key) \<Rightarrow> int \<Rightarrow> FusionHashNode list list \<Rightarrow> hash_key \<Rightarrow> FusionHashNode option" where
  "buckets_map ck sz nodes c = chain_map ck (nodes ! home_bucket sz c) c"

definition hash_map :: "strings \<Rightarrow> FusionHash \<Rightarrow> hash_key \<Rightarrow> FusionHashNode option" where
  "hash_map str hash = buckets_map (hash_ck str hash) (fh_size hash) (fh_nodes hash)"

lemma buckets_home: "buckets_ok ck sz nodes \<Longrightarrow> home_bucket sz c < length nodes"
  by (simp add: buckets_ok_def home_bucket_less)

lemma buckets_distinct:
  assumes ok: "buckets_ok ck sz nodes"
  shows "distinct (map ck (concat nodes))"
proof -
  have "distinct (map ck (concat (take k nodes))) \<and> (\<forall>n \<in> set (concat (take k nodes)). home_bucket sz (ck n) < k)"
    if "k \<le> length nodes" for k
    using that
  proof (induction k)
    case (Suc k)
    then have k: "k < length nodes" by simp
    have "distinct (map ck (nodes ! k))" "\<forall>n \<in> set (nodes ! k). home_bucket sz (ck n) = k"
      using ok k by (auto simp: buckets_ok_def)
    moreover have "ck ` set (concat (take k nodes)) \<inter> ck ` set (nodes ! k) = {}"
    proof (rule equals0I, elim IntE imageE)
      fix c n n' assume "c = ck n" "n \<in> set (concat (take k nodes))" "c = ck n'" "n' \<in> set (nodes ! k)"
      then show False using Suc calculation(2) by (metis Suc_leD less_irrefl)
    qed
    ultimately show ?case using Suc by (auto simp: take_Suc_conv_app_nth [OF k] less_Suc_eq)
  qed simp
  from this [of "length nodes"] show ?thesis by simp
qed

lemma buckets_map_concat:
  assumes ok: "buckets_ok ck sz nodes"
  shows "buckets_map ck sz nodes = chain_map ck (concat nodes)"
proof
  fix c
  let ?b = "home_bucket sz c"
  have b: "?b < length nodes" by (rule buckets_home [OF ok])
  have "n \<in> set (nodes ! ?b) \<longleftrightarrow> n \<in> set (concat nodes)" if "ck n = c" for n
  proof
    assume "n \<in> set (concat nodes)"
    then obtain k where "k < length nodes" "n \<in> set (nodes ! k)" by (auto simp: in_set_conv_nth [of _ nodes])
    then show "n \<in> set (nodes ! ?b)" using ok that by (auto simp: buckets_ok_def)
  qed (use b in auto)
  then show "buckets_map ck sz nodes c = chain_map ck (concat nodes) c"
    unfolding buckets_map_def using buckets_distinct [OF ok] ok b
    by (intro chain_map_cong) (auto simp: buckets_ok_def)
qed

lemma hash_map_concat: "hash_ok str hash \<Longrightarrow> hash_map str hash = chain_map (hash_ck str hash) (concat (fh_nodes hash))"
  unfolding hash_map_def by (rule buckets_map_concat) (simp add: hash_ok_def)

lemma hash_nnodes_card:
  assumes "hash_ok str hash"
  shows "fh_nnodes hash = int (card (dom (hash_map str hash)))"
proof -
  have "distinct (map (hash_ck str hash) (concat (fh_nodes hash)))"
    using assms buckets_distinct by (auto simp: hash_ok_def)
  then show ?thesis
    using assms distinct_card [of "map (hash_ck str hash) (concat (fh_nodes hash))"]
    by (simp only: hash_map_concat [OF assms] chain_map_dom set_map length_map hash_ok_def)
qed

text \<open>Changing one bucket changes the map at the key the bucket gains or loses.\<close>

lemma length_concat_update:
  "b < length nodes \<Longrightarrow> length (concat (nodes[b := ns])) + length (nodes ! b) = length (concat nodes) + length ns"
proof (induction nodes arbitrary: b)
  case (Cons m nodes)
  then show ?case by (cases b) auto
qed simp

lemma buckets_update:
  assumes ok: "buckets_ok ck sz nodes" and b: "b = home_bucket sz c"
    and "distinct (map ck ns)" and "\<forall>n \<in> set ns. n \<in> set (nodes ! b) \<or> ck n = c"
    and map: "chain_map ck ns = (chain_map ck (nodes ! b))(c := v)"
  shows "buckets_ok ck sz (nodes[b := ns]) \<and> buckets_map ck sz (nodes[b := ns]) = (buckets_map ck sz nodes)(c := v)"
proof
  have len: "b < length nodes" unfolding b by (rule buckets_home [OF ok])
  show "buckets_ok ck sz (nodes[b := ns])"
    using ok assms(3,4) len b unfolding buckets_ok_def by (auto simp: nth_list_update)
  show "buckets_map ck sz (nodes[b := ns]) = (buckets_map ck sz nodes)(c := v)"
    using map len b by (auto simp: buckets_map_def nth_list_update fun_eq_iff)
qed

text \<open>Where the search for a key ends.\<close>

lemma lookup_node_cases:
  assumes ok: "hash_ok str hash"
    and node: "fusion_hash_lookup_node str hash key = (b, i)"
  defines "c \<equiv> canon str (fh_key_type hash) key"
  shows "b = home_bucket (fh_size hash) c \<and> b < length (fh_nodes hash) \<and>
    hash_map str hash c = (if i < length (fh_nodes hash ! b) then Some (fh_nodes hash ! b ! i) else None) \<and>
    (i < length (fh_nodes hash ! b) \<longrightarrow> hash_ck str hash (fh_nodes hash ! b ! i) = c)"
proof -
  have b: "b = home_bucket (fh_size hash) c" and i: "i = chain_index (\<lambda>k. same_key str (fh_key_type hash) k key) (fh_nodes hash ! b)"
    using node by (auto simp: fusion_hash_lookup_node_def hash_val_home c_def Let_def)
  have len: "b < length (fh_nodes hash)" unfolding b using ok buckets_home unfolding hash_ok_def by blast
  have d: "distinct (map (hash_ck str hash) (fh_nodes hash ! b))" using ok len by (auto simp: hash_ok_def buckets_ok_def)
  have "chain_map (hash_ck str hash) (fh_nodes hash ! b) c =
      (if i < length (fh_nodes hash ! b) then Some (fh_nodes hash ! b ! i) else None) \<and>
    (i < length (fh_nodes hash ! b) \<longrightarrow> hash_ck str hash (fh_nodes hash ! b ! i) = c)"
  proof (cases rule: chain_index_cases [of "\<lambda>k. same_key str (fh_key_type hash) k key" "fh_nodes hash ! b"])
    case absent
    then show ?thesis unfolding i by (auto simp: chain_map_None_iff same_key_canon c_def)
  next
    case present
    then show ?thesis unfolding i using chain_map_Some [OF d] by (simp add: same_key_canon c_def)
  qed
  then show ?thesis using b len by (simp add: hash_map_def buckets_map_def)
qed

section \<open>Each operation on the map\<close>

lemma rehash_all:
  assumes "buckets_ok (node_key str t) sz nodes" and "distinct (map (node_key str t) es)"
    and "\<forall>n \<in> set es. buckets_map (node_key str t) sz nodes (node_key str t n) = None"
  shows "buckets_ok (node_key str t) sz (foldl (rehash_node str t sz) nodes es) \<and>
    buckets_map (node_key str t) sz (foldl (rehash_node str t sz) nodes es) =
      buckets_map (node_key str t) sz nodes ++ chain_map (node_key str t) es \<and>
    length (concat (foldl (rehash_node str t sz) nodes es)) = length (concat nodes) + length es"
  using assms
proof (induction es arbitrary: nodes)
  case (Cons n es)
  let ?ck = "node_key str t"
  define b where "b = home_bucket sz (?ck n)"
  have step: "rehash_node str t sz nodes n = nodes[b := n # nodes ! b]" by (simp add: rehash_node_def hash_val_home b_def Let_def)
  have len: "b < length nodes" unfolding b_def by (rule buckets_home [OF Cons.prems(1)])
  have fresh: "chain_map ?ck (nodes ! b) (?ck n) = None" using Cons.prems(3) by (simp add: buckets_map_def b_def)
  have "distinct (map ?ck (nodes ! b))" using Cons.prems(1) len by (simp add: buckets_ok_def)
  then have ok: "buckets_ok ?ck sz (nodes[b := n # nodes ! b])"
    and map: "buckets_map ?ck sz (nodes[b := n # nodes ! b]) = (buckets_map ?ck sz nodes)(?ck n := Some n)"
    using buckets_update [OF Cons.prems(1) b_def, of "n # nodes ! b" "Some n"] fresh
    by (auto simp: chain_map_None_iff)
  have "\<forall>m \<in> set es. ?ck m \<noteq> ?ck n"
    using Cons.prems(2) by (metis (no_types, lifting) distinct.simps(2) image_eqI list.simps(9) list.set_map)
  then have "distinct (map ?ck es)" "\<forall>m \<in> set es. buckets_map ?ck sz (nodes[b := n # nodes ! b]) (?ck m) = None"
    unfolding map using Cons.prems(2,3) by simp_all
  from Cons.IH [OF ok this]
  have IH: "buckets_ok ?ck sz (foldl (rehash_node str t sz) (nodes[b := n # nodes ! b]) es)"
    "buckets_map ?ck sz (foldl (rehash_node str t sz) (nodes[b := n # nodes ! b]) es) =
      (buckets_map ?ck sz nodes)(?ck n := Some n) ++ chain_map ?ck es"
    "length (concat (foldl (rehash_node str t sz) (nodes[b := n # nodes ! b]) es)) =
      length (concat (nodes[b := n # nodes ! b])) + length es" unfolding map by blast+
  have "chain_map ?ck es (?ck n) = None" using Cons.prems(2) by (simp add: chain_map_None_iff)
  then have "(buckets_map ?ck sz nodes)(?ck n := Some n) ++ chain_map ?ck es = buckets_map ?ck sz nodes ++ chain_map ?ck (n # es)"
    by (auto simp: map_add_def fun_eq_iff split: option.splits)
  moreover have "length (concat (nodes[b := n # nodes ! b])) = Suc (length (concat nodes))"
    using length_concat_update [OF len, of "n # nodes ! b"] by simp
  ultimately show ?case using IH by (simp add: step del: fun_upd_apply chain_map_Cons)
qed simp

lemma empty_buckets:
  "0 < sz \<Longrightarrow> buckets_ok ck sz (replicate (nat sz) []) \<and> buckets_map ck sz (replicate (nat sz) []) = Map.empty"
  by (auto simp: buckets_ok_def buckets_map_def home_bucket_less fun_eq_iff)

lemma new_size_bounds: "11 \<le> new_size hash \<and> new_size hash \<le> 13845163"
  by (auto simp: new_size_def FUSION_HASH_MIN_SIZE_def FUSION_HASH_MAX_SIZE_def)

text \<open>What the calls leave of the table besides its nodes, and how many nodes there are.\<close>

definition hash_becomes :: "strings \<Rightarrow> FusionHash \<Rightarrow> (hash_key \<Rightarrow> FusionHashNode option) \<Rightarrow> FusionHash \<Rightarrow> bool" where
  "hash_becomes str hash m hash' \<longleftrightarrow> hash_ok str hash' \<and> hash_map str hash' = m \<and>
     fh_key_type hash' = fh_key_type hash \<and> fh_local hash' = fh_local hash"

lemma resize_keeps:
  assumes ok: "hash_ok str hash"
  shows "hash_becomes str hash (hash_map str hash) (fst (fusion_hash_resize str avail hash)) \<and>
    fh_nnodes (fst (fusion_hash_resize str avail hash)) = fh_nnodes hash"
proof (cases avail)
  case False
  then show ?thesis using ok by (simp add: hash_becomes_def fusion_hash_resize_def)
next
  case True
  let ?sz = "new_size hash" and ?es = "concat (fh_nodes hash)" and ?ck = "hash_ck str hash"
  have sz: "0 < ?sz" "11 \<le> ?sz" "3 * ?sz < 2 ^ 31" using new_size_bounds [of hash] by auto
  have "distinct (map ?ck ?es)" using ok buckets_distinct unfolding hash_ok_def by blast
  note all = rehash_all [where str = str and t = "fh_key_type hash", OF conjunct1 [OF empty_buckets [OF sz(1)]] this]
  have "hash_map str hash = chain_map ?ck ?es" using hash_map_concat [OF ok] .
  then show ?thesis
    using all empty_buckets [OF sz(1), of ?ck] sz ok True
    by (simp add: fusion_hash_resize_def hash_becomes_def hash_ok_def hash_map_def)
qed

lemma drop_entry_simps [simp]:
  "fh_local (drop_entry hash wk wv n) = fh_local hash" "fh_key_type (drop_entry hash wk wv n) = fh_key_type hash"
  "fh_size (drop_entry hash wk wv n) = fh_size hash" "fh_nnodes (drop_entry hash wk wv n) = fh_nnodes hash"
  "fh_nodes (drop_entry hash wk wv n) = fh_nodes hash"
  by (simp_all add: drop_entry_def)

lemma append_fresh:
  assumes ok: "hash_ok str hash" and node: "fusion_hash_lookup_node str hash key = (b, i)"
    and absent: "\<not> i < length (fh_nodes hash ! b)"
  shows "hash_becomes str hash ((hash_map str hash)(canon str (fh_key_type hash) key \<mapsto> (key, val)))
    (hash\<lparr> fh_nodes := (fh_nodes hash)[b := fh_nodes hash ! b @ [(key, val)]], fh_nnodes := fh_nnodes hash + 1 \<rparr>)"
proof -
  let ?c = "canon str (fh_key_type hash) key" and ?ns = "fh_nodes hash ! b" and ?ck = "hash_ck str hash"
  note at = lookup_node_cases [OF ok node]
  have bo: "buckets_ok ?ck (fh_size hash) (fh_nodes hash)" using ok by (simp add: hash_ok_def)
  have b: "b = home_bucket (fh_size hash) ?c" "b < length (fh_nodes hash)" using at by auto
  have none: "chain_map ?ck ?ns ?c = None" using at absent b by (simp add: hash_map_def buckets_map_def)
  have "distinct (map ?ck ?ns)" using bo b by (simp add: buckets_ok_def)
  moreover have "chain_map ?ck (?ns @ [(key, val)]) = (chain_map ?ck ?ns)(?c := Some (key, val))"
    using none by (auto simp: chain_map_append map_add_def fun_eq_iff split: option.splits)
  ultimately have "buckets_ok ?ck (fh_size hash) ((fh_nodes hash)[b := ?ns @ [(key, val)]]) \<and>
    buckets_map ?ck (fh_size hash) ((fh_nodes hash)[b := ?ns @ [(key, val)]]) =
      (buckets_map ?ck (fh_size hash) (fh_nodes hash))(?c := Some (key, val))"
    using none by (intro buckets_update [OF bo b(1)]) (auto simp: chain_map_None_iff)
  then show ?thesis
    using ok length_concat_update [OF b(2), of "?ns @ [(key, val)]"]
    by (simp add: hash_becomes_def hash_ok_def hash_map_def)
qed

lemma insert_keeps:
  assumes ok: "hash_ok str hash" and few: "3 * (fh_nnodes hash + 1) < 2 ^ 31"
    and c_def: "c = canon str (fh_key_type hash) key"
  shows "\<exists>hash' r. fusion_hash_insert str avail avail' hash key val = Some (hash', r) \<and>
    r = (if hash_map str hash c \<noteq> None then DR_BUG else if avail then DR_OK else out_of_memory hash) \<and>
    hash_becomes str hash (if r = DR_OK then (hash_map str hash)(c \<mapsto> (key, val)) else hash_map str hash) hash' \<and>
    fh_nnodes hash' \<le> fh_nnodes hash + 1"
proof -
  obtain b i where node: "fusion_hash_lookup_node str hash key = (b, i)" by fastforce
  note at = lookup_node_cases [OF ok node, folded c_def]
  have same: "hash_becomes str hash (hash_map str hash) hash" using ok by (simp add: hash_becomes_def)
  consider (present) "i < length (fh_nodes hash ! b)" | (oom) "\<not> i < length (fh_nodes hash ! b)" "\<not> avail"
    | (fresh) "\<not> i < length (fh_nodes hash ! b)" "avail" by blast
  then show ?thesis
  proof cases
    case fresh
    define h where "h = hash\<lparr> fh_nodes := (fh_nodes hash)[b := fh_nodes hash ! b @ [(key, val)]], fh_nnodes := fh_nnodes hash + 1 \<rparr>"
    have h: "hash_becomes str hash ((hash_map str hash)(c \<mapsto> (key, val))) h"
      using append_fresh [OF ok node fresh(1), of val] by (simp add: h_def c_def)
    have hok: "hash_ok str h" using h by (simp add: hash_becomes_def)
    have n: "0 \<le> fh_nnodes hash" using ok by (simp add: hash_ok_def)
    have "\<exists>x. fusion_hash_should_resize h = Some x"
      using hok n few by (auto simp: fusion_hash_should_resize_def h_def hash_ok_def chk_def int32_def)
    then obtain x where x: "fusion_hash_should_resize h = Some x" by blast
    have "fusion_hash_insert str avail avail' hash key val = Some (if x then fst (fusion_hash_resize str avail' h) else h, DR_OK)"
      using fresh n few x by (simp add: fusion_hash_insert_def node chk_def int32_def h_def [symmetric])
    moreover have "hash_becomes str hash ((hash_map str hash)(c \<mapsto> (key, val))) (if x then fst (fusion_hash_resize str avail' h) else h) \<and>
        fh_nnodes (if x then fst (fusion_hash_resize str avail' h) else h) = fh_nnodes hash + 1"
      using resize_keeps [OF hok, of avail'] h by (auto simp: hash_becomes_def h_def)
    ultimately show ?thesis using at fresh by simp
  qed (use at same in \<open>auto simp: fusion_hash_insert_def node out_of_memory_def\<close>)
qed

lemma replace_keeps:
  assumes ok: "hash_ok str hash" and few: "3 * (fh_nnodes hash + 1) < 2 ^ 31"
    and c_def: "c = canon str (fh_key_type hash) key"
  shows "\<exists>hash' r. fusion_hash_replace str avail hash key val wk wv = Some (hash', r, hash_map str hash c) \<and>
    r = (if hash_map str hash c = None \<and> \<not> avail then out_of_memory hash else DR_OK) \<and>
    hash_becomes str hash (if r = DR_OK then (hash_map str hash)(c \<mapsto> (key, val)) else hash_map str hash) hash' \<and>
    fh_nnodes hash' \<le> fh_nnodes hash + 1"
proof -
  obtain b i where node: "fusion_hash_lookup_node str hash key = (b, i)" by fastforce
  note at = lookup_node_cases [OF ok node, folded c_def]
  have same: "hash_becomes str hash (hash_map str hash) hash" using ok by (simp add: hash_becomes_def)
  have n: "0 \<le> fh_nnodes hash" using ok by (simp add: hash_ok_def)
  let ?ns = "fh_nodes hash ! b" and ?ck = "hash_ck str hash"
  consider (present) "i < length ?ns" | (oom) "\<not> i < length ?ns" "\<not> avail"
    | (fresh) "\<not> i < length ?ns" "avail" by blast
  then show ?thesis
  proof cases
    case present
    have bo: "buckets_ok ?ck (fh_size hash) (fh_nodes hash)" using ok by (simp add: hash_ok_def)
    have b: "b = home_bucket (fh_size hash) c" "b < length (fh_nodes hash)" using at by auto
    have d: "distinct (map ?ck ?ns)" using bo b by (simp add: buckets_ok_def)
    have found: "hash_map str hash c = Some (?ns ! i)" "?ck (?ns ! i) = c" using at present by auto
    then have key: "?ck (key, val) = ?ck (?ns ! i)" by (simp add: c_def)
    note put = chain_replace [OF present d key]
    have "distinct (map ?ck (?ns[i := (key, val)]))" using put d by metis
    then have "buckets_ok ?ck (fh_size hash) ((fh_nodes hash)[b := ?ns[i := (key, val)]]) \<and>
      buckets_map ?ck (fh_size hash) ((fh_nodes hash)[b := ?ns[i := (key, val)]]) =
        (buckets_map ?ck (fh_size hash) (fh_nodes hash))(c := Some (key, val))"
      using put set_update_subset_insert [of ?ns i "(key, val)"]
      by (intro buckets_update [OF bo b(1)]) (auto simp: c_def)
    then have "hash_becomes str hash ((hash_map str hash)(c \<mapsto> (key, val)))
        ((drop_entry hash wk wv (?ns ! i))\<lparr> fh_nodes := (fh_nodes hash)[b := ?ns[i := (key, val)]] \<rparr>)"
      using ok length_concat_update [OF b(2), of "?ns[i := (key, val)]"]
      by (simp add: hash_becomes_def hash_ok_def hash_map_def)
    then show ?thesis using found present by (simp add: fusion_hash_replace_def node Let_def)
  next
    case fresh
    then show ?thesis using at append_fresh [OF ok node fresh(1), of val] n few
      by (simp add: fusion_hash_replace_def node chk_def int32_def c_def [symmetric])
  qed (use at same in \<open>auto simp: fusion_hash_replace_def node out_of_memory_def\<close>)
qed

lemma remove_keeps:
  assumes ok: "hash_ok str hash" and c_def: "c = canon str (fh_key_type hash) key"
  shows "\<exists>hash'. fusion_hash_remove str hash key wk wv = (hash', DR_OK, hash_map str hash c) \<and>
    hash_becomes str hash ((hash_map str hash)(c := None)) hash' \<and> fh_nnodes hash' \<le> fh_nnodes hash"
proof -
  obtain b i where node: "fusion_hash_lookup_node str hash key = (b, i)" by fastforce
  note at = lookup_node_cases [OF ok node, folded c_def]
  let ?ns = "fh_nodes hash ! b" and ?ck = "hash_ck str hash"
  show ?thesis
  proof (cases "i < length ?ns")
    case False
    then have "(hash_map str hash)(c := None) = hash_map str hash" using at by auto
    then show ?thesis using at ok False by (simp add: fusion_hash_remove_def node hash_becomes_def)
  next
    case True
    let ?rest = "take i ?ns @ drop (Suc i) ?ns"
    have bo: "buckets_ok ?ck (fh_size hash) (fh_nodes hash)" using ok by (simp add: hash_ok_def)
    have b: "b = home_bucket (fh_size hash) c" "b < length (fh_nodes hash)" using at by auto
    have d: "distinct (map ?ck ?ns)" using bo b by (simp add: buckets_ok_def)
    have found: "hash_map str hash c = Some (?ns ! i)" "?ck (?ns ! i) = c" using at True by auto
    note cut = chain_unlink [OF True d]
    have "buckets_ok ?ck (fh_size hash) ((fh_nodes hash)[b := ?rest]) \<and>
      buckets_map ?ck (fh_size hash) ((fh_nodes hash)[b := ?rest]) = (buckets_map ?ck (fh_size hash) (fh_nodes hash))(c := None)"
      using cut at True by (intro buckets_update [OF bo b(1)]) auto
    moreover have "fh_nnodes hash - 1 = int (length (concat ((fh_nodes hash)[b := ?rest])))"
      using ok length_concat_update [OF b(2), of ?rest] True by (simp add: hash_ok_def)
    ultimately have "hash_becomes str hash ((hash_map str hash)(c := None))
        ((drop_entry hash wk wv (?ns ! i))\<lparr> fh_nodes := (fh_nodes hash)[b := ?rest], fh_nnodes := fh_nnodes hash - 1 \<rparr>)"
      using ok by (simp add: hash_becomes_def hash_ok_def hash_map_def)
    then show ?thesis using found True by (simp add: fusion_hash_remove_def node Let_def)
  qed
qed

lemma lookup_map:
  assumes ok: "hash_ok str hash"
  shows "fusion_hash_lookup str hash key =
    (case hash_map str hash (canon str (fh_key_type hash) key) of Some n \<Rightarrow> snd n | None \<Rightarrow> 0)"
proof -
  obtain b i where node: "fusion_hash_lookup_node str hash key = (b, i)" by fastforce
  show ?thesis using lookup_node_cases [OF ok node] by (simp add: fusion_hash_lookup_def node)
qed

section \<open>Iterating\<close>

text \<open>The nodes an iterator has still to visit.\<close>

definition unvisited :: "FusionHash \<Rightarrow> FusionHashIterator \<Rightarrow> FusionHashNode list" where
  "unvisited hash it = it_next it @ concat (drop (nat (it_index it + 1)) (fh_nodes hash))"

lemma next_bucket_visits:
  assumes "length (fh_nodes hash) = nat (fh_size hash)" and "0 \<le> i"
  shows "fst (next_bucket hash i) = (case concat (drop (nat i) (fh_nodes hash)) of [] \<Rightarrow> 0 | n # _ \<Rightarrow> snd n) \<and>
    unvisited hash (snd (next_bucket hash i)) = tl (concat (drop (nat i) (fh_nodes hash))) \<and>
    -1 \<le> it_index (snd (next_bucket hash i))"
  using assms
proof (induction hash i rule: next_bucket.induct)
  case (1 hash i)
  show ?case
  proof (cases "i < fh_size hash")
    case False
    then show ?thesis using 1(2,3) by (simp add: next_bucket.simps [of hash i] unvisited_def)
  next
    case True
    then have i: "nat i < length (fh_nodes hash)" "nat (i + 1) = Suc (nat i)" using 1(2,3) by auto
    have rest: "concat (drop (nat i) (fh_nodes hash)) = fh_nodes hash ! nat i @ concat (drop (Suc (nat i)) (fh_nodes hash))"
      using Cons_nth_drop_Suc [OF i(1)] by (metis concat.simps(2))
    show ?thesis
    proof (cases "fh_nodes hash ! nat i")
      case Nil
      have skip: "next_bucket hash i = next_bucket hash (i + 1)" using True Nil by (simp add: next_bucket.simps [of hash i])
      show ?thesis using 1(1) [OF True Nil 1(2)] 1(3) i rest Nil unfolding skip by simp
    next
      case (Cons n ns)
      then show ?thesis using True 1(3) i rest by (simp add: next_bucket.simps [of hash i] unvisited_def)
    qed
  qed
qed

lemma iterator_next_visits:
  assumes "length (fh_nodes hash) = nat (fh_size hash)" and "-1 \<le> it_index it"
  shows "fst (fusion_hash_iterator_next hash it) = (case unvisited hash it of [] \<Rightarrow> 0 | n # _ \<Rightarrow> snd n) \<and>
    unvisited hash (snd (fusion_hash_iterator_next hash it)) = tl (unvisited hash it) \<and>
    -1 \<le> it_index (snd (fusion_hash_iterator_next hash it))"
proof (cases "it_next it")
  case Nil
  then show ?thesis using next_bucket_visits [OF assms(1), of "it_index it + 1"] assms(2)
    by (simp add: fusion_hash_iterator_next_def unvisited_def)
next
  case (Cons n ns)
  then show ?thesis using assms(2) by (simp add: fusion_hash_iterator_next_def unvisited_def)
qed

lemma foreach_hash_from_visits:
  assumes "length (fh_nodes hash) = nat (fh_size hash)" and "-1 \<le> it_index it"
  shows "foreach_hash_from hash (fst (fusion_hash_iterator_next hash it)) (snd (fusion_hash_iterator_next hash it)) =
    Some (takeWhile (\<lambda>v. v \<noteq> 0) (map snd (unvisited hash it)))"
  using assms
proof (induction "unvisited hash it" arbitrary: it)
  case Nil
  then show ?case using iterator_next_visits [of hash it] by (simp add: foreach_hash_from.simps)
next
  case (Cons n ns)
  note now = iterator_next_visits [OF Cons.prems]
  have left: "unvisited hash it = n # ns" using Cons.hyps(2) by simp
  show ?case
  proof (cases "snd n = 0")
    case True
    then show ?thesis using now by (simp add: left foreach_hash_from.simps)
  next
    case False
    have "foreach_hash_from hash (fst (fusion_hash_iterator_next hash (snd (fusion_hash_iterator_next hash it))))
        (snd (fusion_hash_iterator_next hash (snd (fusion_hash_iterator_next hash it)))) =
      Some (takeWhile (\<lambda>v. v \<noteq> 0) (map snd (unvisited hash (snd (fusion_hash_iterator_next hash it)))))"
      using now left by (intro Cons.hyps(1)) (auto simp: Cons.prems)
    then show ?thesis using False now by (simp add: left foreach_hash_from.simps [of hash "snd n"])
  qed
qed

lemma foreach_visits:
  "length (fh_nodes hash) = nat (fh_size hash) \<Longrightarrow>
    fusion_hash_foreach hash = Some (takeWhile (\<lambda>v. v \<noteq> 0) (map snd (concat (fh_nodes hash))))"
  using foreach_hash_from_visits [of hash "\<lparr> it_index = - 1, it_next = [] \<rparr>"]
  by (simp add: fusion_hash_foreach_def fusion_hash_iterator_init_def unvisited_def case_prod_beta)

lemma iterate_collects:
  "iterate_nodes (\<lambda>k v seen. (False, seen @ [(k, v)])) ns seen = seen @ ns"
  by (induction ns arbitrary: seen) auto

section \<open>The table answers as a finite map\<close>

text \<open>
  The calls of a client. The last two run an iteration to its end, with a callback that
  collects what it is given.
\<close>

datatype hash_call = Hash_Insert ptr ptr bool bool | Hash_Replace ptr ptr bool bool bool | Hash_Remove ptr bool bool
  | Hash_Lookup ptr | Hash_Size | Hash_Resize bool | Hash_Autofree bool bool | Hash_Iterate | Hash_Foreach

datatype hash_answer = Result DirectResult | Resized "DirectResult + bool" | Old DirectResult "FusionHashNode option"
  | Value ptr | Count int | Visited "FusionHashNode list" | Values "ptr list" | Nothing_Said

fun call_hash :: "strings \<Rightarrow> FusionHash \<Rightarrow> hash_call \<Rightarrow> (FusionHash \<times> hash_answer) option" where
  "call_hash str hash (Hash_Insert k v avail avail') = do {
     (hash, r) \<leftarrow> fusion_hash_insert str avail avail' hash k v; Some (hash, Result r) }"
| "call_hash str hash (Hash_Replace k v avail wk wv) = do {
     (hash, r, old) \<leftarrow> fusion_hash_replace str avail hash k v wk wv; Some (hash, Old r old) }"
| "call_hash str hash (Hash_Remove k wk wv) =
     (let (hash, r, old) = fusion_hash_remove str hash k wk wv in Some (hash, Old r old))"
| "call_hash str hash (Hash_Lookup k) = Some (hash, Value (fusion_hash_lookup str hash k))"
| "call_hash str hash Hash_Size = Some (hash, Count (fusion_hash_size hash))"
| "call_hash str hash (Hash_Resize avail) = (let (hash, r) = fusion_hash_resize str avail hash in Some (hash, Resized r))"
| "call_hash str hash (Hash_Autofree fk fv) = Some (fusion_hash_set_autofree hash fk fv, Nothing_Said)"
| "call_hash str hash Hash_Iterate =
     Some (hash, Visited (fusion_hash_iterate hash (\<lambda>k v seen. (False, seen @ [(k, v)])) []))"
| "call_hash str hash Hash_Foreach = do { vs \<leftarrow> fusion_hash_foreach hash; Some (hash, Values vs) }"

text \<open>
  A finite map from keys, as the table compares them, to the key and value last stored. \<open>oom\<close> is
  the error of a failed allocation. The iterations go through the map in some order,
  \<^verbatim>\<open>fusion_hash_foreach\<close> only up to the first value that is null.
\<close>

definition enumerates :: "('k \<Rightarrow> 'n option) \<Rightarrow> 'n list \<Rightarrow> bool" where
  "enumerates m ns \<longleftrightarrow> set ns = ran m \<and> distinct ns \<and> length ns = card (dom m)"

fun map_step :: "strings \<Rightarrow> FusionHashType \<Rightarrow> DirectResult \<Rightarrow> (hash_key \<Rightarrow> FusionHashNode option) \<Rightarrow> hash_call \<Rightarrow>
    hash_answer \<Rightarrow> (hash_key \<Rightarrow> FusionHashNode option) \<Rightarrow> bool" where
  "map_step str t oom m (Hash_Insert k v avail _) a m' \<longleftrightarrow>
     (if m (canon str t k) \<noteq> None then a = Result DR_BUG \<and> m' = m
      else if avail then a = Result DR_OK \<and> m' = m(canon str t k \<mapsto> (k, v)) else a = Result oom \<and> m' = m)"
| "map_step str t oom m (Hash_Replace k v avail _ _) a m' \<longleftrightarrow>
     (if m (canon str t k) = None \<and> \<not> avail then a = Old oom None \<and> m' = m
      else a = Old DR_OK (m (canon str t k)) \<and> m' = m(canon str t k \<mapsto> (k, v)))"
| "map_step str t oom m (Hash_Remove k _ _) a m' \<longleftrightarrow>
     a = Old DR_OK (m (canon str t k)) \<and> m' = m(canon str t k := None)"
| "map_step str t oom m (Hash_Lookup k) a m' \<longleftrightarrow>
     a = Value (case m (canon str t k) of Some n \<Rightarrow> snd n | None \<Rightarrow> 0) \<and> m' = m"
| "map_step str t oom m Hash_Size a m' \<longleftrightarrow> a = Count (int (card (dom m))) \<and> m' = m"
| "map_step str t oom m (Hash_Resize avail) a m' \<longleftrightarrow> a = Resized (if avail then Inr True else Inl oom) \<and> m' = m"
| "map_step str t oom m (Hash_Autofree _ _) a m' \<longleftrightarrow> a = Nothing_Said \<and> m' = m"
| "map_step str t oom m Hash_Iterate a m' \<longleftrightarrow> (\<exists>ns. enumerates m ns \<and> a = Visited ns) \<and> m' = m"
| "map_step str t oom m Hash_Foreach a m' \<longleftrightarrow>
     (\<exists>ns. enumerates m ns \<and> a = Values (takeWhile (\<lambda>v. v \<noteq> 0) (map snd ns))) \<and> m' = m"

definition no_memory :: "bool \<Rightarrow> DirectResult" where
  "no_memory local = (if local then DR_NOLOCALMEMORY else DR_NOSHAREDMEMORY)"

definition hash_rep :: "strings \<Rightarrow> FusionHashType \<Rightarrow> bool \<Rightarrow> nat \<Rightarrow> FusionHash \<Rightarrow> (hash_key \<Rightarrow> FusionHashNode option) \<Rightarrow> bool" where
  "hash_rep str t local room hash m \<longleftrightarrow> hash_ok str hash \<and> hash_map str hash = m \<and> fh_key_type hash = t \<and>
     fh_local hash = local \<and> 3 * (fh_nnodes hash + int room) < 2 ^ 31"

lemma hash_enumerates:
  assumes ok: "hash_ok str hash"
  shows "enumerates (hash_map str hash) (concat (fh_nodes hash))"
proof -
  have "distinct (map (hash_ck str hash) (concat (fh_nodes hash)))" using ok buckets_distinct unfolding hash_ok_def by blast
  then have "set (concat (fh_nodes hash)) = ran (hash_map str hash)" "distinct (concat (fh_nodes hash))"
    unfolding hash_map_concat [OF ok] using chain_map_ran distinct_map by fast+
  moreover have "int (length (concat (fh_nodes hash))) = int (card (dom (hash_map str hash)))"
    using hash_nnodes_card [OF ok] ok unfolding hash_ok_def by simp
  ultimately show ?thesis unfolding enumerates_def by simp
qed

lemma hash_rep_becomes:
  assumes "hash_rep str t local (Suc room) hash m" "hash_becomes str hash m' hash'" "fh_nnodes hash' \<le> fh_nnodes hash + 1"
  shows "hash_rep str t local room hash' m'"
  using assms by (auto simp: hash_rep_def hash_becomes_def)

lemma call_hash_simulates:
  assumes rep: "hash_rep str t local (Suc room) hash m"
  shows "\<exists>hash' a m'. call_hash str hash op = Some (hash', a) \<and> map_step str t (no_memory local) m op a m' \<and>
    hash_rep str t local room hash' m'"
proof -
  have ok: "hash_ok str hash" and m: "hash_map str hash = m" and t: "fh_key_type hash = t" and
    oom: "out_of_memory hash = no_memory local" and few: "3 * (fh_nnodes hash + 1) < 2 ^ 31"
    using rep by (auto simp: hash_rep_def no_memory_def out_of_memory_def)
  have same: "hash_rep str t local room hash m" using rep by (simp add: hash_rep_def)
  have all: "enumerates m (concat (fh_nodes hash))" using hash_enumerates [OF ok] m by simp
  have size: "fh_nnodes hash = int (card (dom m))" using hash_nnodes_card [OF ok] m by simp
  have len: "length (fh_nodes hash) = nat (fh_size hash)" using ok by (simp add: hash_ok_def buckets_ok_def)
  show ?thesis
  proof (cases op)
    case (Hash_Insert k v avail avail')
    obtain hash' r where "fusion_hash_insert str avail avail' hash k v = Some (hash', r)"
        "r = (if m (canon str t k) \<noteq> None then DR_BUG else if avail then DR_OK else no_memory local)"
        "hash_becomes str hash (if r = DR_OK then m(canon str t k \<mapsto> (k, v)) else m) hash'" "fh_nnodes hash' \<le> fh_nnodes hash + 1"
      using insert_keeps [OF ok few refl, of avail avail' k v, unfolded m t oom] by blast
    then show ?thesis using hash_rep_becomes [OF rep] Hash_Insert by (auto simp: no_memory_def)
  next
    case (Hash_Replace k v avail wk wv)
    obtain hash' r where "fusion_hash_replace str avail hash k v wk wv = Some (hash', r, m (canon str t k))"
        "r = (if m (canon str t k) = None \<and> \<not> avail then no_memory local else DR_OK)"
        "hash_becomes str hash (if r = DR_OK then m(canon str t k \<mapsto> (k, v)) else m) hash'" "fh_nnodes hash' \<le> fh_nnodes hash + 1"
      using replace_keeps [OF ok few refl, of avail k v wk wv, unfolded m t oom] by blast
    then show ?thesis using hash_rep_becomes [OF rep] Hash_Replace by (auto simp: no_memory_def)
  next
    case (Hash_Remove k wk wv)
    obtain hash' where "fusion_hash_remove str hash k wk wv = (hash', DR_OK, m (canon str t k))"
        "hash_becomes str hash (m(canon str t k := None)) hash'" "fh_nnodes hash' \<le> fh_nnodes hash"
      using remove_keeps [OF ok refl, of k wk wv, unfolded m t] by blast
    then show ?thesis using hash_rep_becomes [OF rep, of "m(canon str t k := None)" hash'] Hash_Remove by auto
  next
    case (Hash_Resize avail)
    have "hash_rep str t local room (fst (fusion_hash_resize str avail hash)) m"
      using hash_rep_becomes [OF rep] resize_keeps [OF ok, of avail] m by simp
    then show ?thesis using Hash_Resize oom by (cases avail) (auto simp: fusion_hash_resize_def)
  next
    case (Hash_Autofree fk fv)
    have "hash_becomes str hash m (fusion_hash_set_autofree hash fk fv)"
      using ok m by (simp add: hash_becomes_def fusion_hash_set_autofree_def hash_ok_def hash_map_def)
    then show ?thesis using hash_rep_becomes [OF rep] Hash_Autofree by (simp add: fusion_hash_set_autofree_def)
  next
    case Hash_Foreach
    then show ?thesis using same all foreach_visits [OF len] by auto
  next
    case Hash_Iterate
    then show ?thesis using same all by (simp add: fusion_hash_iterate_def iterate_collects)
  qed (use same lookup_map [OF ok] m t size in \<open>auto simp: fusion_hash_size_def\<close>)
qed

interpretation fhash: simulation "hash_rep str t local" "call_hash str" "map_step str t (no_memory local)" "\<lambda>_. True"
  for str t local
  by unfold_locales (rule call_hash_simulates)

lemma hash_rep_create:
  assumes "fusion_hash_create_internal local pool True True True t vt sz = Inr hash" and "sz \<le> 2 ^ 29" and "n \<le> 2 ^ 29"
  shows "hash_rep str t local n hash Map.empty"
proof -
  define s where "s = (if sz < FUSION_HASH_MIN_SIZE then FUSION_HASH_MIN_SIZE else sz)"
  have s: "11 \<le> s" "3 * s < 2 ^ 31" "0 < s" using assms(2) by (auto simp: s_def FUSION_HASH_MIN_SIZE_def)
  have n: "3 * int n < 2 ^ 31" using assms(3) by simp
  show ?thesis
    using assms(1) empty_buckets [OF s(3)] s n
    by (auto simp: fusion_hash_create_internal_def s_def [symmetric] hash_rep_def hash_ok_def hash_map_def Let_def split: if_splits)
qed

text \<open>
  C16: a new table, in local or shared memory, with pointer, integer or string keys, answers every sequence of
  up to \<^verbatim>\<open>2^29\<close> calls as a finite map does, whichever allocations fail and however often the
  table resizes itself on the way; string keys are told apart by their text. No call loops, and no size or count
  overflows. At the end all entries are in the map, each once.
\<close>

theorem fusion_hash_refines_map:
  assumes "fusion_hash_create_internal local pool True True True t vt sz = Inr hash"
    and "sz \<le> 2 ^ 29" and "length ops \<le> 2 ^ 29"
  shows "\<exists>hash' as m. run_calls (call_hash str) hash ops = Some (hash', as) \<and>
    spec_trace (map_step str t (no_memory local)) Map.empty ops as m \<and>
    enumerates m (concat (fh_nodes hash')) \<and> fusion_hash_size hash' = int (card (dom m))"
proof -
  obtain hash' as m where run: "run_calls (call_hash str) hash ops = Some (hash', as)"
      "spec_trace (map_step str t (no_memory local)) Map.empty ops as m" "hash_rep str t local 0 hash' m"
    using fhash.run_simulates [where n = 0, OF _ _] hash_rep_create [OF assms] by (fastforce simp: list_all_iff)
  then have "enumerates m (concat (fh_nodes hash'))" "fusion_hash_size hash' = int (card (dom m))"
    using hash_enumerates hash_nnodes_card by (auto simp: hash_rep_def fusion_hash_size_def)
  then show ?thesis using run by blast
qed

lemma fusion_hash_refines_map_witness:
  "\<exists>hash' as m. run_calls (call_hash (\<lambda>p. [uint p mod 2]))
       (projr (fusion_hash_create_internal True False True True True HASH_STRING HASH_PTR 0))
       [Hash_Insert 1 7 True True, Hash_Insert 3 8 True True, Hash_Replace 3 9 True True True, Hash_Lookup 5] = Some (hash', as) \<and>
    spec_trace (map_step (\<lambda>p. [uint p mod 2]) HASH_STRING (no_memory True)) Map.empty
       [Hash_Insert 1 7 True True, Hash_Insert 3 8 True True, Hash_Replace 3 9 True True True, Hash_Lookup 5] as m \<and>
    enumerates m (concat (fh_nodes hash')) \<and> fusion_hash_size hash' = int (card (dom m))"
  by (rule fusion_hash_refines_map [where local = True and pool = False and vt = HASH_PTR and sz = 0])
    (simp_all add: fusion_hash_create_internal_def)

end
