(* ===== verification/Pixel_Format.thy ===== *)
theory Pixel_Format
  imports DFB_Prelude
begin

text \<open>
  Pixel formats (\<^verbatim>\<open>include/directfb.h\<close>), the packing macros of \<^verbatim>\<open>gfx/convert.h\<close> and the conversion of
  single pixels in \<^verbatim>\<open>gfx/convert.c\<close>. A pixel is an \<^verbatim>\<open>unsigned long\<close>; the arithmetic of the macros is that
  of 32 bit words. The comments beside the formats say which bits hold which channel: they are the
  specification \<open>field_of\<close>.
\<close>

section \<open>Formats\<close>

datatype DFBSurfacePixelFormat =
    DSPF_UNKNOWN | DSPF_ARGB1555 | DSPF_RGB16 | DSPF_RGB24 | DSPF_RGB32 | DSPF_ARGB | DSPF_A8 | DSPF_YUY2
  | DSPF_RGB332 | DSPF_UYVY | DSPF_I420 | DSPF_YV12 | DSPF_LUT8 | DSPF_ALUT44 | DSPF_AiRGB | DSPF_A1 | DSPF_NV12
  | DSPF_NV16 | DSPF_ARGB2554 | DSPF_ARGB4444 | DSPF_RGBA4444 | DSPF_NV21 | DSPF_AYUV | DSPF_A4 | DSPF_ARGB1666
  | DSPF_ARGB6666 | DSPF_RGB18 | DSPF_LUT2 | DSPF_RGB444 | DSPF_RGB555 | DSPF_BGR555 | DSPF_RGBA5551
  | DSPF_YUV444P | DSPF_ARGB8565 | DSPF_AVYU | DSPF_VYU | DSPF_A1_LSB | DSPF_YV16 | DSPF_ABGR | DSPF_RGBAF88871
  | DSPF_LUT4 | DSPF_ALUT8 | DSPF_LUT1

definition DFB_SURFACE_PIXELFORMAT ::
    "u32 \<Rightarrow> u32 \<Rightarrow> u32 \<Rightarrow> u32 \<Rightarrow> u32 \<Rightarrow> u32 \<Rightarrow> u32 \<Rightarrow> u32 \<Rightarrow> u32 \<Rightarrow> u32 \<Rightarrow> u32 \<Rightarrow> u32" where
  "DFB_SURFACE_PIXELFORMAT index color_bits alpha_bits has_alpha row_bits row_bytes align mul_f mul_d has_lut inv_alpha =
     (index AND 0x7F) OR push_bit 7 (color_bits AND 0x1F) OR push_bit 12 (alpha_bits AND 0x0F) OR
     push_bit 16 (if has_alpha \<noteq> 0 then 1 else 0) OR push_bit 17 (row_bits AND 0x07) OR push_bit 20 (row_bytes AND 0x07) OR
     push_bit 23 (align AND 0x07) OR push_bit 26 (mul_f AND 0x03) OR push_bit 28 (mul_d AND 0x03) OR
     push_bit 30 (if has_lut \<noteq> 0 then 1 else 0) OR push_bit 31 (if inv_alpha \<noteq> 0 then 1 else 0)"

fun format_code :: "DFBSurfacePixelFormat \<Rightarrow> u32" where
  "format_code DSPF_UNKNOWN = 0"
| "format_code DSPF_ARGB1555 = DFB_SURFACE_PIXELFORMAT 0 15 1 1 0 2 0 0 0 0 0"
| "format_code DSPF_RGB16 = DFB_SURFACE_PIXELFORMAT 1 16 0 0 0 2 0 0 0 0 0"
| "format_code DSPF_RGB24 = DFB_SURFACE_PIXELFORMAT 2 24 0 0 0 3 0 0 0 0 0"
| "format_code DSPF_RGB32 = DFB_SURFACE_PIXELFORMAT 3 24 0 0 0 4 0 0 0 0 0"
| "format_code DSPF_ARGB = DFB_SURFACE_PIXELFORMAT 4 24 8 1 0 4 0 0 0 0 0"
| "format_code DSPF_A8 = DFB_SURFACE_PIXELFORMAT 5 0 8 1 0 1 0 0 0 0 0"
| "format_code DSPF_YUY2 = DFB_SURFACE_PIXELFORMAT 6 16 0 0 0 2 0 0 0 0 0"
| "format_code DSPF_RGB332 = DFB_SURFACE_PIXELFORMAT 7 8 0 0 0 1 0 0 0 0 0"
| "format_code DSPF_UYVY = DFB_SURFACE_PIXELFORMAT 8 16 0 0 0 2 0 0 0 0 0"
| "format_code DSPF_I420 = DFB_SURFACE_PIXELFORMAT 9 12 0 0 0 1 0 2 0 0 0"
| "format_code DSPF_YV12 = DFB_SURFACE_PIXELFORMAT 10 12 0 0 0 1 0 2 0 0 0"
| "format_code DSPF_LUT8 = DFB_SURFACE_PIXELFORMAT 11 8 0 1 0 1 0 0 0 1 0"
| "format_code DSPF_ALUT44 = DFB_SURFACE_PIXELFORMAT 12 4 4 1 0 1 0 0 0 1 0"
| "format_code DSPF_AiRGB = DFB_SURFACE_PIXELFORMAT 13 24 8 1 0 4 0 0 0 0 1"
| "format_code DSPF_A1 = DFB_SURFACE_PIXELFORMAT 14 0 1 1 1 0 7 0 0 0 0"
| "format_code DSPF_NV12 = DFB_SURFACE_PIXELFORMAT 15 12 0 0 0 1 0 2 0 0 0"
| "format_code DSPF_NV16 = DFB_SURFACE_PIXELFORMAT 16 16 0 0 0 1 0 0 1 0 0"
| "format_code DSPF_ARGB2554 = DFB_SURFACE_PIXELFORMAT 17 14 2 1 0 2 0 0 0 0 0"
| "format_code DSPF_ARGB4444 = DFB_SURFACE_PIXELFORMAT 18 12 4 1 0 2 0 0 0 0 0"
| "format_code DSPF_RGBA4444 = DFB_SURFACE_PIXELFORMAT 19 12 4 1 0 2 0 0 0 0 0"
| "format_code DSPF_NV21 = DFB_SURFACE_PIXELFORMAT 20 12 0 0 0 1 0 2 0 0 0"
| "format_code DSPF_AYUV = DFB_SURFACE_PIXELFORMAT 21 24 8 1 0 4 0 0 0 0 0"
| "format_code DSPF_A4 = DFB_SURFACE_PIXELFORMAT 22 0 4 1 4 0 1 0 0 0 0"
| "format_code DSPF_ARGB1666 = DFB_SURFACE_PIXELFORMAT 23 18 1 1 0 3 0 0 0 0 0"
| "format_code DSPF_ARGB6666 = DFB_SURFACE_PIXELFORMAT 24 18 6 1 0 3 0 0 0 0 0"
| "format_code DSPF_RGB18 = DFB_SURFACE_PIXELFORMAT 25 18 0 0 0 3 0 0 0 0 0"
| "format_code DSPF_LUT2 = DFB_SURFACE_PIXELFORMAT 26 2 0 1 2 0 3 0 0 1 0"
| "format_code DSPF_RGB444 = DFB_SURFACE_PIXELFORMAT 27 12 0 0 0 2 0 0 0 0 0"
| "format_code DSPF_RGB555 = DFB_SURFACE_PIXELFORMAT 28 15 0 0 0 2 0 0 0 0 0"
| "format_code DSPF_BGR555 = DFB_SURFACE_PIXELFORMAT 29 15 0 0 0 2 0 0 0 0 0"
| "format_code DSPF_RGBA5551 = DFB_SURFACE_PIXELFORMAT 30 15 1 1 0 2 0 0 0 0 0"
| "format_code DSPF_YUV444P = DFB_SURFACE_PIXELFORMAT 31 24 0 0 0 1 0 0 2 0 0"
| "format_code DSPF_ARGB8565 = DFB_SURFACE_PIXELFORMAT 32 16 8 1 0 3 0 0 0 0 0"
| "format_code DSPF_AVYU = DFB_SURFACE_PIXELFORMAT 33 24 8 1 0 4 0 0 0 0 0"
| "format_code DSPF_VYU = DFB_SURFACE_PIXELFORMAT 34 24 0 0 0 3 0 0 0 0 0"
| "format_code DSPF_A1_LSB = DFB_SURFACE_PIXELFORMAT 35 0 1 1 1 0 7 0 0 0 0"
| "format_code DSPF_YV16 = DFB_SURFACE_PIXELFORMAT 36 16 0 0 0 1 0 0 1 0 0"
| "format_code DSPF_ABGR = DFB_SURFACE_PIXELFORMAT 37 24 8 1 0 4 0 0 0 0 0"
| "format_code DSPF_RGBAF88871 = DFB_SURFACE_PIXELFORMAT 38 24 7 1 0 4 0 0 0 0 0"
| "format_code DSPF_LUT4 = DFB_SURFACE_PIXELFORMAT 39 4 0 1 4 0 1 0 0 1 0"
| "format_code DSPF_ALUT8 = DFB_SURFACE_PIXELFORMAT 40 8 8 1 0 2 0 0 0 1 0"
| "format_code DSPF_LUT1 = DFB_SURFACE_PIXELFORMAT 41 1 0 1 1 0 7 0 0 1 0"

definition DFB_PIXELFORMAT_INDEX :: "u32 \<Rightarrow> u32" where
  "DFB_PIXELFORMAT_INDEX fmt = fmt AND 0x0000007F"
definition DFB_COLOR_BITS_PER_PIXEL :: "u32 \<Rightarrow> u32" where
  "DFB_COLOR_BITS_PER_PIXEL fmt = drop_bit 7 (fmt AND 0x00000F80)"
definition DFB_ALPHA_BITS_PER_PIXEL :: "u32 \<Rightarrow> u32" where
  "DFB_ALPHA_BITS_PER_PIXEL fmt = drop_bit 12 (fmt AND 0x0000F000)"
definition DFB_PIXELFORMAT_HAS_ALPHA :: "u32 \<Rightarrow> bool" where
  "DFB_PIXELFORMAT_HAS_ALPHA fmt \<longleftrightarrow> fmt AND 0x00010000 \<noteq> 0"
definition DFB_BITS_PER_PIXEL :: "u32 \<Rightarrow> u32" where
  "DFB_BITS_PER_PIXEL fmt = drop_bit 17 (fmt AND 0x007E0000)"
definition DFB_BYTES_PER_PIXEL :: "u32 \<Rightarrow> u32" where
  "DFB_BYTES_PER_PIXEL fmt = drop_bit 20 (fmt AND 0x00700000)"
definition DFB_BYTES_PER_LINE :: "u32 \<Rightarrow> u32 \<Rightarrow> u32" where
  "DFB_BYTES_PER_LINE fmt width = drop_bit 3 (drop_bit 17 (fmt AND 0x007E0000) * width + 7)"
definition DFB_PIXELFORMAT_ALIGNMENT :: "u32 \<Rightarrow> u32" where
  "DFB_PIXELFORMAT_ALIGNMENT fmt = drop_bit 23 (fmt AND 0x03800000)"
definition DFB_PLANE_MULTIPLY :: "u32 \<Rightarrow> u32 \<Rightarrow> u32" where
  "DFB_PLANE_MULTIPLY fmt height = drop_bit 2 ((drop_bit 26 (fmt AND 0x3C000000) + 4) * height)"
definition DFB_PIXELFORMAT_IS_INDEXED :: "u32 \<Rightarrow> bool" where
  "DFB_PIXELFORMAT_IS_INDEXED fmt \<longleftrightarrow> fmt AND 0x40000000 \<noteq> 0"
definition DFB_PLANAR_PIXELFORMAT :: "u32 \<Rightarrow> bool" where
  "DFB_PLANAR_PIXELFORMAT fmt \<longleftrightarrow> fmt AND 0x3C000000 \<noteq> 0"
definition DFB_PIXELFORMAT_INV_ALPHA :: "u32 \<Rightarrow> bool" where
  "DFB_PIXELFORMAT_INV_ALPHA fmt \<longleftrightarrow> fmt AND 0x80000000 \<noteq> 0"

definition DFB_COLOR_IS_RGB :: "DFBSurfacePixelFormat \<Rightarrow> bool" where
  "DFB_COLOR_IS_RGB fmt \<longleftrightarrow> fmt \<in> {DSPF_ARGB1555, DSPF_RGB16, DSPF_RGB24, DSPF_RGB32, DSPF_ARGB, DSPF_RGB332,
     DSPF_AiRGB, DSPF_ARGB2554, DSPF_ARGB4444, DSPF_RGBA4444, DSPF_ARGB1666, DSPF_ARGB6666, DSPF_RGB18, DSPF_RGB444,
     DSPF_RGB555, DSPF_BGR555, DSPF_RGBAF88871}"

definition DFB_COLOR_IS_YUV :: "DFBSurfacePixelFormat \<Rightarrow> bool" where
  "DFB_COLOR_IS_YUV fmt \<longleftrightarrow> fmt \<in> {DSPF_YUY2, DSPF_UYVY, DSPF_I420, DSPF_YV12, DSPF_NV12, DSPF_NV16, DSPF_NV21,
     DSPF_AYUV, DSPF_YUV444P, DSPF_AVYU, DSPF_VYU, DSPF_YV16}"

section \<open>Packing\<close>

record DFBColor =
  col_a :: u8
  col_r :: u8
  col_g :: u8
  col_b :: u8

definition PIXEL_RGB332 :: "u32 \<Rightarrow> u32 \<Rightarrow> u32 \<Rightarrow> u32" where
  "PIXEL_RGB332 r g b = (r AND 0xE0) OR drop_bit 3 (g AND 0xE0) OR drop_bit 6 (b AND 0xC0)"
definition PIXEL_ARGB1555 :: "u32 \<Rightarrow> u32 \<Rightarrow> u32 \<Rightarrow> u32 \<Rightarrow> u32" where
  "PIXEL_ARGB1555 a r g b = push_bit 8 (a AND 0x80) OR push_bit 7 (r AND 0xF8) OR push_bit 2 (g AND 0xF8) OR
     drop_bit 3 (b AND 0xF8)"
definition PIXEL_RGBA5551 :: "u32 \<Rightarrow> u32 \<Rightarrow> u32 \<Rightarrow> u32 \<Rightarrow> u32" where
  "PIXEL_RGBA5551 a r g b = drop_bit 7 (a AND 0x80) OR push_bit 8 (r AND 0xF8) OR push_bit 3 (g AND 0xF8) OR
     drop_bit 2 (b AND 0xF8)"
definition PIXEL_RGB555 :: "u32 \<Rightarrow> u32 \<Rightarrow> u32 \<Rightarrow> u32" where
  "PIXEL_RGB555 r g b = push_bit 7 (r AND 0xF8) OR push_bit 2 (g AND 0xF8) OR drop_bit 3 (b AND 0xF8)"
definition PIXEL_BGR555 :: "u32 \<Rightarrow> u32 \<Rightarrow> u32 \<Rightarrow> u32" where
  "PIXEL_BGR555 r g b = push_bit 7 (b AND 0xF8) OR push_bit 2 (g AND 0xF8) OR drop_bit 3 (r AND 0xF8)"
definition PIXEL_ARGB2554 :: "u32 \<Rightarrow> u32 \<Rightarrow> u32 \<Rightarrow> u32 \<Rightarrow> u32" where
  "PIXEL_ARGB2554 a r g b = push_bit 8 (a AND 0xC0) OR push_bit 6 (r AND 0xF8) OR push_bit 1 (g AND 0xF8) OR
     drop_bit 4 (b AND 0xF0)"
definition PIXEL_ARGB4444 :: "u32 \<Rightarrow> u32 \<Rightarrow> u32 \<Rightarrow> u32 \<Rightarrow> u32" where
  "PIXEL_ARGB4444 a r g b = push_bit 8 (a AND 0xF0) OR push_bit 4 (r AND 0xF0) OR (g AND 0xF0) OR drop_bit 4 (b AND 0xF0)"
definition PIXEL_RGBA4444 :: "u32 \<Rightarrow> u32 \<Rightarrow> u32 \<Rightarrow> u32 \<Rightarrow> u32" where
  "PIXEL_RGBA4444 a r g b = push_bit 8 (r AND 0xF0) OR push_bit 4 (g AND 0xF0) OR (b AND 0xF0) OR drop_bit 4 (a AND 0xF0)"
definition PIXEL_RGB444 :: "u32 \<Rightarrow> u32 \<Rightarrow> u32 \<Rightarrow> u32" where
  "PIXEL_RGB444 r g b = push_bit 4 (r AND 0xF0) OR (g AND 0xF0) OR drop_bit 4 (b AND 0xF0)"
definition PIXEL_RGB16 :: "u32 \<Rightarrow> u32 \<Rightarrow> u32 \<Rightarrow> u32" where
  "PIXEL_RGB16 r g b = push_bit 8 (r AND 0xF8) OR push_bit 3 (g AND 0xFC) OR drop_bit 3 (b AND 0xF8)"
definition PIXEL_RGB18 :: "u32 \<Rightarrow> u32 \<Rightarrow> u32 \<Rightarrow> u32" where
  "PIXEL_RGB18 r g b = push_bit 10 (r AND 0xFC) OR push_bit 4 (g AND 0xFC) OR drop_bit 2 (b AND 0xFC)"
definition PIXEL_RGB32 :: "u32 \<Rightarrow> u32 \<Rightarrow> u32 \<Rightarrow> u32" where
  "PIXEL_RGB32 r g b = push_bit 24 0xff OR push_bit 16 r OR push_bit 8 g OR b"
definition PIXEL_ARGB :: "u32 \<Rightarrow> u32 \<Rightarrow> u32 \<Rightarrow> u32 \<Rightarrow> u32" where
  "PIXEL_ARGB a r g b = push_bit 24 a OR push_bit 16 r OR push_bit 8 g OR b"
definition PIXEL_ABGR :: "u32 \<Rightarrow> u32 \<Rightarrow> u32 \<Rightarrow> u32 \<Rightarrow> u32" where
  "PIXEL_ABGR a r g b = push_bit 24 a OR push_bit 16 b OR push_bit 8 g OR r"
definition PIXEL_ARGB8565 :: "u32 \<Rightarrow> u32 \<Rightarrow> u32 \<Rightarrow> u32 \<Rightarrow> u32" where
  "PIXEL_ARGB8565 a r g b = push_bit 16 a OR PIXEL_RGB16 r g b"
definition PIXEL_ARGB1666 :: "u32 \<Rightarrow> u32 \<Rightarrow> u32 \<Rightarrow> u32 \<Rightarrow> u32" where
  "PIXEL_ARGB1666 a r g b = push_bit 11 (a AND 0x80) OR push_bit 10 (r AND 0xFC) OR push_bit 4 (g AND 0xFC) OR
     drop_bit 2 (b AND 0xFC)"
definition PIXEL_ARGB6666 :: "u32 \<Rightarrow> u32 \<Rightarrow> u32 \<Rightarrow> u32 \<Rightarrow> u32" where
  "PIXEL_ARGB6666 a r g b = push_bit 16 (a AND 0xFC) OR push_bit 10 (r AND 0xFC) OR push_bit 4 (g AND 0xFC) OR
     drop_bit 2 (b AND 0xFC)"
definition PIXEL_AYUV :: "u32 \<Rightarrow> u32 \<Rightarrow> u32 \<Rightarrow> u32 \<Rightarrow> u32" where
  "PIXEL_AYUV a y u v = push_bit 24 a OR push_bit 16 y OR push_bit 8 u OR v"
definition PIXEL_AVYU :: "u32 \<Rightarrow> u32 \<Rightarrow> u32 \<Rightarrow> u32 \<Rightarrow> u32" where
  "PIXEL_AVYU a y u v = push_bit 24 a OR push_bit 16 v OR push_bit 8 y OR u"
definition PIXEL_AiRGB :: "u32 \<Rightarrow> u32 \<Rightarrow> u32 \<Rightarrow> u32 \<Rightarrow> u32" where
  "PIXEL_AiRGB a r g b = push_bit 24 (a XOR 0xff) OR push_bit 16 r OR push_bit 8 g OR b"
definition PIXEL_RGBAF88871 :: "u32 \<Rightarrow> u32 \<Rightarrow> u32 \<Rightarrow> u32 \<Rightarrow> u32" where
  "PIXEL_RGBAF88871 a r g b = push_bit 24 r OR push_bit 16 g OR push_bit 8 b OR (a AND NOT 1)"

text \<open>Byte orders are those of a little-endian machine.\<close>

definition PIXEL_YUY2 :: "u32 \<Rightarrow> u32 \<Rightarrow> u32 \<Rightarrow> u32" where
  "PIXEL_YUY2 y u v = push_bit 24 v OR push_bit 16 y OR push_bit 8 u OR y"
definition PIXEL_UYVY :: "u32 \<Rightarrow> u32 \<Rightarrow> u32 \<Rightarrow> u32" where
  "PIXEL_UYVY y u v = push_bit 24 y OR push_bit 16 v OR push_bit 8 y OR u"
definition PIXEL_VYU :: "u32 \<Rightarrow> u32 \<Rightarrow> u32 \<Rightarrow> u32" where
  "PIXEL_VYU y u v = push_bit 16 v OR push_bit 8 y OR u"

lemmas pixel_macros = PIXEL_RGB332_def PIXEL_ARGB1555_def PIXEL_RGBA5551_def PIXEL_RGB555_def PIXEL_BGR555_def
  PIXEL_ARGB2554_def PIXEL_ARGB4444_def PIXEL_RGBA4444_def PIXEL_RGB444_def PIXEL_RGB16_def PIXEL_RGB18_def
  PIXEL_RGB32_def PIXEL_ARGB_def PIXEL_ABGR_def PIXEL_ARGB8565_def PIXEL_ARGB1666_def PIXEL_ARGB6666_def
  PIXEL_AiRGB_def PIXEL_RGBAF88871_def

definition RGB_TO_YCBCR :: "int \<Rightarrow> int \<Rightarrow> int \<Rightarrow> int \<times> int \<times> int" where
  "RGB_TO_YCBCR r g b =
    (drop_bit 8 (66 * r + 129 * g + 25 * b + 16 * 256 + 128),
     drop_bit 8 (- 38 * r - 74 * g + 112 * b + 128 * 256 + 128),
     drop_bit 8 (112 * r - 94 * g - 18 * b + 128 * 256 + 128))"

definition clamp_byte :: "int \<Rightarrow> int" where
  "clamp_byte x = (if x < 0 then 0 else if x > 255 then 255 else x)"

definition YCBCR_TO_RGB :: "int \<Rightarrow> int \<Rightarrow> int \<Rightarrow> int \<times> int \<times> int" where
  "YCBCR_TO_RGB y cb cr =
    (let y = y - 16; cb = cb - 128; cr = cr - 128
     in (clamp_byte (drop_bit 8 (298 * y + 409 * cr + 128)),
         clamp_byte (drop_bit 8 (298 * y - 100 * cb - 208 * cr + 128)),
         clamp_byte (drop_bit 8 (298 * y + 516 * cb + 128))))"

definition lookup3to8 :: "u8 list" where
  "lookup3to8 = [0x00, 0x24, 0x49, 0x6d, 0x92, 0xb6, 0xdb, 0xff]"
definition lookup2to8 :: "u8 list" where
  "lookup2to8 = [0x00, 0x55, 0xaa, 0xff]"

definition EXPAND_1to8 :: "'a::len word \<Rightarrow> 'a word" where
  "EXPAND_1to8 v = (if v \<noteq> 0 then 0xff else 0x00)"
definition EXPAND_2to8 :: "'a::len word \<Rightarrow> u8" where
  "EXPAND_2to8 v = lookup2to8 ! unat v"
definition EXPAND_3to8 :: "'a::len word \<Rightarrow> u8" where
  "EXPAND_3to8 v = lookup3to8 ! unat v"
definition EXPAND_4to8 :: "'a::len word \<Rightarrow> 'a word" where
  "EXPAND_4to8 v = push_bit 4 v OR v"
definition EXPAND_5to8 :: "'a::len word \<Rightarrow> 'a word" where
  "EXPAND_5to8 v = push_bit 3 v OR drop_bit 2 v"
definition EXPAND_6to8 :: "'a::len word \<Rightarrow> 'a word" where
  "EXPAND_6to8 v = push_bit 2 v OR drop_bit 4 v"
definition EXPAND_7to8 :: "'a::len word \<Rightarrow> 'a word" where
  "EXPAND_7to8 v = push_bit 1 v OR drop_bit 6 v"

section \<open>Single pixels\<close>

definition opaque_color :: "u64 \<Rightarrow> u64 \<Rightarrow> u64 \<Rightarrow> DFBColor" where
  "opaque_color r g b = \<lparr> col_a = 0xff, col_r = ucast r, col_g = ucast g, col_b = ucast b \<rparr>"

definition alpha_color :: "u64 \<Rightarrow> u64 \<Rightarrow> u64 \<Rightarrow> u64 \<Rightarrow> DFBColor" where
  "alpha_color a r g b = \<lparr> col_a = ucast a, col_r = ucast r, col_g = ucast g, col_b = ucast b \<rparr>"

fun dfb_pixel_to_color :: "DFBSurfacePixelFormat \<Rightarrow> u64 \<Rightarrow> DFBColor" where
  "dfb_pixel_to_color DSPF_RGB332 pixel = \<lparr> col_a = 0xff, col_r = EXPAND_3to8 (drop_bit 5 (pixel AND 0xe0)),
     col_g = EXPAND_3to8 (drop_bit 2 (pixel AND 0x1c)), col_b = EXPAND_2to8 (pixel AND 0x03) \<rparr>"
| "dfb_pixel_to_color DSPF_ARGB1555 pixel = alpha_color (EXPAND_1to8 (drop_bit 15 pixel))
     (EXPAND_5to8 (drop_bit 10 (pixel AND 0x7c00))) (EXPAND_5to8 (drop_bit 5 (pixel AND 0x03e0))) (EXPAND_5to8 (pixel AND 0x001f))"
| "dfb_pixel_to_color DSPF_RGB555 pixel = opaque_color
     (EXPAND_5to8 (drop_bit 10 (pixel AND 0x7c00))) (EXPAND_5to8 (drop_bit 5 (pixel AND 0x03e0))) (EXPAND_5to8 (pixel AND 0x001f))"
| "dfb_pixel_to_color DSPF_BGR555 pixel = opaque_color
     (EXPAND_5to8 (pixel AND 0x001f)) (EXPAND_5to8 (drop_bit 5 (pixel AND 0x03e0))) (EXPAND_5to8 (drop_bit 10 (pixel AND 0x7c00)))"
| "dfb_pixel_to_color DSPF_ARGB2554 pixel = \<lparr> col_a = EXPAND_2to8 (drop_bit 14 pixel),
     col_r = ucast (EXPAND_5to8 (drop_bit 9 (pixel AND 0x3e00))), col_g = ucast (EXPAND_5to8 (drop_bit 4 (pixel AND 0x01f0))),
     col_b = ucast (EXPAND_4to8 (pixel AND 0x000f)) \<rparr>"
| "dfb_pixel_to_color DSPF_ARGB4444 pixel = alpha_color (EXPAND_4to8 (drop_bit 12 pixel))
     (EXPAND_4to8 (drop_bit 8 (pixel AND 0x0f00))) (EXPAND_4to8 (drop_bit 4 (pixel AND 0x00f0))) (EXPAND_4to8 (pixel AND 0x000f))"
| "dfb_pixel_to_color DSPF_RGB444 pixel = opaque_color
     (EXPAND_4to8 (drop_bit 8 (pixel AND 0x0f00))) (EXPAND_4to8 (drop_bit 4 (pixel AND 0x00f0))) (EXPAND_4to8 (pixel AND 0x000f))"
| "dfb_pixel_to_color DSPF_RGBA4444 pixel = alpha_color (EXPAND_4to8 (pixel AND 0x000f))
     (EXPAND_4to8 (drop_bit 12 pixel)) (EXPAND_4to8 (drop_bit 8 (pixel AND 0x0f00))) (EXPAND_4to8 (drop_bit 4 (pixel AND 0x00f0)))"
| "dfb_pixel_to_color DSPF_ARGB8565 pixel = alpha_color (drop_bit 16 pixel)
     (EXPAND_5to8 (drop_bit 11 (pixel AND 0xf800))) (EXPAND_6to8 (drop_bit 5 (pixel AND 0x07e0))) (EXPAND_5to8 (pixel AND 0x001f))"
| "dfb_pixel_to_color DSPF_RGB16 pixel = opaque_color
     (EXPAND_5to8 (drop_bit 11 (pixel AND 0xf800))) (EXPAND_6to8 (drop_bit 5 (pixel AND 0x07e0))) (EXPAND_5to8 (pixel AND 0x001f))"
| "dfb_pixel_to_color DSPF_ARGB pixel = alpha_color (drop_bit 24 pixel)
     (drop_bit 16 (pixel AND 0xff0000)) (drop_bit 8 (pixel AND 0x00ff00)) (pixel AND 0x0000ff)"
| "dfb_pixel_to_color DSPF_RGB24 pixel = opaque_color
     (drop_bit 16 (pixel AND 0xff0000)) (drop_bit 8 (pixel AND 0x00ff00)) (pixel AND 0x0000ff)"
| "dfb_pixel_to_color DSPF_RGB32 pixel = opaque_color
     (drop_bit 16 (pixel AND 0xff0000)) (drop_bit 8 (pixel AND 0x00ff00)) (pixel AND 0x0000ff)"
| "dfb_pixel_to_color DSPF_ABGR pixel = alpha_color (drop_bit 24 pixel)
     (pixel AND 0x0000ff) (drop_bit 8 (pixel AND 0x00ff00)) (drop_bit 16 (pixel AND 0xff0000))"
| "dfb_pixel_to_color DSPF_AiRGB pixel = alpha_color (drop_bit 24 pixel XOR 0xff)
     (drop_bit 16 (pixel AND 0xff0000)) (drop_bit 8 (pixel AND 0x00ff00)) (pixel AND 0x0000ff)"
| "dfb_pixel_to_color DSPF_RGBA5551 pixel = alpha_color (EXPAND_1to8 (pixel AND 1))
     (EXPAND_5to8 (drop_bit 11 (pixel AND 0xf800))) (EXPAND_5to8 (drop_bit 6 (pixel AND 0x07c0))) (EXPAND_5to8 (drop_bit 1 (pixel AND 0x003e)))"
| "dfb_pixel_to_color DSPF_RGBAF88871 pixel = alpha_color (EXPAND_7to8 (drop_bit 1 (pixel AND 0x000000fe)))
     (drop_bit 24 (pixel AND 0xff000000)) (drop_bit 16 (pixel AND 0x00ff0000)) (drop_bit 8 (pixel AND 0x0000ff00))"
| "dfb_pixel_to_color DSPF_A8 pixel = alpha_color pixel 0 0 0"
| "dfb_pixel_to_color _ pixel = opaque_color 0 0 0"

text \<open>
  The channels are promoted to \<^verbatim>\<open>int\<close>, so that a packed pixel with bit 31 set is sign-extended when it is
  returned as an \<^verbatim>\<open>unsigned long\<close>, unless unsigned luma and chroma made the expression unsigned.
\<close>

definition from_int :: "u32 \<Rightarrow> u64" where
  "from_int = scast"

definition color_ycbcr :: "DFBColor \<Rightarrow> (u32 \<Rightarrow> u32 \<Rightarrow> u32 \<Rightarrow> u32) \<Rightarrow> u64" where
  "color_ycbcr c pack = (case RGB_TO_YCBCR (uint (col_r c)) (uint (col_g c)) (uint (col_b c)) of
     (y, cb, cr) \<Rightarrow> ucast (pack (word_of_int y) (word_of_int cb) (word_of_int cr)))"

fun dfb_pixel_from_color :: "DFBSurfacePixelFormat \<Rightarrow> DFBColor \<Rightarrow> u64" where
  "dfb_pixel_from_color DSPF_RGB332 c = from_int (PIXEL_RGB332 (ucast (col_r c)) (ucast (col_g c)) (ucast (col_b c)))"
| "dfb_pixel_from_color DSPF_A8 c = ucast (col_a c)"
| "dfb_pixel_from_color DSPF_ARGB1555 c = from_int (PIXEL_ARGB1555 (ucast (col_a c)) (ucast (col_r c)) (ucast (col_g c)) (ucast (col_b c)))"
| "dfb_pixel_from_color DSPF_RGB555 c = from_int (PIXEL_RGB555 (ucast (col_r c)) (ucast (col_g c)) (ucast (col_b c)))"
| "dfb_pixel_from_color DSPF_BGR555 c = from_int (PIXEL_BGR555 (ucast (col_r c)) (ucast (col_g c)) (ucast (col_b c)))"
| "dfb_pixel_from_color DSPF_ARGB2554 c = from_int (PIXEL_ARGB2554 (ucast (col_a c)) (ucast (col_r c)) (ucast (col_g c)) (ucast (col_b c)))"
| "dfb_pixel_from_color DSPF_ARGB4444 c = from_int (PIXEL_ARGB4444 (ucast (col_a c)) (ucast (col_r c)) (ucast (col_g c)) (ucast (col_b c)))"
| "dfb_pixel_from_color DSPF_RGBA4444 c = from_int (PIXEL_RGBA4444 (ucast (col_a c)) (ucast (col_r c)) (ucast (col_g c)) (ucast (col_b c)))"
| "dfb_pixel_from_color DSPF_RGB444 c = from_int (PIXEL_RGB444 (ucast (col_r c)) (ucast (col_g c)) (ucast (col_b c)))"
| "dfb_pixel_from_color DSPF_ARGB8565 c = from_int (PIXEL_ARGB8565 (ucast (col_a c)) (ucast (col_r c)) (ucast (col_g c)) (ucast (col_b c)))"
| "dfb_pixel_from_color DSPF_RGB16 c = from_int (PIXEL_RGB16 (ucast (col_r c)) (ucast (col_g c)) (ucast (col_b c)))"
| "dfb_pixel_from_color DSPF_RGB18 c = from_int (PIXEL_RGB18 (ucast (col_r c)) (ucast (col_g c)) (ucast (col_b c)))"
| "dfb_pixel_from_color DSPF_ARGB1666 c = from_int (PIXEL_ARGB1666 (ucast (col_a c)) (ucast (col_r c)) (ucast (col_g c)) (ucast (col_b c)))"
| "dfb_pixel_from_color DSPF_ARGB6666 c = from_int (PIXEL_ARGB6666 (ucast (col_a c)) (ucast (col_r c)) (ucast (col_g c)) (ucast (col_b c)))"
| "dfb_pixel_from_color DSPF_RGB24 c = from_int (PIXEL_RGB32 (ucast (col_r c)) (ucast (col_g c)) (ucast (col_b c)) AND 0xffffff)"
| "dfb_pixel_from_color DSPF_RGB32 c = from_int (PIXEL_RGB32 (ucast (col_r c)) (ucast (col_g c)) (ucast (col_b c)) AND 0xffffff)"
| "dfb_pixel_from_color DSPF_ARGB c = from_int (PIXEL_ARGB (ucast (col_a c)) (ucast (col_r c)) (ucast (col_g c)) (ucast (col_b c)))"
| "dfb_pixel_from_color DSPF_ABGR c = from_int (PIXEL_ABGR (ucast (col_a c)) (ucast (col_r c)) (ucast (col_g c)) (ucast (col_b c)))"
| "dfb_pixel_from_color DSPF_AiRGB c = from_int (PIXEL_AiRGB (ucast (col_a c)) (ucast (col_r c)) (ucast (col_g c)) (ucast (col_b c)))"
| "dfb_pixel_from_color DSPF_RGBAF88871 c = from_int (PIXEL_RGBAF88871 (ucast (col_a c)) (ucast (col_r c)) (ucast (col_g c)) (ucast (col_b c)))"
| "dfb_pixel_from_color DSPF_AYUV c = color_ycbcr c (PIXEL_AYUV (ucast (col_a c)))"
| "dfb_pixel_from_color DSPF_AVYU c = color_ycbcr c (PIXEL_AVYU (ucast (col_a c)))"
| "dfb_pixel_from_color DSPF_VYU c = color_ycbcr c PIXEL_VYU"
| "dfb_pixel_from_color DSPF_YUY2 c = color_ycbcr c PIXEL_YUY2"
| "dfb_pixel_from_color DSPF_UYVY c = color_ycbcr c PIXEL_UYVY"
| "dfb_pixel_from_color DSPF_I420 c = color_ycbcr c (\<lambda>y cb cr. y OR push_bit 8 cb OR push_bit 16 cr)"
| "dfb_pixel_from_color DSPF_YV12 c = color_ycbcr c (\<lambda>y cb cr. y OR push_bit 8 cb OR push_bit 16 cr)"
| "dfb_pixel_from_color DSPF_YV16 c = color_ycbcr c (\<lambda>y cb cr. y OR push_bit 8 cb OR push_bit 16 cr)"
| "dfb_pixel_from_color DSPF_RGBA5551 c = from_int (PIXEL_RGBA5551 (ucast (col_a c)) (ucast (col_r c)) (ucast (col_g c)) (ucast (col_b c)))"
| "dfb_pixel_from_color DSPF_YUV444P c = color_ycbcr c (\<lambda>y cb cr. push_bit 16 y OR push_bit 8 cb OR cr)"
| "dfb_pixel_from_color _ c = 0x55555555"

fun dfb_pixel_to_components :: "DFBSurfacePixelFormat \<Rightarrow> u64 \<Rightarrow> u8 \<times> u8 \<times> u8 \<times> u8" where
  "dfb_pixel_to_components DSPF_RGB332 pixel = (0xff, EXPAND_3to8 (drop_bit 5 (pixel AND 0xe0)),
     EXPAND_3to8 (drop_bit 2 (pixel AND 0x1c)), EXPAND_2to8 (pixel AND 0x03))"
| "dfb_pixel_to_components DSPF_ARGB1555 pixel = (ucast (EXPAND_1to8 (drop_bit 15 pixel)),
     ucast (EXPAND_5to8 (drop_bit 10 (pixel AND 0x7c00))), ucast (EXPAND_5to8 (drop_bit 5 (pixel AND 0x03e0))),
     ucast (EXPAND_5to8 (pixel AND 0x001f)))"
| "dfb_pixel_to_components DSPF_RGB555 pixel = (0xff,
     ucast (EXPAND_5to8 (drop_bit 10 (pixel AND 0x7c00))), ucast (EXPAND_5to8 (drop_bit 5 (pixel AND 0x03e0))),
     ucast (EXPAND_5to8 (pixel AND 0x001f)))"
| "dfb_pixel_to_components DSPF_BGR555 pixel = (0xff, ucast (EXPAND_5to8 (pixel AND 0x001f)),
     ucast (EXPAND_5to8 (drop_bit 5 (pixel AND 0x03e0))), ucast (EXPAND_5to8 (drop_bit 10 (pixel AND 0x7c00))))"
| "dfb_pixel_to_components DSPF_ARGB2554 pixel = (EXPAND_2to8 (drop_bit 14 pixel),
     ucast (EXPAND_5to8 (drop_bit 9 (pixel AND 0x3e00))), ucast (EXPAND_5to8 (drop_bit 4 (pixel AND 0x01f0))),
     ucast (EXPAND_4to8 (pixel AND 0x000f)))"
| "dfb_pixel_to_components DSPF_ARGB4444 pixel = (ucast (EXPAND_4to8 (drop_bit 12 pixel)),
     ucast (EXPAND_4to8 (drop_bit 8 (pixel AND 0x0f00))), ucast (EXPAND_4to8 (drop_bit 4 (pixel AND 0x00f0))),
     ucast (EXPAND_4to8 (pixel AND 0x000f)))"
| "dfb_pixel_to_components DSPF_RGB444 pixel = (0xff,
     ucast (EXPAND_4to8 (drop_bit 8 (pixel AND 0x0f00))), ucast (EXPAND_4to8 (drop_bit 4 (pixel AND 0x00f0))),
     ucast (EXPAND_4to8 (pixel AND 0x000f)))"
| "dfb_pixel_to_components DSPF_RGBA4444 pixel = (ucast (EXPAND_4to8 (pixel AND 0x000f)),
     ucast (EXPAND_4to8 (drop_bit 12 pixel)), ucast (EXPAND_4to8 (drop_bit 8 (pixel AND 0x0f00))),
     ucast (EXPAND_4to8 (drop_bit 4 (pixel AND 0x00f0))))"
| "dfb_pixel_to_components DSPF_RGB16 pixel = (0xff,
     ucast (EXPAND_5to8 (drop_bit 11 (pixel AND 0xf800))), ucast (EXPAND_6to8 (drop_bit 5 (pixel AND 0x07e0))),
     ucast (EXPAND_5to8 (pixel AND 0x001f)))"
| "dfb_pixel_to_components DSPF_ARGB pixel = (ucast (drop_bit 24 pixel), ucast (drop_bit 16 (pixel AND 0xff0000)),
     ucast (drop_bit 8 (pixel AND 0x00ff00)), ucast (pixel AND 0x0000ff))"
| "dfb_pixel_to_components DSPF_RGB24 pixel = (0xff, ucast (drop_bit 16 (pixel AND 0xff0000)),
     ucast (drop_bit 8 (pixel AND 0x00ff00)), ucast (pixel AND 0x0000ff))"
| "dfb_pixel_to_components DSPF_RGB32 pixel = (0xff, ucast (drop_bit 16 (pixel AND 0xff0000)),
     ucast (drop_bit 8 (pixel AND 0x00ff00)), ucast (pixel AND 0x0000ff))"
| "dfb_pixel_to_components DSPF_ABGR pixel = (ucast (drop_bit 24 pixel), ucast (pixel AND 0x0000ff),
     ucast (drop_bit 8 (pixel AND 0x00ff00)), ucast (drop_bit 16 (pixel AND 0xff0000)))"
| "dfb_pixel_to_components DSPF_AiRGB pixel = (ucast (drop_bit 24 pixel XOR 0xff), ucast (drop_bit 16 (pixel AND 0xff0000)),
     ucast (drop_bit 8 (pixel AND 0x00ff00)), ucast (pixel AND 0x0000ff))"
| "dfb_pixel_to_components DSPF_AYUV pixel = (ucast (drop_bit 24 pixel), ucast (drop_bit 16 (pixel AND 0xff0000)),
     ucast (drop_bit 8 (pixel AND 0x00ff00)), ucast (pixel AND 0x0000ff))"
| "dfb_pixel_to_components DSPF_YUY2 pixel = (0xff, ucast (pixel AND 0xff), ucast (drop_bit 8 (pixel AND 0xff00)), ucast (drop_bit 24 pixel))"
| "dfb_pixel_to_components DSPF_UYVY pixel = (0xff, ucast (drop_bit 8 (pixel AND 0xff00)), ucast (pixel AND 0xff),
     ucast (drop_bit 16 (pixel AND 0xff0000)))"
| "dfb_pixel_to_components _ pixel = (0xff, 0, 0, 0)"

section \<open>The documented layouts\<close>

text \<open>
  Width and position of alpha, red, green and blue, from the comments of \<^verbatim>\<open>DFBSurfacePixelFormat\<close>. A channel of
  \<open>n\<close> bits stands for the 8 bit value that repeats its bits from the top.
\<close>

fun fields_of :: "DFBSurfacePixelFormat \<Rightarrow> ((nat \<times> nat) \<times> (nat \<times> nat) \<times> (nat \<times> nat) \<times> (nat \<times> nat)) option" where
  "fields_of DSPF_ARGB1555 = Some ((1, 15), (5, 10), (5, 5), (5, 0))"
| "fields_of DSPF_RGB16 = Some ((0, 0), (5, 11), (6, 5), (5, 0))"
| "fields_of DSPF_RGB24 = Some ((0, 0), (8, 16), (8, 8), (8, 0))"
| "fields_of DSPF_RGB32 = Some ((0, 0), (8, 16), (8, 8), (8, 0))"
| "fields_of DSPF_ARGB = Some ((8, 24), (8, 16), (8, 8), (8, 0))"
| "fields_of DSPF_AiRGB = Some ((8, 24), (8, 16), (8, 8), (8, 0))"
| "fields_of DSPF_A8 = Some ((8, 0), (0, 0), (0, 0), (0, 0))"
| "fields_of DSPF_RGB332 = Some ((0, 0), (3, 5), (3, 2), (2, 0))"
| "fields_of DSPF_ARGB2554 = Some ((2, 14), (5, 9), (5, 4), (4, 0))"
| "fields_of DSPF_ARGB4444 = Some ((4, 12), (4, 8), (4, 4), (4, 0))"
| "fields_of DSPF_RGBA4444 = Some ((4, 0), (4, 12), (4, 8), (4, 4))"
| "fields_of DSPF_RGB444 = Some ((0, 0), (4, 8), (4, 4), (4, 0))"
| "fields_of DSPF_RGB555 = Some ((0, 0), (5, 10), (5, 5), (5, 0))"
| "fields_of DSPF_BGR555 = Some ((0, 0), (5, 0), (5, 5), (5, 10))"
| "fields_of DSPF_RGBA5551 = Some ((1, 0), (5, 11), (5, 6), (5, 1))"
| "fields_of DSPF_ARGB8565 = Some ((8, 16), (5, 11), (6, 5), (5, 0))"
| "fields_of DSPF_ABGR = Some ((8, 24), (8, 0), (8, 8), (8, 16))"
| "fields_of DSPF_RGBAF88871 = Some ((7, 1), (8, 24), (8, 16), (8, 8))"
| "fields_of DSPF_RGB18 = Some ((0, 0), (6, 12), (6, 6), (6, 0))"
| "fields_of DSPF_ARGB1666 = Some ((1, 18), (6, 12), (6, 6), (6, 0))"
| "fields_of DSPF_ARGB6666 = Some ((6, 18), (6, 12), (6, 6), (6, 0))"
| "fields_of _ = None"

text \<open>Alpha is 255 and colours are 0 where a format has no such channel.\<close>

definition repeated :: "u8 \<Rightarrow> nat \<times> nat \<Rightarrow> u64 \<Rightarrow> u8" where
  "repeated absent field pixel = (case field of (n, pos) \<Rightarrow>
     if n = 0 then absent
     else horner_sum of_bool 2 (map (\<lambda>i. bit pixel (pos + (n - 1 - (7 - i) mod n))) [0..<8]))"

definition documented_color :: "DFBSurfacePixelFormat \<Rightarrow> u64 \<Rightarrow> DFBColor" where
  "documented_color fmt pixel = (case fields_of fmt of
     None \<Rightarrow> opaque_color 0 0 0
   | Some (a, r, g, b) \<Rightarrow>
       \<lparr> col_a = (if DFB_PIXELFORMAT_INV_ALPHA (format_code fmt) then NOT (repeated 0xff a pixel) else repeated 0xff a pixel),
         col_r = repeated 0 r pixel, col_g = repeated 0 g pixel, col_b = repeated 0 b pixel \<rparr>)"

text \<open>The formats \<^const>\<open>dfb_pixel_to_color\<close> knows, and the bits that a pixel of the format may have set.\<close>

definition color_formats :: "DFBSurfacePixelFormat list" where
  "color_formats = [DSPF_RGB332, DSPF_ARGB1555, DSPF_RGB555, DSPF_BGR555, DSPF_ARGB2554, DSPF_ARGB4444, DSPF_RGB444,
     DSPF_RGBA4444, DSPF_ARGB8565, DSPF_RGB16, DSPF_ARGB, DSPF_RGB24, DSPF_RGB32, DSPF_ABGR, DSPF_AiRGB, DSPF_RGBA5551,
     DSPF_RGBAF88871, DSPF_A8]"

definition pixel_of_format :: "DFBSurfacePixelFormat \<Rightarrow> u64 \<Rightarrow> bool" where
  "pixel_of_format fmt pixel \<longleftrightarrow> drop_bit (unat (DFB_BITS_PER_PIXEL (format_code fmt))) pixel = 0"

lemma bits_per_pixel:
  assumes "fmt \<in> set color_formats"
  shows "unat (DFB_BITS_PER_PIXEL (format_code fmt)) =
    (if fmt \<in> {DSPF_RGB332, DSPF_A8} then 8 else if fmt \<in> {DSPF_RGB24, DSPF_ARGB8565} then 24
     else if fmt \<in> {DSPF_RGB32, DSPF_ARGB, DSPF_ABGR, DSPF_AiRGB, DSPF_RGBAF88871} then 32 else 16)"
  using assms by (auto simp: color_formats_def DFB_BITS_PER_PIXEL_def DFB_SURFACE_PIXELFORMAT_def)

lemma inverted_alpha:
  assumes "fmt \<in> set color_formats"
  shows "DFB_PIXELFORMAT_INV_ALPHA (format_code fmt) \<longleftrightarrow> fmt = DSPF_AiRGB"
  using assms by (auto simp: color_formats_def DFB_PIXELFORMAT_INV_ALPHA_def DFB_SURFACE_PIXELFORMAT_def)

text \<open>Words are compared bit by bit.\<close>

lemma byte_eqI:
  fixes x y :: u8
  assumes "bit x 0 = bit y 0" "bit x 1 = bit y 1" "bit x 2 = bit y 2" "bit x 3 = bit y 3"
    "bit x 4 = bit y 4" "bit x 5 = bit y 5" "bit x 6 = bit y 6" "bit x 7 = bit y 7"
  shows "x = y"
proof (rule bit_word_eqI)
  fix n :: nat assume "n < LENGTH(8)"
  then have "n \<in> {0, 1, 2, 3, 4, 5, 6, 7}" by auto
  then show "bit x n = bit y n" using assms by (elim insertE emptyE) simp_all
qed

lemma bit_repeated:
  assumes "i < 8" and "n \<noteq> 0"
  shows "bit (repeated absent (n, pos) pixel) i = bit pixel (pos + (n - 1 - (7 - i) mod n))"
  using assms by (simp add: repeated_def bit_horner_sum_bit_word_iff del: upt_rec_numeral)

text \<open>The expansions repeat bits.\<close>

lemma EXPAND_2to8_bits:
  fixes v :: "'a::len word"
  assumes "unat v < 4"
  shows "EXPAND_2to8 v = push_bit 6 (ucast v) OR push_bit 4 (ucast v) OR push_bit 2 (ucast v) OR ucast v"
proof -
  have "unat v = 0 \<or> unat v = 1 \<or> unat v = 2 \<or> unat v = 3" using assms by linarith
  moreover have "ucast v = (word_of_nat (unat v) :: u8)" by simp
  ultimately show ?thesis unfolding EXPAND_2to8_def lookup2to8_def by (elim disjE) simp_all
qed

lemma EXPAND_3to8_bits:
  fixes v :: "'a::len word"
  assumes "unat v < 8"
  shows "EXPAND_3to8 v = push_bit 5 (ucast v) OR push_bit 2 (ucast v) OR drop_bit 1 (ucast v)"
proof -
  have "unat v = 0 \<or> unat v = 1 \<or> unat v = 2 \<or> unat v = 3 \<or> unat v = 4 \<or> unat v = 5 \<or> unat v = 6 \<or> unat v = 7"
    using assms by linarith
  moreover have "ucast v = (word_of_nat (unat v) :: u8)" by simp
  ultimately show ?thesis unfolding EXPAND_3to8_def lookup3to8_def by (elim disjE) simp_all
qed

section \<open>Decoding follows the documented layout\<close>

lemma documented_color_cases:
  assumes "fmt \<in> set color_formats" and "fields_of fmt = Some (a, r, g, b)"
  shows "documented_color fmt pixel =
    \<lparr> col_a = (if fmt = DSPF_AiRGB then NOT (repeated 0xff a pixel) else repeated 0xff a pixel),
      col_r = repeated 0 r pixel, col_g = repeated 0 g pixel, col_b = repeated 0 b pixel \<rparr>"
  using assms(2) inverted_alpha [OF assms(1)] by (simp add: documented_color_def)

lemma repeated_absent [simp]: "repeated absent (0, pos) pixel = absent"
  by (simp add: repeated_def)

lemma two_nat: "Suc (Suc 0) = 2" by simp

lemma bit_EXPAND_7to8: "bit (EXPAND_7to8 (v::u64)) n \<longleftrightarrow> n < 64 \<and> (1 \<le> n \<and> bit v (n - 1) \<or> bit v (n + 6))"
  unfolding EXPAND_7to8_def by (auto simp only: bit_simps) (auto simp: add.commute dest: bit_imp_le_length)

lemma unat_and_mask: "unat ((v::u64) AND mask n) < 2 ^ n"
  by (simp flip: take_bit_eq_mask add: unsigned_take_bit_eq)

lemma small_and: "unat ((v::u64) AND 3) < 4" "unat ((v::u64) AND 7) < 8"
  using unat_and_mask [of v 2] unat_and_mask [of v 3] by (simp_all add: mask_eq_exp_minus_1)

text \<open>A masked and shifted field that is expanded is the repeated field.\<close>

lemma bit_EXPAND_1to8: "bit (EXPAND_1to8 ((v::u64) AND 1)) n \<longleftrightarrow> n < 8 \<and> bit v 0"
proof -
  have "v AND 1 = 0 \<longleftrightarrow> \<not> bit v 0" by (simp add: bit_0 and_one_eq odd_iff_mod_2_eq_one)
  moreover have "bit (mask 8 :: u64) n \<longleftrightarrow> n < 8" by (auto simp: bit_mask_iff)
  then have "bit (255::u64) n \<longleftrightarrow> n < 8" by (simp add: mask_eq_exp_minus_1)
  ultimately show ?thesis by (auto simp: EXPAND_1to8_def)
qed

lemmas field_bits = bit_repeated EXPAND_2to8_bits EXPAND_3to8_bits small_and EXPAND_4to8_def EXPAND_5to8_def EXPAND_6to8_def
  bit_EXPAND_7to8 bit_EXPAND_1to8 bit_simps two_nat add.commute

lemma fields_shifted:
  fixes pixel :: u64
  shows "ucast (EXPAND_1to8 (drop_bit pos pixel AND 1)) = repeated absent (1, pos) pixel"
    and "EXPAND_2to8 (drop_bit pos pixel AND 3) = repeated absent (2, pos) pixel"
    and "EXPAND_3to8 (drop_bit pos pixel AND 7) = repeated absent (3, pos) pixel"
    and "ucast (EXPAND_4to8 (drop_bit pos pixel AND 15)) = repeated absent (4, pos) pixel"
    and "ucast (EXPAND_5to8 (drop_bit pos pixel AND 31)) = repeated absent (5, pos) pixel"
    and "ucast (EXPAND_6to8 (drop_bit pos pixel AND 63)) = repeated absent (6, pos) pixel"
    and "ucast (EXPAND_7to8 (drop_bit pos pixel AND 127)) = repeated absent (7, pos) pixel"
    and "ucast (drop_bit pos pixel AND 255) = repeated absent (8, pos) pixel"
    and "ucast (drop_bit pos pixel) = repeated absent (8, pos) pixel"
    and "ucast (drop_bit pos pixel XOR 255) = NOT (repeated absent (8, pos) pixel)"
  by (rule byte_eqI; simp add: field_bits; (simp add: numeral_eq_Suc)?)+

lemmas fields_at_0 = fields_shifted [where pos = 0, simplified drop_bit_0 id_apply]

text \<open>The top field of a 16 bit pixel is not masked by the code; a pixel of the format has no bits above it.\<close>

lemma top_field:
  assumes "drop_bit 16 (pixel::u64) = 0"
  shows "EXPAND_4to8 (drop_bit 12 pixel) = EXPAND_4to8 (drop_bit 12 pixel AND 15)"
    and "EXPAND_2to8 (drop_bit 14 pixel) = EXPAND_2to8 (drop_bit 14 pixel AND 3)"
    and "EXPAND_1to8 (drop_bit 15 pixel) = EXPAND_1to8 (drop_bit 15 pixel AND 1)"
proof -
  have low: "n < 16" if "bit pixel n" for n
  proof (rule ccontr)
    assume "\<not> n < 16"
    then have "bit (drop_bit 16 pixel) (n - 16) = bit pixel n" by (simp add: bit_drop_bit_eq)
    then show False using assms that by simp
  qed
  then have "drop_bit n pixel = drop_bit n pixel AND mask (16 - n)" if "n \<le> 16" for n
    using that by (intro bit_word_eqI) (auto simp: bit_simps dest: low)
  from this [of 12] this [of 14] this [of 15]
  show "EXPAND_4to8 (drop_bit 12 pixel) = EXPAND_4to8 (drop_bit 12 pixel AND 15)"
    and "EXPAND_2to8 (drop_bit 14 pixel) = EXPAND_2to8 (drop_bit 14 pixel AND 3)"
    and "EXPAND_1to8 (drop_bit 15 pixel) = EXPAND_1to8 (drop_bit 15 pixel AND 1)"
    by (simp_all add: mask_eq_exp_minus_1)
qed

lemma drop_16:
  assumes "pixel_of_format fmt pixel" and "fmt \<in> {DSPF_ARGB1555, DSPF_ARGB2554, DSPF_ARGB4444, DSPF_RGBA4444}"
  shows "drop_bit 16 pixel = 0"
proof -
  have "unat (DFB_BITS_PER_PIXEL (format_code fmt)) = 16"
    using assms(2) bits_per_pixel [of fmt] by (auto simp: color_formats_def)
  then show ?thesis using assms(1) by (simp add: pixel_of_format_def)
qed

lemma to_color_fields:
  assumes fmt: "fmt \<in> set color_formats"
    and top: "fmt \<in> {DSPF_ARGB1555, DSPF_ARGB2554, DSPF_ARGB4444, DSPF_RGBA4444} \<Longrightarrow> drop_bit 16 pixel = 0"
  shows "dfb_pixel_to_color fmt pixel = documented_color fmt pixel"
proof -
  obtain a r g b where fields: "fields_of fmt = Some (a, r, g, b)" using fmt by (auto simp: color_formats_def)
  show ?thesis
    unfolding documented_color_cases [OF fmt fields]
    using fmt fields top
    by (auto simp: color_formats_def alpha_color_def opaque_color_def fields_shifted fields_at_0 top_field
        fields_shifted(1) [unfolded One_nat_def] fields_at_0(1) [unfolded One_nat_def])
qed

section \<open>Packing and unpacking are inverse\<close>

lemma word32_eqI:
  fixes x y :: u32
  assumes "\<And>n. n < 8 \<Longrightarrow> bit x n = bit y n" "\<And>n. n < 8 \<Longrightarrow> bit x (n + 8) = bit y (n + 8)"
    "\<And>n. n < 8 \<Longrightarrow> bit x (n + 16) = bit y (n + 16)" "\<And>n. n < 8 \<Longrightarrow> bit x (n + 24) = bit y (n + 24)"
  shows "x = y"
proof (rule bit_word_eqI)
  fix n :: nat assume n: "n < LENGTH(32)"
  consider "n < 8" | "8 \<le> n" "n - 8 < 8" | "16 \<le> n" "n - 16 < 8" | "24 \<le> n" "n - 24 < 8" using n by fastforce
  then show "bit x n = bit y n" by cases (use assms [of "n"] assms [of "n - 8"] assms [of "n - 16"] assms [of "n - 24"] in auto)
qed

lemma less_8: "(n::nat) < 8 \<longleftrightarrow> n = 0 \<or> n = 1 \<or> n = 2 \<or> n = 3 \<or> n = 4 \<or> n = 5 \<or> n = 6 \<or> n = 7"
  by auto

definition field_mask :: "nat \<times> nat \<Rightarrow> u32" where
  "field_mask field = push_bit (snd field) (mask (fst field))"

definition used_bits :: "DFBSurfacePixelFormat \<Rightarrow> u32" where
  "used_bits fmt = (case fields_of fmt of None \<Rightarrow> 0 | Some (a, r, g, b) \<Rightarrow>
     field_mask a OR field_mask r OR field_mask g OR field_mask b)"

lemma bit_times_2: "bit (w * 2) n \<longleftrightarrow> n < LENGTH('a) \<and> n \<noteq> 0 \<and> bit w (n - 1)" for w :: "'a::len word"
  using bit_double_iff [of w n] by (auto simp: mult.commute)

lemma byte_high_bit: "8 \<le> n \<Longrightarrow> \<not> bit (w :: u8) n"
  by (auto dest: bit_imp_le_length)

lemma ucast_from_int: "ucast (from_int w) = w"
  by (rule bit_word_eqI) (simp add: from_int_def bit_simps)

lemma repack_documented:
  assumes fmt: "fmt \<in> set color_formats"
  shows "ucast (dfb_pixel_from_color fmt (documented_color fmt pixel)) = ucast pixel AND used_bits fmt"
proof -
  obtain a r g b where fields: "fields_of fmt = Some (a, r, g, b)" using fmt by (auto simp: color_formats_def)
  show ?thesis
    unfolding documented_color_cases [OF fmt fields] used_bits_def
    using fmt fields
    by (auto simp: color_formats_def ucast_from_int pixel_macros field_mask_def)
       (rule word32_eqI; unfold less_8; elim disjE; simp add: field_bits bit_times_2 byte_high_bit; fail)+
qed

text \<open>A channel of \<open>n\<close> bits keeps the top \<open>n\<close> bits, and is off by less than \<open>2^(8-n)\<close>.\<close>

definition kept :: "nat \<Rightarrow> u8 \<Rightarrow> u8 \<Rightarrow> bool" where
  "kept n x y \<longleftrightarrow> drop_bit (8 - n) x = drop_bit (8 - n) y"

lemma kept_close:
  assumes "kept n x y"
  shows "\<bar>int (unat x) - int (unat y)\<bar> < 2 ^ (8 - n)"
proof -
  define d q where "d = (2::nat) ^ (8 - n)" and "q = unat x div d"
  have "unat (drop_bit (8 - n) x) = unat (drop_bit (8 - n) y)" using assms by (simp add: kept_def)
  then have "unat x div d = unat y div d" unfolding unat_drop_bit_eq d_def by (simp add: drop_bit_eq_div)
  then have "unat x = q * d + unat x mod d" "unat y = q * d + unat y mod d"
    unfolding q_def by (metis div_mult_mod_eq)+
  moreover have "unat x mod d < d" "unat y mod d < d" by (simp_all add: d_def)
  ultimately have "\<bar>int (unat x) - int (unat y)\<bar> < int d" by linarith
  then show ?thesis by (simp add: d_def)
qed

lemma keptI:
  assumes "\<And>i. i < 8 \<Longrightarrow> 8 - n \<le> i \<Longrightarrow> bit x i = bit y i"
  shows "kept n x y"
  unfolding kept_def
proof (rule bit_word_eqI)
  fix i
  show "bit (drop_bit (8 - n) x) i = bit (drop_bit (8 - n) y) i"
    using assms [of "8 - n + i"] byte_high_bit [of "8 - n + i"] by (cases "8 - n + i < 8") (auto simp: bit_drop_bit_eq)
qed

lemma bit_from_int: "n < 32 \<Longrightarrow> bit (from_int w) n = bit w n"
  by (simp add: from_int_def bit_simps)

lemma from_int_small:
  assumes "drop_bit 16 w = 0"
  shows "drop_bit 16 (from_int w) = 0"
proof (rule bit_word_eqI)
  fix n
  have "bit w m \<longleftrightarrow> bit (drop_bit 16 w) (m - 16)" if "16 \<le> m" for m using that by (simp add: bit_drop_bit_eq)
  then have "\<not> bit w (min 31 (16 + n))" using assms by simp
  then show "bit (drop_bit 16 (from_int w)) n = bit 0 n" by (simp add: from_int_def bit_simps min.commute)
qed

lemma small_pixels:
  assumes "fmt \<in> {DSPF_ARGB1555, DSPF_ARGB2554, DSPF_ARGB4444, DSPF_RGBA4444}"
  shows "drop_bit 16 (dfb_pixel_from_color fmt c) = 0"
  using assms
  by auto (rule from_int_small, rule word32_eqI; unfold less_8; elim disjE;
    simp add: pixel_macros field_bits bit_times_2 byte_high_bit; fail)+

lemma repack_keeps:
  assumes fmt: "fmt \<in> set color_formats" and fields: "fields_of fmt = Some (a, r, g, b)"
    and d_def: "d = documented_color fmt (dfb_pixel_from_color fmt c)"
  shows "kept (fst a) (col_a d) (col_a c) \<and> kept (fst r) (col_r d) (col_r c) \<and> kept (fst g) (col_g d) (col_g c) \<and>
    kept (fst b) (col_b d) (col_b c)"
  unfolding d_def documented_color_cases [OF fmt fields]
  using fmt fields
  by (auto simp: color_formats_def)
     (rule keptI; unfold less_8; elim disjE; simp add: pixel_macros bit_from_int field_bits bit_times_2 byte_high_bit; fail)+

lemma to_color_documented_from:
  assumes "fmt \<in> set color_formats"
  shows "dfb_pixel_to_color fmt (dfb_pixel_from_color fmt c) = documented_color fmt (dfb_pixel_from_color fmt c)"
  using to_color_fields [OF assms] small_pixels by blast

section \<open>Properties\<close>

text \<open>
  C8: for every format that \<^const>\<open>dfb_pixel_to_color\<close> decodes, the colour of a pixel of the format is the one its
  documented layout gives: each channel repeats the bits of its field, alpha is inverted where the format says so,
  and missing channels are opaque alpha and black.
\<close>

theorem pixel_decoding_documented:
  assumes "fmt \<in> set color_formats" and "pixel_of_format fmt pixel"
  shows "dfb_pixel_to_color fmt pixel = documented_color fmt pixel"
  using to_color_fields [OF assms(1)] drop_16 [OF assms(2)] by blast

lemma pixel_decoding_documented_witness:
  "dfb_pixel_to_color DSPF_ARGB1555 0xFC01 = documented_color DSPF_ARGB1555 0xFC01"
  by (rule pixel_decoding_documented)
     (simp_all add: color_formats_def pixel_of_format_def DFB_BITS_PER_PIXEL_def DFB_SURFACE_PIXELFORMAT_def)

text \<open>
  C7: unpacking and packing a pixel again gives back the bits its format uses; packing and unpacking a
  colour keeps, in every channel of \<open>n\<close> bits, the top \<open>n\<close> bits, so that the error is below \<open>2^(8 - n)\<close>.
\<close>

theorem pixel_color_roundtrip:
  assumes "fmt \<in> set color_formats" and "fields_of fmt = Some (a, r, g, b)" and "pixel_of_format fmt pixel"
  shows "ucast (dfb_pixel_from_color fmt (dfb_pixel_to_color fmt pixel)) = (ucast pixel AND used_bits fmt :: u32) \<and>
    (let d = dfb_pixel_to_color fmt (dfb_pixel_from_color fmt c)
     in \<bar>int (unat (col_a d)) - int (unat (col_a c))\<bar> < 2 ^ (8 - fst a) \<and>
        \<bar>int (unat (col_r d)) - int (unat (col_r c))\<bar> < 2 ^ (8 - fst r) \<and>
        \<bar>int (unat (col_g d)) - int (unat (col_g c))\<bar> < 2 ^ (8 - fst g) \<and>
        \<bar>int (unat (col_b d)) - int (unat (col_b c))\<bar> < 2 ^ (8 - fst b))"
proof -
  have "ucast (dfb_pixel_from_color fmt (dfb_pixel_to_color fmt pixel)) = (ucast pixel AND used_bits fmt :: u32)"
    using repack_documented [OF assms(1)] to_color_fields [OF assms(1)] drop_16 [OF assms(3)] by metis
  moreover note repack_keeps [OF assms(1,2) refl, of c]
  ultimately show ?thesis
    unfolding to_color_documented_from [OF assms(1)] Let_def using kept_close by blast
qed

lemma pixel_color_roundtrip_witness:
  "ucast (dfb_pixel_from_color DSPF_RGB16 (dfb_pixel_to_color DSPF_RGB16 0xF81F)) = (ucast (0xF81F :: u64) AND used_bits DSPF_RGB16 :: u32) \<and>
    (let c = \<lparr> col_a = 255, col_r = 100, col_g = 50, col_b = 25 \<rparr>; d = dfb_pixel_to_color DSPF_RGB16 (dfb_pixel_from_color DSPF_RGB16 c)
     in \<bar>int (unat (col_a d)) - int (unat (col_a c))\<bar> < 2 ^ (8 - fst (0 :: nat, 0 :: nat)) \<and>
        \<bar>int (unat (col_r d)) - int (unat (col_r c))\<bar> < 2 ^ (8 - fst (5 :: nat, 11 :: nat)) \<and>
        \<bar>int (unat (col_g d)) - int (unat (col_g c))\<bar> < 2 ^ (8 - fst (6 :: nat, 5 :: nat)) \<and>
        \<bar>int (unat (col_b d)) - int (unat (col_b c))\<bar> < 2 ^ (8 - fst (5 :: nat, 0 :: nat)))"
  unfolding Let_def [of "\<lparr> col_a = 255, col_r = 100, col_g = 50, col_b = 25 \<rparr>"]
  by (rule pixel_color_roundtrip)
     (simp_all add: color_formats_def pixel_of_format_def DFB_BITS_PER_PIXEL_def DFB_SURFACE_PIXELFORMAT_def)

text \<open>
  What is lost: the components of \<^const>\<open>DSPF_I420\<close> and \<^const>\<open>DSPF_YV12\<close> pixels fall through to the zeroes of
  the default case, and formats with 6 bits per channel can be packed but not unpacked.
\<close>

lemma planar_components_lost:
  "dfb_pixel_to_components DSPF_I420 pixel = (0xff, 0, 0, 0)" "dfb_pixel_to_components DSPF_YV12 pixel = (0xff, 0, 0, 0)"
  by simp_all

lemma six_bits_not_unpacked:
  "dfb_pixel_to_color DSPF_RGB18 (dfb_pixel_from_color DSPF_RGB18 \<lparr> col_a = 255, col_r = 255, col_g = 255, col_b = 255 \<rparr>) =
     opaque_color 0 0 0"
  by simp

end
