(* ===== verification/Pixel_Convert.thy ===== *)
theory Pixel_Convert
  imports Pixel_Format
begin

text \<open>
  The conversion of whole images (\<^verbatim>\<open>gfx/convert.c\<close>). The source is the bytes from its start, on a little-endian
  machine; the destination is an array of cells of the pointer's type. The loops over rows and pixels are common to
  all functions: a row is a number of steps, each of which stores a group of neighbouring cells. What a step stores is
  written out for each format; a format a function does not support leaves the destination alone.
\<close>

section \<open>Sources and loops\<close>

record source =
  src_byte :: "nat \<Rightarrow> u8"
  src_pitch :: nat
  src_height :: nat

definition load8 :: "source \<Rightarrow> nat \<Rightarrow> u32" where
  "load8 src a = ucast (src_byte src a)"
definition load16 :: "source \<Rightarrow> nat \<Rightarrow> u32" where
  "load16 src a = ucast (src_byte src a) OR push_bit 8 (ucast (src_byte src (a + 1)))"
definition load32 :: "source \<Rightarrow> nat \<Rightarrow> u32" where
  "load32 src a = ucast (src_byte src a) OR push_bit 8 (ucast (src_byte src (a + 1))) OR
     push_bit 16 (ucast (src_byte src (a + 2))) OR push_bit 24 (ucast (src_byte src (a + 3)))"

text \<open>The start of row \<open>y\<close>, and the elements of the row read as bytes, half words and words.\<close>

definition row_at :: "source \<Rightarrow> nat \<Rightarrow> nat" where
  "row_at src y = y * src_pitch src"
definition src8 :: "source \<Rightarrow> nat \<Rightarrow> nat \<Rightarrow> u32" where
  "src8 src y i = load8 src (row_at src y + i)"
definition src16 :: "source \<Rightarrow> nat \<Rightarrow> nat \<Rightarrow> u32" where
  "src16 src y i = load16 src (row_at src y + 2 * i)"
definition src32 :: "source \<Rightarrow> nat \<Rightarrow> nat \<Rightarrow> u32" where
  "src32 src y i = load32 src (row_at src y + 4 * i)"

text \<open>Chroma: the plane of \<open>DSPF_NV16\<close>, the planes of \<open>DSPF_YUV444P\<close>, and those of \<open>DSPF_YV16\<close> with half the pitch.\<close>

definition nv16_chroma :: "source \<Rightarrow> nat \<Rightarrow> nat \<Rightarrow> u32" where
  "nv16_chroma src y i = load16 src (row_at src y + src_height src * src_pitch src + 2 * i)"
definition plane444 :: "source \<Rightarrow> nat \<Rightarrow> nat \<Rightarrow> nat \<Rightarrow> u32" where
  "plane444 src p y x = load8 src (row_at src y + p * src_height src * src_pitch src + x)"
definition yv16_cr :: "source \<Rightarrow> nat \<Rightarrow> nat \<Rightarrow> u32" where
  "yv16_cr src y x = load8 src (src_height src * src_pitch src + y * (src_pitch src div 2) + x div 2)"
definition yv16_cb :: "source \<Rightarrow> nat \<Rightarrow> nat \<Rightarrow> u32" where
  "yv16_cb src y x = load8 src (src_height src * src_pitch src + src_height src * src_pitch src div 2 +
     y * (src_pitch src div 2) + x div 2)"

type_synonym 'w cells = "nat \<Rightarrow> 'w"

fun store :: "nat \<Rightarrow> 'w list \<Rightarrow> 'w cells \<Rightarrow> 'w cells" where
  "store a [] dst = dst"
| "store a (v # vs) dst = store (a + 1) vs (dst(a := v))"

text \<open>The pixel loop: \<open>n\<close> steps of \<open>k\<close> cells. The row loop moves the destination on by \<open>dp\<close> cells.\<close>

fun pixel_loop :: "nat \<Rightarrow> (nat \<Rightarrow> 'w list) \<Rightarrow> nat \<Rightarrow> nat \<Rightarrow> 'w cells \<Rightarrow> 'w cells" where
  "pixel_loop k step d 0 dst = dst"
| "pixel_loop k step d (Suc n) dst = store (d + k * n) (step n) (pixel_loop k step d n dst)"

fun row_loop :: "nat \<Rightarrow> nat \<Rightarrow> (nat \<Rightarrow> nat \<Rightarrow> 'w list) \<Rightarrow> nat \<Rightarrow> nat \<Rightarrow> nat \<Rightarrow> nat \<Rightarrow> 'w cells \<Rightarrow> 'w cells" where
  "row_loop k n step dp y d 0 dst = dst"
| "row_loop k n step dp y d (Suc height) dst = row_loop k n step dp (y + 1) (d + dp) height (pixel_loop k (step y) d n dst)"

text \<open>Cells per step, steps per row, and what a step of a row stores.\<close>

type_synonym 'w conversion = "nat \<times> nat \<times> (nat \<Rightarrow> nat \<Rightarrow> 'w list)"

definition run_conversion :: "'w conversion option \<Rightarrow> nat \<Rightarrow> nat \<Rightarrow> 'w cells \<Rightarrow> 'w cells" where
  "run_conversion conv dp height dst = (case conv of
     None \<Rightarrow> dst
   | Some (k, n, step) \<Rightarrow> row_loop k n step dp 0 0 height dst)"

definition each_pixel :: "nat \<Rightarrow> (nat \<Rightarrow> nat \<Rightarrow> u32) \<Rightarrow> 'w::len word conversion option" where
  "each_pixel width pix = Some (1, width, \<lambda>y x. [ucast (pix y x)])"

definition ycbcr :: "(u32 \<Rightarrow> u32 \<Rightarrow> u32 \<Rightarrow> 'a) \<Rightarrow> u32 \<Rightarrow> u32 \<Rightarrow> u32 \<Rightarrow> 'a" where
  "ycbcr pack y cb cr = (case YCBCR_TO_RGB (uint y) (uint cb) (uint cr) of
     (r, g, b) \<Rightarrow> pack (word_of_int r) (word_of_int g) (word_of_int b))"

section \<open>Packed conversions\<close>

definition ARGB4444_TO_RGB32 :: "u32 \<Rightarrow> u32" where
  "ARGB4444_TO_RGB32 pixel = push_bit 12 (pixel AND 0x0F00) OR push_bit 8 (pixel AND 0x0FF0) OR push_bit 4 (pixel AND 0x00FF) OR
     (pixel AND 0x000F)"
definition RGBA4444_TO_RGB32 :: "u32 \<Rightarrow> u32" where
  "RGBA4444_TO_RGB32 pixel = push_bit 8 (pixel AND 0xF000) OR push_bit 4 (pixel AND 0xFF00) OR (pixel AND 0x0FF0) OR
     drop_bit 4 (pixel AND 0x00F0)"
definition ARGB4444_TO_ARGB :: "u32 \<Rightarrow> u32" where
  "ARGB4444_TO_ARGB pixel = push_bit 16 (pixel AND 0xF000) OR push_bit 12 (pixel AND 0xFF00) OR push_bit 8 (pixel AND 0x0FF0) OR
     push_bit 4 (pixel AND 0x00FF) OR (pixel AND 0x000F)"
definition RGBA4444_TO_ARGB :: "u32 \<Rightarrow> u32" where
  "RGBA4444_TO_ARGB pixel = push_bit 28 (pixel AND 0x000F) OR push_bit 24 (pixel AND 0x000F) OR push_bit 8 (pixel AND 0xF000) OR
     push_bit 4 (pixel AND 0xFF00) OR (pixel AND 0x0FF0) OR drop_bit 4 (pixel AND 0x00F0)"
definition ARGB8565_TO_ARGB1555 :: "u32 \<Rightarrow> u32" where
  "ARGB8565_TO_ARGB1555 pixel = drop_bit 16 (pixel AND 0x800000) OR drop_bit 1 (pixel AND 0x00F800) OR
     drop_bit 1 (pixel AND 0x0007C0) OR (pixel AND 0x00001F)"

section \<open>To RGB16 and RGB555\<close>

fun rgb16_conversion :: "DFBSurfacePixelFormat \<Rightarrow> source \<Rightarrow> nat \<Rightarrow> u16 conversion option" where
  "rgb16_conversion DSPF_RGB16 src width = each_pixel width (src16 src)"
| "rgb16_conversion DSPF_NV16 src width = each_pixel width (\<lambda>y x.
     ycbcr PIXEL_RGB16 (src8 src y x) (nv16_chroma src y (x div 2) AND 0xff) (drop_bit 8 (nv16_chroma src y (x div 2))))"
| "rgb16_conversion DSPF_UYVY src width = Some (2, (width + 1) div 2, \<lambda>y i.
     (let v = src32 src y i; y1 = drop_bit 24 v; cr = drop_bit 16 v AND 0xff; y0 = drop_bit 8 v AND 0xff; cb = v AND 0xff
      in [ucast (ycbcr PIXEL_RGB16 y0 cb cr), ucast (ycbcr PIXEL_RGB16 y1 cb cr)]))"
| "rgb16_conversion DSPF_RGB444 src width = each_pixel width (\<lambda>y x. PIXEL_RGB16 (EXPAND_4to8 (drop_bit 8 (src16 src y x AND 0x0f00)))
     (EXPAND_4to8 (drop_bit 4 (src16 src y x AND 0x00f0))) (EXPAND_4to8 (src16 src y x AND 0x000f)))"
| "rgb16_conversion DSPF_ARGB4444 src width = each_pixel width (\<lambda>y x. PIXEL_RGB16 (EXPAND_4to8 (drop_bit 8 (src16 src y x AND 0x0f00)))
     (EXPAND_4to8 (drop_bit 4 (src16 src y x AND 0x00f0))) (EXPAND_4to8 (src16 src y x AND 0x000f)))"
| "rgb16_conversion DSPF_RGBA4444 src width = each_pixel width (\<lambda>y x. PIXEL_RGB16 (EXPAND_4to8 (drop_bit 12 (src16 src y x AND 0xf000)))
     (EXPAND_4to8 (drop_bit 8 (src16 src y x AND 0x0f00))) (EXPAND_4to8 (drop_bit 4 (src16 src y x AND 0x00f0))))"
| "rgb16_conversion DSPF_RGB555 src width = each_pixel width (\<lambda>y x. push_bit 1 (src16 src y x AND 0x7c00) OR
     push_bit 1 (src16 src y x AND 0x03e0) OR drop_bit 4 (src16 src y x AND 0x0200) OR (src16 src y x AND 0x001f))"
| "rgb16_conversion DSPF_ARGB1555 src width = each_pixel width (\<lambda>y x. push_bit 1 (src16 src y x AND 0x7c00) OR
     push_bit 1 (src16 src y x AND 0x03e0) OR drop_bit 4 (src16 src y x AND 0x0200) OR (src16 src y x AND 0x001f))"
| "rgb16_conversion DSPF_BGR555 src width = each_pixel width (\<lambda>y x. drop_bit 10 (src16 src y x AND 0x7c00) OR
     push_bit 1 (src16 src y x AND 0x03e0) OR push_bit 11 (src16 src y x AND 0x001f))"
| "rgb16_conversion DSPF_RGB32 src width = each_pixel width (\<lambda>y x. PIXEL_RGB16 (drop_bit 16 (src32 src y x AND 0xff0000))
     (drop_bit 8 (src32 src y x AND 0x00ff00)) (src32 src y x AND 0x0000ff))"
| "rgb16_conversion DSPF_ARGB src width = each_pixel width (\<lambda>y x. PIXEL_RGB16 (drop_bit 16 (src32 src y x AND 0xff0000))
     (drop_bit 8 (src32 src y x AND 0x00ff00)) (src32 src y x AND 0x0000ff))"
| "rgb16_conversion DSPF_ABGR src width = each_pixel width (\<lambda>y x. PIXEL_RGB16 (src32 src y x AND 0x0000ff)
     (drop_bit 8 (src32 src y x AND 0x00ff00)) (drop_bit 16 (src32 src y x AND 0xff0000)))"
| "rgb16_conversion DSPF_RGBAF88871 src width = each_pixel width (\<lambda>y x. PIXEL_RGB16 (drop_bit 24 (src32 src y x AND 0xff000000))
     (drop_bit 16 (src32 src y x AND 0x00ff0000)) (drop_bit 8 (src32 src y x AND 0x0000ff00)))"
| "rgb16_conversion DSPF_AYUV src width = each_pixel width (\<lambda>y x. ycbcr PIXEL_RGB16
     (drop_bit 16 (src32 src y x) AND 0xff) (drop_bit 8 (src32 src y x) AND 0xff) (src32 src y x AND 0xff))"
| "rgb16_conversion DSPF_AVYU src width = each_pixel width (\<lambda>y x. ycbcr PIXEL_RGB16
     (drop_bit 8 (src32 src y x) AND 0xff) (src32 src y x AND 0xff) (drop_bit 16 (src32 src y x) AND 0xff))"
| "rgb16_conversion DSPF_VYU src width = each_pixel width (\<lambda>y x. ycbcr PIXEL_RGB16
     (src8 src y (3 * x + 1)) (src8 src y (3 * x)) (src8 src y (3 * x + 2)))"
| "rgb16_conversion DSPF_RGBA5551 src width = each_pixel width (\<lambda>y x. (src16 src y x AND 0xf800) OR
     (src16 src y x AND 0x07c0) OR drop_bit 5 (src16 src y x AND 0x0400) OR drop_bit 1 (src16 src y x AND 0x003e))"
| "rgb16_conversion DSPF_YUV444P src width = each_pixel width (\<lambda>y x. ycbcr PIXEL_RGB16
     (src8 src y x) (plane444 src 1 y x) (plane444 src 2 y x))"
| "rgb16_conversion DSPF_ARGB8565 src width = each_pixel width (\<lambda>y x. push_bit 8 (src8 src y (3 * x + 1)) OR src8 src y (3 * x))"
| "rgb16_conversion DSPF_YV16 src width = each_pixel width (\<lambda>y x. ycbcr PIXEL_RGB16 (src8 src y x) (yv16_cb src y x) (yv16_cr src y x))"
| "rgb16_conversion _ src width = None"

definition dfb_convert_to_rgb16 :: "DFBSurfacePixelFormat \<Rightarrow> source \<Rightarrow> nat \<Rightarrow> nat \<Rightarrow> nat \<Rightarrow> u16 cells \<Rightarrow> u16 cells" where
  "dfb_convert_to_rgb16 format src dpitch width height dst = run_conversion (rgb16_conversion format src width) (dpitch div 2) height dst"

fun rgb555_conversion :: "DFBSurfacePixelFormat \<Rightarrow> source \<Rightarrow> nat \<Rightarrow> u16 conversion option" where
  "rgb555_conversion DSPF_RGB555 src width = each_pixel width (src16 src)"
| "rgb555_conversion DSPF_ARGB1555 src width = each_pixel width (src16 src)"
| "rgb555_conversion DSPF_NV16 src width = each_pixel width (\<lambda>y x.
     ycbcr PIXEL_RGB555 (src8 src y x) (nv16_chroma src y (x div 2) AND 0xff) (drop_bit 8 (nv16_chroma src y (x div 2))))"
| "rgb555_conversion DSPF_RGB444 src width = each_pixel width (\<lambda>y x. PIXEL_RGB555 (EXPAND_4to8 (drop_bit 8 (src16 src y x AND 0x0f00)))
     (EXPAND_4to8 (drop_bit 4 (src16 src y x AND 0x00f0))) (EXPAND_4to8 (src16 src y x AND 0x000f)))"
| "rgb555_conversion DSPF_ARGB4444 src width = each_pixel width (\<lambda>y x. PIXEL_RGB555 (EXPAND_4to8 (drop_bit 8 (src16 src y x AND 0x0f00)))
     (EXPAND_4to8 (drop_bit 4 (src16 src y x AND 0x00f0))) (EXPAND_4to8 (src16 src y x AND 0x000f)))"
| "rgb555_conversion DSPF_RGBA4444 src width = each_pixel width (\<lambda>y x. PIXEL_RGB555 (EXPAND_4to8 (drop_bit 12 (src16 src y x AND 0xf000)))
     (EXPAND_4to8 (drop_bit 8 (src16 src y x AND 0x0f00))) (EXPAND_4to8 (drop_bit 4 (src16 src y x AND 0x00f0))))"
| "rgb555_conversion DSPF_RGB16 src width = each_pixel width (\<lambda>y x. drop_bit 1 (src16 src y x AND 0xffc0) OR (src16 src y x AND 0x001f))"
| "rgb555_conversion DSPF_BGR555 src width = each_pixel width (\<lambda>y x. drop_bit 10 (src16 src y x AND 0x7c00) OR
     (src16 src y x AND 0x03e0) OR push_bit 10 (src16 src y x AND 0x001f))"
| "rgb555_conversion DSPF_RGB32 src width = each_pixel width (\<lambda>y x. PIXEL_RGB555 (drop_bit 16 (src32 src y x AND 0xff0000))
     (drop_bit 8 (src32 src y x AND 0x00ff00)) (src32 src y x AND 0x0000ff))"
| "rgb555_conversion DSPF_ARGB src width = each_pixel width (\<lambda>y x. PIXEL_RGB555 (drop_bit 16 (src32 src y x AND 0xff0000))
     (drop_bit 8 (src32 src y x AND 0x00ff00)) (src32 src y x AND 0x0000ff))"
| "rgb555_conversion DSPF_ABGR src width = each_pixel width (\<lambda>y x. PIXEL_RGB555 (src32 src y x AND 0x0000ff)
     (drop_bit 8 (src32 src y x AND 0x00ff00)) (drop_bit 16 (src32 src y x AND 0xff0000)))"
| "rgb555_conversion DSPF_RGBAF88871 src width = each_pixel width (\<lambda>y x. PIXEL_RGB555 (drop_bit 24 (src32 src y x AND 0xff000000))
     (drop_bit 16 (src32 src y x AND 0x00ff0000)) (drop_bit 8 (src32 src y x AND 0x0000ff00)))"
| "rgb555_conversion DSPF_AYUV src width = each_pixel width (\<lambda>y x. ycbcr PIXEL_RGB555
     (drop_bit 16 (src32 src y x) AND 0xff) (drop_bit 8 (src32 src y x) AND 0xff) (src32 src y x AND 0xff))"
| "rgb555_conversion DSPF_RGBA5551 src width = each_pixel width (\<lambda>y x. drop_bit 1 (src16 src y x))"
| "rgb555_conversion DSPF_YUV444P src width = each_pixel width (\<lambda>y x. ycbcr PIXEL_RGB555
     (src8 src y x) (plane444 src 1 y x) (plane444 src 2 y x))"
| "rgb555_conversion DSPF_ARGB8565 src width = each_pixel width (\<lambda>y x.
     ARGB8565_TO_ARGB1555 (push_bit 8 (src8 src y (3 * x + 1)) OR src8 src y (3 * x + 2)))"
| "rgb555_conversion DSPF_AVYU src width = each_pixel width (\<lambda>y x. ycbcr PIXEL_RGB555
     (drop_bit 8 (src32 src y x) AND 0xff) (src32 src y x AND 0xff) (drop_bit 16 (src32 src y x) AND 0xff))"
| "rgb555_conversion DSPF_VYU src width = each_pixel width (\<lambda>y x. ycbcr PIXEL_RGB555
     (src8 src y (3 * x + 1)) (src8 src y (3 * x)) (src8 src y (3 * x + 2)))"
| "rgb555_conversion DSPF_YV16 src width = each_pixel width (\<lambda>y x. ycbcr PIXEL_RGB555 (src8 src y x) (yv16_cb src y x) (yv16_cr src y x))"
| "rgb555_conversion _ src width = None"

definition dfb_convert_to_rgb555 :: "DFBSurfacePixelFormat \<Rightarrow> source \<Rightarrow> nat \<Rightarrow> nat \<Rightarrow> nat \<Rightarrow> u16 cells \<Rightarrow> u16 cells" where
  "dfb_convert_to_rgb555 format src dpitch width height dst = run_conversion (rgb555_conversion format src width) (dpitch div 2) height dst"

section \<open>To RGB32 and ARGB\<close>

text \<open>A variable of type \<^verbatim>\<open>u8\<close> in between.\<close>

definition byte_of :: "u32 \<Rightarrow> u32" where
  "byte_of v = ucast (ucast v :: u8)"

fun rgb32_conversion :: "DFBSurfacePixelFormat \<Rightarrow> source \<Rightarrow> nat \<Rightarrow> u32 conversion option" where
  "rgb32_conversion DSPF_RGB32 src width = each_pixel width (src32 src)"
| "rgb32_conversion DSPF_ARGB src width = each_pixel width (src32 src)"
| "rgb32_conversion DSPF_ABGR src width = each_pixel width (\<lambda>y x. PIXEL_RGB32
     (src32 src y x AND 0x0000ff)
     (drop_bit 8 (src32 src y x AND 0x00ff00))
     (drop_bit 16 (src32 src y x AND 0xff0000)))"
| "rgb32_conversion DSPF_RGB24 src width = each_pixel width (\<lambda>y x. push_bit 16 (src8 src y (3 * x + 2)) OR push_bit 8 (src8 src y (3 * x + 1)) OR
     src8 src y (3 * x))"
| "rgb32_conversion DSPF_AYUV src width = each_pixel width (\<lambda>y x. ycbcr PIXEL_RGB32
     (drop_bit 16 (src32 src y x) AND 0xff) (drop_bit 8 (src32 src y x) AND 0xff) (src32 src y x AND 0xff))"
| "rgb32_conversion DSPF_NV16 src width = each_pixel width (\<lambda>y x. ycbcr PIXEL_RGB32
     (src8 src y x) (nv16_chroma src y (x div 2) AND 0xff) (drop_bit 8 (nv16_chroma src y (x div 2))))"
| "rgb32_conversion DSPF_RGB444 src width = each_pixel width (\<lambda>y x. ARGB4444_TO_RGB32 (src16 src y x))"
| "rgb32_conversion DSPF_ARGB4444 src width = each_pixel width (\<lambda>y x. ARGB4444_TO_RGB32 (src16 src y x))"
| "rgb32_conversion DSPF_RGBA4444 src width = each_pixel width (\<lambda>y x. RGBA4444_TO_RGB32 (src16 src y x))"
| "rgb32_conversion DSPF_ARGB1555 src width = each_pixel width (\<lambda>y x. PIXEL_RGB32
     (drop_bit 7 (src16 src y x AND 0x7c00) OR drop_bit 12 (src16 src y x AND 0x7000))
     (drop_bit 2 (src16 src y x AND 0x03e0) OR drop_bit 7 (src16 src y x AND 0x0380))
     (push_bit 3 (src16 src y x AND 0x001f) OR drop_bit 2 (src16 src y x AND 0x001c)))"
| "rgb32_conversion DSPF_RGB555 src width = each_pixel width (\<lambda>y x. PIXEL_RGB32
     (drop_bit 7 (src16 src y x AND 0x7c00) OR drop_bit 12 (src16 src y x AND 0x7000))
     (drop_bit 2 (src16 src y x AND 0x03e0) OR drop_bit 7 (src16 src y x AND 0x0380))
     (push_bit 3 (src16 src y x AND 0x001f) OR drop_bit 2 (src16 src y x AND 0x001c)))"
| "rgb32_conversion DSPF_BGR555 src width = each_pixel width (\<lambda>y x. PIXEL_RGB32
     (push_bit 3 (src16 src y x AND 0x001f) OR drop_bit 2 (src16 src y x AND 0x001c))
     (drop_bit 2 (src16 src y x AND 0x03e0) OR drop_bit 7 (src16 src y x AND 0x0380))
     (drop_bit 7 (src16 src y x AND 0x7c00) OR drop_bit 12 (src16 src y x AND 0x7000)))"
| "rgb32_conversion DSPF_RGB16 src width = each_pixel width (\<lambda>y x. PIXEL_RGB32
     (drop_bit 8 (src16 src y x AND 0xf800) OR drop_bit 13 (src16 src y x AND 0xe000))
     (drop_bit 3 (src16 src y x AND 0x07e0) OR drop_bit 9 (src16 src y x AND 0x0600))
     (push_bit 3 (src16 src y x AND 0x001f) OR drop_bit 2 (src16 src y x AND 0x001c)))"
| "rgb32_conversion DSPF_RGBA5551 src width = each_pixel width (\<lambda>y x. PIXEL_RGB32
     (drop_bit 8 (src16 src y x AND 0xf800) OR drop_bit 13 (src16 src y x AND 0xe000))
     (drop_bit 3 (src16 src y x AND 0x07c0) OR drop_bit 8 (src16 src y x AND 0x0700))
     (push_bit 2 (src16 src y x AND 0x003e) OR drop_bit 3 (src16 src y x AND 0x0038)))"
| "rgb32_conversion DSPF_YUV444P src width = each_pixel width (\<lambda>y x. ycbcr PIXEL_RGB32 (src8 src y x) (plane444 src 1 y x) (plane444 src 2 y x))"
| "rgb32_conversion DSPF_ARGB8565 src width = each_pixel width (\<lambda>y x. PIXEL_RGB32
     (byte_of (EXPAND_5to8 (drop_bit 3 (src8 src y (3 * x + 1)))))
     (byte_of (EXPAND_6to8 (push_bit 5 (src8 src y (3 * x + 1)) OR drop_bit 3 (src8 src y (3 * x + 2)))))
     (byte_of (EXPAND_5to8 (src8 src y (3 * x + 2) AND 0x1f))))"
| "rgb32_conversion DSPF_RGBAF88871 src width = each_pixel width (\<lambda>y x. drop_bit 8 (src32 src y x AND 0xffffff00))"
| "rgb32_conversion DSPF_AVYU src width = each_pixel width (\<lambda>y x. ycbcr PIXEL_RGB32
     (drop_bit 8 (src32 src y x) AND 0xff) (src32 src y x AND 0xff) (drop_bit 16 (src32 src y x) AND 0xff))"
| "rgb32_conversion DSPF_VYU src width = each_pixel width (\<lambda>y x. ycbcr PIXEL_RGB32
     (src8 src y (3 * x + 1)) (src8 src y (3 * x)) (src8 src y (3 * x + 2)))"
| "rgb32_conversion DSPF_YV16 src width = each_pixel width (\<lambda>y x. ycbcr PIXEL_RGB32 (src8 src y x) (yv16_cb src y x) (yv16_cr src y x))"
| "rgb32_conversion _ src width = None"

definition dfb_convert_to_rgb32 :: "DFBSurfacePixelFormat \<Rightarrow> source \<Rightarrow> nat \<Rightarrow> nat \<Rightarrow> nat \<Rightarrow> u32 cells \<Rightarrow> u32 cells" where
  "dfb_convert_to_rgb32 format src dpitch width height dst = run_conversion (rgb32_conversion format src width) (dpitch div 4) height dst"

fun argb_conversion :: "DFBSurfacePixelFormat \<Rightarrow> source \<Rightarrow> nat \<Rightarrow> u32 conversion option" where
  "argb_conversion DSPF_ARGB src width = each_pixel width (src32 src)"
| "argb_conversion DSPF_ABGR src width = each_pixel width (\<lambda>y x. PIXEL_ARGB (drop_bit 24 (src32 src y x AND 0xff000000))
     (src32 src y x AND 0x000000ff)
     (drop_bit 8 (src32 src y x AND 0x0000ff00))
     (drop_bit 16 (src32 src y x AND 0x00ff0000)))"
| "argb_conversion DSPF_RGB32 src width = each_pixel width (\<lambda>y x. src32 src y x OR 0xff000000)"
| "argb_conversion DSPF_RGB24 src width = each_pixel width (\<lambda>y x. push_bit 16 (src8 src y (3 * x + 2)) OR push_bit 8 (src8 src y (3 * x + 1)) OR
     src8 src y (3 * x) OR 0xff000000)"
| "argb_conversion DSPF_AYUV src width = each_pixel width (\<lambda>y x. ycbcr (PIXEL_ARGB (drop_bit 24 (src32 src y x)))
     (drop_bit 16 (src32 src y x) AND 0xff) (drop_bit 8 (src32 src y x) AND 0xff) (src32 src y x AND 0xff))"
| "argb_conversion DSPF_NV16 src width = each_pixel width (\<lambda>y x. ycbcr (PIXEL_ARGB (0xff))
     (src8 src y x) (nv16_chroma src y (x div 2) AND 0xff) (drop_bit 8 (nv16_chroma src y (x div 2))))"
| "argb_conversion DSPF_ARGB4444 src width = each_pixel width (\<lambda>y x. ARGB4444_TO_ARGB (src16 src y x))"
| "argb_conversion DSPF_RGBA4444 src width = each_pixel width (\<lambda>y x. RGBA4444_TO_ARGB (src16 src y x))"
| "argb_conversion DSPF_RGB444 src width = each_pixel width (\<lambda>y x. PIXEL_ARGB (0xff)
     (drop_bit 4 (src16 src y x AND 0x0f00) OR drop_bit 8 (src16 src y x AND 0x0f00))
     ((src16 src y x AND 0x00f0) OR drop_bit 4 (src16 src y x AND 0x00f0))
     (push_bit 4 (src16 src y x AND 0x000f) OR (src16 src y x AND 0x000f)))"
| "argb_conversion DSPF_ARGB1555 src width = each_pixel width (\<lambda>y x. PIXEL_ARGB (if src16 src y x AND 0x8000 \<noteq> 0 then 0xff else 0x00)
     (drop_bit 7 (src16 src y x AND 0x7c00) OR drop_bit 12 (src16 src y x AND 0x7000))
     (drop_bit 2 (src16 src y x AND 0x03e0) OR drop_bit 7 (src16 src y x AND 0x0380))
     (push_bit 3 (src16 src y x AND 0x001f) OR drop_bit 2 (src16 src y x AND 0x001c)))"
| "argb_conversion DSPF_RGB555 src width = each_pixel width (\<lambda>y x. PIXEL_ARGB (0xff)
     (drop_bit 7 (src16 src y x AND 0x7c00) OR drop_bit 12 (src16 src y x AND 0x7000))
     (drop_bit 2 (src16 src y x AND 0x03e0) OR drop_bit 7 (src16 src y x AND 0x0380))
     (push_bit 3 (src16 src y x AND 0x001f) OR drop_bit 2 (src16 src y x AND 0x001c)))"
| "argb_conversion DSPF_BGR555 src width = each_pixel width (\<lambda>y x. PIXEL_ARGB (0xff)
     (push_bit 3 (src16 src y x AND 0x001f) OR drop_bit 2 (src16 src y x AND 0x001c))
     (drop_bit 2 (src16 src y x AND 0x03e0) OR drop_bit 7 (src16 src y x AND 0x0380))
     (drop_bit 7 (src16 src y x AND 0x7c00) OR drop_bit 12 (src16 src y x AND 0x7000)))"
| "argb_conversion DSPF_RGB16 src width = each_pixel width (\<lambda>y x. PIXEL_ARGB (0xff)
     (drop_bit 8 (src16 src y x AND 0xf800) OR drop_bit 13 (src16 src y x AND 0xe000))
     (drop_bit 3 (src16 src y x AND 0x07e0) OR drop_bit 9 (src16 src y x AND 0x0600))
     (push_bit 3 (src16 src y x AND 0x001f) OR drop_bit 2 (src16 src y x AND 0x001c)))"
| "argb_conversion DSPF_RGBA5551 src width = each_pixel width (\<lambda>y x. PIXEL_ARGB (if src16 src y x AND 0x1 \<noteq> 0 then 0xff else 0x00)
     (drop_bit 8 (src16 src y x AND 0xf800) OR drop_bit 13 (src16 src y x AND 0xe000))
     (drop_bit 3 (src16 src y x AND 0x07c0) OR drop_bit 8 (src16 src y x AND 0x0700))
     (push_bit 2 (src16 src y x AND 0x003e) OR drop_bit 3 (src16 src y x AND 0x0038)))"
| "argb_conversion DSPF_YUV444P src width = each_pixel width (\<lambda>y x. ycbcr (PIXEL_ARGB (0xff)) (src8 src y x) (plane444 src 1 y x) (plane444 src 2 y x))"
| "argb_conversion DSPF_ARGB8565 src width = each_pixel width (\<lambda>y x. PIXEL_ARGB (src8 src y (3 * x))
     (byte_of (EXPAND_5to8 (drop_bit 3 (src8 src y (3 * x + 1)))))
     (byte_of (EXPAND_6to8 (push_bit 5 (src8 src y (3 * x + 1)) OR drop_bit 3 (src8 src y (3 * x + 2)))))
     (byte_of (EXPAND_5to8 (src8 src y (3 * x + 2) AND 0x1f))))"
| "argb_conversion DSPF_RGBAF88871 src width = each_pixel width (\<lambda>y x. PIXEL_ARGB (EXPAND_7to8 (drop_bit 1 (src32 src y x AND 0x000000fe)))
     (drop_bit 24 (src32 src y x AND 0xff000000))
     (drop_bit 16 (src32 src y x AND 0x00ff0000))
     (drop_bit 8 (src32 src y x AND 0x0000ff00)))"
| "argb_conversion DSPF_AVYU src width = each_pixel width (\<lambda>y x. ycbcr (PIXEL_ARGB (drop_bit 24 (src32 src y x)))
     (drop_bit 8 (src32 src y x) AND 0xff) (src32 src y x AND 0xff) (drop_bit 16 (src32 src y x) AND 0xff))"
| "argb_conversion DSPF_VYU src width = each_pixel width (\<lambda>y x. ycbcr (PIXEL_ARGB (0xff))
     (src8 src y (3 * x + 1)) (src8 src y (3 * x)) (src8 src y (3 * x + 2)))"
| "argb_conversion DSPF_YV16 src width = each_pixel width (\<lambda>y x. ycbcr (PIXEL_ARGB (0xff)) (src8 src y x) (yv16_cb src y x) (yv16_cr src y x))"
| "argb_conversion _ src width = None"

definition dfb_convert_to_argb :: "DFBSurfacePixelFormat \<Rightarrow> source \<Rightarrow> nat \<Rightarrow> nat \<Rightarrow> nat \<Rightarrow> u32 cells \<Rightarrow> u32 cells" where
  "dfb_convert_to_argb format src dpitch width height dst = run_conversion (argb_conversion format src width) (dpitch div 4) height dst"

end
