(* ===== verification/Pixel_Convert_Bytes.thy ===== *)
theory Pixel_Convert_Bytes
  imports Pixel_Convert
begin

text \<open>
  The conversions of \<^verbatim>\<open>gfx/convert.c\<close> to byte arrays: three bytes per pixel, 8 bit alpha, 4 bit alpha with two pixels
  per byte, and the two that only copy.
\<close>

section \<open>To RGB24\<close>

definition triple :: "u32 \<times> u32 \<times> u32 \<Rightarrow> u8 list" where
  "triple rgb = (case rgb of (r, g, b) \<Rightarrow> [ucast r, ucast g, ucast b])"

definition each_triple :: "nat \<Rightarrow> (nat \<Rightarrow> nat \<Rightarrow> u32 \<times> u32 \<times> u32) \<Rightarrow> u8 conversion option" where
  "each_triple width pix = Some (3, width, \<lambda>y x. triple (pix y x))"

fun rgb24_conversion :: "DFBSurfacePixelFormat \<Rightarrow> source \<Rightarrow> nat \<Rightarrow> u8 conversion option" where
  "rgb24_conversion DSPF_A8 src width = each_triple width (\<lambda>y x. (src8 src y x, src8 src y x, src8 src y x))"
| "rgb24_conversion DSPF_AiRGB src width = each_triple width (\<lambda>y x. (drop_bit 16 (src32 src y x AND 0xFF0000),
     drop_bit 8 (src32 src y x AND 0x00FF00),
     src32 src y x AND 0x0000FF))"
| "rgb24_conversion DSPF_ARGB src width = each_triple width (\<lambda>y x. (drop_bit 16 (src32 src y x AND 0xFF0000),
     drop_bit 8 (src32 src y x AND 0x00FF00),
     src32 src y x AND 0x0000FF))"
| "rgb24_conversion DSPF_ABGR src width = each_triple width (\<lambda>y x. (src32 src y x AND 0x0000FF,
     drop_bit 8 (src32 src y x AND 0x00FF00),
     drop_bit 16 (src32 src y x AND 0xFF0000)))"
| "rgb24_conversion DSPF_ARGB1555 src width = each_triple width (\<lambda>y x. (drop_bit 7 (src16 src y x AND 0x7C00),
     drop_bit 2 (src16 src y x AND 0x03E0),
     push_bit 3 (src16 src y x AND 0x001F)))"
| "rgb24_conversion DSPF_RGB555 src width = each_triple width (\<lambda>y x. (drop_bit 7 (src16 src y x AND 0x7C00),
     drop_bit 2 (src16 src y x AND 0x03E0),
     push_bit 3 (src16 src y x AND 0x001F)))"
| "rgb24_conversion DSPF_BGR555 src width = each_triple width (\<lambda>y x. (push_bit 3 (src16 src y x AND 0x001F),
     drop_bit 2 (src16 src y x AND 0x03E0),
     drop_bit 7 (src16 src y x AND 0x7C00)))"
| "rgb24_conversion DSPF_ARGB2554 src width = each_triple width (\<lambda>y x. (drop_bit 6 (src16 src y x AND 0x3E00),
     drop_bit 1 (src16 src y x AND 0x01F0),
     push_bit 4 (src16 src y x AND 0x000F)))"
| "rgb24_conversion DSPF_ARGB4444 src width = each_triple width (\<lambda>y x. (drop_bit 4 (src16 src y x AND 0x0F00),
     src16 src y x AND 0x00F0,
     push_bit 4 (src16 src y x AND 0x000F)))"
| "rgb24_conversion DSPF_RGB444 src width = each_triple width (\<lambda>y x. (drop_bit 4 (src16 src y x AND 0x0F00),
     src16 src y x AND 0x00F0,
     push_bit 4 (src16 src y x AND 0x000F)))"
| "rgb24_conversion DSPF_RGBA4444 src width = each_triple width (\<lambda>y x. (drop_bit 8 (src16 src y x AND 0xF000),
     drop_bit 4 (src16 src y x AND 0x0F00),
     src16 src y x AND 0x00F0))"
| "rgb24_conversion DSPF_RGB332 src width = each_triple width (\<lambda>y x. (ucast (EXPAND_3to8 (drop_bit 5 (src8 src y x))),
     ucast (EXPAND_3to8 (drop_bit 2 (src8 src y x) AND 0x07)),
     ucast (EXPAND_2to8 (src8 src y x AND 0x03))))"
| "rgb24_conversion DSPF_RGB16 src width = each_triple width (\<lambda>y x. (drop_bit 8 (src16 src y x AND 0xF800),
     drop_bit 3 (src16 src y x AND 0x07E0),
     push_bit 3 (src16 src y x AND 0x001F)))"
| "rgb24_conversion DSPF_RGB24 src width = each_triple width (\<lambda>y x. (src8 src y (3 * x + 2), src8 src y (3 * x + 1), src8 src y (3 * x)))"
| "rgb24_conversion DSPF_RGB32 src width = each_triple width (\<lambda>y x. (drop_bit 16 (src32 src y x AND 0xFF0000),
     drop_bit 8 (src32 src y x AND 0x00FF00),
     src32 src y x AND 0x0000FF))"
| "rgb24_conversion DSPF_ARGB8565 src width = each_triple width (\<lambda>y x. (src8 src y (3 * x + 1) AND 0xf8,
     push_bit 5 (src8 src y (3 * x + 1) AND 0x07) OR drop_bit 3 (src8 src y (3 * x) AND 0xe0),
     push_bit 3 (src8 src y (3 * x) AND 0x1f)))"
| "rgb24_conversion DSPF_RGBAF88871 src width = each_triple width (\<lambda>y x. (drop_bit 24 (src32 src y x AND 0xFF000000),
     drop_bit 16 (src32 src y x AND 0x00FF0000),
     drop_bit 8 (src32 src y x AND 0x0000FF00)))"
| "rgb24_conversion DSPF_AYUV src width = each_triple width (\<lambda>y x. ycbcr (\<lambda>r g b. (b, g, r))
     (drop_bit 16 (src32 src y x AND 0xff0000)) (drop_bit 8 (src32 src y x AND 0x00ff00)) (src32 src y x AND 0x0000ff))"
| "rgb24_conversion DSPF_AVYU src width = each_triple width (\<lambda>y x. ycbcr (\<lambda>r g b. (r, g, b))
     (drop_bit 8 (src32 src y x AND 0x00ff00)) (src32 src y x AND 0x0000ff) (drop_bit 16 (src32 src y x AND 0xff0000)))"
| "rgb24_conversion DSPF_VYU src width = each_triple width (\<lambda>y x. ycbcr (\<lambda>r g b. (r, g, b))
     (src8 src y (3 * x + 1)) (src8 src y (3 * x)) (src8 src y (3 * x + 2)))"
| "rgb24_conversion DSPF_YUY2 src width = Some (6, width div 2, \<lambda>y i.
     (let v = src32 src y i; y0 = v AND 0x000000FF; cb = drop_bit 8 (v AND 0x0000FF00); y1 = drop_bit 16 (v AND 0x00FF0000);
          cr = drop_bit 24 (v AND 0xFF000000)
      in triple (ycbcr (\<lambda>r g b. (r, g, b)) y0 cb cr) @ triple (ycbcr (\<lambda>r g b. (r, g, b)) y1 cb cr)))"
| "rgb24_conversion DSPF_UYVY src width = Some (6, width div 2, \<lambda>y i.
     (let v = src32 src y i; cb = v AND 0x000000FF; y0 = drop_bit 8 (v AND 0x0000FF00); cr = drop_bit 16 (v AND 0x00FF0000);
          y1 = drop_bit 24 (v AND 0xFF000000)
      in triple (ycbcr (\<lambda>r g b. (r, g, b)) y0 cb cr) @ triple (ycbcr (\<lambda>r g b. (r, g, b)) y1 cb cr)))"
| "rgb24_conversion DSPF_NV16 src width = Some (6, width div 2, \<lambda>y i.
     (let v = nv16_chroma src y i; cb = v AND 0xff; cr = drop_bit 8 v
      in triple (ycbcr (\<lambda>r g b. (r, g, b)) (src8 src y (2 * i)) cb cr) @
         triple (ycbcr (\<lambda>r g b. (r, g, b)) (src8 src y (2 * i + 1)) cb cr)))"
| "rgb24_conversion DSPF_RGBA5551 src width = each_triple width (\<lambda>y x. (drop_bit 8 (src16 src y x AND 0xF800) OR drop_bit 13 (src16 src y x AND 0xE000),
     drop_bit 3 (src16 src y x AND 0x07C0) OR drop_bit 8 (src16 src y x AND 0x0700),
     push_bit 2 (src16 src y x AND 0x003E) OR drop_bit 3 (src16 src y x AND 0x0038)))"
| "rgb24_conversion DSPF_YUV444P src width = each_triple width (\<lambda>y x. ycbcr (\<lambda>r g b. (r, g, b))
     (src8 src y x) (plane444 src 1 y x) (plane444 src 2 y x))"
| "rgb24_conversion DSPF_YV16 src width = each_triple width (\<lambda>y x. ycbcr (\<lambda>r g b. (b, g, r))
     (src8 src y x) (yv16_cb src y x) (yv16_cr src y x))"
| "rgb24_conversion _ src width = None"

definition dfb_convert_to_rgb24 :: "DFBSurfacePixelFormat \<Rightarrow> source \<Rightarrow> nat \<Rightarrow> nat \<Rightarrow> nat \<Rightarrow> u8 cells \<Rightarrow> u8 cells" where
  "dfb_convert_to_rgb24 format src dpitch width height dst = run_conversion (rgb24_conversion format src width) dpitch height dst"

section \<open>To A8 and A4\<close>

definition no_alpha :: "DFBSurfacePixelFormat list" where
  "no_alpha = [DSPF_RGB332, DSPF_RGB444, DSPF_RGB555, DSPF_BGR555, DSPF_RGB16, DSPF_RGB24, DSPF_RGB32, DSPF_VYU, DSPF_YUY2,
     DSPF_UYVY, DSPF_NV16, DSPF_YV16, DSPF_YUV444P]"

definition a8_conversion :: "DFBSurfacePixelFormat \<Rightarrow> source \<Rightarrow> nat \<Rightarrow> u8 conversion option" where
  "a8_conversion format src width =
    (if format = DSPF_A8 then each_pixel width (src8 src)
     else if format = DSPF_AiRGB then each_pixel width (\<lambda>y x. NOT (drop_bit 24 (src32 src y x)))
     else if format \<in> {DSPF_ARGB, DSPF_ABGR, DSPF_AYUV, DSPF_AVYU} then each_pixel width (\<lambda>y x. drop_bit 24 (src32 src y x))
     else if format = DSPF_ARGB1555 then each_pixel width (\<lambda>y x. if src16 src y x AND 0x8000 \<noteq> 0 then 0xff else 0x00)
     else if format = DSPF_ARGB2554 then each_pixel width (\<lambda>y x.
       (let v = drop_bit 14 (src16 src y x) in if v = 0 then 0x00 else if v = 1 then 0x55 else if v = 2 then 0xAA else 0xFF))
     else if format = DSPF_ARGB4444 then each_pixel width (\<lambda>y x.
       (let v = drop_bit 12 (src16 src y x) in v OR push_bit 4 v))
     else if format = DSPF_RGBA4444 then each_pixel width (\<lambda>y x. EXPAND_4to8 (src16 src y x AND 0xf))
     else if format = DSPF_RGBA5551 then each_pixel width (\<lambda>y x. EXPAND_1to8 (src16 src y x AND 0x1))
     else if format = DSPF_ARGB8565 then each_pixel width (\<lambda>y x. src8 src y (3 * x + 2))
     else if format = DSPF_RGBAF88871 then each_pixel width (\<lambda>y x. EXPAND_7to8 (drop_bit 1 (src32 src y x AND 0x000000fe)))
     else if format \<in> set no_alpha then each_pixel width (\<lambda>y x. 0xff)
     else None)"

definition dfb_convert_to_a8 :: "DFBSurfacePixelFormat \<Rightarrow> source \<Rightarrow> nat \<Rightarrow> nat \<Rightarrow> nat \<Rightarrow> u8 cells \<Rightarrow> u8 cells" where
  "dfb_convert_to_a8 format src dpitch width height dst = run_conversion (a8_conversion format src width) dpitch height dst"

text \<open>
  In the line for \<open>DSPF_ARGB8565\<close> the shift binds before the conjunction: \<open>b & 0xf0 >> 4\<close> keeps the low half of the byte.
\<close>

definition a4_conversion :: "DFBSurfacePixelFormat \<Rightarrow> source \<Rightarrow> nat \<Rightarrow> u8 conversion option" where
  "a4_conversion format src width =
    (let w2 = width div 2 in
     if format = DSPF_A8 then each_pixel w2 (\<lambda>y x. (src8 src y (2 * x) AND 0xf0) OR drop_bit 4 (src8 src y (2 * x + 1) AND 0xf0))
     else if format = DSPF_ARGB4444 then each_pixel w2 (\<lambda>y x. drop_bit 8 (src16 src y (2 * x) AND 0xf000) OR drop_bit 12 (src16 src y (2 * x + 1)))
     else if format = DSPF_RGBA4444 then each_pixel w2 (\<lambda>y x. push_bit 4 (src16 src y (2 * x) AND 0x000f) OR (src16 src y (2 * x + 1) AND 0x000f))
     else if format = DSPF_ARGB1555 then each_pixel w2 (\<lambda>y x.
       (if src16 src y (2 * x) AND 0x8000 \<noteq> 0 then 0xf0 else 0) OR (if src16 src y (2 * x + 1) AND 0x8000 \<noteq> 0 then 0x0f else 0))
     else if format \<in> {DSPF_ARGB, DSPF_ABGR, DSPF_AYUV, DSPF_AVYU} then each_pixel w2 (\<lambda>y x.
       drop_bit 24 (src32 src y (2 * x) AND 0xf0000000) OR drop_bit 28 (src32 src y (2 * x + 1) AND 0xf0000000))
     else if format = DSPF_RGBA5551 then each_pixel w2 (\<lambda>y x.
       (if src16 src y (2 * x) AND 0x1 \<noteq> 0 then 0xf0 else 0) OR (if src16 src y (2 * x + 1) AND 0x1 \<noteq> 0 then 0x0f else 0))
     else if format = DSPF_ARGB8565 then each_pixel w2 (\<lambda>y x. (src8 src y (6 * x + 2) AND 0xf0) OR (src8 src y (6 * x + 5) AND drop_bit 4 0xf0))
     else if format = DSPF_RGBAF88871 then each_pixel w2 (\<lambda>y x.
       (src32 src y (2 * x) AND 0x000000f0) OR drop_bit 4 (src32 src y (2 * x + 1) AND 0x000000f0))
     else None)"

definition dfb_convert_to_a4 :: "DFBSurfacePixelFormat \<Rightarrow> source \<Rightarrow> nat \<Rightarrow> nat \<Rightarrow> nat \<Rightarrow> u8 cells \<Rightarrow> u8 cells" where
  "dfb_convert_to_a4 format src dpitch width height dst = run_conversion (a4_conversion format src width) dpitch height dst"

section \<open>Copies and single rows\<close>

text \<open>Two pixels make a word of the destination; an odd last pixel is copied as half of one.\<close>

definition copy_words :: "source \<Rightarrow> nat \<Rightarrow> u16 conversion option" where
  "copy_words src width = each_pixel width (src16 src)"

definition dfb_convert_to_yuy2 :: "DFBSurfacePixelFormat \<Rightarrow> source \<Rightarrow> nat \<Rightarrow> nat \<Rightarrow> nat \<Rightarrow> u16 cells \<Rightarrow> u16 cells" where
  "dfb_convert_to_yuy2 format src dpitch width height dst =
    run_conversion (if format = DSPF_YUY2 then copy_words src width else None) (2 * (dpitch div 4)) height dst"

definition dfb_convert_to_uyvy :: "DFBSurfacePixelFormat \<Rightarrow> source \<Rightarrow> nat \<Rightarrow> nat \<Rightarrow> nat \<Rightarrow> u16 cells \<Rightarrow> u16 cells" where
  "dfb_convert_to_uyvy format src dpitch width height dst =
    run_conversion (if format = DSPF_UYVY then copy_words src width else None) (2 * (dpitch div 4)) height dst"

text \<open>The rows of \<^verbatim>\<open>convert.h\<close>, from an array of \<^verbatim>\<open>ARGB\<close> pixels.\<close>

definition RGB32_TO_RGB332 :: "u32 \<Rightarrow> u32" where
  "RGB32_TO_RGB332 pixel = drop_bit 16 (pixel AND 0xE00000) OR drop_bit 11 (pixel AND 0x00E000) OR drop_bit 6 (pixel AND 0x0000C0)"
definition RGB32_TO_RGB16 :: "u32 \<Rightarrow> u32" where
  "RGB32_TO_RGB16 pixel = drop_bit 8 (pixel AND 0xF80000) OR drop_bit 5 (pixel AND 0x00FC00) OR drop_bit 3 (pixel AND 0x0000F8)"
definition ARGB_TO_ARGB1555 :: "u32 \<Rightarrow> u32" where
  "ARGB_TO_ARGB1555 pixel = drop_bit 16 (pixel AND 0x80000000) OR drop_bit 9 (pixel AND 0x00F80000) OR
     drop_bit 6 (pixel AND 0x0000F800) OR drop_bit 3 (pixel AND 0x000000F8)"
definition ARGB_TO_RGBA5551 :: "u32 \<Rightarrow> u32" where
  "ARGB_TO_RGBA5551 pixel = drop_bit 31 (pixel AND 0x80000000) OR drop_bit 8 (pixel AND 0x00F80000) OR
     drop_bit 5 (pixel AND 0x0000F800) OR drop_bit 2 (pixel AND 0x000000F8)"
definition ARGB_TO_ARGB2554 :: "u32 \<Rightarrow> u32" where
  "ARGB_TO_ARGB2554 pixel = drop_bit 16 (pixel AND 0xC0000000) OR drop_bit 10 (pixel AND 0x00F80000) OR
     drop_bit 7 (pixel AND 0x0000F800) OR drop_bit 4 (pixel AND 0x000000F0)"
definition ARGB_TO_ARGB4444 :: "u32 \<Rightarrow> u32" where
  "ARGB_TO_ARGB4444 pixel = drop_bit 16 (pixel AND 0xF0000000) OR drop_bit 12 (pixel AND 0x00F00000) OR
     drop_bit 8 (pixel AND 0x0000F000) OR drop_bit 4 (pixel AND 0x000000F0)"
definition ARGB_TO_RGBA4444 :: "u32 \<Rightarrow> u32" where
  "ARGB_TO_RGBA4444 pixel = drop_bit 28 (pixel AND 0xF0000000) OR drop_bit 8 (pixel AND 0x00F00000) OR
     drop_bit 4 (pixel AND 0x0000F000) OR (pixel AND 0x000000F0)"
definition ARGB_TO_ARGB8565 :: "u32 \<Rightarrow> u32" where
  "ARGB_TO_ARGB8565 pixel = drop_bit 8 (pixel AND 0xFF000000) OR drop_bit 8 (pixel AND 0x00F80000) OR
     drop_bit 5 (pixel AND 0x0000FC00) OR drop_bit 3 (pixel AND 0x000000F8)"

definition argb_row :: "(u32 \<Rightarrow> 'w list) \<Rightarrow> nat \<Rightarrow> u32 cells \<Rightarrow> nat \<Rightarrow> 'w cells \<Rightarrow> 'w cells" where
  "argb_row pix k src len dst = pixel_loop k (\<lambda>i. pix (src i)) 0 len dst"

definition dfb_argb_to_rgb332 :: "u32 cells \<Rightarrow> nat \<Rightarrow> u8 cells \<Rightarrow> u8 cells" where
  "dfb_argb_to_rgb332 = argb_row (\<lambda>argb. [ucast (RGB32_TO_RGB332 argb)]) 1"
definition dfb_argb_to_argb1555 :: "u32 cells \<Rightarrow> nat \<Rightarrow> u16 cells \<Rightarrow> u16 cells" where
  "dfb_argb_to_argb1555 = argb_row (\<lambda>argb. [ucast (ARGB_TO_ARGB1555 argb)]) 1"
definition dfb_argb_to_rgba5551 :: "u32 cells \<Rightarrow> nat \<Rightarrow> u16 cells \<Rightarrow> u16 cells" where
  "dfb_argb_to_rgba5551 = argb_row (\<lambda>argb. [ucast (ARGB_TO_RGBA5551 argb)]) 1"
definition dfb_argb_to_argb2554 :: "u32 cells \<Rightarrow> nat \<Rightarrow> u16 cells \<Rightarrow> u16 cells" where
  "dfb_argb_to_argb2554 = argb_row (\<lambda>argb. [ucast (ARGB_TO_ARGB2554 argb)]) 1"
definition dfb_argb_to_argb4444 :: "u32 cells \<Rightarrow> nat \<Rightarrow> u16 cells \<Rightarrow> u16 cells" where
  "dfb_argb_to_argb4444 = argb_row (\<lambda>argb. [ucast (ARGB_TO_ARGB4444 argb)]) 1"
definition dfb_argb_to_rgba4444 :: "u32 cells \<Rightarrow> nat \<Rightarrow> u16 cells \<Rightarrow> u16 cells" where
  "dfb_argb_to_rgba4444 = argb_row (\<lambda>argb. [ucast (ARGB_TO_RGBA4444 argb)]) 1"
definition dfb_argb_to_argb8565 :: "u32 cells \<Rightarrow> nat \<Rightarrow> u8 cells \<Rightarrow> u8 cells" where
  "dfb_argb_to_argb8565 = argb_row (\<lambda>argb. (let d = ARGB_TO_ARGB8565 argb
     in [ucast (d AND 0xff), ucast (drop_bit 8 d AND 0xff), ucast (drop_bit 16 d AND 0xff)])) 3"
definition dfb_argb_to_rgb16 :: "u32 cells \<Rightarrow> nat \<Rightarrow> u16 cells \<Rightarrow> u16 cells" where
  "dfb_argb_to_rgb16 = argb_row (\<lambda>argb. [ucast (RGB32_TO_RGB16 argb)]) 1"
definition dfb_argb_to_a8 :: "u32 cells \<Rightarrow> nat \<Rightarrow> u8 cells \<Rightarrow> u8 cells" where
  "dfb_argb_to_a8 = argb_row (\<lambda>argb. [ucast (drop_bit 24 argb)]) 1"

end
