(* ===== verification/Pixel_Convert_Exact.thy ===== *)
theory Pixel_Convert_Exact
  imports Pixel_Convert Pixel_Convert_Bytes
begin

text \<open>
  What the conversions of whole images compute. The reference is the conversion of single pixels: the colour of a pixel
  is \<^const>\<open>dfb_pixel_to_color\<close> of its packed value, or that of its luma and chroma, and the destination holds
  \<^const>\<open>dfb_pixel_from_color\<close> of that colour. Loops and bit tricks of the image functions are compared with it
  format by format.
\<close>

section \<open>What the loops store\<close>

lemma store_at: "store a vs dst b = (if a \<le> b \<and> b < a + length vs then vs ! (b - a) else dst b)"
proof (induction vs arbitrary: a dst)
  case (Cons v vs)
  show ?case
  proof (cases "b = a")
    case False
    then show ?thesis using Cons by (auto simp: nth_Cons' Suc_le_eq)
  next
    case True
    have "store (a + 1) vs (dst(a := v)) a = v" using Cons [of "a + 1" "dst(a := v)"] True by (simp del: fun_upd_apply) simp
    then show ?thesis using True by simp
  qed
qed auto

lemma pixel_loop_at:
  assumes "\<And>i. length (step i) = k"
  shows "pixel_loop k step d n dst b =
    (if d \<le> b \<and> b < d + k * n then step ((b - d) div k) ! ((b - d) mod k) else dst b)"
proof (induction n)
  case (Suc n)
  show ?case
  proof (cases "d + k * n \<le> b \<and> b < d + k * n + k")
    case True
    then have "b - d = k * n + (b - (d + k * n))" "b - (d + k * n) < k" by auto
    then have "(b - d) div k = n" "(b - d) mod k = b - (d + k * n)"
      by (metis add.commute add_cancel_right_left div_less div_mult_self4 less_nat_zero_code mult.commute)
         (metis \<open>b - d = k * n + (b - (d + k * n))\<close> \<open>b - (d + k * n) < k\<close> mod_less mod_mult_self4 mult.commute)
    then show ?thesis using True by (simp add: store_at assms)
  next
    case False
    then have "pixel_loop k step d (Suc n) dst b = pixel_loop k step d n dst b" by (auto simp: store_at assms)
    moreover have "d \<le> b \<and> b < d + k * Suc n \<longleftrightarrow> d \<le> b \<and> b < d + k * n" using False by auto
    ultimately show ?thesis using Suc by simp
  qed
qed auto

lemma row_loop_at:
  assumes len: "\<And>y i. length (step y i) = k" and fits: "k * n \<le> dp" and dp: "0 < dp"
  shows "row_loop k n step dp y d height dst b =
    (if d \<le> b \<and> (b - d) div dp < height \<and> (b - d) mod dp < k * n
     then step (y + (b - d) div dp) ((b - d) mod dp div k) ! ((b - d) mod dp mod k) else dst b)"
proof (induction height arbitrary: y d dst)
  case (Suc height)
  note IH = Suc [of "y + 1" "d + dp"]
  note first = pixel_loop_at [of "step y" k d n dst b, OF len]
  consider "b < d" | "d \<le> b" "b < d + dp" | "d + dp \<le> b" by linarith
  then show ?case
  proof cases
    case 1
    then show ?thesis using IH first by simp
  next
    case 2
    then have "(b - d) div dp = 0" "(b - d) mod dp = b - d" by auto
    then show ?thesis using IH first 2 fits by auto
  next
    case 3
    define c where "c = b - (d + dp)"
    have b: "b - d = c + dp" using 3 by (simp add: c_def)
    have "(b - d) div dp = Suc (c div dp)" "(b - d) mod dp = c mod dp" unfolding b using dp by (simp_all add: div_add_self2)
    moreover have "pixel_loop k (step y) d n dst b = dst b" using first 3 fits by auto
    ultimately show ?thesis using IH 3 by (simp add: c_def)
  qed
qed simp

lemma each_pixel_at:
  assumes "width \<le> dp" and "0 < dp"
  shows "run_conversion (each_pixel width pix) dp height dst b =
    (if b div dp < height \<and> b mod dp < width then ucast (pix (b div dp) (b mod dp)) else dst b)"
  unfolding run_conversion_def each_pixel_def using assms by (simp add: row_loop_at)

section \<open>The colours of an image\<close>

text \<open>
  The pixel of a packed format as a number, its bytes from the lowest up; luma and chroma with the alpha of the other
  formats, from the bytes and planes the comments in \<^verbatim>\<open>directfb.h\<close> name: the pixels of \<open>DSPF_AYUV\<close>, \<open>DSPF_AVYU\<close> and
  \<open>DSPF_VYU\<close> have 4 and 3 bytes; behind the plane of luma, which has \<open>src_height\<close> rows, follow one plane of pairs Cb, Cr
  at half width (\<open>DSPF_NV16\<close>), one of Cb and one of Cr (\<open>DSPF_YUV444P\<close>), or one of Cr and one of Cb at half width
  and half pitch (\<open>DSPF_YV16\<close>). Addresses are written out here; nothing of the code's access functions is used.
\<close>

definition pixel_value :: "DFBSurfacePixelFormat \<Rightarrow> source \<Rightarrow> nat \<Rightarrow> nat \<Rightarrow> u64" where
  "pixel_value fmt src y x = (let n = unat (DFB_BYTES_PER_PIXEL (format_code fmt)) in
     foldr (\<lambda>k v. ucast (src_byte src (y * src_pitch src + n * x + k)) OR push_bit 8 v) [0..<n] 0)"

definition yuv_sample :: "DFBSurfacePixelFormat \<Rightarrow> source \<Rightarrow> nat \<Rightarrow> nat \<Rightarrow> (u8 \<times> u8 \<times> u8 \<times> u8) option" where
  "yuv_sample fmt src y x = (let byte = src_byte src; pitch = src_pitch src; rows = src_height src; row = y * pitch in
     if fmt = DSPF_AYUV then Some (byte (row + 4 * x + 3), byte (row + 4 * x + 2), byte (row + 4 * x + 1), byte (row + 4 * x))
     else if fmt = DSPF_AVYU then Some (byte (row + 4 * x + 3), byte (row + 4 * x + 1), byte (row + 4 * x), byte (row + 4 * x + 2))
     else if fmt = DSPF_VYU then Some (0xff, byte (row + 3 * x + 1), byte (row + 3 * x), byte (row + 3 * x + 2))
     else if fmt = DSPF_NV16 then
       Some (0xff, byte (row + x), byte ((rows + y) * pitch + 2 * (x div 2)), byte ((rows + y) * pitch + 2 * (x div 2) + 1))
     else if fmt = DSPF_YUV444P then Some (0xff, byte (row + x), byte ((rows + y) * pitch + x), byte ((2 * rows + y) * pitch + x))
     else if fmt = DSPF_YV16 then let chroma = rows * pitch + y * (pitch div 2) + x div 2
       in Some (0xff, byte (row + x), byte (chroma + rows * pitch div 2), byte chroma)
     else None)"

definition true_color :: "DFBSurfacePixelFormat \<Rightarrow> source \<Rightarrow> nat \<Rightarrow> nat \<Rightarrow> DFBColor" where
  "true_color fmt src y x = (case yuv_sample fmt src y x of
     Some (a, lum, cb, cr) \<Rightarrow> (case YCBCR_TO_RGB (uint lum) (uint cb) (uint cr) of
       (r, g, b) \<Rightarrow> \<lparr> col_a = a, col_r = word_of_int r, col_g = word_of_int g, col_b = word_of_int b \<rparr>)
   | None \<Rightarrow> dfb_pixel_to_color fmt (pixel_value fmt src y x))"

definition renders :: "DFBSurfacePixelFormat \<Rightarrow> DFBSurfacePixelFormat \<Rightarrow> source \<Rightarrow> nat \<Rightarrow> nat \<Rightarrow> nat \<Rightarrow> 'w::len word cells \<Rightarrow>
    'w word cells \<Rightarrow> bool" where
  "renders to fmt src width height dp dst dst' \<longleftrightarrow> (\<forall>b.
     if b div dp < height \<and> b mod dp < width
     then ucast (dst' b) AND used_bits to = ucast (dfb_pixel_from_color to (true_color fmt src (b div dp) (b mod dp)))
     else dst' b = dst b)"

lemma clamp_byte_range: "0 \<le> clamp_byte x \<and> clamp_byte x < 256"
  by (simp add: clamp_byte_def)

lemma ycbcr_bytes:
  "ycbcr pack y cb cr = (case YCBCR_TO_RGB (uint y) (uint cb) (uint cr) of
     (r, g, b) \<Rightarrow> pack (ucast (word_of_int r :: u8)) (ucast (word_of_int g :: u8)) (ucast (word_of_int b :: u8)))"
proof -
  have "(word_of_int (clamp_byte x) :: u32) = ucast (word_of_int (clamp_byte x) :: u8)" for x
    using clamp_byte_range [of x] by (simp add: unsigned_ucast_eq take_bit_int_eq_self ucast_eq uint_word_of_int_eq)
  then show ?thesis unfolding ycbcr_def YCBCR_TO_RGB_def Let_def by simp
qed

lemma src8_high: "8 \<le> n \<Longrightarrow> \<not> bit (src8 src y x) n"
  by (auto simp: src8_def load8_def bit_simps byte_high_bit)

lemma src16_high: "16 \<le> n \<Longrightarrow> \<not> bit (src16 src y x) n"
  by (auto simp: src16_def load16_def bit_simps byte_high_bit)

lemma each_renders:
  assumes "width \<le> dp" "0 < dp"
    and "\<And>y x. ucast (ucast (pix y x) :: 'w word) AND used_bits to = ucast (dfb_pixel_from_color to (true_color fmt src y x))"
  shows "renders to fmt src width height dp dst (run_conversion (each_pixel width pix) dp height (dst :: 'w::len word cells))"
  unfolding renders_def each_pixel_at [OF assms(1,2)] using assms(3) by simp

text \<open>The reference, from the documented layout.\<close>

lemma source_bytes:
  "src8 src y i = ucast (src_byte src (y * src_pitch src + i))"
  "src16 src y i = ucast (src_byte src (y * src_pitch src + 2 * i)) OR push_bit 8 (ucast (src_byte src (y * src_pitch src + 2 * i + 1)))"
  "src32 src y i = ucast (src_byte src (y * src_pitch src + 4 * i)) OR push_bit 8 (ucast (src_byte src (y * src_pitch src + 4 * i + 1))) OR
     push_bit 16 (ucast (src_byte src (y * src_pitch src + 4 * i + 2))) OR push_bit 24 (ucast (src_byte src (y * src_pitch src + 4 * i + 3)))"
  by (simp_all add: src8_def src16_def src32_def load8_def load16_def load32_def row_at_def)

lemma joined_bytes:
  fixes a b c d :: u8
  shows "ucast a OR push_bit 8 0 = (ucast (ucast a :: u32) :: u64)"
    and "ucast a OR push_bit 8 (ucast b OR push_bit 8 0) = (ucast (ucast a OR push_bit 8 (ucast b) :: u32) :: u64)"
    and "ucast a OR push_bit 8 (ucast b OR push_bit 8 (ucast c OR push_bit 8 0)) =
      (ucast (ucast a OR push_bit 8 (ucast b) OR push_bit 16 (ucast c) :: u32) :: u64)"
    and "ucast a OR push_bit 8 (ucast b OR push_bit 8 (ucast c OR push_bit 8 (ucast d OR push_bit 8 0))) =
      (ucast (ucast a OR push_bit 8 (ucast b) OR push_bit 16 (ucast c) OR push_bit 24 (ucast d) :: u32) :: u64)"
  by (rule bit_word_eqI; auto simp: bit_simps dest: bit_imp_le_length)+

lemma pixel_bytes:
  "pixel_value fmt src y x = (let n = unat (DFB_BYTES_PER_PIXEL (format_code fmt)) in
     if n = 1 then ucast (src8 src y x) else if n = 2 then ucast (src16 src y x)
     else if n = 3 then ucast (src8 src y (3 * x) OR push_bit 8 (src8 src y (3 * x + 1)) OR push_bit 16 (src8 src y (3 * x + 2)))
     else if n = 4 then ucast (src32 src y x) else pixel_value fmt src y x)"
proof -
  have upt: "[0..<1] = [0]" "[0..<2] = [0, 1]" "[0..<3] = [0, 1, 2]" "[0..<4] = [0, 1, 2, 3 :: nat]" by (simp_all add: upt_rec)
  consider "unat (DFB_BYTES_PER_PIXEL (format_code fmt)) = 1" | "unat (DFB_BYTES_PER_PIXEL (format_code fmt)) = 2"
    | "unat (DFB_BYTES_PER_PIXEL (format_code fmt)) = 3" | "unat (DFB_BYTES_PER_PIXEL (format_code fmt)) = 4"
    | "unat (DFB_BYTES_PER_PIXEL (format_code fmt)) \<notin> {1, 2, 3, 4}" by blast
  then show ?thesis
  proof cases
    case 1
    then show ?thesis
      using joined_bytes(1) [of "src_byte src (y * src_pitch src + x)"] by (simp add: pixel_value_def source_bytes upt)
  next
    case 2
    then show ?thesis
      using joined_bytes(2) [of "src_byte src (y * src_pitch src + 2 * x)" "src_byte src (y * src_pitch src + 2 * x + 1)"]
      by (simp add: pixel_value_def source_bytes upt)
  next
    case 3
    then show ?thesis
      using joined_bytes(3) [of "src_byte src (y * src_pitch src + 3 * x)" "src_byte src (y * src_pitch src + 3 * x + 1)"
          "src_byte src (y * src_pitch src + 3 * x + 2)"]
      by (simp add: pixel_value_def source_bytes upt add.assoc)
  next
    case 4
    then show ?thesis
      using joined_bytes(4) [of "src_byte src (y * src_pitch src + 4 * x)" "src_byte src (y * src_pitch src + 4 * x + 1)"
          "src_byte src (y * src_pitch src + 4 * x + 2)" "src_byte src (y * src_pitch src + 4 * x + 3)"]
      by (simp add: pixel_value_def source_bytes upt)
  qed (simp add: Let_def)
qed

lemma top_zero: "drop_bit 16 (ucast (src16 src y x) :: u64) = 0"
  by (rule bit_word_eqI) (simp add: bit_simps src16_high)

lemma true_color_rgb:
  assumes "fmt \<in> set color_formats" 
  shows "true_color fmt src y x = documented_color fmt (pixel_value fmt src y x)"
proof -
  have "yuv_sample fmt src y x = None" using assms by (auto simp: color_formats_def yuv_sample_def)
  moreover have "fmt \<in> {DSPF_ARGB1555, DSPF_ARGB2554, DSPF_ARGB4444, DSPF_RGBA4444} \<Longrightarrow> drop_bit 16 (pixel_value fmt src y x) = 0"
    using top_zero by (auto simp: pixel_bytes DFB_BYTES_PER_PIXEL_def DFB_SURFACE_PIXELFORMAT_def)
  ultimately show ?thesis unfolding true_color_def using to_color_fields [OF assms] by simp
qed

lemma pixel_values:
  "fmt \<in> {DSPF_RGB332, DSPF_A8} \<Longrightarrow> pixel_value fmt src y x = ucast (src8 src y x)"
  "fmt \<in> {DSPF_ARGB1555, DSPF_RGB555, DSPF_BGR555, DSPF_ARGB2554, DSPF_ARGB4444, DSPF_RGB444, DSPF_RGBA4444, DSPF_RGB16,
     DSPF_RGBA5551} \<Longrightarrow> pixel_value fmt src y x = ucast (src16 src y x)"
  "fmt \<in> {DSPF_RGB24, DSPF_ARGB8565} \<Longrightarrow> pixel_value fmt src y x =
     ucast (src8 src y (3 * x) OR push_bit 8 (src8 src y (3 * x + 1)) OR push_bit 16 (src8 src y (3 * x + 2)))"
  "fmt \<in> {DSPF_RGB32, DSPF_ARGB, DSPF_ABGR, DSPF_AiRGB, DSPF_RGBAF88871} \<Longrightarrow> pixel_value fmt src y x = ucast (src32 src y x)"
  by (auto simp: pixel_bytes DFB_BYTES_PER_PIXEL_def DFB_SURFACE_PIXELFORMAT_def)


section \<open>Every destination\<close>

definition rgb_images :: "DFBSurfacePixelFormat list" where
  "rgb_images = [DSPF_RGB16, DSPF_RGB444, DSPF_ARGB4444, DSPF_RGBA4444, DSPF_RGB555, DSPF_ARGB1555, DSPF_RGB32, DSPF_ARGB, DSPF_ABGR,
     DSPF_RGBAF88871, DSPF_RGBA5551]"

definition yuv_images :: "DFBSurfacePixelFormat list" where
  "yuv_images = [DSPF_NV16, DSPF_AYUV, DSPF_AVYU, DSPF_VYU, DSPF_YUV444P, DSPF_YV16]"

lemmas pixel_bits = pixel_macros field_bits bit_times_2 byte_high_bit ucast_from_int used_bits_def field_mask_def src8_high src16_high

lemma true_color_case:
  assumes "fmt \<in> set color_formats"
  shows "true_color fmt src y x = (case fields_of fmt of Some (a, r, g, b) \<Rightarrow> (let p = pixel_value fmt src y x in
    \<lparr> col_a = (if fmt = DSPF_AiRGB then NOT (repeated 0xff a p) else repeated 0xff a p),
      col_r = repeated 0 r p, col_g = repeated 0 g p, col_b = repeated 0 b p \<rparr>))"
proof -
  obtain a r g b where fields: "fields_of fmt = Some (a, r, g, b)" using assms by (auto simp: color_formats_def)
  show ?thesis unfolding true_color_rgb [OF assms] documented_color_cases [OF assms fields] fields by (simp add: Let_def)
qed

lemma rgb_true_colors:
  "true_color DSPF_RGB16 src y x = (let p = ucast (src16 src y x) in
     \<lparr> col_a = 0xff, col_r = repeated 0 (5, 11) p, col_g = repeated 0 (6, 5) p, col_b = repeated 0 (5, 0) p \<rparr>)"
  "true_color DSPF_RGB444 src y x = (let p = ucast (src16 src y x) in
     \<lparr> col_a = 0xff, col_r = repeated 0 (4, 8) p, col_g = repeated 0 (4, 4) p, col_b = repeated 0 (4, 0) p \<rparr>)"
  "true_color DSPF_ARGB4444 src y x = (let p = ucast (src16 src y x) in
     \<lparr> col_a = repeated 0xff (4, 12) p, col_r = repeated 0 (4, 8) p, col_g = repeated 0 (4, 4) p, col_b = repeated 0 (4, 0) p \<rparr>)"
  "true_color DSPF_RGBA4444 src y x = (let p = ucast (src16 src y x) in
     \<lparr> col_a = repeated 0xff (4, 0) p, col_r = repeated 0 (4, 12) p, col_g = repeated 0 (4, 8) p, col_b = repeated 0 (4, 4) p \<rparr>)"
  "true_color DSPF_RGB555 src y x = (let p = ucast (src16 src y x) in
     \<lparr> col_a = 0xff, col_r = repeated 0 (5, 10) p, col_g = repeated 0 (5, 5) p, col_b = repeated 0 (5, 0) p \<rparr>)"
  "true_color DSPF_ARGB1555 src y x = (let p = ucast (src16 src y x) in
     \<lparr> col_a = repeated 0xff (1, 15) p, col_r = repeated 0 (5, 10) p, col_g = repeated 0 (5, 5) p, col_b = repeated 0 (5, 0) p \<rparr>)"
  "true_color DSPF_BGR555 src y x = (let p = ucast (src16 src y x) in
     \<lparr> col_a = 0xff, col_r = repeated 0 (5, 0) p, col_g = repeated 0 (5, 5) p, col_b = repeated 0 (5, 10) p \<rparr>)"
  "true_color DSPF_RGBA5551 src y x = (let p = ucast (src16 src y x) in
     \<lparr> col_a = repeated 0xff (1, 0) p, col_r = repeated 0 (5, 11) p, col_g = repeated 0 (5, 6) p, col_b = repeated 0 (5, 1) p \<rparr>)"
  "true_color DSPF_RGB32 src y x = (let p = ucast (src32 src y x) in
     \<lparr> col_a = 0xff, col_r = repeated 0 (8, 16) p, col_g = repeated 0 (8, 8) p, col_b = repeated 0 (8, 0) p \<rparr>)"
  "true_color DSPF_ARGB src y x = (let p = ucast (src32 src y x) in
     \<lparr> col_a = repeated 0xff (8, 24) p, col_r = repeated 0 (8, 16) p, col_g = repeated 0 (8, 8) p, col_b = repeated 0 (8, 0) p \<rparr>)"
  "true_color DSPF_ABGR src y x = (let p = ucast (src32 src y x) in
     \<lparr> col_a = repeated 0xff (8, 24) p, col_r = repeated 0 (8, 0) p, col_g = repeated 0 (8, 8) p, col_b = repeated 0 (8, 16) p \<rparr>)"
  "true_color DSPF_RGBAF88871 src y x = (let p = ucast (src32 src y x) in
     \<lparr> col_a = repeated 0xff (7, 1) p, col_r = repeated 0 (8, 24) p, col_g = repeated 0 (8, 16) p, col_b = repeated 0 (8, 8) p \<rparr>)"
  by (simp_all add: true_color_case color_formats_def pixel_values Let_def)

lemma rgb_to_rgb16:
  assumes "fmt \<in> set rgb_images" and "width \<le> dp" "0 < dp"
  shows "renders DSPF_RGB16 fmt src width height dp dst (run_conversion (rgb16_conversion fmt src width) dp height dst)"
  using assms(1) unfolding rgb_images_def
  by auto (rule each_renders [OF assms(2,3)], rule word32_eqI; unfold less_8; elim disjE;
    simp add: rgb_true_colors Let_def pixel_bits; fail)+
lemma single_bits: "(v :: u32) AND 0x8000 = 0 \<longleftrightarrow> \<not> bit v 15" "(v :: u32) AND 1 = 0 \<longleftrightarrow> \<not> bit v 0"
proof -
  have "v AND 2 ^ n = 0 \<longleftrightarrow> \<not> bit v n" if "n < 32" for n
  proof -
    have "bit (v AND 2 ^ n) k \<longleftrightarrow> k = n \<and> bit v n" for k using that by (auto simp: bit_simps)
    then show ?thesis by (metis bit_0_eq bot_apply bot_bool_def bit_word_eqI)
  qed
  from this [of 15] this [of 0] show "v AND 0x8000 = 0 \<longleftrightarrow> \<not> bit v 15" "v AND 1 = 0 \<longleftrightarrow> \<not> bit v 0" by simp_all
qed

lemma bit_alpha: "bit (if (v :: u32) AND 1 \<noteq> 0 then 0xff else 0 :: u32) n \<longleftrightarrow> n < 8 \<and> bit v 0"
  "bit (if (v :: u32) AND 0x8000 \<noteq> 0 then 0xff else 0 :: u32) n \<longleftrightarrow> n < 8 \<and> bit v 15"
proof -
  have "bit (mask 8 :: u32) n \<longleftrightarrow> n < 8" by (auto simp: bit_mask_iff)
  then have "bit (255::u32) n \<longleftrightarrow> n < 8" by (simp add: mask_eq_exp_minus_1)
  then show "bit (if (v :: u32) AND 1 \<noteq> 0 then 0xff else 0 :: u32) n \<longleftrightarrow> n < 8 \<and> bit v 0"
    "bit (if (v :: u32) AND 0x8000 \<noteq> 0 then 0xff else 0 :: u32) n \<longleftrightarrow> n < 8 \<and> bit v 15" by (simp_all add: single_bits)
qed

lemma bit_seven: "bit (EXPAND_7to8 (v::u32)) n \<longleftrightarrow> n < 32 \<and> (1 \<le> n \<and> bit v (n - 1) \<or> bit v (n + 6))"
  unfolding EXPAND_7to8_def by (auto simp only: bit_simps) (auto simp: add.commute dest: bit_imp_le_length)

lemma rgb_to_rgb555:
  assumes "fmt \<in> set (DSPF_BGR555 # rgb_images)" and "width \<le> dp" "0 < dp"
  shows "renders DSPF_RGB555 fmt src width height dp dst (run_conversion (rgb555_conversion fmt src width) dp height dst)"
  using assms(1) unfolding rgb_images_def
  by auto (rule each_renders [OF assms(2,3)], rule word32_eqI; unfold less_8; elim disjE;
    simp add: rgb_true_colors Let_def pixel_bits; fail)+

lemma rgb_to_rgb32:
  assumes "fmt \<in> set (DSPF_BGR555 # rgb_images)" and "width \<le> dp" "0 < dp"
  shows "renders DSPF_RGB32 fmt src width height dp dst (run_conversion (rgb32_conversion fmt src width) dp height dst)"
  using assms(1) unfolding rgb_images_def
  by auto (rule each_renders [OF assms(2,3)], rule word32_eqI; unfold less_8; elim disjE;
    simp add: rgb_true_colors Let_def pixel_bits ARGB4444_TO_RGB32_def RGBA4444_TO_RGB32_def; fail)+

lemma rgb_to_argb:
  assumes "fmt \<in> set (DSPF_BGR555 # rgb_images)" and "width \<le> dp" "0 < dp"
  shows "renders DSPF_ARGB fmt src width height dp dst (run_conversion (argb_conversion fmt src width) dp height dst)"
  using assms(1) unfolding rgb_images_def
  by auto (rule each_renders [OF assms(2,3)], rule word32_eqI; unfold less_8; elim disjE;
    simp add: rgb_true_colors Let_def pixel_bits ARGB4444_TO_ARGB_def RGBA4444_TO_ARGB_def bit_alpha bit_seven; fail)+

text \<open>The access functions of the code read these bytes.\<close>

lemma word_bytes4:
  fixes a b c d :: u8
  defines "w \<equiv> ucast a OR push_bit 8 (ucast b) OR push_bit 16 (ucast c) OR push_bit 24 (ucast d) :: u32"
  shows "w AND 0xff = ucast a" "drop_bit 8 w AND 0xff = ucast b" "drop_bit 16 w AND 0xff = ucast c" "drop_bit 24 w = ucast d"
  unfolding w_def by (rule word32_eqI; unfold less_8; elim disjE; simp add: bit_simps byte_high_bit; fail)+

lemma word_bytes2:
  fixes a b :: u8
  defines "w \<equiv> ucast a OR push_bit 8 (ucast b) :: u32"
  shows "w AND 0xff = ucast a" "drop_bit 8 w = ucast b"
  unfolding w_def by (rule word32_eqI; unfold less_8; elim disjE; simp add: bit_simps byte_high_bit; fail)+

definition samples :: "DFBSurfacePixelFormat \<Rightarrow> source \<Rightarrow> nat \<Rightarrow> nat \<Rightarrow> u32 \<Rightarrow> u32 \<Rightarrow> u32 \<Rightarrow> u32 \<Rightarrow> bool" where
  "samples fmt src y x a lum cb cr \<longleftrightarrow> (case yuv_sample fmt src y x of None \<Rightarrow> False
     | Some (a', lum', cb', cr') \<Rightarrow> a = ucast a' \<and> lum = ucast lum' \<and> cb = ucast cb' \<and> cr = ucast cr')"

lemma yuv_samples:
  "samples DSPF_AYUV src y x (drop_bit 24 (src32 src y x)) (drop_bit 16 (src32 src y x) AND 0xff)
     (drop_bit 8 (src32 src y x) AND 0xff) (src32 src y x AND 0xff)"
  "samples DSPF_AVYU src y x (drop_bit 24 (src32 src y x)) (drop_bit 8 (src32 src y x) AND 0xff)
     (src32 src y x AND 0xff) (drop_bit 16 (src32 src y x) AND 0xff)"
  "samples DSPF_VYU src y x 0xff (src8 src y (3 * x + 1)) (src8 src y (3 * x)) (src8 src y (3 * x + 2))"
  "samples DSPF_NV16 src y x 0xff (src8 src y x) (nv16_chroma src y (x div 2) AND 0xff) (drop_bit 8 (nv16_chroma src y (x div 2)))"
  "samples DSPF_YUV444P src y x 0xff (src8 src y x) (plane444 src 1 y x) (plane444 src 2 y x)"
  "samples DSPF_YV16 src y x 0xff (src8 src y x) (yv16_cb src y x) (yv16_cr src y x)"
proof -
  have row: "y * p + h * p + c = (h + y) * p + c" for p h c :: nat by (simp add: algebra_simps)
  show "samples DSPF_AYUV src y x (drop_bit 24 (src32 src y x)) (drop_bit 16 (src32 src y x) AND 0xff)
     (drop_bit 8 (src32 src y x) AND 0xff) (src32 src y x AND 0xff)"
    "samples DSPF_AVYU src y x (drop_bit 24 (src32 src y x)) (drop_bit 8 (src32 src y x) AND 0xff)
     (src32 src y x AND 0xff) (drop_bit 16 (src32 src y x) AND 0xff)"
    "samples DSPF_VYU src y x 0xff (src8 src y (3 * x + 1)) (src8 src y (3 * x)) (src8 src y (3 * x + 2))"
    unfolding samples_def yuv_sample_def Let_def source_bytes word_bytes4 by (simp_all add: add.assoc)
  show "samples DSPF_NV16 src y x 0xff (src8 src y x) (nv16_chroma src y (x div 2) AND 0xff) (drop_bit 8 (nv16_chroma src y (x div 2)))"
    unfolding samples_def yuv_sample_def Let_def source_bytes nv16_chroma_def load16_def row_at_def word_bytes2 row by simp
  have planes: "y * p + 2 * h * p + c = (2 * h + y) * p + c" for p h c :: nat by (simp add: algebra_simps)
  show "samples DSPF_YUV444P src y x 0xff (src8 src y x) (plane444 src 1 y x) (plane444 src 2 y x)"
    unfolding samples_def yuv_sample_def Let_def source_bytes plane444_def load8_def row_at_def mult_1 row planes by simp
  have second: "a + b + c + d = a + c + d + b" for a b c d :: nat by simp
  show "samples DSPF_YV16 src y x 0xff (src8 src y x) (yv16_cb src y x) (yv16_cr src y x)"
    unfolding samples_def yuv_sample_def Let_def source_bytes yv16_cb_def yv16_cr_def load8_def second [of _ "_ div 2"] by simp
qed

lemma yuv_true_color:
  assumes "samples fmt src y x a lum cb cr"
  shows "ycbcr pack lum cb cr = pack (ucast (col_r (true_color fmt src y x))) (ucast (col_g (true_color fmt src y x)))
      (ucast (col_b (true_color fmt src y x)))" and "col_a (true_color fmt src y x) = ucast a"
proof -
  obtain a' lum' cb' cr' where s: "yuv_sample fmt src y x = Some (a', lum', cb', cr')"
      "a = ucast a'" "lum = ucast lum'" "cb = ucast cb'" "cr = ucast cr'"
    using assms unfolding samples_def by (auto split: option.splits)
  have u: "uint (ucast v :: u32) = uint v" for v :: u8
    using unsigned_less [of v, where 'a = int] by (simp add: unsigned_ucast_eq take_bit_int_eq_self)
  have b: "ucast (ucast v :: u32) = v" for v :: u8 by (rule bit_word_eqI) (simp add: bit_simps)
  show "ycbcr pack lum cb cr = pack (ucast (col_r (true_color fmt src y x))) (ucast (col_g (true_color fmt src y x)))
      (ucast (col_b (true_color fmt src y x)))" "col_a (true_color fmt src y x) = ucast a"
    unfolding ycbcr_bytes true_color_def s u b by (simp_all split: prod.splits)
qed

lemmas yuv_packed = yuv_samples [THEN yuv_true_color(1)]
lemmas yuv_alpha = yuv_samples [THEN yuv_true_color(2)]

lemma packed_bytes:
  fixes c :: DFBColor
  shows "ucast (ucast (PIXEL_RGB16 (ucast (col_r c)) (ucast (col_g c)) (ucast (col_b c))) :: u16) AND used_bits DSPF_RGB16 =
      ucast (dfb_pixel_from_color DSPF_RGB16 c)"
    and "ucast (ucast (PIXEL_RGB555 (ucast (col_r c)) (ucast (col_g c)) (ucast (col_b c))) :: u16) AND used_bits DSPF_RGB555 =
      ucast (dfb_pixel_from_color DSPF_RGB555 c)"
    and "ucast (ucast (PIXEL_RGB32 (ucast (col_r c)) (ucast (col_g c)) (ucast (col_b c))) :: u32) AND used_bits DSPF_RGB32 =
      ucast (dfb_pixel_from_color DSPF_RGB32 c)"
    and "col_a c = ucast a \<Longrightarrow> ucast (ucast (PIXEL_ARGB a (ucast (col_r c)) (ucast (col_g c)) (ucast (col_b c))) :: u32) AND
      used_bits DSPF_ARGB = ucast (dfb_pixel_from_color DSPF_ARGB c)"
  by (rule word32_eqI; unfold less_8; elim disjE; simp add: pixel_bits; fail)+

lemma yuv_to_all:
  assumes "fmt \<in> set yuv_images" and "width \<le> dp" "0 < dp"
  shows "renders DSPF_RGB16 fmt src width height dp dst (run_conversion (rgb16_conversion fmt src width) dp height dst)"
    and "renders DSPF_RGB555 fmt src width height dp dst (run_conversion (rgb555_conversion fmt src width) dp height dst)"
    and "renders DSPF_RGB32 fmt src width height dp dst' (run_conversion (rgb32_conversion fmt src width) dp height dst')"
    and "renders DSPF_ARGB fmt src width height dp dst' (run_conversion (argb_conversion fmt src width) dp height dst')"
proof -
  note fits = assms(2,3)
  have cases: "fmt = DSPF_NV16 \<or> fmt = DSPF_AYUV \<or> fmt = DSPF_AVYU \<or> fmt = DSPF_VYU \<or> fmt = DSPF_YUV444P \<or> fmt = DSPF_YV16"
    using assms(1) by (simp add: yuv_images_def)
  show "renders DSPF_RGB16 fmt src width height dp dst (run_conversion (rgb16_conversion fmt src width) dp height dst)"
    by (insert cases, elim disjE; hypsubst; subst rgb16_conversion.simps; rule each_renders [OF fits]; subst yuv_packed; rule packed_bytes)
  show "renders DSPF_RGB555 fmt src width height dp dst (run_conversion (rgb555_conversion fmt src width) dp height dst)"
    by (insert cases, elim disjE; hypsubst; subst rgb555_conversion.simps; rule each_renders [OF fits]; subst yuv_packed; rule packed_bytes)
  show "renders DSPF_RGB32 fmt src width height dp dst' (run_conversion (rgb32_conversion fmt src width) dp height dst')"
    by (insert cases, elim disjE; hypsubst; subst rgb32_conversion.simps; rule each_renders [OF fits]; subst yuv_packed; rule packed_bytes)
  show "renders DSPF_ARGB fmt src width height dp dst' (run_conversion (argb_conversion fmt src width) dp height dst')"
    by (insert cases, elim disjE; hypsubst; subst argb_conversion.simps; rule each_renders [OF fits]; subst yuv_packed;
      rule packed_bytes; simp add: yuv_alpha)
qed

section \<open>Bytes\<close>

lemma each_triple_at:
  assumes "3 * width \<le> dp" and "0 < dp"
  shows "run_conversion (each_triple width pix) dp height dst b =
    (if b div dp < height \<and> b mod dp < 3 * width then triple (pix (b div dp) (b mod dp div 3)) ! (b mod dp mod 3) else dst b)"
proof -
  have "length (triple v) = 3" for v by (simp add: triple_def split: prod.splits)
  then show ?thesis unfolding run_conversion_def each_triple_def using assms by (simp add: row_loop_at)
qed

lemma argb_row_at:
  assumes "\<And>v. length (pix v) = k"
  shows "argb_row pix k src len dst b = (if b < k * len then pix (src (b div k)) ! (b mod k) else dst b)"
  unfolding argb_row_def using assms by (simp add: pixel_loop_at)

lemma more_true_colors:
  "true_color DSPF_RGB332 src y x = (let p = ucast (src8 src y x) in
     \<lparr> col_a = 0xff, col_r = repeated 0 (3, 5) p, col_g = repeated 0 (3, 2) p, col_b = repeated 0 (2, 0) p \<rparr>)"
  "true_color DSPF_A8 src y x = (let p = ucast (src8 src y x) in
     \<lparr> col_a = repeated 0xff (8, 0) p, col_r = 0, col_g = 0, col_b = 0 \<rparr>)"
  "true_color DSPF_ARGB2554 src y x = (let p = ucast (src16 src y x) in
     \<lparr> col_a = repeated 0xff (2, 14) p, col_r = repeated 0 (5, 9) p, col_g = repeated 0 (5, 4) p, col_b = repeated 0 (4, 0) p \<rparr>)"
  "true_color DSPF_RGB24 src y x =
     (let p = ucast (src8 src y (3 * x) OR push_bit 8 (src8 src y (3 * x + 1)) OR push_bit 16 (src8 src y (3 * x + 2))) in
     \<lparr> col_a = 0xff, col_r = repeated 0 (8, 16) p, col_g = repeated 0 (8, 8) p, col_b = repeated 0 (8, 0) p \<rparr>)"
  "true_color DSPF_ARGB8565 src y x =
     (let p = ucast (src8 src y (3 * x) OR push_bit 8 (src8 src y (3 * x + 1)) OR push_bit 16 (src8 src y (3 * x + 2))) in
     \<lparr> col_a = repeated 0xff (8, 16) p, col_r = repeated 0 (5, 11) p, col_g = repeated 0 (6, 5) p, col_b = repeated 0 (5, 0) p \<rparr>)"
  "true_color DSPF_AiRGB src y x = (let p = ucast (src32 src y x) in
     \<lparr> col_a = NOT (repeated 0xff (8, 24) p), col_r = repeated 0 (8, 16) p, col_g = repeated 0 (8, 8) p, col_b = repeated 0 (8, 0) p \<rparr>)"
  by (simp_all add: true_color_case color_formats_def pixel_values Let_def)

lemma expand_top: "v OR push_bit 4 v = EXPAND_4to8 v"
  by (simp add: EXPAND_4to8_def or.commute)

lemma small_top: "unat (drop_bit 14 (src16 src y x)) < 4"
proof -
  have "drop_bit 14 (src16 src y x) = drop_bit 14 (src16 src y x) AND mask 2"
  proof (rule bit_word_eqI)
    fix n show "bit (drop_bit 14 (src16 src y x)) n = bit (drop_bit 14 (src16 src y x) AND mask 2) n"
      using src16_high [of "14 + n" src y x] by (cases "n < 2") (auto simp: bit_drop_bit_eq bit_and_iff bit_mask_iff)
  qed
  then have "unat (drop_bit 14 (src16 src y x)) = unat (take_bit 2 (drop_bit 14 (src16 src y x)))" by (simp add: take_bit_eq_mask)
  also have "\<dots> < 2 ^ 2" unfolding unsigned_take_bit_eq by (rule take_bit_nat_less_exp)
  finally show ?thesis by simp
qed

lemma top_two: "ucast (let t = drop_bit 14 (src16 src y x) in if t = 0 then 0x00 else if t = 1 then 0x55 else if t = 2 then 0xAA else 0xFF :: u32) =
    (EXPAND_2to8 (drop_bit 14 (src16 src y x)) :: u8)"
proof -
  have "unat (drop_bit 14 (src16 src y x)) \<in> {0, 1, 2, 3}" using small_top [of src y x] by auto
  then have "drop_bit 14 (src16 src y x) \<in> {0, 1, 2, 3}" by (simp add: word_unat_eq_iff)
  then show ?thesis unfolding EXPAND_2to8_def lookup2to8_def by (elim insertE) simp_all
qed

lemma bit_low_one: "bit (EXPAND_1to8 ((v::u32) AND 1)) n \<longleftrightarrow> n < 8 \<and> bit v 0"
  using bit_alpha(1) [of v n] by (simp add: EXPAND_1to8_def)


definition has_alpha8 :: "DFBSurfacePixelFormat \<Rightarrow> source \<Rightarrow> nat \<Rightarrow> bool" where
  "has_alpha8 fmt src width \<longleftrightarrow> (\<exists>pix. a8_conversion fmt src width = each_pixel width pix \<and>
     (\<forall>y x. ucast (pix y x) = col_a (true_color fmt src y x)))"

lemma has_alpha8I: "a8_conversion fmt src width = each_pixel width pix \<Longrightarrow>
    (\<And>y x. ucast (pix y x) = col_a (true_color fmt src y x)) \<Longrightarrow> has_alpha8 fmt src width"
  by (auto simp: has_alpha8_def)

lemma a8_2554: "has_alpha8 DSPF_ARGB2554 src width"
proof (rule has_alpha8I)
  show "a8_conversion DSPF_ARGB2554 src width = each_pixel width (\<lambda>y x.
       (let v = drop_bit 14 (src16 src y x) in if v = 0 then 0x00 else if v = 1 then 0x55 else if v = 2 then 0xAA else 0xFF))"
    by (simp add: a8_conversion_def)
  show "ucast (let v = drop_bit 14 (src16 src y x) in if v = 0 then 0x00 else if v = 1 then 0x55 else if v = 2 then 0xAA else 0xFF :: u32) =
      col_a (true_color DSPF_ARGB2554 src y x)" for y x
    unfolding top_two EXPAND_2to8_bits [OF small_top] 
    by (rule byte_eqI; simp add: more_true_colors Let_def pixel_bits)
qed

lemma a8_alpha:
  assumes "fmt \<in> set (color_formats @ yuv_images)"
  shows "has_alpha8 fmt src width"
  using assms unfolding color_formats_def yuv_images_def
  by auto (rule a8_2554 | (rule has_alpha8I, (simp add: a8_conversion_def no_alpha_def; fail),
    rule byte_eqI; simp add: rgb_true_colors more_true_colors Let_def pixel_bits bit_alpha bit_seven bit_low_one expand_top yuv_alpha; fail))+

definition close24 :: "DFBSurfacePixelFormat \<Rightarrow> source \<Rightarrow> nat \<Rightarrow> bool" where
  "close24 fmt src width \<longleftrightarrow> (\<exists>red green blue. rgb24_conversion fmt src width = each_triple width (\<lambda>y x. (red y x, green y x, blue y x)) \<and>
     (\<forall>y x. case fields_of fmt of None \<Rightarrow> False | Some (_, r, g, b) \<Rightarrow>
        kept (fst r) (ucast (red y x)) (col_r (true_color fmt src y x)) \<and>
        kept (fst g) (ucast (green y x)) (col_g (true_color fmt src y x)) \<and>
        kept (fst b) (ucast (blue y x)) (col_b (true_color fmt src y x))))"

lemma close24I:
  assumes "rgb24_conversion fmt src width = each_triple width (\<lambda>y x. (red y x, green y x, blue y x))"
    and "fields_of fmt = Some (a, (nr, pr), (ng, pg), (nb, pb))"
    and "\<And>y x. kept nr (ucast (red y x)) (col_r (true_color fmt src y x))"
    and "\<And>y x. kept ng (ucast (green y x)) (col_g (true_color fmt src y x))"
    and "\<And>y x. kept nb (ucast (blue y x)) (col_b (true_color fmt src y x))"
  shows "close24 fmt src width"
  unfolding close24_def by (rule exI [of _ red], rule exI [of _ green], rule exI [of _ blue]) (simp add: assms)

lemma rgb332_expanded:
  "EXPAND_3to8 (drop_bit 5 (src8 src y x)) = (repeated 0 (3, 5) (ucast (src8 src y x)))"
  "EXPAND_3to8 (drop_bit 2 (src8 src y x) AND 7) = (repeated 0 (3, 2) (ucast (src8 src y x)))"
  "EXPAND_2to8 (src8 src y x AND 3) = (repeated 0 (2, 0) (ucast (src8 src y x)))"
proof -
  have mask: "unat (v AND mask n) < 2 ^ n" for v :: u32 and n
    by (simp flip: take_bit_eq_mask add: unsigned_take_bit_eq)
  have small: "unat (v AND 3) < 4" "unat (v AND 7) < 8" for v :: u32
    using mask [of v 2] mask [of v 3] by (simp_all add: mask_eq_exp_minus_1)
  have "drop_bit 5 (src8 src y x) = drop_bit 5 (src8 src y x) AND mask 3"
  proof (rule bit_word_eqI)
    fix n show "bit (drop_bit 5 (src8 src y x)) n = bit (drop_bit 5 (src8 src y x) AND mask 3) n"
      using src8_high [of "5 + n" src y x] by (cases "n < 3") (auto simp: bit_drop_bit_eq bit_and_iff bit_mask_iff)
  qed
  then have "drop_bit 5 (src8 src y x) = drop_bit 5 (src8 src y x) AND 7" by (simp add: mask_eq_exp_minus_1)
  then have "unat (drop_bit 5 (src8 src y x)) < 8" using small(2) by metis
  then show "EXPAND_3to8 (drop_bit 5 (src8 src y x)) = (repeated 0 (3, 5) (ucast (src8 src y x)))"
    unfolding EXPAND_3to8_bits by (intro byte_eqI; simp add: pixel_bits)
  show "EXPAND_3to8 (drop_bit 2 (src8 src y x) AND 7) = (repeated 0 (3, 2) (ucast (src8 src y x)))"
    by (rule byte_eqI; simp add: small pixel_bits)
  show "EXPAND_2to8 (src8 src y x AND 3) = (repeated 0 (2, 0) (ucast (src8 src y x)))"
    by (rule byte_eqI; simp add: small pixel_bits)
qed

lemma kept_refl: "kept n (ucast (ucast x :: u32)) x"
proof -
  have "ucast (ucast x :: u32) = x" by (rule bit_word_eqI) (simp add: bit_simps)
  then show ?thesis by (simp add: kept_def)
qed

lemma close24_332: "close24 DSPF_RGB332 src width"
  by (rule close24I, (simp; fail), (simp; fail); simp add: more_true_colors Let_def rgb332_expanded kept_refl)

lemma rgb24_close:
  assumes "fmt \<in> set color_formats" "fmt \<noteq> DSPF_A8"
  shows "close24 fmt src width"
  using assms unfolding color_formats_def
  by auto (rule close24_332 | (rule close24I, (simp; fail), (simp; fail);
    rule keptI; unfold less_8; elim disjE; simp add: rgb_true_colors more_true_colors Let_def pixel_bits; fail))+

section \<open>Rows\<close>

lemma half_eqI:
  fixes x y :: u16
  assumes "\<And>n. n < 8 \<Longrightarrow> bit x n = bit y n" "\<And>n. n < 8 \<Longrightarrow> bit x (n + 8) = bit y (n + 8)"
  shows "x = y"
proof (rule bit_word_eqI)
  fix n :: nat assume n: "n < LENGTH(16)"
  show "bit x n = bit y n" using assms [of n] assms(2) [of "n - 8"] n by (cases "n < 8") auto
qed

lemma row_pixels:
  fixes v :: u32 and i :: nat
  defines "c \<equiv> dfb_pixel_to_color DSPF_ARGB (ucast v)"
  shows "ucast (RGB32_TO_RGB332 v) = (ucast (dfb_pixel_from_color DSPF_RGB332 c) :: u8)"
    and "ucast (ARGB_TO_ARGB1555 v) = (ucast (dfb_pixel_from_color DSPF_ARGB1555 c) :: u16)"
    and "ucast (ARGB_TO_RGBA5551 v) = (ucast (dfb_pixel_from_color DSPF_RGBA5551 c) :: u16)"
    and "ucast (ARGB_TO_ARGB2554 v) = (ucast (dfb_pixel_from_color DSPF_ARGB2554 c) :: u16)"
    and "ucast (ARGB_TO_ARGB4444 v) = (ucast (dfb_pixel_from_color DSPF_ARGB4444 c) :: u16)"
    and "ucast (ARGB_TO_RGBA4444 v) = (ucast (dfb_pixel_from_color DSPF_RGBA4444 c) :: u16)"
    and "ucast (RGB32_TO_RGB16 v) = (ucast (dfb_pixel_from_color DSPF_RGB16 c) :: u16)"
    and "ucast (drop_bit 24 v) = col_a c"
    and "ucast (ARGB_TO_ARGB8565 v) = (ucast (dfb_pixel_from_color DSPF_ARGB8565 c) :: u32)"
  unfolding c_def RGB32_TO_RGB332_def ARGB_TO_ARGB1555_def ARGB_TO_RGBA5551_def ARGB_TO_ARGB2554_def ARGB_TO_ARGB4444_def
    ARGB_TO_RGBA4444_def RGB32_TO_RGB16_def
  by ((rule byte_eqI | (rule half_eqI word32_eqI; unfold less_8; elim disjE)); simp add: pixel_bits bit_from_int alpha_color_def ARGB_TO_ARGB8565_def; fail)+

section \<open>Properties\<close>

text \<open>
  C9: an image in any of the seventeen formats of \<^const>\<open>rgb_images\<close> and \<^const>\<open>yuv_images\<close> is converted to
  RGB16, RGB555, RGB32 and ARGB pixel by pixel as the conversion of single pixels does it, on the bits the destination
  format uses; what lies between the rows and behind them is not written. Which bytes of the source image make up a pixel is
  written out in \<^const>\<open>pixel_value\<close> and \<^const>\<open>yuv_sample\<close>, from the layouts documented in \<^verbatim>\<open>directfb.h\<close>.
\<close>

theorem images_converted:
  assumes "fmt \<in> set (rgb_images @ yuv_images)"
    and "width \<le> dpitch div 2" "0 < dpitch div 2" and "width \<le> dpitch' div 4" "0 < dpitch' div 4"
  shows "renders DSPF_RGB16 fmt src width height (dpitch div 2) dst (dfb_convert_to_rgb16 fmt src dpitch width height dst) \<and>
    renders DSPF_RGB555 fmt src width height (dpitch div 2) dst (dfb_convert_to_rgb555 fmt src dpitch width height dst) \<and>
    renders DSPF_RGB32 fmt src width height (dpitch' div 4) dst' (dfb_convert_to_rgb32 fmt src dpitch' width height dst') \<and>
    renders DSPF_ARGB fmt src width height (dpitch' div 4) dst' (dfb_convert_to_argb fmt src dpitch' width height dst')"
  unfolding dfb_convert_to_rgb16_def dfb_convert_to_rgb555_def dfb_convert_to_rgb32_def dfb_convert_to_argb_def
proof (cases "fmt \<in> set yuv_images")
  case True
  note yuv = yuv_to_all [OF True]
  show "renders DSPF_RGB16 fmt src width height (dpitch div 2) dst (run_conversion (rgb16_conversion fmt src width) (dpitch div 2) height dst) \<and>
    renders DSPF_RGB555 fmt src width height (dpitch div 2) dst (run_conversion (rgb555_conversion fmt src width) (dpitch div 2) height dst) \<and>
    renders DSPF_RGB32 fmt src width height (dpitch' div 4) dst' (run_conversion (rgb32_conversion fmt src width) (dpitch' div 4) height dst') \<and>
    renders DSPF_ARGB fmt src width height (dpitch' div 4) dst' (run_conversion (argb_conversion fmt src width) (dpitch' div 4) height dst')"
    using yuv(1,2) [OF assms(2,3)] yuv(3,4) [OF assms(4,5)] by blast
next
  case False
  then have rgb: "fmt \<in> set rgb_images" "fmt \<in> set (DSPF_BGR555 # rgb_images)" using assms(1) by auto
  show "renders DSPF_RGB16 fmt src width height (dpitch div 2) dst (run_conversion (rgb16_conversion fmt src width) (dpitch div 2) height dst) \<and>
    renders DSPF_RGB555 fmt src width height (dpitch div 2) dst (run_conversion (rgb555_conversion fmt src width) (dpitch div 2) height dst) \<and>
    renders DSPF_RGB32 fmt src width height (dpitch' div 4) dst' (run_conversion (rgb32_conversion fmt src width) (dpitch' div 4) height dst') \<and>
    renders DSPF_ARGB fmt src width height (dpitch' div 4) dst' (run_conversion (argb_conversion fmt src width) (dpitch' div 4) height dst')"
    using rgb_to_rgb16 [OF rgb(1) assms(2,3)] rgb_to_rgb555 [OF rgb(2) assms(2,3)] rgb_to_rgb32 [OF rgb(2) assms(4,5)]
      rgb_to_argb [OF rgb(2) assms(4,5)] by blast
qed

lemma images_converted_witness:
  "let src = \<lparr> src_byte = (\<lambda>a. word_of_nat (7 * a)), src_pitch = 8, src_height = 2 \<rparr>;
       to16 = (\<lambda>convert. convert DSPF_RGBA5551 src 8 3 2 (\<lambda>_. 0) :: u16 cells);
       to32 = (\<lambda>convert. convert DSPF_RGBA5551 src 12 3 2 (\<lambda>_. 0) :: u32 cells)
   in renders DSPF_RGB16 DSPF_RGBA5551 src 3 2 (8 div 2) (\<lambda>_. 0) (to16 dfb_convert_to_rgb16) \<and>
      renders DSPF_RGB555 DSPF_RGBA5551 src 3 2 (8 div 2) (\<lambda>_. 0) (to16 dfb_convert_to_rgb555) \<and>
      renders DSPF_RGB32 DSPF_RGBA5551 src 3 2 (12 div 4) (\<lambda>_. 0) (to32 dfb_convert_to_rgb32) \<and>
      renders DSPF_ARGB DSPF_RGBA5551 src 3 2 (12 div 4) (\<lambda>_. 0) (to32 dfb_convert_to_argb)"
  unfolding Let_def by (rule images_converted) (simp_all add: rgb_images_def)

text \<open>
  C10: from each RGB format that \<^const>\<open>dfb_pixel_to_color\<close> decodes, other than \<open>DSPF_A8\<close>, conversion to 8 bit alpha gives
  exactly the alpha of every pixel, opaque for formats without alpha; conversion
  to 24 bit stores red, green and blue with the bits the source has and is off by less than \<open>2^(8 - n)\<close> for a
  channel of \<open>n\<close> bits. Other bytes stay. Luma and chroma formats are not covered.
\<close>

theorem bytes_converted:
  assumes "fmt \<in> set color_formats" "fmt \<noteq> DSPF_A8" and "fields_of fmt = Some (a, r, g, b)"
    and "3 * width \<le> dpitch" "0 < dpitch"
  shows "dfb_convert_to_a8 fmt src dpitch width height dst i =
      (if i div dpitch < height \<and> i mod dpitch < width then col_a (true_color fmt src (i div dpitch) (i mod dpitch)) else dst i) \<and>
    (let stored = dfb_convert_to_rgb24 fmt src dpitch width height dst i; x = i mod dpitch div 3;
         c = true_color fmt src (i div dpitch) x
     in if i div dpitch < height \<and> i mod dpitch < 3 * width
        then \<bar>int (unat stored) - int (unat ([col_r c, col_g c, col_b c] ! (i mod dpitch mod 3)))\<bar> <
             2 ^ (8 - [fst r, fst g, fst b] ! (i mod dpitch mod 3))
        else stored = dst i)"
proof
  have fits: "width \<le> dpitch" using assms(4) by simp
  obtain pix where pix: "a8_conversion fmt src width = each_pixel width pix" "\<And>y x. ucast (pix y x) = col_a (true_color fmt src y x)"
    using a8_alpha [of fmt src width] assms(1) unfolding has_alpha8_def by auto
  show "dfb_convert_to_a8 fmt src dpitch width height dst i =
      (if i div dpitch < height \<and> i mod dpitch < width then col_a (true_color fmt src (i div dpitch) (i mod dpitch)) else dst i)"
    unfolding dfb_convert_to_a8_def pix(1) each_pixel_at [OF fits assms(5)] pix(2) ..
  obtain red green blue where conv: "rgb24_conversion fmt src width = each_triple width (\<lambda>y x. (red y x, green y x, blue y x))"
    and kept: "\<And>y x. kept (fst r) (ucast (red y x)) (col_r (true_color fmt src y x))"
      "\<And>y x. kept (fst g) (ucast (green y x)) (col_g (true_color fmt src y x))"
      "\<And>y x. kept (fst b) (ucast (blue y x)) (col_b (true_color fmt src y x))"
    using rgb24_close [OF assms(1,2), of src width] unfolding close24_def assms(3) by auto
  have "i mod dpitch mod 3 = 0 \<or> i mod dpitch mod 3 = 1 \<or> i mod dpitch mod 3 = 2" by auto
  then show "let stored = dfb_convert_to_rgb24 fmt src dpitch width height dst i; x = i mod dpitch div 3;
         c = true_color fmt src (i div dpitch) x
     in if i div dpitch < height \<and> i mod dpitch < 3 * width
        then \<bar>int (unat stored) - int (unat ([col_r c, col_g c, col_b c] ! (i mod dpitch mod 3)))\<bar> <
             2 ^ (8 - [fst r, fst g, fst b] ! (i mod dpitch mod 3))
        else stored = dst i"
    unfolding dfb_convert_to_rgb24_def conv each_triple_at [OF assms(4,5)] Let_def triple_def
    using kept [THEN kept_close] by (elim disjE) simp_all
qed

lemma bytes_converted_witness:
  "let src = \<lparr> src_byte = (\<lambda>a. word_of_nat (7 * a)), src_pitch = 8, src_height = 2 \<rparr>
   in dfb_convert_to_a8 DSPF_ARGB1555 src 9 3 2 (\<lambda>_. 0) 10 =
      (if 10 div 9 < (2::nat) \<and> 10 mod 9 < (3::nat) then col_a (true_color DSPF_ARGB1555 src (10 div 9) (10 mod 9)) else (\<lambda>_. 0) 10) \<and>
    (let stored = dfb_convert_to_rgb24 DSPF_ARGB1555 src 9 3 2 (\<lambda>_. 0) 10; x = 10 mod 9 div 3;
         c = true_color DSPF_ARGB1555 src (10 div 9) x
     in if 10 div 9 < (2::nat) \<and> 10 mod 9 < 3 * (3::nat)
        then \<bar>int (unat stored) - int (unat ([col_r c, col_g c, col_b c] ! (10 mod 9 mod 3)))\<bar> <
             2 ^ (8 - [fst (5::nat, 10::nat), fst (5::nat, 5::nat), fst (5::nat, 0::nat)] ! (10 mod 9 mod 3))
        else stored = (\<lambda>_. 0) 10)"
  unfolding Let_def [of "\<lparr> src_byte = (\<lambda>a. word_of_nat (7 * a)), src_pitch = 8, src_height = 2 \<rparr>"]
  by (rule bytes_converted) (simp_all add: color_formats_def)

text \<open>
  C11: the row converters of \<^verbatim>\<open>convert.h\<close> agree with the conversion of single pixels: every ARGB pixel of the row
  becomes the packed pixel of its colour, and cells behind the row stay.
\<close>

theorem argb_rows_converted:
  "let c = (\<lambda>i. dfb_pixel_to_color DSPF_ARGB (ucast (src i)));
       row = (\<lambda>fmt dst i. if i < len then ucast (dfb_pixel_from_color fmt (c i)) else dst i)
   in dfb_argb_to_rgb332 src len dst8 = (\<lambda>i. if i < len then ucast (dfb_pixel_from_color DSPF_RGB332 (c i)) else dst8 i) \<and>
      dfb_argb_to_argb1555 src len dst = row DSPF_ARGB1555 dst \<and>
      dfb_argb_to_rgba5551 src len dst = row DSPF_RGBA5551 dst \<and>
      dfb_argb_to_argb2554 src len dst = row DSPF_ARGB2554 dst \<and>
      dfb_argb_to_argb4444 src len dst = row DSPF_ARGB4444 dst \<and>
      dfb_argb_to_rgba4444 src len dst = row DSPF_RGBA4444 dst \<and>
      dfb_argb_to_rgb16 src len dst = row DSPF_RGB16 dst \<and>
      dfb_argb_to_a8 src len dst8 = (\<lambda>i. if i < len then col_a (c i) else dst8 i) \<and>
      dfb_argb_to_argb8565 src len dst8 = (\<lambda>i. if i < 3 * len
        then ucast (drop_bit (8 * (i mod 3)) (dfb_pixel_from_color DSPF_ARGB8565 (c (i div 3)))) else dst8 i)"
proof -
  have bytes: "ucast (drop_bit n (ARGB_TO_ARGB8565 v) AND 0xff) =
      (ucast (drop_bit n (dfb_pixel_from_color DSPF_ARGB8565 (dfb_pixel_to_color DSPF_ARGB (ucast v)))) :: u8)" if "n \<le> 16" for v n
  proof (rule bit_word_eqI)
    fix m assume m: "m < LENGTH(8)"
    have "bit (ucast (ARGB_TO_ARGB8565 v) :: u32) (n + m) =
        bit (ucast (dfb_pixel_from_color DSPF_ARGB8565 (dfb_pixel_to_color DSPF_ARGB (ucast v))) :: u32) (n + m)"
      unfolding row_pixels(9) ..
    moreover have "bit (mask 8 :: u32) m" using m by (simp add: bit_mask_iff)
    ultimately show "bit (ucast (drop_bit n (ARGB_TO_ARGB8565 v) AND 0xff) :: u8) m =
        bit (ucast (drop_bit n (dfb_pixel_from_color DSPF_ARGB8565 (dfb_pixel_to_color DSPF_ARGB (ucast v)))) :: u8) m"
      using m that by (simp add: bit_ucast_iff bit_and_iff bit_drop_bit_eq mask_eq_exp_minus_1 del: dfb_pixel_from_color.simps)
  qed
  have three: "i mod 3 = 0 \<or> i mod 3 = 1 \<or> i mod 3 = 2" for i :: nat by auto
  have "dfb_argb_to_argb8565 src len dst8 = (\<lambda>i. if i < 3 * len
        then ucast (drop_bit (8 * (i mod 3)) (dfb_pixel_from_color DSPF_ARGB8565 (dfb_pixel_to_color DSPF_ARGB (ucast (src (i div 3))))))
        else dst8 i)"
  proof
    fix i
    show "dfb_argb_to_argb8565 src len dst8 i = (if i < 3 * len
        then ucast (drop_bit (8 * (i mod 3)) (dfb_pixel_from_color DSPF_ARGB8565 (dfb_pixel_to_color DSPF_ARGB (ucast (src (i div 3))))))
        else dst8 i)"
      unfolding dfb_argb_to_argb8565_def by (subst argb_row_at) (use three [of i] bytes [of 0] bytes [of 8] bytes [of 16] in
        \<open>auto simp: Let_def simp del: dfb_pixel_from_color.simps dfb_pixel_to_color.simps\<close>)
  qed
  then show ?thesis
    unfolding Let_def dfb_argb_to_rgb332_def dfb_argb_to_argb1555_def dfb_argb_to_rgba5551_def dfb_argb_to_argb2554_def
      dfb_argb_to_argb4444_def dfb_argb_to_rgba4444_def dfb_argb_to_rgb16_def dfb_argb_to_a8_def
    by (intro conjI ext) (simp_all add: argb_row_at row_pixels del: dfb_pixel_from_color.simps dfb_pixel_to_color.simps)
qed

section \<open>Deviations\<close>

text \<open>
  What the comparison shows besides. From BGR555 to RGB16 the low bit of green is not filled; ARGB8565 is read
  in the byte order of a big-endian machine by three of the functions; \<open>b & 0xf0 >> 4\<close> drops the alpha of the second
  pixel; an odd row of UYVY writes one pixel too many, one of YUY2, UYVY or NV16 one too few; and
  red and blue are exchanged where AYUV and YV16 become 24 bit.
\<close>

definition pixel_bytes :: "u8 list \<Rightarrow> source" where
  "pixel_bytes bytes = \<lparr> src_byte = (\<lambda>a. if a < length bytes then bytes ! a else 0), src_pitch = length bytes, src_height = 1 \<rparr>"

lemma bgr555_green_bit:
  "dfb_convert_to_rgb16 DSPF_BGR555 (pixel_bytes [0x00, 0x02]) 2 1 1 (\<lambda>_. 0) 0 = 0x0400"
  "dfb_pixel_from_color DSPF_RGB16 (true_color DSPF_BGR555 (pixel_bytes [0x00, 0x02]) 0 0) = 0x0420"
  by code_simp+

lemma argb8565_byte_order:
  "dfb_convert_to_argb DSPF_ARGB8565 (pixel_bytes [0x00, 0xf8, 0xff]) 4 1 1 (\<lambda>_. 0) 0 = 0x00FFFDFF"
  "dfb_pixel_from_color DSPF_ARGB (true_color DSPF_ARGB8565 (pixel_bytes [0x00, 0xf8, 0xff]) 0 0) = 0xFFFFFFFFFFFF0000"
  by code_simp+

lemma a4_second_alpha:
  "dfb_convert_to_a4 DSPF_ARGB8565 (pixel_bytes [0, 0, 0, 0, 0, 0xf0]) 1 2 1 (\<lambda>_. 0) 0 = 0"
  by code_simp

lemma odd_rows:
  "dfb_convert_to_rgb16 DSPF_UYVY (pixel_bytes [128, 0, 128, 255]) 2 1 1 (\<lambda>_. 0) 1 = 0xFFFF"
  "dfb_convert_to_rgb24 DSPF_YUY2 (pixel_bytes [255, 128, 255, 128]) 3 1 1 dst = dst"
  by code_simp (simp add: dfb_convert_to_rgb24_def run_conversion_def)

lemma ayuv_exchanged:
  "map (dfb_convert_to_rgb24 DSPF_AYUV (pixel_bytes [240, 90, 81, 255]) 3 1 1 (\<lambda>_. 0)) [0, 1, 2] = [0, 0, 255]"
  "map (dfb_convert_to_rgb24 DSPF_AVYU (pixel_bytes [90, 81, 240, 255]) 3 1 1 (\<lambda>_. 0)) [0, 1, 2] = [255, 0, 0]"
  by code_simp+
end
