(* ===== verification/Spec2Isabelle.thy ===== *)
theory Spec2Isabelle
  imports Updates Clip_Blit Direct_Hash Direct_Map Direct_Tree Base64 MD5 Direct_Util Fusion_Vector Fusion_Property_Multi Fusion_Skirmish Fusion_Ref Surface_Displace Window_Repaint Window_Stacking Window_Focus Window_Display Direct_List Fusion_Hash Pixel_Convert_Exact
begin

text \<open>
DirectFB draws, and keeps the resources of several applications in order. Its portable
  core consists of \<^verbatim>\<open>lib/direct\<close> (containers, strings, threads), \<^verbatim>\<open>lib/fusion\<close> (locks,
  reference counters, properties and arrays in memory shared by the applications) and
  \<^verbatim>\<open>src/\<close> (geometry, clipping, update tracking, surfaces), on which the interfaces, the
  window managers and the drivers build. This development models parts of that core
  function by function and proves what their callers rely on. A definition has the name of the
  C function or type it models; suffixes tell variants of a function apart
  (\<open>_local\<close>, \<open>_single\<close> for one application, \<open>_builtin\<close>, \<open>_multi\<close> for several without the kernel
  module).

  Conventions (theory DFB_Prelude). Coordinates and counters are \<^typ>\<open>int\<close> or \<^typ>\<open>nat\<close>; where
  overflow can occur an operation goes through \<^const>\<open>chk\<close> and yields \<^term>\<open>None\<close> for
  undefined behaviour, and unsigned values are words. A loop that may not end and an access
  outside its memory are \<^term>\<open>None\<close> too. Result codes are \<^typ>\<open>DirectResult\<close>. Allocation, the
  scheduler's choices, whether another process lives and \<^verbatim>\<open>errno\<close> are arguments.

  Shared contracts. Dictionary: a keyed container answers any sequence of insertions, removals
  and lookups like a finite map (locales lookup_table, dictionary, overwrite_table). Probing:
  tables with linear probing and removed marks (locale probing), used by the hash table and
  the map. Simulation: calls on a concrete state that answer as steps of a specification
  (locale simulation), used by the vector, the Fusion hash table, both
  skirmishes and the video memory manager.

  Geometry and clipping.
  \<^item> Region: \<^verbatim>\<open>DFBRegion\<close>, \<^verbatim>\<open>DFBRectangle\<close> and their operations (\<^verbatim>\<open>src/misc/util.c\<close>,
    \<^verbatim>\<open>include/directfb_util.h\<close>): intersections agree with each other and with the pixel sets,
    unions are least, rotations are undone by their opposites.
  \<^item> Updates: \<^verbatim>\<open>DFBUpdates\<close>: the damage stays covered by at most the maximal number of regions.
  \<^item> Clip, Clip_Blit: \<^verbatim>\<open>src/gfx/clip.c\<close>: lines (no undefined arithmetic below 2^14), edges,
    outlines and blits, flipped and rotated ones included, show exactly the visible pixels.

  \<^item> Pixel_Format: formats and their codes (\<^verbatim>\<open>include/directfb.h\<close>), packing and unpacking of pixels
    (\<^verbatim>\<open>gfx/convert.h\<close>, \<^verbatim>\<open>convert.c\<close>): colours follow the documented layouts, and what a round trip keeps.
  \<^item> Pixel_Convert, Pixel_Convert_Bytes: the conversions of images and rows in the same files; Pixel_Convert_Exact
    compares them with the conversion of single pixels, and shows where they deviate.

  Containers and strings.
  \<^item> Direct_Hash, Direct_Map, Direct_Tree: \<^verbatim>\<open>lib/direct/hash.c\<close>, \<^verbatim>\<open>map.c\<close>, \<^verbatim>\<open>tree.c\<close> implement
    finite maps; resizing, removed marks, rotations; what goes wrong when memory is short, a
    key is inserted twice, or keys are far apart.
  \<^item> Fusion_Hash: \<^verbatim>\<open>lib/fusion/hash.c\<close> implements a finite map on chains that are rehashed as it grows.
  \<^item> Direct_List: \<^verbatim>\<open>lib/direct/list.h\<close> on a store of links refines sequences; its loops end.
  \<^item> Base64, MD5, Direct_Util: parts of \<^verbatim>\<open>lib/direct/util.c\<close>: encoding and decoding, the digest
    of RFC 1321 (Sine_Table proves its constants from bounds of the sine), trimming and splitting of strings, error numbers.
  \<^item> Fusion_Vector: \<^verbatim>\<open>lib/fusion/vector.c\<close> implements list operations within its memory block.

  Locks and counters.
  \<^item> Fusion_Property, Fusion_Property_Multi: \<^verbatim>\<open>lib/fusion/property.c\<close>. With a mutex and a wait queue:
    exclusion, and every request is answered (a well-founded measure of the answering steps).
    Without the kernel module: an undisturbed call (seven single steps suffice), and a race.
  \<^item> Fusion_Skirmish: \<^verbatim>\<open>lib/fusion/lock.c\<close>: both variants implement a recursive lock; the local one
    only if \<^verbatim>\<open>errno\<close> is not zero when a lock attempt fails.
  \<^item> Fusion_Ref: \<^verbatim>\<open>lib/fusion/ref.c\<close>, one application: exact counting, and who is woken.

  Window management (\<^verbatim>\<open>wm/default/default.c\<close>, \<^verbatim>\<open>src/core/windows.h\<close>). The state of a stack is one record
  \<open>StackData\<close>: windows in a store addressed by pointers, their order, the damage, what has the
  focus and the grabs, and the events posted so far.
  \<^item> Window_Types: records, flags, events. Window_Compose: \<^verbatim>\<open>update_region\<close> is the painter's algorithm.
  \<^item> Window_Damage: \<^verbatim>\<open>update_window\<close>, \<^verbatim>\<open>wind_of_change\<close>: new content is damaged where it shows, through
    scaling, rotation and occlusion. Window_Repaint: \<^verbatim>\<open>process_updates\<close>, \<^verbatim>\<open>repaint_stack\<close>: damage is
    composed again; \<^verbatim>\<open>draw_window\<close>: its blit takes every texel to the place of its pixel.
  \<^item> Window_Stacking: \<^verbatim>\<open>insert_window\<close>, \<^verbatim>\<open>restack_window\<close>: the nearest place the class allows.
  \<^item> Window_Focus: \<^verbatim>\<open>window_at_pointer\<close>, focus, grabs, \<^verbatim>\<open>get_keyboard_window\<close>, \<^verbatim>\<open>withdraw_window\<close>: nothing gone
    is remembered, and a release follows its press.
  \<^item> Window_Manager: moving, resizing, opacity, \<^verbatim>\<open>wm_set_window_config\<close> and the other entry points, each shown to
    damage whatever it changes. Window_Display puts these together: after any sequence of calls
    the display shows the painter's picture of the windows.

  Video memory.
  \<^item> Surface_Manager: \<^verbatim>\<open>systems/fbdev/surfacemanager.c\<close>: chunks tile the heap, free neighbours are
    merged, and room is refused only when no free range is long enough, or after memory for a chunk has been short.
  \<^item> Surface_Displace: the choice of surfaces to throw out frees enough memory.

  Bounds. Vectors: up to 2^30 elements, so that doubling the capacity stays an \<^verbatim>\<open>int\<close>. Locks:
  fewer than 2^31 calls. Hash tables: fewer insertions than the
  largest size in the table of primes allows. Displacement: heap length times number of
  allocations below 2^31, as the code multiplies them. Recursion that stands for a C loop is
  structural or has a measure; no fuel is used but the number of elements of a list.

  Not modelled: float arithmetic (\<^verbatim>\<open>dfb_clip_stretchblit\<close>, matrices), pixel loops
  (\<^verbatim>\<open>src/gfx/generic\<close>), hardware drivers, systems, input, media and image providers, the
  interface classes and their proxies (\<^verbatim>\<open>voodoo\<close>, \<^verbatim>\<open>proxy\<close>), other window managers, sound, and the
  kernel module's side of \<^verbatim>\<open>lib/fusion\<close>: these are mostly I/O, tables of registers, or glue
  over the parts above.

  Plan: UTF-8, colour matching (\<^verbatim>\<open>colorhash.c\<close>,
  \<^verbatim>\<open>palette.c\<close>), triangle clipping, the built-in reference counter, the
  event buffer, then layers and surface pools.
\<close>

end
